(* ===== verification/Prelude.thy ===== *)
theory Prelude
  imports Main "HOL-Library.Signed_Division" "HOL-Library.Multiset" "HOL-Library.Monad_Syntax"
begin

text \<open>
  Shared vocabulary of the development: the 64-bit integers of the backend with the
  four arithmetic flavours the code uses (plain operators, which wrap in the release
  profile because Cargo.toml sets no \<open>overflow-checks\<close>; \<open>checked_*\<close>; \<open>saturating_*\<close>;
  truncating division), tables as lists of rows, and the generic lemmas the component
  theories share.  The collections \<open>i64_arith\<close> and \<open>table_simps\<close> are what the
  component proofs pass to the simplifier.
\<close>

named_theorems i64_arith \<open>exactness and range of the 64-bit operations\<close>
named_theorems table_simps \<open>behaviour of the SQL statements on tables\<close>

section \<open>64-bit integers\<close>

type_synonym i64 = int

definition i64_min :: int where
  "i64_min = - 9223372036854775808"

definition i64_max :: int where
  "i64_max = 9223372036854775807"

definition in_i64 :: "int \<Rightarrow> bool" where
  "in_i64 x \<longleftrightarrow> i64_min \<le> x \<and> x \<le> i64_max"

definition wrap64 :: "int \<Rightarrow> i64" where
  "wrap64 x = (x + 9223372036854775808) mod 18446744073709551616 - 9223372036854775808"

definition i64_add :: "i64 \<Rightarrow> i64 \<Rightarrow> i64" where
  "i64_add a b = wrap64 (a + b)"

definition i64_sub :: "i64 \<Rightarrow> i64 \<Rightarrow> i64" where
  "i64_sub a b = wrap64 (a - b)"

definition i64_mul :: "i64 \<Rightarrow> i64 \<Rightarrow> i64" where
  "i64_mul a b = wrap64 (a * b)"

definition checked_add :: "i64 \<Rightarrow> i64 \<Rightarrow> i64 option" where
  "checked_add a b = (if in_i64 (a + b) then Some (a + b) else None)"

definition checked_mul :: "i64 \<Rightarrow> i64 \<Rightarrow> i64 option" where
  "checked_mul a b = (if in_i64 (a * b) then Some (a * b) else None)"

definition sat64 :: "int \<Rightarrow> i64" where
  "sat64 x = max i64_min (min i64_max x)"

definition saturating_add :: "i64 \<Rightarrow> i64 \<Rightarrow> i64" where
  "saturating_add a b = sat64 (a + b)"

definition saturating_sub :: "i64 \<Rightarrow> i64 \<Rightarrow> i64" where
  "saturating_sub a b = sat64 (a - b)"

lemma in_i64_wrap64: "in_i64 (wrap64 x)"
proof -
  have "0 \<le> (x + 9223372036854775808) mod 18446744073709551616"
    "(x + 9223372036854775808) mod 18446744073709551616 < 18446744073709551616"
    by simp_all
  then show ?thesis
    by (simp add: in_i64_def wrap64_def i64_min_def i64_max_def)
qed

lemma wrap64_exact [i64_arith]: "in_i64 x \<Longrightarrow> wrap64 x = x"
  by (simp add: in_i64_def wrap64_def i64_min_def i64_max_def)

lemma i64_add_exact [i64_arith]: "in_i64 (a + b) \<Longrightarrow> i64_add a b = a + b"
  by (simp add: i64_add_def wrap64_exact)

lemma i64_sub_exact [i64_arith]: "in_i64 (a - b) \<Longrightarrow> i64_sub a b = a - b"
  by (simp add: i64_sub_def wrap64_exact)

lemma i64_mul_exact [i64_arith]: "in_i64 (a * b) \<Longrightarrow> i64_mul a b = a * b"
  by (simp add: i64_mul_def wrap64_exact)

lemma sat64_exact [i64_arith]: "in_i64 x \<Longrightarrow> sat64 x = x"
  by (simp add: sat64_def in_i64_def)

lemma saturating_add_exact [i64_arith]: "in_i64 (a + b) \<Longrightarrow> saturating_add a b = a + b"
  by (simp add: saturating_add_def sat64_exact)

lemma saturating_sub_exact [i64_arith]: "in_i64 (a - b) \<Longrightarrow> saturating_sub a b = a - b"
  by (simp add: saturating_sub_def sat64_exact)

lemma in_i64_sat64: "in_i64 (sat64 x)"
  by (simp add: sat64_def in_i64_def i64_min_def i64_max_def)

lemma in_i64_saturating_add [simp]: "in_i64 (saturating_add a b)"
  by (simp add: saturating_add_def in_i64_sat64)

lemma in_i64_saturating_sub [simp]: "in_i64 (saturating_sub a b)"
  by (simp add: saturating_sub_def in_i64_sat64)

lemma sat64_mono: "x \<le> y \<Longrightarrow> sat64 x \<le> sat64 y"
  by (auto simp: sat64_def)

lemma saturating_add_mono: "a \<le> c \<Longrightarrow> b \<le> d \<Longrightarrow> saturating_add a b \<le> saturating_add c d"
  by (simp add: saturating_add_def sat64_mono)

lemma saturating_add_nonneg [simp]: "0 \<le> a \<Longrightarrow> 0 \<le> b \<Longrightarrow> 0 \<le> saturating_add a b"
  by (simp add: saturating_add_def sat64_def i64_max_def)

lemma saturating_add_0 [simp]:
  "in_i64 a \<Longrightarrow> saturating_add a 0 = a" "in_i64 a \<Longrightarrow> saturating_add 0 a = a"
  by (simp_all add: saturating_add_exact)

lemma checked_mul_eq_Some: "checked_mul a b = Some c \<longleftrightarrow> in_i64 (a * b) \<and> c = a * b"
  by (auto simp: checked_mul_def)

lemma checked_add_eq_Some: "checked_add a b = Some c \<longleftrightarrow> in_i64 (a + b) \<and> c = a + b"
  by (auto simp: checked_add_def)

text \<open>Rust's \<open>/\<close> on signed integers truncates; on a non-negative dividend it is \<open>div\<close>.\<close>

lemma sdiv_nonneg_eq_div: "0 \<le> a \<Longrightarrow> 0 < b \<Longrightarrow> a sdiv b = a div (b::int)"
  by (cases "a = 0") (simp_all add: signed_divide_int_def)

lemma sdiv_nonneg: "0 \<le> a \<Longrightarrow> 0 < b \<Longrightarrow> 0 \<le> a sdiv (b::int)"
  by (simp add: sdiv_nonneg_eq_div pos_imp_zdiv_nonneg_iff)

lemma sdiv_mono: "0 \<le> a \<Longrightarrow> a \<le> c \<Longrightarrow> 0 < b \<Longrightarrow> a sdiv b \<le> c sdiv (b::int)"
  by (simp add: sdiv_nonneg_eq_div zdiv_mono1)

lemma div60_bounds: "0 \<le> a \<Longrightarrow> 0 \<le> a div 60 \<and> a div 60 \<le> (a::int)"
  by presburger

lemma day_div: "86400 * (y div 86400) \<le> y \<and> y < 86400 * (y div 86400) + (86400::int)"
  using pos_mod_bound [of 86400 y] pos_mod_sign [of 86400 y] mult_div_mod_eq [of 86400 y] by linarith

section \<open>Lists\<close>

lemma sorted_map_filter_hd:
  "sorted (map f xs) \<Longrightarrow> x \<in> set xs \<Longrightarrow> f (hd xs) \<le> f x"
  by (cases xs) auto

lemma sorted_map_last:
  "sorted (map f xs) \<Longrightarrow> x \<in> set xs \<Longrightarrow> f x \<le> f (last xs)"
  by (induction xs) (auto split: if_splits)

lemma append_split_order:
  "as @ bs = us @ q # vs \<Longrightarrow> p \<in> set us \<Longrightarrow> p \<in> set as \<or> q \<in> set bs"
  by (auto simp: append_eq_append_conv2)

lemma distinct_map_filter: "distinct (map f xs) \<Longrightarrow> distinct (map f (filter P xs))"
  by (induction xs) auto

section \<open>Tables\<close>

text \<open>
  A SQL table is the list of its rows in rowid order.  \<open>UPDATE .. WHERE\<close> rewrites the
  rows that satisfy the condition in place and reports how many there were.
\<close>

definition update_where :: "('r \<Rightarrow> bool) \<Rightarrow> ('r \<Rightarrow> 'r) \<Rightarrow> 'r list \<Rightarrow> 'r list" where
  "update_where P f t = map (\<lambda>r. if P r then f r else r) t"

definition rows_affected :: "('r \<Rightarrow> bool) \<Rightarrow> 'r list \<Rightarrow> nat" where
  "rows_affected P t = length (filter P t)"

definition delete_where :: "('r \<Rightarrow> bool) \<Rightarrow> 'r list \<Rightarrow> 'r list" where
  "delete_where P t = filter (\<lambda>r. \<not> P r) t"

lemma update_where_Nil [table_simps]: "update_where P f [] = []"
  by (simp add: update_where_def)

lemma update_where_Cons [table_simps]:
  "update_where P f (r # t) = (if P r then f r else r) # update_where P f t"
  by (simp add: update_where_def)

lemma length_update_where [simp]: "length (update_where P f t) = length t"
  by (simp add: update_where_def)

lemma update_where_none: "\<forall>r \<in> set t. \<not> P r \<Longrightarrow> update_where P f t = t"
  by (induction t) (auto simp: table_simps)

lemma rows_affected_0 [table_simps]: "rows_affected P t = 0 \<longleftrightarrow> (\<forall>r \<in> set t. \<not> P r)"
  by (simp add: rows_affected_def filter_empty_conv)

lemma set_delete_where [table_simps]: "set (delete_where P t) = {r \<in> set t. \<not> P r}"
  by (auto simp: delete_where_def)

lemma map_update_where:
  "(\<And>r. P r \<Longrightarrow> k (f r) = k r) \<Longrightarrow> map k (update_where P f t) = map k t"
  by (induction t) (auto simp: table_simps)

lemma in_set_update_where:
  "r \<in> set (update_where P f t) \<longleftrightarrow> (\<exists>q \<in> set t. r = (if P q then f q else q))"
  by (auto simp: update_where_def)

end
