(* ===== verification/App_Error.thy ===== *)
theory App_Error
  imports Prelude
begin

text \<open>
  The error values of the backend (errors.rs, db/write\_queue.rs): \<open>AppError\<close>,
  \<open>DbWriteError\<close>, and the \<open>anyhow::Error\<close> both can carry, which either wraps an
  \<open>AppError\<close> (so that it can be downcast) or is opaque.  Every fallible operation of
  the model returns \<open>app_error + 'a\<close>.
\<close>

datatype app_error =
    NotFound string string
  | Unauthorized
  | Forbidden
  | Unlicensed
  | Conflict string string
  | Validation string string
  | Timeout string string
  | BadGateway string string
  | CalcError string string
  | LeaveConflict string string
  | DbWrite db_write_error
  | Internal any_error
and db_write_error = Busy | Closed | WorkerStopped | JobFailed any_error
and any_error = DomainError app_error | OtherError string

type_synonym 'a result = "app_error + 'a"

text \<open>HTTP status, error code and message of the response body.\<close>

fun into_response :: "app_error \<Rightarrow> nat \<times> string \<times> string" where
  "into_response (NotFound code message) = (404, code, message)"
| "into_response Unauthorized = (401, ''UNAUTHORIZED'', ''Authentication required'')"
| "into_response Forbidden = (403, ''FORBIDDEN'', ''Insufficient permissions'')"
| "into_response Unlicensed = (403, ''UNLICENSED'', ''License required'')"
| "into_response (Conflict code message) = (409, code, message)"
| "into_response (Validation code message) = (422, code, message)"
| "into_response (Timeout code message) = (504, code, message)"
| "into_response (BadGateway code message) = (502, code, message)"
| "into_response (CalcError code message) = (500, code, message)"
| "into_response (LeaveConflict code message) = (409, code, message)"
| "into_response (DbWrite Busy) =
     (503, ''DB_WRITE_QUEUE_BUSY'', ''Database write queue is busy'')"
| "into_response (DbWrite Closed) =
     (503, ''DB_WRITE_QUEUE_UNAVAILABLE'', ''Database write queue is unavailable'')"
| "into_response (DbWrite WorkerStopped) =
     (503, ''DB_WRITE_QUEUE_UNAVAILABLE'', ''Database write queue is unavailable'')"
| "into_response (DbWrite (JobFailed e)) =
     (500, ''INTERNAL_ERROR'', ''An unexpected error occurred'')"
| "into_response (Internal e) = (500, ''INTERNAL_ERROR'', ''An unexpected error occurred'')"

text \<open>\<open>impl From<DbWriteError> for AppError\<close>: a domain error raised inside a queued job is
  restored; anything else stays a write error.\<close>

fun from_db_write :: "db_write_error \<Rightarrow> app_error" where
  "from_db_write (JobFailed (DomainError e)) = e"
| "from_db_write (JobFailed (OtherError m)) = DbWrite (JobFailed (OtherError m))"
| "from_db_write e = DbWrite e"

text \<open>The \<open>?\<close> operator and \<open>map_err\<close>.\<close>

fun bind_result :: "'e + 'a \<Rightarrow> ('a \<Rightarrow> 'e + 'b) \<Rightarrow> 'e + 'b" where
  "bind_result (Inl e) f = Inl e"
| "bind_result (Inr x) f = f x"

fun map_err :: "('e \<Rightarrow> 'f) \<Rightarrow> 'e + 'a \<Rightarrow> 'f + 'a" where
  "map_err h (Inl e) = Inl (h e)"
| "map_err h (Inr x) = Inr x"

lemma bind_result_eq_Inr:
  "bind_result r f = Inr y \<longleftrightarrow> (\<exists>x. r = Inr x \<and> f x = Inr y)"
  by (cases r) auto

lemma map_err_eq_Inr [simp]: "map_err h r = Inr y \<longleftrightarrow> r = Inr y"
  by (cases r) auto

text \<open>Internal failures never reach the client with their own code or message.\<close>

lemma internal_errors_are_masked:
  "e = Internal x \<or> e = DbWrite (JobFailed x) \<Longrightarrow>
    into_response e = (500, ''INTERNAL_ERROR'', ''An unexpected error occurred'')"
  by auto

lemma into_response_is_error: "400 \<le> fst (into_response e) \<and> fst (into_response e) < 600"
  by (cases e rule: into_response.cases) auto

end
