(* ===== verification/Db.thy ===== *)
theory Db
  imports App_Error
begin

text \<open>
  The statements the services send through the write queue (db/write\_queue.rs,
  \<open>statement\<close>): an \<open>UPDATE .. WHERE\<close> or an \<open>INSERT\<close> on a table, as seen by the caller.
  What the queue does with the command is a parameter of each call, the
  \<open>write_outcome\<close>: it ran, or the caller gets one of the queue's errors and nothing ran
  (Write\_Queue models the queue itself).  Failures of the reads (a connection that
  cannot be opened) are not modelled.
\<close>

datatype write_outcome = Ran | NotRun db_write_error

fun run_update ::
  "write_outcome \<Rightarrow> ('r \<Rightarrow> bool) \<Rightarrow> ('r \<Rightarrow> 'r) \<Rightarrow> 'r list \<Rightarrow> 'r list \<times> (db_write_error + nat)" where
  "run_update Ran P f t = (update_where P f t, Inr (rows_affected P t))"
| "run_update (NotRun e) P f t = (t, Inl e)"

text \<open>An insert violates at most one constraint the services look at; the message is SQLite's.\<close>

fun run_insert ::
  "write_outcome \<Rightarrow> ('r list \<Rightarrow> string option) \<Rightarrow> 'r \<Rightarrow> 'r list \<Rightarrow> 'r list \<times> (db_write_error + nat)" where
  "run_insert Ran violated r t =
     (case violated t of
        None \<Rightarrow> (t @ [r], Inr 1)
      | Some m \<Rightarrow> (t, Inl (JobFailed (OtherError m))))"
| "run_insert (NotRun e) violated r t = (t, Inl e)"

text \<open>\<open>Display\<close> of the errors (the \<open>#[error(..)]\<close> texts).\<close>

fun app_error_text :: "app_error \<Rightarrow> string"
  and db_write_text :: "db_write_error \<Rightarrow> string"
  and any_error_text :: "any_error \<Rightarrow> string" where
  "app_error_text (NotFound _ _) = ''not found''"
| "app_error_text Unauthorized = ''unauthorized''"
| "app_error_text Forbidden = ''forbidden''"
| "app_error_text Unlicensed = ''system not licensed''"
| "app_error_text (Conflict _ _) = ''conflict''"
| "app_error_text (Validation _ _) = ''validation failed''"
| "app_error_text (Timeout _ _) = ''gateway timeout''"
| "app_error_text (BadGateway _ _) = ''bad gateway''"
| "app_error_text (CalcError _ _) = ''calculation failed''"
| "app_error_text (LeaveConflict _ _) = ''leave conflict''"
| "app_error_text (DbWrite e) = db_write_text e"
| "app_error_text (Internal e) = ''internal error: '' @ any_error_text e"
| "db_write_text Busy = ''database write queue is busy''"
| "db_write_text Closed = ''database write queue is closed''"
| "db_write_text WorkerStopped = ''database write worker stopped''"
| "db_write_text (JobFailed e) = ''database write job failed: '' @ any_error_text e"
| "any_error_text (DomainError e) = app_error_text e"
| "any_error_text (OtherError m) = m"

fun prefix_of :: "string \<Rightarrow> string \<Rightarrow> bool" where
  "prefix_of [] ys = True"
| "prefix_of (x # xs) [] = False"
| "prefix_of (x # xs) (y # ys) \<longleftrightarrow> x = y \<and> prefix_of xs ys"

text \<open>\<open>str::contains\<close>.\<close>

fun str_contains :: "string \<Rightarrow> string \<Rightarrow> bool" where
  "str_contains [] pat \<longleftrightarrow> pat = []"
| "str_contains (c # s) pat \<longleftrightarrow> prefix_of pat (c # s) \<or> str_contains s pat"

text \<open>\<open>str::strip_prefix\<close>.\<close>

definition strip_prefix :: "string \<Rightarrow> string \<Rightarrow> string option" where
  "strip_prefix pat s = (if prefix_of pat s then Some (drop (length pat) s) else None)"

text \<open>Quotation marks inside the messages.\<close>

definition quoted :: "string \<Rightarrow> string" where
  "quoted s = CHR 0x27 # s @ [CHR 0x27]"

definition double_quoted :: "string \<Rightarrow> string" where
  "double_quoted s = CHR 0x22 # s @ [CHR 0x22]"

text \<open>The \<open>Debug\<close> format of a slice of strings.\<close>

fun debug_list :: "string list \<Rightarrow> string" where
  "debug_list [] = ''[]''"
| "debug_list (x # xs) = ''['' @ double_quoted x @ concat (map (\<lambda>y. '', '' @ double_quoted y) xs) @ '']''"

text \<open>The last step of the services' writes: \<open>unique_violation\<close> is their message test.\<close>

definition unique_violation :: "string \<Rightarrow> db_write_error \<Rightarrow> bool" where
  "unique_violation column e \<longleftrightarrow>
     str_contains (db_write_text e) ''UNIQUE constraint failed'' \<and> str_contains (db_write_text e) column"

text \<open>A page of a list endpoint (common.rs): \<open>limit.unwrap_or(20).clamp(1, 100)\<close> and
  \<open>offset.unwrap_or(0).max(0)\<close>.\<close>

definition page_limit :: "i64 option \<Rightarrow> i64" where
  "page_limit l = max 1 (min 100 (case l of None \<Rightarrow> 20 | Some n \<Rightarrow> n))"

definition page_offset :: "i64 option \<Rightarrow> i64" where
  "page_offset off = max 0 (case off of None \<Rightarrow> 0 | Some n \<Rightarrow> n)"

definition sql_page :: "i64 \<Rightarrow> i64 \<Rightarrow> 'r list \<Rightarrow> 'r list" where
  "sql_page limit offset rows = take (nat limit) (drop (nat offset) rows)"

record 'r paginated_response =
  pr_data :: "'r list"
  pr_total :: i64
  pr_limit :: i64
  pr_offset :: i64

section \<open>Facts\<close>

lemma run_update_cases:
  obtains "run_update w P f t = (update_where P f t, Inr (rows_affected P t))"
  | e where "run_update w P f t = (t, Inl e)"
  by (cases w) auto

lemma run_update_rows:
  "run_update w P f t = (t', r) \<Longrightarrow> q \<in> set t' \<Longrightarrow> \<exists>p \<in> set t. q = p \<or> P p \<and> q = f p"
  by (cases w) (auto simp: in_set_update_where split: if_splits)

lemma run_update_ok:
  "run_update w P f t = (t', Inr n) \<Longrightarrow> t' = update_where P f t \<and> n = rows_affected P t"
  by (cases w) auto

lemma run_update_err: "run_update w P f t = (t', Inl e) \<Longrightarrow> t' = t"
  by (cases w) auto

lemma run_insert_rows:
  "run_insert w v r t = (t', x) \<Longrightarrow> q \<in> set t' \<Longrightarrow> q \<in> set t \<or> q = r"
  by (cases w) (auto split: option.splits)

lemma page_limit_bounds: "1 \<le> page_limit l \<and> page_limit l \<le> 100"
  by (simp add: page_limit_def)

lemma sql_page_length: "0 \<le> limit \<Longrightarrow> int (length (sql_page limit offset rows)) \<le> limit"
  by (simp add: sql_page_def)

lemma sql_page_whole: "sql_page limit 0 rows = rows \<longleftrightarrow> length rows \<le> nat limit"
  by (simp add: sql_page_def)

lemma prefix_of_append [simp]: "prefix_of xs (xs @ ys)"
  by (induction xs) auto

lemma strip_prefix_append [simp]: "strip_prefix p (p @ s) = Some s"
  by (simp add: strip_prefix_def)

text \<open>Updates on a primary key touch one row at most.\<close>

lemma rows_affected_distinct:
  assumes "distinct (map k t)" "\<And>r. P r \<Longrightarrow> k r = x"
  shows "rows_affected P t \<le> 1"
  using assms
proof (induction t)
  case Nil
  then show ?case by (simp add: rows_affected_def)
next
  case (Cons a t)
  show ?case
  proof (cases "P a")
    case True
    then have "\<forall>r \<in> set t. \<not> P r" using Cons.prems by (force simp: image_iff)
    then have "rows_affected P t = 0" by (simp add: rows_affected_0)
    with True show ?thesis by (simp add: rows_affected_def)
  next
    case False
    with Cons show ?thesis by (simp add: rows_affected_def)
  qed
qed

lemma rows_affected_pos: "0 < rows_affected P t \<longleftrightarrow> (\<exists>r \<in> set t. P r)"
  using rows_affected_0 [of P t] by auto

lemma find_Some_in: "find P xs = Some x \<Longrightarrow> x \<in> set xs \<and> P x"
  by (auto simp: find_Some_iff)

lemma find_distinct:
  assumes "distinct (map k t)" "r \<in> set t"
  shows "find (\<lambda>q. k q = k r) t = Some r"
  using assms by (induction t) (auto simp: image_iff)

end
