(* ===== verification/Auth.thy ===== *)
theory Auth
  imports Db
begin

text \<open>
  Authentication and authorization (auth/): roles, claims, the access scope, the token
  functions, the three middlewares, and the login, refresh and logout handlers over the
  users table.  JWT, Argon2, SHA-256, RFC 3339 formatting and the text of the validator
  crate are third-party: they are the fields of the record \<open>auth_libs\<close>.  The clock
  (\<open>now\<close>) and the fresh token ids are arguments.
\<close>

datatype role = Admin | Supervisor | Viewer

fun role_display :: "role \<Rightarrow> string" where
  "role_display Admin = ''admin''"
| "role_display Supervisor = ''supervisor''"
| "role_display Viewer = ''viewer''"

definition role_from_str :: "string \<Rightarrow> string + role" where
  "role_from_str s =
     (if s = ''admin'' then Inr Admin
      else if s = ''supervisor'' then Inr Supervisor
      else if s = ''viewer'' then Inr Viewer
      else Inl (''Unknown role: '' @ s))"

record claims =
  cl_sub :: string
  cl_role :: role
  cl_department_id :: "string option"
  cl_exp :: i64
  cl_iat :: i64
  cl_jti :: string
  cl_token_type :: string

record auth_libs =
  jwt_encode :: "claims \<Rightarrow> string \<Rightarrow> string + string"
  jwt_decode :: "string \<Rightarrow> string \<Rightarrow> i64 \<Rightarrow> claims option"
  generate_hash :: "string \<Rightarrow> string \<Rightarrow> string"
  password_matches :: "string \<Rightarrow> string \<Rightarrow> bool"
  sha256_hex :: "string \<Rightarrow> string"
  rfc3339 :: "i64 \<Rightarrow> string option"
  validator_text :: "string list \<Rightarrow> string"

text \<open>\<open>epoch_to_iso\<close> (common.rs): the empty string when the epoch is out of range.\<close>

definition epoch_to_iso :: "auth_libs \<Rightarrow> i64 \<Rightarrow> string" where
  "epoch_to_iso L epoch = (case rfc3339 L epoch of None \<Rightarrow> '''' | Some s \<Rightarrow> s)"

section \<open>Access scope\<close>

datatype actor_scope = Unscoped | Department string

definition scope_from_claims :: "claims \<Rightarrow> actor_scope" where
  "scope_from_claims claims =
     (if cl_role claims = Admin then Unscoped
      else case cl_department_id claims of
             Some dept \<Rightarrow> Department dept
           | None \<Rightarrow> Unscoped)"

fun scope_department_id :: "actor_scope \<Rightarrow> string option" where
  "scope_department_id Unscoped = None"
| "scope_department_id (Department dept) = Some dept"

fun is_unscoped :: "actor_scope \<Rightarrow> bool" where
  "is_unscoped Unscoped = True"
| "is_unscoped (Department dept) = False"

fun permits :: "actor_scope \<Rightarrow> string option \<Rightarrow> bool" where
  "permits Unscoped resource_department = True"
| "permits (Department dept) resource_department \<longleftrightarrow> resource_department = Some dept"

section \<open>Tokens\<close>

definition issue_token ::
  "auth_libs \<Rightarrow> string \<Rightarrow> i64 \<Rightarrow> string \<Rightarrow> i64 \<Rightarrow> string \<Rightarrow> string \<Rightarrow> role \<Rightarrow> string option \<Rightarrow> string \<Rightarrow> string result" where
  "issue_token L what ttl token_type now jti user_id role department_id secret =
     map_err (\<lambda>e. Internal (OtherError (''Failed to issue '' @ what @ '' token: '' @ e)))
       (jwt_encode L \<lparr>cl_sub = user_id, cl_role = role, cl_department_id = department_id,
          cl_exp = i64_add now ttl, cl_iat = now, cl_jti = jti, cl_token_type = token_type\<rparr> secret)"

definition issue_access_token ::
  "auth_libs \<Rightarrow> i64 \<Rightarrow> string \<Rightarrow> string \<Rightarrow> role \<Rightarrow> string option \<Rightarrow> string \<Rightarrow> string result" where
  "issue_access_token L = issue_token L ''access'' (20 * 60) ''access''"

definition issue_refresh_token ::
  "auth_libs \<Rightarrow> i64 \<Rightarrow> string \<Rightarrow> string \<Rightarrow> role \<Rightarrow> string option \<Rightarrow> string \<Rightarrow> string result" where
  "issue_refresh_token L = issue_token L ''refresh'' (7 * 24 * 60 * 60) ''refresh''"

definition verify_token :: "auth_libs \<Rightarrow> string \<Rightarrow> i64 \<Rightarrow> string \<Rightarrow> string \<Rightarrow> claims result" where
  "verify_token L token_type now token secret =
     (case jwt_decode L token secret now of
        None \<Rightarrow> Inl Unauthorized
      | Some claims \<Rightarrow> if cl_token_type claims \<noteq> token_type then Inl Unauthorized else Inr claims)"

definition verify_access_token :: "auth_libs \<Rightarrow> i64 \<Rightarrow> string \<Rightarrow> string \<Rightarrow> claims result" where
  "verify_access_token L = verify_token L ''access''"

definition verify_refresh_token :: "auth_libs \<Rightarrow> i64 \<Rightarrow> string \<Rightarrow> string \<Rightarrow> claims result" where
  "verify_refresh_token L = verify_token L ''refresh''"

definition verify_password :: "auth_libs \<Rightarrow> string \<Rightarrow> string \<Rightarrow> unit result" where
  "verify_password L password hash = (if password_matches L password hash then Inr () else Inl Unauthorized)"

section \<open>Middlewares\<close>

text \<open>The claims a middleware puts into the request, or the error it answers with.  The
  argument is the Authorization header, when there is one and it is valid text.\<close>

definition require_auth :: "auth_libs \<Rightarrow> i64 \<Rightarrow> string \<Rightarrow> string option \<Rightarrow> claims result" where
  "require_auth L now secret header =
     (case Option.bind header (strip_prefix ''Bearer '') of
        None \<Rightarrow> Inl Unauthorized
      | Some token \<Rightarrow> verify_access_token L now token secret)"

definition require_admin :: "auth_libs \<Rightarrow> i64 \<Rightarrow> string \<Rightarrow> string option \<Rightarrow> claims result" where
  "require_admin L now secret header =
     (case Option.bind header (strip_prefix ''Bearer '') of
        None \<Rightarrow> Inl Unauthorized
      | Some token \<Rightarrow> bind_result (verify_access_token L now token secret) (\<lambda>claims.
          if cl_role claims \<noteq> Admin then Inl Forbidden else Inr claims))"

definition require_supervisor_or_above :: "auth_libs \<Rightarrow> i64 \<Rightarrow> string \<Rightarrow> string option \<Rightarrow> claims result" where
  "require_supervisor_or_above L now secret header =
     (case Option.bind header (strip_prefix ''Bearer '') of
        None \<Rightarrow> Inl Unauthorized
      | Some token \<Rightarrow> bind_result (verify_access_token L now token secret) (\<lambda>claims.
          case cl_role claims of
            Admin \<Rightarrow> Inr claims
          | Supervisor \<Rightarrow> Inr claims
          | Viewer \<Rightarrow> Inl Forbidden))"

section \<open>Sessions\<close>

record user_row =
  us_id :: string
  us_username :: string
  us_full_name :: string
  us_password_hash :: string
  us_role :: string
  us_department_id :: "string option"
  us_refresh_token_hash :: "string option"
  us_status :: string
  us_deleted_at :: "i64 option"
  us_version :: i64
  us_created_at :: i64
  us_updated_at :: i64

record session =
  se_access_token :: string
  se_refresh_token :: string
  se_id :: string
  se_username :: string
  se_full_name :: string
  se_role :: role

text \<open>\<open>login\<close>: \<open>wo\<close> is what the write queue does with the UPDATE.\<close>

definition login ::
  "auth_libs \<Rightarrow> write_outcome \<Rightarrow> i64 \<Rightarrow> string \<Rightarrow> string \<Rightarrow> string \<Rightarrow> user_row list \<Rightarrow> string \<Rightarrow> string
    \<Rightarrow> user_row list \<times> session result" where
  "login L wo now jti1 jti2 secret users username password =
     (let invalid = (if username = '''' then [''Username is required''] else []) @
            (if password = '''' then [''Password is required''] else []) in
      if invalid \<noteq> [] then (users, Inl (Validation ''VALIDATION_ERROR'' (validator_text L invalid)))
      else case find (\<lambda>u. us_username u = username \<and> us_status u = ''active'') users of
        None \<Rightarrow> (users, Inl Unauthorized)
      | Some u \<Rightarrow>
        (case verify_password L password (us_password_hash u) of
           Inl e \<Rightarrow> (users, Inl e)
         | Inr _ \<Rightarrow>
           (case role_from_str (us_role u) of
              Inl _ \<Rightarrow> (users, Inl (Internal (OtherError ''Invalid role in database'')))
            | Inr role \<Rightarrow>
              (case issue_access_token L now jti1 (us_id u) role (us_department_id u) secret of
                 Inl e \<Rightarrow> (users, Inl e)
               | Inr access_token \<Rightarrow>
                 (case issue_refresh_token L now jti2 (us_id u) role (us_department_id u) secret of
                    Inl e \<Rightarrow> (users, Inl e)
                  | Inr refresh_token \<Rightarrow>
                    (case run_update wo (\<lambda>r. us_id r = us_id u)
                        (\<lambda>r. r\<lparr>us_refresh_token_hash := Some (sha256_hex L refresh_token), us_updated_at := now\<rparr>)
                        users of
                       (users', Inl e) \<Rightarrow> (users', Inl (from_db_write e))
                     | (users', Inr _) \<Rightarrow> (users', Inr
                         \<lparr>se_access_token = access_token, se_refresh_token = refresh_token, se_id = us_id u,
                          se_username = us_username u, se_full_name = us_full_name u, se_role = role\<rparr>)))))))"

text \<open>\<open>refresh\<close> reads the user and issues the tokens first, and rotates the stored hash in a
  second, conditional step; other requests may run in between, so the two steps are separate.\<close>

record pending_refresh =
  pe_old_hash :: string
  pe_session :: session

definition refresh_load ::
  "auth_libs \<Rightarrow> i64 \<Rightarrow> string \<Rightarrow> string \<Rightarrow> string \<Rightarrow> user_row list \<Rightarrow> string option \<Rightarrow> pending_refresh result" where
  "refresh_load L now jti1 jti2 secret users cookie =
     (case cookie of
        None \<Rightarrow> Inl Unauthorized
      | Some refresh_token \<Rightarrow> bind_result (verify_refresh_token L now refresh_token secret) (\<lambda>claims.
          case find (\<lambda>u. us_id u = cl_sub claims \<and> us_status u = ''active'') users of
            None \<Rightarrow> Inl Unauthorized
          | Some u \<Rightarrow>
            (case role_from_str (us_role u) of
               Inl _ \<Rightarrow> Inl (Internal (OtherError ''Invalid role in database''))
             | Inr role \<Rightarrow>
               bind_result (issue_access_token L now jti1 (us_id u) role (us_department_id u) secret) (\<lambda>acc.
               bind_result (issue_refresh_token L now jti2 (us_id u) role (us_department_id u) secret) (\<lambda>ref.
                 Inr \<lparr>pe_old_hash = sha256_hex L refresh_token,
                      pe_session = \<lparr>se_access_token = acc, se_refresh_token = ref, se_id = us_id u,
                        se_username = us_username u, se_full_name = us_full_name u, se_role = role\<rparr>\<rparr>)))))"

definition refresh_commit ::
  "auth_libs \<Rightarrow> write_outcome \<Rightarrow> i64 \<Rightarrow> user_row list \<Rightarrow> pending_refresh \<Rightarrow> user_row list \<times> session result" where
  "refresh_commit L wo now users p =
     (case run_update wo
         (\<lambda>r. us_id r = se_id (pe_session p) \<and> us_refresh_token_hash r = Some (pe_old_hash p)
            \<and> us_status r = ''active'')
         (\<lambda>r. r\<lparr>us_refresh_token_hash := Some (sha256_hex L (se_refresh_token (pe_session p))),
                us_updated_at := now\<rparr>) users of
        (users', Inl e) \<Rightarrow> (users', Inl (from_db_write e))
      | (users', Inr n) \<Rightarrow> if n \<noteq> 1 then (users', Inl Unauthorized) else (users', Inr (pe_session p)))"

definition refresh ::
  "auth_libs \<Rightarrow> write_outcome \<Rightarrow> i64 \<Rightarrow> string \<Rightarrow> string \<Rightarrow> string \<Rightarrow> user_row list \<Rightarrow> string option
    \<Rightarrow> user_row list \<times> session result" where
  "refresh L wo now jti1 jti2 secret users cookie =
     (case refresh_load L now jti1 jti2 secret users cookie of
        Inl e \<Rightarrow> (users, Inl e)
      | Inr p \<Rightarrow> refresh_commit L wo now users p)"

definition logout ::
  "auth_libs \<Rightarrow> write_outcome \<Rightarrow> i64 \<Rightarrow> string \<Rightarrow> user_row list \<Rightarrow> string option
    \<Rightarrow> user_row list \<times> unit result" where
  "logout L wo now secret users cookie =
     (case cookie of
        None \<Rightarrow> (users, Inl Unauthorized)
      | Some refresh_token \<Rightarrow>
        (case verify_refresh_token L now refresh_token secret of
           Inl e \<Rightarrow> (users, Inl e)
         | Inr claims \<Rightarrow>
           (case run_update wo
               (\<lambda>r. us_id r = cl_sub claims \<and> us_refresh_token_hash r = Some (sha256_hex L refresh_token))
               (\<lambda>r. r\<lparr>us_refresh_token_hash := None, us_updated_at := now\<rparr>) users of
              (users', Inl e) \<Rightarrow> (users', Inl (from_db_write e))
            | (users', Inr _) \<Rightarrow> (users', Inr ()))))"


section \<open>Authorization\<close>

lemma bearer_verified:
  "require_auth L now secret (Some (''Bearer '' @ token)) = verify_access_token L now token secret"
  using strip_prefix_append [of "''Bearer ''" token] by (simp add: require_auth_def)

text \<open>The middlewares form a ladder: admin routes admit exactly the authenticated requests with
  the admin role, supervisor routes exactly those whose role is not viewer, every request
  admitted anywhere carries a token the JWT library accepts whose type is access (a refresh
  token opens nothing), and every other request is answered 401 or 403.\<close>

theorem middleware_ladder:
  "(require_admin L now secret h = Inr cl \<longleftrightarrow> require_auth L now secret h = Inr cl \<and> cl_role cl = Admin) \<and>
   (require_supervisor_or_above L now secret h = Inr cl \<longleftrightarrow>
      require_auth L now secret h = Inr cl \<and> cl_role cl \<noteq> Viewer) \<and>
   (require_auth L now secret h = Inr cl \<longleftrightarrow>
      (\<exists>hd token. h = Some hd \<and> strip_prefix ''Bearer '' hd = Some token \<and>
        jwt_decode L token secret now = Some cl \<and> cl_token_type cl = ''access'')) \<and>
   (case require_auth L now secret h of Inl e \<Rightarrow> fst (into_response e) = 401 | Inr _ \<Rightarrow> True) \<and>
   (case require_admin L now secret h of Inl e \<Rightarrow> fst (into_response e) \<in> {401, 403} | Inr _ \<Rightarrow> True) \<and>
   (case require_supervisor_or_above L now secret h of
      Inl e \<Rightarrow> fst (into_response e) \<in> {401, 403} | Inr _ \<Rightarrow> True)"
  by (auto simp: require_auth_def require_admin_def require_supervisor_or_above_def verify_access_token_def
      verify_token_def bind_result_eq_Inr split: option.splits if_splits role.splits Option.bind_splits)

text \<open>Access scope is deny by default (H-11): a non-admin with a department is permitted exactly
  the resources of that department, never a resource without one; only an admin or a user
  without a department is unscoped; and the predicate list queries add (the department id
  when there is one) agrees with the check on single resources.\<close>

theorem scope_confines:
  "(permits (scope_from_claims cl) res \<longleftrightarrow>
     cl_role cl = Admin \<or> cl_department_id cl = None \<or> (res \<noteq> None \<and> res = cl_department_id cl)) \<and>
   (is_unscoped (scope_from_claims cl) \<longleftrightarrow> cl_role cl = Admin \<or> cl_department_id cl = None) \<and>
   (permits s res \<longleftrightarrow> (case scope_department_id s of None \<Rightarrow> True | Some d \<Rightarrow> res = Some d)) \<and>
   (is_unscoped s \<longleftrightarrow> scope_department_id s = None)"
  by (cases s; cases "cl_department_id cl") (auto simp: scope_from_claims_def)

text \<open>A small instance of the libraries: a token is \<open>type.sub.jti\<close>, a hash is the text itself.\<close>

definition toy_decode :: "string \<Rightarrow> string \<Rightarrow> i64 \<Rightarrow> claims option" where
  "toy_decode t secret now =
     (let ty = takeWhile (\<lambda>x. x \<noteq> CHR ''.'') t; rest = drop (length ty + 1) t;
          sub = takeWhile (\<lambda>x. x \<noteq> CHR ''.'') rest; jti = drop (length sub + 1) rest
      in Some \<lparr>cl_sub = sub, cl_role = Viewer, cl_department_id = None, cl_exp = 0, cl_iat = 0,
           cl_jti = jti, cl_token_type = ty\<rparr>)"

definition toy_libs :: auth_libs where
  "toy_libs = \<lparr>jwt_encode = (\<lambda>cl secret. Inr (cl_token_type cl @ ''.'' @ cl_sub cl @ ''.'' @ cl_jti cl)),
     jwt_decode = toy_decode, generate_hash = (\<lambda>salt p. p), password_matches = (\<lambda>p h. p = h),
     sha256_hex = (\<lambda>t. t), rfc3339 = (\<lambda>t. None), validator_text = concat\<rparr>"

end
