(* ===== verification/Users.thy ===== *)
theory Users
  imports Auth "HOL-Library.List_Lexorder" "HOL-Library.Char_ord"
begin

text \<open>
  The users service and its handlers (users/service.rs, users/handlers.rs): create,
  list, get, update with optimistic locking and the self-protection rules, and
  deactivate.  The departments table enters as the list of its ids.  The second half
  puts these operations and the session handlers of Auth together as the steps of one
  system over the users table and proves what no interleaving of them can break.
\<close>

record user_dto =
  ud_id :: string
  ud_username :: string
  ud_full_name :: string
  ud_role :: string
  ud_status :: string
  ud_deleted_at :: "string option"
  ud_version :: i64
  ud_created_at :: string
  ud_updated_at :: string

record create_user_request =
  cu_username :: string
  cu_full_name :: string
  cu_role :: string
  cu_password :: string
  cu_department_id :: "string option"

record update_user_request =
  uu_full_name :: "string option"
  uu_role :: "string option"
  uu_password :: "string option"
  uu_status :: "string option"
  uu_department_id :: "string option option"
  uu_version :: i64

definition row_to_user :: "auth_libs \<Rightarrow> user_row \<Rightarrow> user_dto" where
  "row_to_user L r = \<lparr>ud_id = us_id r, ud_username = us_username r, ud_full_name = us_full_name r,
     ud_role = us_role r, ud_status = us_status r, ud_deleted_at = map_option (epoch_to_iso L) (us_deleted_at r),
     ud_version = us_version r, ud_created_at = epoch_to_iso L (us_created_at r),
     ud_updated_at = epoch_to_iso L (us_updated_at r)\<rparr>"

definition validate_role :: "string \<Rightarrow> unit result" where
  "validate_role role =
     (let valid_roles = [''admin'', ''supervisor'', ''viewer''] in
      if role \<in> set valid_roles then Inr ()
      else Inl (Validation ''INVALID_ROLE''
        (''role must be one of '' @ debug_list valid_roles @ '', got '' @ quoted role)))"

definition validate_status :: "string \<Rightarrow> unit result" where
  "validate_status status =
     (let valid_statuses = [''active'', ''inactive''] in
      if status \<in> set valid_statuses then Inr ()
      else Inl (Validation ''INVALID_STATUS''
        (''status must be one of '' @ debug_list valid_statuses @ '', got '' @ quoted status)))"

definition ensure_department_exists :: "string list \<Rightarrow> string \<Rightarrow> unit result" where
  "ensure_department_exists departments dept_id =
     (if dept_id \<in> set departments then Inr ()
      else Inl (Validation ''DEPARTMENT_NOT_FOUND'' (''Department '' @ quoted dept_id @ '' not found'')))"

definition user_not_found :: "string \<Rightarrow> app_error" where
  "user_not_found i = NotFound ''USER_NOT_FOUND'' (''User '' @ quoted i @ '' not found'')"

definition get_user_by_id :: "auth_libs \<Rightarrow> user_row list \<Rightarrow> string \<Rightarrow> user_dto result" where
  "get_user_by_id L users i =
     (case find (\<lambda>u. us_id u = i) users of
        None \<Rightarrow> Inl (user_not_found i)
      | Some u \<Rightarrow> Inr (row_to_user L u))"

text \<open>\<open>create\<close>: the id and the salt are fresh values; SQLite enforces the unique columns.\<close>

definition user_unique :: "user_row \<Rightarrow> user_row list \<Rightarrow> string option" where
  "user_unique r users =
     (if \<exists>u \<in> set users. us_id u = us_id r then Some ''UNIQUE constraint failed: users.id''
      else if \<exists>u \<in> set users. us_username u = us_username r
      then Some ''UNIQUE constraint failed: users.username'' else None)"

definition create_user ::
  "auth_libs \<Rightarrow> write_outcome \<Rightarrow> i64 \<Rightarrow> string \<Rightarrow> string \<Rightarrow> string list \<Rightarrow> user_row list \<Rightarrow> create_user_request
    \<Rightarrow> user_row list \<times> user_dto result" where
  "create_user L wo now salt new_id departments users req =
     (case bind_result (validate_role (cu_role req)) (\<lambda>_.
        case cu_department_id req of
          None \<Rightarrow> Inr ()
        | Some dept_id \<Rightarrow> ensure_department_exists departments dept_id) of
        Inl e \<Rightarrow> (users, Inl e)
      | Inr _ \<Rightarrow>
        let row = \<lparr>us_id = new_id, us_username = cu_username req, us_full_name = cu_full_name req,
              us_password_hash = generate_hash L salt (cu_password req), us_role = cu_role req,
              us_department_id = cu_department_id req, us_refresh_token_hash = None, us_status = ''active'',
              us_deleted_at = None, us_version = 1, us_created_at = now, us_updated_at = now\<rparr> in
        (case run_insert wo (user_unique row) row users of
           (users', Inl e) \<Rightarrow>
             (users', Inl (if unique_violation ''username'' e
                then Conflict ''USERNAME_EXISTS'' (''Username '' @ quoted (cu_username req) @ '' is already in use'')
                else from_db_write e))
         | (users', Inr _) \<Rightarrow> (users', get_user_by_id L users' new_id)))"

definition list_users ::
  "auth_libs \<Rightarrow> user_row list \<Rightarrow> i64 option \<Rightarrow> i64 option \<Rightarrow> string option \<Rightarrow> string option
    \<Rightarrow> user_dto paginated_response result" where
  "list_users L users limit0 offset0 status0 role0 =
     (let limit = page_limit limit0; offset = page_offset offset0;
          status = (case status0 of None \<Rightarrow> ''active'' | Some s \<Rightarrow> s) in
      bind_result (validate_status status) (\<lambda>_.
      bind_result (case role0 of None \<Rightarrow> Inr () | Some role \<Rightarrow> validate_role role) (\<lambda>_.
        let matching = filter (\<lambda>u. us_status u = status \<and> (case role0 of None \<Rightarrow> True | Some role \<Rightarrow> us_role u = role)) users
        in Inr \<lparr>pr_data = map (row_to_user L) (sql_page limit offset (sort_key us_username matching)),
                pr_total = int (length matching), pr_limit = limit, pr_offset = offset\<rparr>)))"

text \<open>The checks of \<open>update\<close> before anything is written, in the code's order.\<close>

definition update_user_checks ::
  "string list \<Rightarrow> string \<Rightarrow> string \<Rightarrow> update_user_request \<Rightarrow> unit result" where
  "update_user_checks departments actor_id i req =
     bind_result (case uu_role req of
         None \<Rightarrow> Inr ()
       | Some role \<Rightarrow> bind_result (validate_role role) (\<lambda>_.
           if i = actor_id
           then Inl (Validation ''CANNOT_CHANGE_OWN_ROLE'' ''An admin cannot change their own role'')
           else Inr ())) (\<lambda>_.
     bind_result (case uu_status req of
         None \<Rightarrow> Inr ()
       | Some status \<Rightarrow> bind_result (validate_status status) (\<lambda>_.
           if status = ''inactive'' \<and> i = actor_id
           then Inl (Validation ''CANNOT_DEACTIVATE_SELF'' ''An admin cannot deactivate their own account'')
           else Inr ())) (\<lambda>_.
     case uu_department_id req of
         Some (Some dept_id) \<Rightarrow> ensure_department_exists departments dept_id
       | _ \<Rightarrow> Inr ()))"

text \<open>The SET clause: the given columns, and the refresh token cleared with a new password.\<close>

definition user_sets_empty :: "update_user_request \<Rightarrow> bool" where
  "user_sets_empty req \<longleftrightarrow> uu_full_name req = None \<and> uu_role req = None \<and> uu_password req = None \<and>
     uu_status req = None \<and> uu_department_id req = None"

definition user_sets :: "auth_libs \<Rightarrow> i64 \<Rightarrow> string \<Rightarrow> update_user_request \<Rightarrow> user_row \<Rightarrow> user_row" where
  "user_sets L now salt req r =
     \<lparr>us_id = us_id r, us_username = us_username r,
      us_full_name = (case uu_full_name req of None \<Rightarrow> us_full_name r | Some n \<Rightarrow> n),
      us_password_hash = (case uu_password req of None \<Rightarrow> us_password_hash r | Some p \<Rightarrow> generate_hash L salt p),
      us_role = (case uu_role req of None \<Rightarrow> us_role r | Some x \<Rightarrow> x),
      us_department_id = (case uu_department_id req of None \<Rightarrow> us_department_id r | Some d \<Rightarrow> d),
      us_refresh_token_hash = (if uu_password req = None then us_refresh_token_hash r else None),
      us_status = (case uu_status req of None \<Rightarrow> us_status r | Some s \<Rightarrow> s),
      us_deleted_at = us_deleted_at r, us_version = us_version r + 1, us_created_at = us_created_at r,
      us_updated_at = now\<rparr>"

text \<open>What both writes answer when no row had the id and the version.\<close>

definition user_stale :: "user_row list \<Rightarrow> string \<Rightarrow> app_error" where
  "user_stale users i =
     (if \<exists>u \<in> set users. us_id u = i
      then Conflict ''VERSION_CONFLICT''
        ''User was modified by another request. Fetch the latest version and retry.''
      else user_not_found i)"

definition update_user ::
  "auth_libs \<Rightarrow> write_outcome \<Rightarrow> i64 \<Rightarrow> string \<Rightarrow> string list \<Rightarrow> user_row list \<Rightarrow> string \<Rightarrow> string
    \<Rightarrow> update_user_request \<Rightarrow> user_row list \<times> user_dto result" where
  "update_user L wo now salt departments users actor_id i req =
     (case update_user_checks departments actor_id i req of
        Inl e \<Rightarrow> (users, Inl e)
      | Inr _ \<Rightarrow>
        if user_sets_empty req then (users, get_user_by_id L users i)
        else (case run_update wo (\<lambda>r. us_id r = i \<and> us_version r = uu_version req)
                (user_sets L now salt req) users of
           (users', Inl e) \<Rightarrow> (users', Inl (from_db_write e))
         | (users', Inr n) \<Rightarrow>
             if n = 0 then (users', Inl (user_stale users' i)) else (users', get_user_by_id L users' i)))"

definition deactivate_user ::
  "auth_libs \<Rightarrow> write_outcome \<Rightarrow> i64 \<Rightarrow> user_row list \<Rightarrow> string \<Rightarrow> string \<Rightarrow> i64
    \<Rightarrow> user_row list \<times> user_dto result" where
  "deactivate_user L wo now users actor_id i version =
     (if i = actor_id
      then (users, Inl (Validation ''CANNOT_DEACTIVATE_SELF'' ''An admin cannot deactivate their own account''))
      else (case run_update wo (\<lambda>r. us_id r = i \<and> us_version r = version)
              (\<lambda>r. r\<lparr>us_status := ''inactive'', us_deleted_at := Some now, us_refresh_token_hash := None,
                      us_updated_at := now, us_version := us_version r + 1\<rparr>) users of
           (users', Inl e) \<Rightarrow> (users', Inl (from_db_write e))
         | (users', Inr n) \<Rightarrow>
             if n = 0 then (users', Inl (user_stale users' i)) else (users', get_user_by_id L users' i)))"

text \<open>The handlers validate the lengths of the body first.\<close>

definition create_user_invalid :: "create_user_request \<Rightarrow> string list" where
  "create_user_invalid req =
     (if length (cu_username req) < 1 \<or> length (cu_username req) > 100
      then [''Username is required (1-100 chars)''] else []) @
     (if length (cu_full_name req) < 1 \<or> length (cu_full_name req) > 200
      then [''Full name is required (1-200 chars)''] else []) @
     (if length (cu_password req) < 8 then [''Password must be at least 8 characters''] else [])"

definition update_user_invalid :: "update_user_request \<Rightarrow> string list" where
  "update_user_invalid req =
     (case uu_full_name req of None \<Rightarrow> []
      | Some n \<Rightarrow> if length n < 1 \<or> length n > 200 then [''length''] else []) @
     (case uu_password req of None \<Rightarrow> []
      | Some p \<Rightarrow> if length p < 8 then [''Password must be at least 8 characters''] else [])"

definition create_user_handler ::
  "auth_libs \<Rightarrow> write_outcome \<Rightarrow> i64 \<Rightarrow> string \<Rightarrow> string \<Rightarrow> string list \<Rightarrow> user_row list \<Rightarrow> create_user_request
    \<Rightarrow> user_row list \<times> user_dto result" where
  "create_user_handler L wo now salt new_id departments users body =
     (if create_user_invalid body \<noteq> []
      then (users, Inl (Validation ''VALIDATION_ERROR'' (validator_text L (create_user_invalid body))))
      else create_user L wo now salt new_id departments users body)"

definition update_user_handler ::
  "auth_libs \<Rightarrow> write_outcome \<Rightarrow> i64 \<Rightarrow> string \<Rightarrow> string list \<Rightarrow> user_row list \<Rightarrow> claims \<Rightarrow> string
    \<Rightarrow> update_user_request \<Rightarrow> user_row list \<times> user_dto result" where
  "update_user_handler L wo now salt departments users claims i body =
     (if update_user_invalid body \<noteq> []
      then (users, Inl (Validation ''VALIDATION_ERROR'' (validator_text L (update_user_invalid body))))
      else update_user L wo now salt departments users (cl_sub claims) i body)"

definition deactivate_user_handler ::
  "auth_libs \<Rightarrow> write_outcome \<Rightarrow> i64 \<Rightarrow> user_row list \<Rightarrow> claims \<Rightarrow> string \<Rightarrow> i64 \<Rightarrow> user_row list \<times> unit result" where
  "deactivate_user_handler L wo now users claims i version =
     (case deactivate_user L wo now users (cl_sub claims) i version of
        (users', Inl e) \<Rightarrow> (users', Inl e)
      | (users', Inr _) \<Rightarrow> (users', Inr ()))"

section \<open>The users table under interleaved requests\<close>

text \<open>One step per write to the table.  A refresh is its commit: the pending refresh it carries
  was loaded from some earlier state.\<close>

datatype auth_op =
    OpLogin write_outcome i64 string string string string
  | OpRefreshCommit write_outcome i64 pending_refresh
  | OpLogout write_outcome i64 "string option"
  | OpCreate write_outcome i64 string string create_user_request
  | OpUpdate write_outcome i64 string claims string update_user_request
  | OpDeactivate write_outcome i64 claims string i64

fun auth_step :: "auth_libs \<Rightarrow> string \<Rightarrow> string list \<Rightarrow> auth_op \<Rightarrow> user_row list \<Rightarrow> user_row list" where
  "auth_step L secret deps (OpLogin wo now j1 j2 name pw) users = fst (login L wo now j1 j2 secret users name pw)"
| "auth_step L secret deps (OpRefreshCommit wo now p) users = fst (refresh_commit L wo now users p)"
| "auth_step L secret deps (OpLogout wo now cookie) users = fst (logout L wo now secret users cookie)"
| "auth_step L secret deps (OpCreate wo now salt i req) users = fst (create_user_handler L wo now salt i deps users req)"
| "auth_step L secret deps (OpUpdate wo now salt cl i req) users = fst (update_user_handler L wo now salt deps users cl i req)"
| "auth_step L secret deps (OpDeactivate wo now cl i v) users = fst (deactivate_user_handler L wo now users cl i v)"

fun run_ops :: "auth_libs \<Rightarrow> string \<Rightarrow> string list \<Rightarrow> auth_op list \<Rightarrow> user_row list \<Rightarrow> user_row list" where
  "run_ops L secret deps [] users = users"
| "run_ops L secret deps (op # ops) users = run_ops L secret deps ops (auth_step L secret deps op users)"

text \<open>How one row can change in one step.\<close>

inductive row_step :: "auth_libs \<Rightarrow> auth_op \<Rightarrow> user_row \<Rightarrow> user_row \<Rightarrow> bool" for L where
  same: "row_step L op r r"
| logged_in: "us_username r = name \<Longrightarrow> us_status r = ''active'' \<Longrightarrow>
    issue_refresh_token L now j2 (us_id r) role (us_department_id r) secret = Inr tok \<Longrightarrow>
    row_step L (OpLogin wo now j1 j2 name pw) r
      (r\<lparr>us_refresh_token_hash := Some (sha256_hex L tok), us_updated_at := now\<rparr>)"
| rotated: "us_id r = se_id (pe_session p) \<Longrightarrow> us_refresh_token_hash r = Some (pe_old_hash p) \<Longrightarrow>
    us_status r = ''active'' \<Longrightarrow>
    row_step L (OpRefreshCommit wo now p) r
      (r\<lparr>us_refresh_token_hash := Some (sha256_hex L (se_refresh_token (pe_session p))), us_updated_at := now\<rparr>)"
| logged_out: "row_step L (OpLogout wo now cookie) r (r\<lparr>us_refresh_token_hash := None, us_updated_at := now\<rparr>)"
| updated: "us_id r = i \<Longrightarrow> us_version r = uu_version req \<Longrightarrow>
    update_user_checks deps (cl_sub cl) i req = Inr () \<Longrightarrow>
    row_step L (OpUpdate wo now salt cl i req) r (user_sets L now salt req r)"
| deactivated: "us_id r = i \<Longrightarrow> us_version r = v \<Longrightarrow> i \<noteq> cl_sub cl \<Longrightarrow>
    row_step L (OpDeactivate wo now cl i v) r
      (r\<lparr>us_status := ''inactive'', us_deleted_at := Some now, us_refresh_token_hash := None,
         us_updated_at := now, us_version := us_version r + 1\<rparr>)"

inductive_cases row_step_loginE: "row_step L (OpLogin wo now j1 j2 name pw) r r'"
inductive_cases row_step_refreshE: "row_step L (OpRefreshCommit wo now p) r r'"
inductive_cases row_step_logoutE: "row_step L (OpLogout wo now cookie) r r'"
inductive_cases row_step_createE: "row_step L (OpCreate wo now salt i req) r r'"
inductive_cases row_step_updateE: "row_step L (OpUpdate wo now salt cl i req) r r'"
inductive_cases row_step_deactivateE: "row_step L (OpDeactivate wo now cl i v) r r'"

lemmas row_stepE = row_step_loginE row_step_refreshE row_step_logoutE row_step_createE row_step_updateE
  row_step_deactivateE


definition users_ok :: "user_row list \<Rightarrow> bool" where
  "users_ok users \<longleftrightarrow> distinct (map us_id users)"

lemma row_step_id: "row_step L op r r' \<Longrightarrow> us_id r' = us_id r"
  by (induction rule: row_step.induct) (auto simp: user_sets_def)

lemma row_step_version: "row_step L op r r' \<Longrightarrow> us_version r \<le> us_version r'"
  by (induction rule: row_step.induct) (auto simp: user_sets_def)

text \<open>Every step rewrites rows one by one and appends at most one fresh row.\<close>

definition fresh_row :: "user_row list \<Rightarrow> user_row \<Rightarrow> bool" where
  "fresh_row users r \<longleftrightarrow> us_refresh_token_hash r = None \<and> us_id r \<notin> us_id ` set users"

definition step_shape :: "auth_libs \<Rightarrow> auth_op \<Rightarrow> user_row list \<Rightarrow> user_row list \<Rightarrow> bool" where
  "step_shape L op users users' \<longleftrightarrow> (\<exists>rs new. users' = rs @ new \<and> list_all2 (row_step L op) users rs \<and>
     (new = [] \<or> (\<exists>r. new = [r] \<and> fresh_row users r)))"

lemma step_shape_refl: "step_shape L op users users"
  unfolding step_shape_def by (rule exI [of _ users]) (auto intro: list_all2_refl row_step.same)

lemma step_shape_update:
  assumes "\<And>r. r \<in> set users \<Longrightarrow> P r \<Longrightarrow> row_step L op r (f r)" "run_update wo P f users = (users', x)"
  shows "step_shape L op users users'"
proof -
  have "list_all2 (row_step L op) users users'"
    using assms by (cases wo) (auto simp: update_where_def list_all2_conv_all_nth intro: row_step.same)
  then show ?thesis unfolding step_shape_def by (intro exI [of _ users'] exI [of _ "[]"]) simp
qed

lemma find_user:
  assumes "find P users = Some u" "users_ok users" "r \<in> set users" "us_id r = us_id u"
  shows "r = u \<and> P r"
  using find_Some_in [OF assms(1)] assms(2-4) by (auto simp: users_ok_def distinct_map dest: inj_onD)

lemma login_shape:
  assumes "users_ok users" "login L wo now j1 j2 secret users name pw = (users', x)"
  shows "step_shape L (OpLogin wo now j1 j2 name pw) users users'"
proof (cases "find (\<lambda>u. us_username u = name \<and> us_status u = ''active'') users")
  case None
  then show ?thesis using assms(2) by (auto simp: login_def Let_def step_shape_refl split: if_splits)
next
  case (Some u)
  have upd: "step_shape L (OpLogin wo now j1 j2 name pw) users us"
    if "run_update wo (\<lambda>r. us_id r = us_id u)
      (\<lambda>r. r\<lparr>us_refresh_token_hash := Some (sha256_hex L tok), us_updated_at := now\<rparr>) users = (us, y)"
      "issue_refresh_token L now j2 (us_id u) role (us_department_id u) secret = Inr tok" for tok role us y
    by (rule step_shape_update [OF _ that(1)])
      (use find_user [OF Some assms(1)] that(2) in \<open>auto intro: row_step.logged_in\<close>)
  show ?thesis using assms(2) Some
    by (auto simp: login_def Let_def step_shape_refl split: if_splits sum.splits prod.splits intro: upd)
qed

lemma refresh_commit_shape:
  assumes "refresh_commit L wo now users p = (users', x)"
  shows "step_shape L (OpRefreshCommit wo now p) users users'"
proof -
  obtain us y where u: "run_update wo
         (\<lambda>r. us_id r = se_id (pe_session p) \<and> us_refresh_token_hash r = Some (pe_old_hash p)
            \<and> us_status r = ''active'')
         (\<lambda>r. r\<lparr>us_refresh_token_hash := Some (sha256_hex L (se_refresh_token (pe_session p))),
                us_updated_at := now\<rparr>) users = (us, y)" by fastforce
  then have "us = users'" using assms by (auto simp: refresh_commit_def split: sum.splits if_splits)
  with step_shape_update [OF _ u] show ?thesis by (auto intro: row_step.rotated)
qed

lemma logout_shape:
  assumes "logout L wo now secret users cookie = (users', x)"
  shows "step_shape L (OpLogout wo now cookie) users users'"
proof -
  have upd: "step_shape L (OpLogout wo now cookie) users us"
    if "run_update wo P (\<lambda>r. r\<lparr>us_refresh_token_hash := None, us_updated_at := now\<rparr>) users = (us, y)" for P us y cookie
    by (rule step_shape_update [OF _ that]) (auto intro: row_step.logged_out)
  show ?thesis using assms
    by (auto simp: logout_def step_shape_refl split: option.splits sum.splits prod.splits intro: upd)
qed

lemma update_shape:
  assumes "update_user_handler L wo now salt deps users cl i req = (users', x)"
  shows "step_shape L (OpUpdate wo now salt cl i req) users users'"
proof -
  have upd: "step_shape L (OpUpdate wo now salt cl i req) users us"
    if "run_update wo (\<lambda>r. us_id r = i \<and> us_version r = uu_version req) (user_sets L now salt req) users = (us, y)"
      "update_user_checks deps (cl_sub cl) i req = Inr ()" for us y
    by (rule step_shape_update [OF _ that(1)], rule row_step.updated [OF _ _ that(2)]; simp)
  show ?thesis using assms
    by (auto simp: update_user_handler_def update_user_def step_shape_refl
        split: sum.splits prod.splits if_splits intro: upd)
qed

lemma deactivate_shape:
  assumes "deactivate_user_handler L wo now users cl i v = (users', x)"
  shows "step_shape L (OpDeactivate wo now cl i v) users users'"
proof -
  have upd: "step_shape L (OpDeactivate wo now cl i v) users us"
    if "run_update wo (\<lambda>r. us_id r = i \<and> us_version r = v)
      (\<lambda>r. r\<lparr>us_status := ''inactive'', us_deleted_at := Some now, us_refresh_token_hash := None,
         us_updated_at := now, us_version := us_version r + 1\<rparr>) users = (us, y)" "i \<noteq> cl_sub cl" for us y
    by (rule step_shape_update [OF _ that(1)], rule row_step.deactivated [OF _ _ that(2)]; simp)
  show ?thesis using assms
    by (auto simp: deactivate_user_handler_def deactivate_user_def step_shape_refl
        split: sum.splits prod.splits if_splits intro: upd)
qed

lemma create_shape:
  assumes "create_user_handler L wo now salt i deps users req = (users', x)"
  shows "step_shape L (OpCreate wo now salt i req) users users'"
proof -
  have ins: "step_shape L (OpCreate wo now salt i req) users us"
    if "run_insert wo (user_unique r) r users = (us, y)" "us_refresh_token_hash r = None" for us r y
  proof (cases "us = users")
    case False
    then have "us = users @ [r] \<and> user_unique r users = None"
      using that(1) by (cases wo) (auto split: option.splits)
    then have "us = users @ [r] \<and> fresh_row users r"
      using that(2) by (auto simp: user_unique_def fresh_row_def split: if_splits)
    then show ?thesis unfolding step_shape_def
      by (intro exI [of _ users] exI [of _ "[r]"]) (auto intro: list_all2_refl row_step.same)
  qed (simp add: step_shape_refl)
  show ?thesis using assms
    by (auto simp: create_user_handler_def create_user_def Let_def step_shape_refl
        split: sum.splits prod.splits if_splits elim!: ins)
qed

lemma auth_step_shape: "users_ok users \<Longrightarrow> step_shape L op users (auth_step L secret deps op users)"
  by (cases op) (auto intro: login_shape refresh_commit_shape logout_shape create_shape update_shape
      deactivate_shape prod.collapse [symmetric])


lemma list_all2_ids: "list_all2 (row_step L op) users rs \<Longrightarrow> map us_id rs = map us_id users"
  by (induction rule: list_all2_induct) (auto simp: row_step_id)

lemma step_shape_ok:
  assumes "step_shape L op users users'" "users_ok users"
  shows "users_ok users'"
proof -
  obtain rs new where rs: "users' = rs @ new" "list_all2 (row_step L op) users rs"
    "new = [] \<or> (\<exists>r. new = [r] \<and> fresh_row users r)"
    using assms(1) by (auto simp: step_shape_def)
  have "us_id ` set users = us_id ` set rs" using arg_cong [OF list_all2_ids [OF rs(2)], of set] by simp
  with rs(1,3) list_all2_ids [OF rs(2)] assms(2) show ?thesis
    by (auto simp: users_ok_def fresh_row_def intro: rev_image_eqI)
qed

lemma step_shape_row:
  assumes "step_shape L op users users'" "r \<in> set users"
  shows "\<exists>r' \<in> set users'. row_step L op r r'"
proof -
  obtain rs new where rs: "users' = rs @ new" "list_all2 (row_step L op) users rs"
    using assms(1) by (auto simp: step_shape_def)
  obtain i where "i < length users" "r = users ! i" using assms(2) by (auto simp: in_set_conv_nth)
  with rs have "rs ! i \<in> set users'" "row_step L op r (rs ! i)" by (auto simp: list_all2_conv_all_nth)
  then show ?thesis by blast
qed

text \<open>
  What is proved of a single row survives every run: the interface between the steps of
  the system and the properties of one account.
\<close>

locale row_invariant =
  fixes L :: auth_libs and allowed :: "auth_op \<Rightarrow> bool" and good :: "user_row \<Rightarrow> bool"
  assumes good_step: "allowed op \<Longrightarrow> row_step L op r r' \<Longrightarrow> good r \<Longrightarrow> good r'"
begin

lemma run_keeps:
  assumes "users_ok users" "r \<in> set users" "good r" "\<forall>op \<in> set ops. allowed op"
  shows "users_ok (run_ops L secret deps ops users) \<and>
    (\<exists>q \<in> set (run_ops L secret deps ops users). us_id q = us_id r \<and> good q)"
  using assms
proof (induction ops arbitrary: users r)
  case Nil
  then show ?case by auto
next
  case (Cons op ops)
  note shape = auth_step_shape [OF Cons.prems(1), of L op secret deps]
  obtain q where q: "q \<in> set (auth_step L secret deps op users)" "row_step L op r q"
    using step_shape_row [OF shape Cons.prems(2)] by blast
  then have "good q" "us_id q = us_id r"
    using good_step [of op r q] Cons.prems(3,4) by (auto simp: row_step_id)
  with Cons.IH [OF step_shape_ok [OF shape Cons.prems(1)] q(1)] Cons.prems(4) show ?case by auto
qed

lemma run_row:
  assumes "users_ok users" "r \<in> set users" "good r" "\<forall>op \<in> set ops. allowed op"
    and "q \<in> set (run_ops L secret deps ops users)" "us_id q = us_id r"
  shows "good q"
proof -
  obtain p where p: "p \<in> set (run_ops L secret deps ops users)" "us_id p = us_id r" "good p"
    and inj: "inj_on us_id (set (run_ops L secret deps ops users))"
    using run_keeps [OF assms(1-4), of secret deps] by (auto simp: users_ok_def distinct_map)
  have "q = p" using inj_onD [OF inj, of q p] assms(5,6) p(1,2) by simp
  with p show ?thesis by simp
qed

end

text \<open>The token hash \<open>h\<close> is never issued again by the operation.\<close>

fun issues_other :: "auth_libs \<Rightarrow> string \<Rightarrow> auth_op \<Rightarrow> bool" where
  "issues_other L h (OpLogin wo now j1 j2 name pw) \<longleftrightarrow>
     (\<forall>i role dept secret tok. issue_refresh_token L now j2 i role dept secret = Inr tok \<longrightarrow> sha256_hex L tok \<noteq> h)"
| "issues_other L h (OpRefreshCommit wo now p) \<longleftrightarrow> sha256_hex L (se_refresh_token (pe_session p)) \<noteq> h"
| "issues_other L h op \<longleftrightarrow> True"

fun no_login_of :: "string \<Rightarrow> auth_op \<Rightarrow> bool" where
  "no_login_of name (OpLogin wo now j1 j2 nm pw) \<longleftrightarrow> nm \<noteq> name"
| "no_login_of name op \<longleftrightarrow> True"

fun acts_as :: "string \<Rightarrow> auth_op \<Rightarrow> bool" where
  "acts_as a (OpUpdate wo now salt cl i req) \<longleftrightarrow> cl_sub cl = a"
| "acts_as a (OpDeactivate wo now cl i v) \<longleftrightarrow> cl_sub cl = a"
| "acts_as a op \<longleftrightarrow> True"

interpretation revoked: row_invariant L "issues_other L h" "\<lambda>r. us_refresh_token_hash r \<noteq> Some h" for L h
proof
  fix op r r' assume "row_step L op r r'" "issues_other L h op" "us_refresh_token_hash r \<noteq> Some h"
  then show "us_refresh_token_hash r' \<noteq> Some h"
    by (induction rule: row_step.induct) (auto simp: user_sets_def)
qed

interpretation signed_out: row_invariant L "no_login_of name"
  "\<lambda>r. us_refresh_token_hash r = None \<and> us_username r = name" for L name
proof
  fix op r r'
  assume "row_step L op r r'" "no_login_of name op" "us_refresh_token_hash r = None \<and> us_username r = name"
  then show "us_refresh_token_hash r' = None \<and> us_username r' = name"
    by (induction rule: row_step.induct) (auto simp: user_sets_def)
qed

lemma update_user_checks_self:
  assumes "update_user_checks deps a a req = Inr ()"
  shows "uu_role req = None \<and> (uu_status req = None \<or> uu_status req = Some ''active'')"
  using assms
  by (auto simp: update_user_checks_def validate_status_def validate_role_def bind_result_eq_Inr Let_def
      split: option.splits if_splits)

interpretation own_account: row_invariant L "acts_as a"
  "\<lambda>r. us_id r = a \<longrightarrow> us_role r = ''admin'' \<and> us_status r = ''active''" for L a
proof
  fix op r r'
  assume "row_step L op r r'" "acts_as a op" "us_id r = a \<longrightarrow> us_role r = ''admin'' \<and> us_status r = ''active''"
  then show "us_id r' = a \<longrightarrow> us_role r' = ''admin'' \<and> us_status r' = ''active''"
    by (induction rule: row_step.induct) (auto simp: user_sets_def dest!: update_user_checks_self)
qed

interpretation versions: row_invariant L "\<lambda>op. True" "\<lambda>r. v \<le> us_version r" for L v
proof
  fix op r r' assume "row_step L op r r'" "v \<le> us_version r"
  then show "v \<le> us_version r'" using row_step_version order_trans by blast
qed


section \<open>Sessions and accounts\<close>

lemma refresh_commit_ok:
  assumes "refresh_commit L wo now users p = (users', Inr se)"
  shows "se = pe_session p \<and> (\<exists>r \<in> set users. us_id r = se_id se \<and>
    r\<lparr>us_refresh_token_hash := Some (sha256_hex L (se_refresh_token se)), us_updated_at := now\<rparr> \<in> set users')"
proof -
  let ?P = "\<lambda>r. us_id r = se_id (pe_session p) \<and> us_refresh_token_hash r = Some (pe_old_hash p) \<and> us_status r = ''active''"
  have "wo = Ran" "rows_affected ?P users = 1" "se = pe_session p"
    using assms by (cases wo; auto simp: refresh_commit_def split: if_splits)+
  moreover then obtain r where "r \<in> set users" "?P r" using rows_affected_pos [of ?P users] by auto
  ultimately show ?thesis using assms
    by (auto simp: refresh_commit_def in_set_update_where intro!: bexI [of _ r] split: if_splits)
qed

lemma refresh_commit_rejected:
  assumes "\<forall>r \<in> set users. us_id r = se_id (pe_session q) \<longrightarrow> us_refresh_token_hash r \<noteq> Some (pe_old_hash q)"
  shows "snd (refresh_commit L Ran now users q) = Inl Unauthorized"
proof -
  have "rows_affected (\<lambda>r. us_id r = se_id (pe_session q) \<and> us_refresh_token_hash r = Some (pe_old_hash q)
      \<and> us_status r = ''active'') users = 0"
    using assms by (auto simp: rows_affected_0)
  then show ?thesis by (simp add: refresh_commit_def)
qed

text \<open>C3. A refresh token works once: after a refresh that consumed it, no refresh with the same
  token of the same user succeeds again, whatever logins, refreshes, logouts and account changes
  run in between and whether or not the second refresh had already loaded the user when the
  first one committed, provided no operation issues a token with the same hash again.\<close>

theorem refresh_token_single_use:
  assumes "users_ok users" "refresh_commit L wo now users p = (users', Inr se)"
    and "sha256_hex L (se_refresh_token se) \<noteq> pe_old_hash p"
    and "\<forall>op \<in> set ops. issues_other L (pe_old_hash p) op"
    and "pe_old_hash q = pe_old_hash p" "se_id (pe_session q) = se_id (pe_session p)"
  shows "snd (refresh_commit L Ran now' (run_ops L secret deps ops users') q) = Inl Unauthorized"
proof (rule refresh_commit_rejected, intro ballI impI)
  from refresh_commit_ok [OF assms(2)] obtain r where
    r: "r \<in> set users'" "us_id r = se_id (pe_session p)" "us_refresh_token_hash r \<noteq> Some (pe_old_hash p)"
    using assms(3) by force
  have ok: "users_ok users'" by (rule step_shape_ok [OF refresh_commit_shape [OF assms(2)] assms(1)])
  fix x assume x: "x \<in> set (run_ops L secret deps ops users')" "us_id x = se_id (pe_session q)"
  then show "us_refresh_token_hash x \<noteq> Some (pe_old_hash q)"
    using revoked.run_row [OF ok r(1,3) assms(4) x(1)] r(2) assms(5,6) by simp
qed

definition sample_user :: "string \<Rightarrow> string \<Rightarrow> user_row" where
  "sample_user i r = \<lparr>us_id = i, us_username = ''user-'' @ i, us_full_name = i, us_password_hash = ''12345678'',
     us_role = r, us_department_id = None, us_refresh_token_hash = Some (''refresh.'' @ i @ ''.0''),
     us_status = ''active'', us_deleted_at = None, us_version = 1, us_created_at = 0, us_updated_at = 0\<rparr>"

definition sample_pending :: "string \<Rightarrow> pending_refresh" where
  "sample_pending jti = \<lparr>pe_old_hash = ''refresh.a.0'', pe_session =
     \<lparr>se_access_token = ''access.a.'' @ jti, se_refresh_token = ''refresh.a.'' @ jti, se_id = ''a'',
      se_username = ''user-a'', se_full_name = ''a'', se_role = Admin\<rparr>\<rparr>"

theorem refresh_token_single_use_witness:
  "refresh_load toy_libs 5 ''1'' ''1'' ''k'' [sample_user ''a'' ''admin''] (Some ''refresh.a.0'') = Inr (sample_pending ''1'') \<and>
   snd (refresh_commit toy_libs Ran 9
     (run_ops toy_libs ''k'' [] [OpLogout Ran 7 (Some ''refresh.b.0'')]
       (fst (refresh_commit toy_libs Ran 5 [sample_user ''a'' ''admin''] (sample_pending ''1''))))
     (sample_pending ''2'')) = Inl Unauthorized"
proof
  show "refresh_load toy_libs 5 ''1'' ''1'' ''k'' [sample_user ''a'' ''admin''] (Some ''refresh.a.0'')
      = Inr (sample_pending ''1'')" by code_simp
  obtain us se where c: "refresh_commit toy_libs Ran 5 [sample_user ''a'' ''admin''] (sample_pending ''1'') = (us, Inr se)"
    "se_refresh_token se = ''refresh.a.1''"
  proof -
    have "snd (refresh_commit toy_libs Ran 5 [sample_user ''a'' ''admin''] (sample_pending ''1''))
        = Inr (pe_session (sample_pending ''1''))" by code_simp
    then show ?thesis by (intro that) (auto simp: prod_eq_iff sample_pending_def)
  qed
  have "sha256_hex toy_libs (se_refresh_token se) \<noteq> pe_old_hash (sample_pending ''1'')"
    by (simp add: c(2) toy_libs_def sample_pending_def)
  from refresh_token_single_use [OF _ c(1) this, of "[OpLogout Ran 7 (Some ''refresh.b.0'')]" "sample_pending ''2''" 9 "''k''" "[]"]
  show "snd (refresh_commit toy_libs Ran 9 (run_ops toy_libs ''k'' [] [OpLogout Ran 7 (Some ''refresh.b.0'')]
       (fst (refresh_commit toy_libs Ran 5 [sample_user ''a'' ''admin''] (sample_pending ''1'')))) (sample_pending ''2''))
     = Inl Unauthorized"
    by (simp add: c(1)) (simp add: users_ok_def sample_pending_def)
qed


lemma cleared_row:
  assumes "users_ok users" "u \<in> set users" "us_id u = i"
    and "deactivate_user_handler L wo now users cl i v = (users', Inr ()) \<or>
      update_user_handler L wo now salt deps users cl i req = (users', Inr d) \<and> uu_password req \<noteq> None"
  shows "users_ok users' \<and> (\<exists>r \<in> set users'. us_id r = i \<and> us_refresh_token_hash r = None \<and> us_username r = us_username u)"
  using assms(4)
proof
  let ?P = "\<lambda>r. us_id r = i \<and> us_version r = v"
  let ?f = "\<lambda>r. r\<lparr>us_status := ''inactive'', us_deleted_at := Some now, us_refresh_token_hash := None,
    us_updated_at := now, us_version := us_version r + 1\<rparr>"
  assume a: "deactivate_user_handler L wo now users cl i v = (users', Inr ())"
  then have "wo = Ran" "rows_affected ?P users \<noteq> 0" "users' = update_where ?P ?f users"
    by (cases wo; auto simp: deactivate_user_handler_def deactivate_user_def split: if_splits prod.splits sum.splits)+
  moreover then obtain r where r: "r \<in> set users" "us_id r = i" "us_version r = v" by (auto simp: rows_affected_0)
  moreover have "r = u" using r assms(1-3) by (auto simp: users_ok_def distinct_map dest: inj_onD)
  ultimately have "?f u \<in> set users'" by (auto simp: in_set_update_where intro!: bexI [of _ u])
  with assms(3) step_shape_ok [OF deactivate_shape [OF a] assms(1)] show ?thesis
    by (intro conjI bexI [of _ "?f u"]) auto
next
  let ?P = "\<lambda>r. us_id r = i \<and> us_version r = uu_version req"
  assume a: "update_user_handler L wo now salt deps users cl i req = (users', Inr d) \<and> uu_password req \<noteq> None"
  then have "wo = Ran" "rows_affected ?P users \<noteq> 0" "users' = update_where ?P (user_sets L now salt req) users"
    by (cases wo; auto simp: update_user_handler_def update_user_def user_sets_empty_def
        split: if_splits prod.splits sum.splits)+
  moreover then obtain r where r: "r \<in> set users" "us_id r = i" "us_version r = uu_version req"
    by (auto simp: rows_affected_0)
  moreover have "r = u" using r assms(1-3) by (auto simp: users_ok_def distinct_map dest: inj_onD)
  ultimately have "user_sets L now salt req u \<in> set users'" by (auto simp: in_set_update_where intro!: bexI [of _ u])
  with r a \<open>r = u\<close> step_shape_ok [OF update_shape [OF conjunct1 [OF a]] assms(1)] show ?thesis
    by (auto simp: user_sets_def intro!: bexI [of _ "user_sets L now salt req u"])
qed

text \<open>C13. Deactivating an account or resetting its password ends its sessions: from then on, until
  the user logs in again, no refresh, with whatever cookie and after whatever other requests,
  yields a session of that account.\<close>

theorem sessions_end:
  assumes "users_ok users" "u \<in> set users" "us_id u = i"
    and "deactivate_user_handler L wo now users cl i v = (users', Inr ()) \<or>
      update_user_handler L wo now salt deps users cl i req = (users', Inr d) \<and> uu_password req \<noteq> None"
    and "\<forall>op \<in> set ops. no_login_of (us_username u) op"
    and "snd (refresh L Ran now' j1 j2 secret (run_ops L secret deps ops users') cookie) = Inr se"
  shows "se_id se \<noteq> i"
proof
  assume i: "se_id se = i"
  from cleared_row [OF assms(1-4)] obtain r where ok: "users_ok users'" and
    r: "r \<in> set users'" "us_id r = i" "us_refresh_token_hash r = None \<and> us_username r = us_username u" by auto
  from assms(6) obtain p users2 where
    "refresh_commit L Ran now' (run_ops L secret deps ops users') p = (users2, Inr se)"
    by (auto simp: refresh_def prod_eq_iff split: sum.splits)
  moreover from this have "se = pe_session p" by (rule refresh_commit_ok [THEN conjunct1])
  moreover have "snd (refresh_commit L Ran now' (run_ops L secret deps ops users') p) = Inl Unauthorized"
    if "se = pe_session p"
    using signed_out.run_row [OF ok r(1,3) assms(5)] r(2) i that
    by (intro refresh_commit_rejected) auto
  ultimately show False by simp
qed

theorem sessions_end_witness:
  "snd (refresh toy_libs Ran 9 ''8'' ''9'' ''k'' (run_ops toy_libs ''k'' [] [OpLogin Ran 7 ''3'' ''4'' ''user-b'' ''12345678'']
      (fst (deactivate_user_handler toy_libs Ran 5 [sample_user ''a'' ''viewer'', sample_user ''b'' ''admin'']
        (the (toy_decode ''access.b.1'' ''k'' 5)) ''a'' 1))) (Some ''refresh.b.4'')) =
    Inr \<lparr>se_access_token = ''access.b.8'', se_refresh_token = ''refresh.b.9'', se_id = ''b'',
      se_username = ''user-b'', se_full_name = ''b'', se_role = Admin\<rparr> \<and> ''b'' \<noteq> ''a''"
proof
  let ?us = "[sample_user ''a'' ''viewer'', sample_user ''b'' ''admin'']"
  let ?cl = "the (toy_decode ''access.b.1'' ''k'' 5)"
  show e: "snd (refresh toy_libs Ran 9 ''8'' ''9'' ''k'' (run_ops toy_libs ''k'' [] [OpLogin Ran 7 ''3'' ''4'' ''user-b'' ''12345678'']
      (fst (deactivate_user_handler toy_libs Ran 5 ?us ?cl ''a'' 1))) (Some ''refresh.b.4'')) =
    Inr \<lparr>se_access_token = ''access.b.8'', se_refresh_token = ''refresh.b.9'', se_id = ''b'',
      se_username = ''user-b'', se_full_name = ''b'', se_role = Admin\<rparr>" by code_simp
  have "snd (deactivate_user_handler toy_libs Ran 5 ?us ?cl ''a'' 1) = Inr ()" by code_simp
  then obtain us' where d: "deactivate_user_handler toy_libs Ran 5 ?us ?cl ''a'' 1 = (us', Inr ())"
    by (metis prod.collapse)
  have ok: "users_ok ?us" by (simp add: users_ok_def sample_user_def)
  show "''b'' \<noteq> ''a''"
    using sessions_end [OF ok, of "sample_user ''a'' ''viewer''" "''a''"] d e
    by (auto simp: sample_user_def)
qed


text \<open>An administrator cannot lock themselves out (the self-protection rules): whatever sequence of
  account changes they make, together with any logins, refreshes and logouts, their own
  account is still there, still an administrator and still active.\<close>

theorem admin_keeps_own_account:
  assumes "users_ok users" "u \<in> set users" "us_role u = ''admin''" "us_status u = ''active''"
    and "\<forall>op \<in> set ops. acts_as (us_id u) op"
  shows "\<exists>q \<in> set (run_ops L secret deps ops users). us_id q = us_id u \<and> us_role q = ''admin'' \<and> us_status q = ''active''"
  using own_account.run_keeps [OF assms(1,2) _ assms(5), where L = L and secret = secret and deps = deps] assms(3,4) by auto

theorem admin_keeps_own_account_witness:
  "\<exists>q \<in> set (run_ops toy_libs ''k'' []
      [OpUpdate Ran 5 ''s'' (the (toy_decode ''access.a.1'' ''k'' 5)) ''a''
        \<lparr>uu_full_name = None, uu_role = Some ''viewer'', uu_password = None, uu_status = None,
         uu_department_id = None, uu_version = 1\<rparr>] [sample_user ''a'' ''admin'']). us_role q = ''admin''"
  using admin_keeps_own_account [of "[sample_user ''a'' ''admin'']" "sample_user ''a'' ''admin''"
      "[OpUpdate Ran 5 ''s'' (the (toy_decode ''access.a.1'' ''k'' 5)) ''a''
        \<lparr>uu_full_name = None, uu_role = Some ''viewer'', uu_password = None, uu_status = None,
         uu_department_id = None, uu_version = 1\<rparr>]" toy_libs "''k''" "[]"]
  by (auto simp: users_ok_def sample_user_def toy_decode_def Let_def)

text \<open>No update is lost (optimistic locking): once an update against a version succeeded, every later
  update of that account against the same version is answered VERSION_CONFLICT, whatever
  other requests ran in between.\<close>

theorem lost_update_rejected:
  assumes "users_ok users" "update_user_handler L wo now salt deps users cl i req = (users', Inr d)"
    and "\<not> user_sets_empty req" "u \<in> set users" "us_id u = i"
    and "uu_version req' = uu_version req" "update_user_invalid req' = []" "\<not> user_sets_empty req'"
    and "update_user_checks deps (cl_sub cl') i req' = Inr ()"
  shows "snd (update_user_handler L Ran now' salt' deps (run_ops L secret deps ops users') cl' i req') =
    Inl (Conflict ''VERSION_CONFLICT'' ''User was modified by another request. Fetch the latest version and retry.'')"
proof -
  let ?P = "\<lambda>r. us_id r = i \<and> us_version r = uu_version req"
  have "wo = Ran" "rows_affected ?P users \<noteq> 0" "users' = update_where ?P (user_sets L now salt req) users"
    using assms(2,3) by (cases wo; auto simp: update_user_handler_def update_user_def
        split: if_splits prod.splits sum.splits)+
  moreover then obtain r where r: "r \<in> set users" "us_id r = i" "us_version r = uu_version req"
    by (auto simp: rows_affected_0)
  moreover have "r = u" using r assms(1,4,5) by (auto simp: users_ok_def distinct_map dest: inj_onD)
  ultimately have u': "user_sets L now salt req u \<in> set users'" "us_id (user_sets L now salt req u) = i"
    "uu_version req + 1 \<le> us_version (user_sets L now salt req u)"
    by (auto simp: in_set_update_where user_sets_def intro!: bexI [of _ u])
  let ?finish = "run_ops L secret deps ops users'"
  have ok: "users_ok users'" by (rule step_shape_ok [OF update_shape [OF assms(2)] assms(1)])
  have gone: "rows_affected (\<lambda>r. us_id r = i \<and> us_version r = uu_version req') ?finish = 0"
    unfolding rows_affected_0
  proof (intro ballI notI)
    fix r assume r: "r \<in> set ?finish" and v: "us_id r = i \<and> us_version r = uu_version req'"
    have "uu_version req + 1 \<le> us_version r"
      by (rule versions.run_row [OF ok u'(1,3) _ r]) (use u'(2) v in simp_all)
    with v assms(6) show False by simp
  qed
  obtain q where "q \<in> set ?finish" "us_id q = i"
    using versions.run_keeps [OF ok u'(1,3), where L = L and secret = secret and deps = deps and ops = ops] u'(2) by auto
  with gone assms(7-9) show ?thesis
    by (auto simp: update_user_handler_def update_user_def user_stale_def update_where_none rows_affected_0)
qed

theorem lost_update_rejected_witness:
  "snd (update_user_handler toy_libs Ran 9 ''s'' [] (run_ops toy_libs ''k'' [] []
      (fst (update_user_handler toy_libs Ran 5 ''s'' [] [sample_user ''a'' ''viewer''] (the (toy_decode ''access.b.1'' ''k'' 5)) ''a''
        \<lparr>uu_full_name = Some ''A'', uu_role = None, uu_password = None, uu_status = None,
         uu_department_id = None, uu_version = 1\<rparr>))) (the (toy_decode ''access.b.1'' ''k'' 5)) ''a''
        \<lparr>uu_full_name = None, uu_role = Some ''admin'', uu_password = None, uu_status = None,
         uu_department_id = None, uu_version = 1\<rparr>) =
    Inl (Conflict ''VERSION_CONFLICT'' ''User was modified by another request. Fetch the latest version and retry.'')"
proof -
  let ?cl = "the (toy_decode ''access.b.1'' ''k'' 5)"
  let ?r = "\<lparr>uu_full_name = Some ''A'', uu_role = None, uu_password = None, uu_status = None,
         uu_department_id = None, uu_version = 1\<rparr>"
  let ?q = "\<lparr>uu_full_name = None, uu_role = Some ''admin'', uu_password = None, uu_status = None,
         uu_department_id = None, uu_version = 1\<rparr>"
  have "isl (snd (update_user_handler toy_libs Ran 5 ''s'' [] [sample_user ''a'' ''viewer''] ?cl ''a'' ?r)) = False"
    by code_simp
  then obtain us d where u: "update_user_handler toy_libs Ran 5 ''s'' [] [sample_user ''a'' ''viewer''] ?cl ''a'' ?r = (us, Inr d)"
    by (cases "update_user_handler toy_libs Ran 5 ''s'' [] [sample_user ''a'' ''viewer''] ?cl ''a'' ?r"; cases "snd (update_user_handler toy_libs Ran 5 ''s'' [] [sample_user ''a'' ''viewer''] ?cl ''a'' ?r)") auto
  have c: "update_user_checks [] (cl_sub ?cl) ''a'' ?q = Inr ()" by code_simp
  have "users_ok [sample_user ''a'' ''viewer'']" by (simp add: users_ok_def)
  from lost_update_rejected [OF this u _ _ _ _ _ _ c, of "sample_user ''a'' ''viewer''" 9 "''s''" "''k''" "[]"] u
  show ?thesis by (simp add: user_sets_empty_def update_user_invalid_def sample_user_def)
qed

end
