(* ===== verification/Ordered_Map.thy ===== *)
theory Ordered_Map
  imports Main
begin

text \<open>
  \<open>std::collections::BTreeMap\<close> as the code uses it: \<open>entry(k).or_insert_with(..)\<close>
  followed by an update of the value, lookup, and iteration in key order.  The locale
  \<open>ordered_map\<close> is the interface the clients' lemmas are stated over; it is interpreted
  on association lists sorted by key, which is what the model computes with.
\<close>

text \<open>A sweep over rows, each updating the entry of its own key.\<close>

definition sweep_map ::
  "('k \<Rightarrow> 'v \<Rightarrow> ('v \<Rightarrow> 'v) \<Rightarrow> 'm \<Rightarrow> 'm) \<Rightarrow> ('r \<Rightarrow> 'k) \<Rightarrow> ('r \<Rightarrow> 'v) \<Rightarrow> ('r \<Rightarrow> 'v \<Rightarrow> 'v)
    \<Rightarrow> 'r list \<Rightarrow> 'm \<Rightarrow> 'm" where
  "sweep_map entry key mk upd rows m = fold (\<lambda>r. entry (key r) (mk r) (upd r)) rows m"

lemma sweep_Cons [simp]:
  "sweep_map entry key mk upd [] m = m"
  "sweep_map entry key mk upd (r # rows) m = sweep_map entry key mk upd rows (entry (key r) (mk r) (upd r) m)"
  by (simp_all add: sweep_map_def)

locale ordered_map =
  fixes empty :: "'m" and lookup :: "'m \<Rightarrow> 'k::linorder \<Rightarrow> 'v option"
    and entry_with :: "'k \<Rightarrow> 'v \<Rightarrow> ('v \<Rightarrow> 'v) \<Rightarrow> 'm \<Rightarrow> 'm" and keys :: "'m \<Rightarrow> 'k list"
    and invar :: "'m \<Rightarrow> bool"
  assumes invar_empty: "invar empty"
    and lookup_empty: "lookup empty k = None"
    and invar_entry: "invar m \<Longrightarrow> invar (entry_with k d f m)"
    and lookup_entry: "invar m \<Longrightarrow> lookup (entry_with k d f m) k' =
      (if k' = k then Some (f (case lookup m k of None \<Rightarrow> d | Some v \<Rightarrow> v)) else lookup m k')"
    and keys_lookup: "invar m \<Longrightarrow> k \<in> set (keys m) \<longleftrightarrow> lookup m k \<noteq> None"
    and keys_strict: "invar m \<Longrightarrow> sorted_wrt (<) (keys m)"
begin

lemma sweep_invar: "invar m \<Longrightarrow> invar (sweep_map entry_with key mk upd rows m)"
  by (induction rows arbitrary: m) (auto intro: invar_entry)

lemma sweep_cong:
  assumes "invar a" "invar b" "lookup a k = lookup b k"
  shows "lookup (sweep_map entry_with key mk upd rows a) k = lookup (sweep_map entry_with key mk upd rows b) k"
  using assms
proof (induction rows arbitrary: a b)
  case Nil
  then show ?case by simp
next
  case (Cons r rows)
  have "lookup (entry_with (key r) (mk r) (upd r) a) k = lookup (entry_with (key r) (mk r) (upd r) b) k"
    using Cons.prems by (auto simp: lookup_entry)
  from Cons.IH [OF invar_entry invar_entry this] Cons.prems show ?case by simp
qed

lemma sweep_only:
  assumes "invar m"
  shows "lookup (sweep_map entry_with key mk upd rows m) k = lookup (sweep_map entry_with key mk upd (filter (\<lambda>r. key r = k) rows) m) k"
  using assms
proof (induction rows arbitrary: m)
  case Nil
  show ?case by simp
next
  case (Cons r rows)
  note step = Cons.IH [OF invar_entry [OF Cons.prems], of "key r" "mk r" "upd r"]
  show ?case
  proof (cases "key r = k")
    case False
    then have "lookup (entry_with (key r) (mk r) (upd r) m) k = lookup m k"
      using Cons.prems by (simp add: lookup_entry)
    from sweep_cong [OF invar_entry [OF Cons.prems] Cons.prems this] step False show ?thesis by simp
  qed (use step in simp)
qed

text \<open>The entry of a key depends on the rows of that key alone.\<close>

lemma sweep_independent:
  assumes "invar m" "invar m'" "lookup m k = lookup m' k"
    and "filter (\<lambda>r. key r = k) rows = filter (\<lambda>r. key r = k) rows'"
  shows "lookup (sweep_map entry_with key mk upd rows m) k = lookup (sweep_map entry_with key mk upd rows' m') k"
proof -
  have "lookup (sweep_map entry_with key mk upd rows m) k = lookup (sweep_map entry_with key mk upd (filter (\<lambda>r. key r = k) rows) m) k"
    by (rule sweep_only [OF assms(1)])
  also have "\<dots> = lookup (sweep_map entry_with key mk upd (filter (\<lambda>r. key r = k) rows') m') k"
    unfolding assms(4) by (rule sweep_cong [OF assms(1-3)])
  also have "\<dots> = lookup (sweep_map entry_with key mk upd rows' m') k"
    by (rule sweep_only [OF assms(2), symmetric])
  finally show ?thesis .
qed

lemma sweep_keys:
  assumes "invar m"
  shows "set (keys (sweep_map entry_with key mk upd rows m)) = set (keys m) \<union> key ` set rows"
  using assms
proof (induction rows arbitrary: m)
  case Nil
  then show ?case by simp
next
  case (Cons r rows)
  have "set (keys (entry_with (key r) (mk r) (upd r) m)) = insert (key r) (set (keys m))"
    using Cons.prems by (auto simp: keys_lookup invar_entry lookup_entry split: if_splits)
  with Cons.IH [OF invar_entry [OF Cons.prems], of "key r" "mk r" "upd r"] show ?case by simp
qed

lemma sweep_all:
  assumes "invar m" "\<And>k v. lookup m k = Some v \<Longrightarrow> P k v"
    and "\<And>r. r \<in> set rows \<Longrightarrow> P (key r) (upd r (mk r))"
    and "\<And>r v. r \<in> set rows \<Longrightarrow> P (key r) v \<Longrightarrow> P (key r) (upd r v)"
    and "lookup (sweep_map entry_with key mk upd rows m) k = Some v"
  shows "P k v"
  using assms
proof (induction rows arbitrary: m)
  case Nil
  then show ?case by simp
next
  case (Cons r rows)
  show ?case
  proof (rule Cons.IH [OF invar_entry [OF Cons.prems(1)]])
    fix k v assume "lookup (entry_with (key r) (mk r) (upd r) m) k = Some v"
    then show "P k v" using Cons.prems(1-4) by (auto simp: lookup_entry split: if_splits option.splits)
  qed (use Cons.prems in auto)
qed

end

section \<open>The map of the model\<close>

fun entry_with :: "'k::linorder \<Rightarrow> 'v \<Rightarrow> ('v \<Rightarrow> 'v) \<Rightarrow> ('k \<times> 'v) list \<Rightarrow> ('k \<times> 'v) list" where
  "entry_with k d f [] = [(k, f d)]"
| "entry_with k d f ((k', v) # m) =
     (if k = k' then (k', f v) # m
      else if k < k' then (k, f d) # (k', v) # m
      else (k', v) # entry_with k d f m)"

definition om_ok :: "('k::linorder \<times> 'v) list \<Rightarrow> bool" where
  "om_ok m \<longleftrightarrow> sorted_wrt (<) (map fst m)"

lemma entry_with_keys: "set (map fst (entry_with k d f m)) = insert k (set (map fst m))"
  by (induction k d f m rule: entry_with.induct) auto

lemma om_ok_entry: "om_ok m \<Longrightarrow> om_ok (entry_with k d f m)"
proof (induction k d f m rule: entry_with.induct)
  case (2 k d f k' v m)
  then show ?case
    using entry_with_keys [of k d f m] by (auto simp: om_ok_def)
qed (simp add: om_ok_def)

lemma map_of_entry:
  "om_ok m \<Longrightarrow> map_of (entry_with k d f m) k' =
    (if k' = k then Some (f (case map_of m k of None \<Rightarrow> d | Some v \<Rightarrow> v)) else map_of m k')"
proof (induction k d f m rule: entry_with.induct)
  case (2 k d f j v m)
  have "map_of m k = None" if "k < j"
    using that 2(2) by (auto simp: om_ok_def map_of_eq_None_iff)
  with 2 show ?case by (auto simp: om_ok_def)
qed simp

interpretation om: ordered_map "[]" map_of entry_with "map fst" om_ok
proof
  show "om_ok []" by (simp add: om_ok_def)
  fix m :: "('k::linorder \<times> 'v) list" and k k' :: 'k and d :: 'v and f
  assume m: "om_ok m"
  show "om_ok (entry_with k d f m)" using m by (rule om_ok_entry)
  show "map_of (entry_with k d f m) k' =
      (if k' = k then Some (f (case map_of m k of None \<Rightarrow> d | Some v \<Rightarrow> v)) else map_of m k')"
    using m by (rule map_of_entry)
  show "k \<in> set (map fst m) \<longleftrightarrow> map_of m k \<noteq> None" by (simp add: map_of_eq_None_iff)
  show "sorted_wrt (<) (map fst m)" using m by (simp add: om_ok_def)
qed simp

lemma om_distinct: "om_ok m \<Longrightarrow> distinct (map fst m)"
  by (simp add: om_ok_def strict_sorted_iff)

lemma om_in_iff: "om_ok m \<Longrightarrow> (k, v) \<in> set m \<longleftrightarrow> map_of m k = Some v"
  by (auto dest: om_distinct intro: map_of_SomeD)

end
