(* ===== verification/Schema.thy ===== *)
theory Schema
  imports Prelude Ordered_Map "HOL-Library.List_Lexorder" "HOL-Library.Char_ord" "HOL-Library.Product_Lexorder"
begin

text \<open>
  The rows of the tables (db/migrations) and the database as the record of its tables.
  A column that may be NULL is an option; TEXT is a string (compared byte by byte, the
  BINARY collation), INTEGER an i64, and the 0/1 flags are booleans.
\<close>

record employee_row =
  em_id :: string
  em_code :: string
  em_name :: string
  em_department_id :: string
  em_status :: string
  em_position :: string
  em_hire_date :: "i64 option"
  em_base_salary_cents :: i64
  em_salary_kind :: "string option"
  em_terminated_on :: "i64 option"
  em_face_id :: "string option"
  em_deleted_at :: "i64 option"
  em_version :: i64
  em_created_at :: i64
  em_updated_at :: i64

record department_row =
  de_id :: string
  de_name :: string
  de_base_salary_cents :: i64
  de_shift_start_time :: string
  de_shift_end_time :: string
  de_lunch_mode :: string
  de_lunch_duration_min :: "i64 option"
  de_status :: string
  de_deleted_at :: "i64 option"
  de_version :: i64
  de_shift_type :: string
  de_is_overnight_shift :: bool
  de_ordinary_daily_minutes :: i64
  de_created_at :: i64
  de_updated_at :: i64

record daily_row =
  dr_id :: string
  dr_employee_id :: string
  dr_department_id :: string
  dr_anchor_date :: string
  dr_shift_type :: string
  dr_work_minutes :: i64
  dr_overtime_minutes :: i64
  dr_late_minutes :: i64
  dr_early_departure_minutes :: i64
  dr_is_rest_day_worked :: i64
  dr_entry_at :: "i64 option"
  dr_exit_at :: "i64 option"
  dr_leave_id :: "string option"
  dr_computed_at :: i64
  dr_created_at :: i64
  dr_updated_at :: i64

record anomaly_row =
  an_id :: string
  an_daily_record_id :: string
  an_code :: string
  an_detail :: "string option"
  an_created_at :: i64

record override_row =
  ov_id :: string
  ov_daily_record_id :: string
  ov_work_minutes :: "i64 option"
  ov_entry_at :: "i64 option"
  ov_exit_at :: "i64 option"
  ov_justification :: string
  ov_evidence_path :: "string option"
  ov_overridden_by :: string
  ov_overridden_at :: i64
  ov_status :: string
  ov_deleted_at :: "i64 option"
  ov_version :: i64
  ov_created_at :: i64
  ov_updated_at :: i64

record leave_table_row =
  le_id :: string
  le_employee_id :: string
  le_from_date :: string
  le_to_date :: string
  le_type :: string
  le_status :: string
  le_deleted_at :: "i64 option"
  le_justification :: string
  le_evidence_path :: "string option"
  le_created_by :: string
  le_cancelled_by :: "string option"
  le_version :: i64
  le_created_at :: i64
  le_updated_at :: i64

record event_table_row =
  ae_id :: string
  ae_employee_id :: "string option"
  ae_device_id :: string
  ae_direction :: string
  ae_captured_at :: i64
  ae_bucket_30s :: i64
  ae_is_unknown :: bool
  ae_face_id :: "string option"
  ae_employee_no :: "string option"
  ae_raw_payload :: string
  ae_photo_path :: "string option"
  ae_created_at :: i64

record db =
  t_employees :: "employee_row list"
  t_departments :: "department_row list"
  t_daily_records :: "daily_row list"
  t_anomalies :: "anomaly_row list"
  t_overrides :: "override_row list"
  t_leaves :: "leave_table_row list"
  t_events :: "event_table_row list"
  t_global_rules :: "(i64 \<times> i64 \<times> i64) option"
  t_tenant_info :: "(string \<times> string) option"

text \<open>\<open>LEFT JOIN\<close>: the matching rows, or one NULL row.\<close>

definition left_join :: "'a list \<Rightarrow> 'a option list" where
  "left_join rows = (if rows = [] then [None] else map Some rows)"

lemma left_join_not_Nil [simp]: "left_join rows \<noteq> []"
  by (simp add: left_join_def)

lemma set_left_join: "set (left_join rows) = (if rows = [] then {None} else Some ` set rows)"
  by (simp add: left_join_def)

text \<open>\<open>column IS NULL OR column >= ..\<close> of the employment window.\<close>

definition none_or :: "('a \<Rightarrow> bool) \<Rightarrow> 'a option \<Rightarrow> bool" where
  "none_or P x = (case x of None \<Rightarrow> True | Some v \<Rightarrow> P v)"

lemma none_or_simps [simp]: "none_or P None" "none_or P (Some v) = P v"
  by (simp_all add: none_or_def)

text \<open>\<open>BTreeSet<String>\<close>: a strictly sorted list.\<close>

fun set_insert :: "'a::linorder \<Rightarrow> 'a list \<Rightarrow> 'a list" where
  "set_insert x [] = [x]"
| "set_insert x (y # ys) = (if x = y then y # ys else if x < y then x # y # ys else y # set_insert x ys)"

lemma set_set_insert [simp]: "set (set_insert x ys) = insert x (set ys)"
  by (induction x ys rule: set_insert.induct) auto

lemma set_insert_strict: "sorted_wrt (<) ys \<Longrightarrow> sorted_wrt (<) (set_insert x ys)"
  by (induction x ys rule: set_insert.induct) auto

end
