(* ===== verification/Money.thy ===== *)
theory Money
  imports Prelude
begin

text \<open>
  Money in integer cents (reports/money.rs) and the unit of the base salary
  (\<open>SalaryKind\<close>, employees/models.rs).  Every formula multiplies its numerators with
  \<open>checked_mul\<close>, adds half the denominator, and divides once; an overflow of the
  numerator pays 0.  The denominator itself is a product with the plain, wrapping
  operator, so the outermost \<open>None\<close> is the panic of a division by zero; the lemmas show
  that it cannot happen for an ordinary day of at most 1440 minutes.
\<close>

datatype salary_kind = Hourly | Daily | Monthly

fun as_db_str :: "salary_kind \<Rightarrow> string" where
  "as_db_str Hourly = ''hourly''"
| "as_db_str Daily = ''daily''"
| "as_db_str Monthly = ''monthly''"

definition from_db_str :: "string \<Rightarrow> salary_kind option" where
  "from_db_str s =
     (if s = ''hourly'' then Some Hourly
      else if s = ''daily'' then Some Daily
      else if s = ''monthly'' then Some Monthly
      else None)"

fun to_daily :: "salary_kind \<Rightarrow> i64 \<Rightarrow> i64 \<times> i64" where
  "to_daily Daily ord = (1, 1)"
| "to_daily Monthly ord = (1, 30)"
| "to_daily Hourly ord = (ord, 60)"

text \<open>Rust's \<open>/\<close>: it panics on a zero divisor and on \<open>MIN / -1\<close>.\<close>

definition i64_div :: "i64 \<Rightarrow> i64 \<Rightarrow> i64 option" where
  "i64_div a b = (if b = 0 \<or> a = i64_min \<and> b = - 1 then None else Some (a sdiv b))"

text \<open>The common tail of the formulas: \<open>.map(|p| p / denom).unwrap_or(0)\<close>.\<close>

definition quotient_or_zero :: "i64 option \<Rightarrow> i64 \<Rightarrow> i64 option" where
  "quotient_or_zero p denom = (case p of None \<Rightarrow> Some 0 | Some p \<Rightarrow> i64_div p denom)"

definition work_pay_cents :: "i64 \<Rightarrow> i64 \<Rightarrow> i64 \<Rightarrow> salary_kind \<Rightarrow> i64 option" where
  "work_pay_cents work_minutes base_salary_cents ord kind =
     (if ord \<le> 0 then Some 0
      else let (num, den) = to_daily kind ord; denom = i64_mul den ord in
        quotient_or_zero (do {
          p \<leftarrow> checked_mul work_minutes base_salary_cents;
          p \<leftarrow> checked_mul p num;
          checked_add p (denom sdiv 2) }) denom)"

definition ot_pay_cents :: "i64 \<Rightarrow> i64 \<Rightarrow> i64 \<Rightarrow> salary_kind \<Rightarrow> i64 \<Rightarrow> i64 option" where
  "ot_pay_cents ot_minutes base_salary_cents ord kind day_premium_pct =
     (if ord \<le> 0 then Some 0
      else let (num, den) = to_daily kind ord; denom = i64_mul (i64_mul (100 * 100) den) ord in
        quotient_or_zero (do {
          p \<leftarrow> checked_mul ot_minutes base_salary_cents;
          p \<leftarrow> checked_mul p 150;
          p \<leftarrow> checked_mul p day_premium_pct;
          p \<leftarrow> checked_mul p num;
          checked_add p (denom sdiv 2) }) denom)"

definition night_premium_cents :: "i64 \<Rightarrow> i64 \<Rightarrow> i64 \<Rightarrow> salary_kind \<Rightarrow> i64 option" where
  "night_premium_cents work_minutes base_salary_cents ord kind =
     (if ord \<le> 0 then Some 0
      else let (num, den) = to_daily kind ord; denom = i64_mul (i64_mul 100 den) ord in
        quotient_or_zero (do {
          p \<leftarrow> checked_mul work_minutes base_salary_cents;
          p \<leftarrow> checked_mul p 30;
          p \<leftarrow> checked_mul p num;
          checked_add p (denom sdiv 2) }) denom)"

definition rest_day_surcharge_cents :: "i64 \<Rightarrow> i64 \<Rightarrow> i64 \<Rightarrow> salary_kind \<Rightarrow> i64 option" where
  "rest_day_surcharge_cents work_minutes base_salary_cents ord kind =
     (if ord \<le> 0 then Some 0
      else let (num, den) = to_daily kind ord; denom = i64_mul (i64_mul 100 den) ord in
        quotient_or_zero (do {
          p \<leftarrow> checked_mul work_minutes base_salary_cents;
          p \<leftarrow> checked_mul p 50;
          p \<leftarrow> checked_mul p num;
          checked_add p (denom sdiv 2) }) denom)"

definition late_deduction_cents :: "i64 \<Rightarrow> i64 \<Rightarrow> i64 \<Rightarrow> salary_kind \<Rightarrow> i64 option" where
  "late_deduction_cents late_minutes base_salary_cents ord kind =
     (if ord \<le> 0 then Some 0
      else let (num, den) = to_daily kind ord; denom = i64_mul den ord in
        quotient_or_zero (do {
          p \<leftarrow> checked_mul late_minutes base_salary_cents;
          p \<leftarrow> checked_mul p num;
          checked_add p (denom sdiv 2) }) denom)"

definition total_a_pagar_cents :: "i64 \<Rightarrow> i64 \<Rightarrow> i64 \<Rightarrow> i64 \<Rightarrow> i64 \<Rightarrow> i64" where
  "total_a_pagar_cents work_pay ot_pay night_premium rest_day_surcharge late_deduction =
     saturating_sub
       (saturating_add (saturating_add (saturating_add work_pay ot_pay) night_premium) rest_day_surcharge)
       late_deduction"

section \<open>Salary units\<close>

lemma from_db_str_as_db_str [simp]: "from_db_str (as_db_str k) = Some k"
  by (cases k) (simp_all add: from_db_str_def)

lemma from_db_str_eq_Some: "from_db_str s = Some k \<longleftrightarrow> s = as_db_str k"
  by (cases k) (auto simp: from_db_str_def split: if_splits)

text \<open>The fraction num/den that brings the base salary to one ordinary day.\<close>

abbreviation unit_num :: "salary_kind \<Rightarrow> i64 \<Rightarrow> i64" where
  "unit_num k ord \<equiv> fst (to_daily k ord)"

abbreviation unit_den :: "salary_kind \<Rightarrow> i64 \<Rightarrow> i64" where
  "unit_den k ord \<equiv> snd (to_daily k ord)"

lemma unit_den_bounds: "1 \<le> unit_den k ord" "unit_den k ord \<le> 60"
  by (cases k; simp)+

lemma unit_num_bounds: "1 \<le> ord \<Longrightarrow> 1 \<le> unit_num k ord" "1 \<le> ord \<Longrightarrow> unit_num k ord \<le> ord"
  by (cases k; simp)+

section \<open>Rounding\<close>

text \<open>\<open>q\<close> is \<open>n/d\<close> rounded to the nearest integer, a half upwards.\<close>

definition rounds_half_up :: "int \<Rightarrow> int \<Rightarrow> int \<Rightarrow> bool" where
  "rounds_half_up n d q \<longleftrightarrow> 2 * d * q \<le> 2 * n + d \<and> 2 * n + d < 2 * d * (q + 1)"

lemma rounds_half_up_unique:
  assumes "0 < d" "rounds_half_up n d q" "rounds_half_up n d q'"
  shows "q = q'"
proof -
  have "2 * d * q < 2 * d * (q' + 1)" "2 * d * q' < 2 * d * (q + 1)"
    using assms(2,3) by (auto simp: rounds_half_up_def)
  then have "q < q' + 1" "q' < q + 1" using assms(1) by (auto simp: mult_less_cancel_left)
  then show ?thesis by simp
qed

lemma rounds_half_up_mono:
  assumes "0 < d" "n \<le> n'" "rounds_half_up n d q" "rounds_half_up n' d q'"
  shows "q \<le> q'"
proof -
  have "2 * d * q < 2 * d * (q' + 1)" using assms(2-4) unfolding rounds_half_up_def by linarith
  then have "q < q' + 1" using assms(1) by (auto simp: mult_less_cancel_left)
  then show ?thesis by simp
qed

lemma rounds_half_up_exact: "0 < d \<Longrightarrow> rounds_half_up (d * q) d q"
  by (simp add: rounds_half_up_def algebra_simps)

lemma rounds_half_up_nonneg:
  assumes "0 < d" "0 \<le> n" "rounds_half_up n d q"
  shows "0 \<le> q"
proof -
  have "0 < 2 * d * (q + 1)" using assms by (auto simp: rounds_half_up_def)
  then have "0 < q + 1" using assms(1) by (auto simp: zero_less_mult_iff)
  then show ?thesis by simp
qed

text \<open>Dividing \<open>n + d / 2\<close> once, with truncation, is rounding half up, odd \<open>d\<close> included.\<close>

lemma half_up_div:
  assumes "0 \<le> n" "0 < (d::int)"
  shows "rounds_half_up n d ((n + d sdiv 2) sdiv d)"
proof -
  define h where "h = d div 2"
  define q where "q = (n + h) div d"
  define r where "r = (n + h) mod d"
  have h: "2 * h \<le> d" "d \<le> 2 * h + 1" "0 \<le> h" using assms(2) unfolding h_def by presburger+
  have qr: "d * q + r = n + h" "0 \<le> r" "r < d"
    using assms(2) by (simp_all add: q_def r_def)
  have e: "2 * d * q = 2 * (d * q)" "2 * d * (q + 1) = 2 * (d * q) + 2 * d"
    by (simp_all add: algebra_simps)
  have "rounds_half_up n d q"
    unfolding rounds_half_up_def e using h qr by linarith
  moreover have "(n + d sdiv 2) sdiv d = q"
    using assms h by (simp add: sdiv_nonneg_eq_div h_def q_def)
  ultimately show ?thesis by simp
qed

lemma quotient_or_zero_half_up:
  assumes "0 \<le> n" "0 < d" "n + d \<le> i64_max"
  shows "\<exists>q. quotient_or_zero (checked_add n (d sdiv 2)) d = Some q \<and> rounds_half_up n d q \<and> 0 \<le> q"
proof -
  have h: "0 \<le> d sdiv 2" "d sdiv 2 \<le> d" using assms(2) by (auto simp: sdiv_nonneg_eq_div)
  then have "in_i64 (n + d sdiv 2)" using assms by (auto simp: in_i64_def i64_min_def)
  then have "quotient_or_zero (checked_add n (d sdiv 2)) d = Some ((n + d sdiv 2) sdiv d)"
    using assms(2) by (simp add: quotient_or_zero_def checked_add_def i64_div_def)
  with half_up_div [OF assms(1,2)] rounds_half_up_nonneg [OF assms(2,1)] show ?thesis by blast
qed


section \<open>The formulas on payable days\<close>

text \<open>The range in which nothing overflows: an ordinary day of at most 24 hours, and minutes
  times base salary up to \<open>10^11\<close> (a whole day at a base of about 694,000 USD).\<close>

definition pay_range :: "i64 \<Rightarrow> i64 \<Rightarrow> i64 \<Rightarrow> bool" where
  "pay_range m base ord \<longleftrightarrow>
     0 \<le> m \<and> 0 \<le> base \<and> m * base \<le> 100000000000 \<and> 1 \<le> ord \<and> ord \<le> 1440"

lemma checked_mul_bounded:
  assumes "0 \<le> a" "a \<le> A" "0 \<le> b" "b \<le> B" "A * B \<le> i64_max"
  shows "checked_mul a b = Some (a * b) \<and> 0 \<le> a * b \<and> a * b \<le> A * B"
proof -
  have "a * b \<le> A * B" using assms by (intro mult_mono) auto
  moreover have "0 \<le> a * b" using assms by simp
  moreover from calculation have "in_i64 (a * b)"
    using assms(5) unfolding in_i64_def i64_min_def by linarith
  ultimately show ?thesis by (simp add: checked_mul_def)
qed

lemma denominators:
  assumes "1 \<le> ord" "ord \<le> 1440" "c \<in> {1, 100, 10000}"
  shows "i64_mul (i64_mul c (unit_den k ord)) ord = c * unit_den k ord * ord"
    and "0 < c * unit_den k ord * ord" and "c * unit_den k ord * ord \<le> 864000000"
proof -
  define D where "D = c * unit_den k ord"
  have D: "1 \<le> D" "D \<le> 600000" using assms(3) by (cases k; auto simp: D_def)+
  have "D * ord \<le> 600000 * 1440" "1 * 1 \<le> D * ord" using D assms by (intro mult_mono; simp)+
  moreover have "i64_mul c (unit_den k ord) = D"
    using D by (simp add: D_def i64_mul_exact in_i64_def i64_min_def i64_max_def)
  ultimately show "i64_mul (i64_mul c (unit_den k ord)) ord = c * unit_den k ord * ord"
    "0 < c * unit_den k ord * ord" "c * unit_den k ord * ord \<le> 864000000"
    unfolding D_def [symmetric] by (simp_all add: i64_mul_exact in_i64_def i64_min_def i64_max_def)
qed

lemma work_pay_half_up:
  assumes "pay_range m base ord"
  shows "\<exists>q. work_pay_cents m base ord k = Some q \<and> 0 \<le> q \<and>
    rounds_half_up (m * base * unit_num k ord) (unit_den k ord * ord) q"
proof -
  have b: "0 \<le> m * base" "m * base \<le> 100000000000" "1 \<le> ord" "ord \<le> 1440"
    using assms by (auto simp: pay_range_def)
  have cm: "checked_mul m base = Some (m * base)"
    using b by (simp add: checked_mul_def in_i64_def i64_min_def i64_max_def)
  have u: "0 \<le> unit_num k ord" "unit_num k ord \<le> 1440" using unit_num_bounds [of ord k] b by auto
  note n = checked_mul_bounded [OF b(1,2) u]
  note d = denominators [OF b(3,4), of 1 k]
  have "i64_mul (unit_den k ord) ord = unit_den k ord * ord"
    using d by (simp add: i64_mul_exact in_i64_def i64_min_def i64_max_def)
  with quotient_or_zero_half_up [of "m * base * unit_num k ord" "unit_den k ord * ord"] cm n d b
  show ?thesis by (auto simp: work_pay_cents_def i64_max_def split: prod.split)
qed

lemma pay_rangeD:
  assumes "pay_range m base ord"
  shows "0 \<le> m * base" "m * base \<le> 100000000000" "1 \<le> ord" "ord \<le> 1440"
    "checked_mul m base = Some (m * base)" "0 \<le> unit_num k ord" "unit_num k ord \<le> 1440"
proof -
  show b: "0 \<le> m * base" "m * base \<le> 100000000000" "1 \<le> ord" "ord \<le> 1440"
    using assms by (auto simp: pay_range_def)
  have "in_i64 (m * base)"
    using b unfolding in_i64_def i64_min_def i64_max_def by linarith
  then show "checked_mul m base = Some (m * base)" by (simp add: checked_mul_def)
  show "0 \<le> unit_num k ord" "unit_num k ord \<le> 1440"
    using unit_num_bounds [of ord k] b by auto
qed

text \<open>A formula with a percentage \<open>pct\<close> over a denominator factor \<open>c\<close>.\<close>

lemma premium_half_up:
  assumes "pay_range m base ord" "0 \<le> pct" "pct \<le> 27000" "c \<in> {1, 100, 10000}"
  shows "checked_mul (m * base * pct) (unit_num k ord) = Some (m * base * pct * unit_num k ord)"
    and "\<exists>q. quotient_or_zero (checked_add (m * base * pct * unit_num k ord)
              (i64_mul (i64_mul c (unit_den k ord)) ord sdiv 2)) (i64_mul (i64_mul c (unit_den k ord)) ord) = Some q
          \<and> 0 \<le> q \<and> rounds_half_up (m * base * pct * unit_num k ord) (c * unit_den k ord * ord) q"
proof -
  note p = pay_rangeD [OF assms(1)]
  have a: "0 \<le> m * base * pct" "m * base * pct \<le> 100000000000 * 27000"
    using p(1) assms(2) mult_mono [OF p(2) assms(3)] by simp_all
  note n = checked_mul_bounded [OF a p(6,7) [of k]]
  show "checked_mul (m * base * pct) (unit_num k ord) = Some (m * base * pct * unit_num k ord)"
    using n by (simp add: i64_max_def)
  have "0 \<le> m * base * pct * unit_num k ord"
    "m * base * pct * unit_num k ord + c * unit_den k ord * ord \<le> i64_max"
    using n denominators [OF p(3,4) assms(4), of k] by (auto simp: i64_max_def)
  with quotient_or_zero_half_up [of "m * base * pct * unit_num k ord" "c * unit_den k ord * ord"]
    denominators [OF p(3,4) assms(4), of k]
  show "\<exists>q. quotient_or_zero (checked_add (m * base * pct * unit_num k ord)
              (i64_mul (i64_mul c (unit_den k ord)) ord sdiv 2)) (i64_mul (i64_mul c (unit_den k ord)) ord) = Some q
          \<and> 0 \<le> q \<and> rounds_half_up (m * base * pct * unit_num k ord) (c * unit_den k ord * ord) q"
    by auto
qed

lemma checked_mul_pct:
  assumes "pay_range m base ord" "0 \<le> pct" "pct \<le> 27000"
  shows "checked_mul (m * base) pct = Some (m * base * pct)"
  using pay_rangeD(1,2) [OF assms(1)] checked_mul_bounded [of "m * base" 100000000000 pct 27000] assms(2,3)
  by (simp add: i64_max_def)

lemma night_premium_half_up:
  assumes "pay_range m base ord"
  shows "\<exists>q. night_premium_cents m base ord k = Some q \<and> 0 \<le> q \<and>
    rounds_half_up (m * base * 30 * unit_num k ord) (100 * unit_den k ord * ord) q"
  using premium_half_up [OF assms, of 30 100 k] checked_mul_pct [OF assms, of 30] pay_rangeD [OF assms]
  by (simp add: night_premium_cents_def Let_def case_prod_unfold)

lemma rest_day_surcharge_half_up:
  assumes "pay_range m base ord"
  shows "\<exists>q. rest_day_surcharge_cents m base ord k = Some q \<and> 0 \<le> q \<and>
    rounds_half_up (m * base * 50 * unit_num k ord) (100 * unit_den k ord * ord) q"
  using premium_half_up [OF assms, of 50 100 k] checked_mul_pct [OF assms, of 50] pay_rangeD [OF assms]
  by (simp add: rest_day_surcharge_cents_def Let_def case_prod_unfold)

lemma ot_pay_half_up:
  assumes "pay_range m base ord" "0 \<le> pct" "pct \<le> 180"
  shows "\<exists>q. ot_pay_cents m base ord k pct = Some q \<and> 0 \<le> q \<and>
    rounds_half_up (m * base * (150 * pct) * unit_num k ord) (10000 * unit_den k ord * ord) q"
proof -
  have "checked_mul (m * base * 150) pct = Some (m * base * (150 * pct))"
    using checked_mul_pct [OF assms(1), of "150 * pct"] assms(2,3)
    by (simp add: checked_mul_def mult.assoc split: if_splits)
  with premium_half_up [OF assms(1), of "150 * pct" 10000 k] checked_mul_pct [OF assms(1), of 150]
    pay_rangeD [OF assms(1)] assms(2,3)
  show ?thesis by (simp add: ot_pay_cents_def Let_def case_prod_unfold)
qed

lemma late_deduction_eq_work_pay: "late_deduction_cents = work_pay_cents"
  by (intro ext) (simp add: late_deduction_cents_def work_pay_cents_def)

lemma total_exact:
  assumes "\<forall>x \<in> {w, p, n, r, l}. 0 \<le> x \<and> x \<le> 1000000000000000000"
  shows "total_a_pagar_cents w p n r l = w + p + n + r - l"
  using assms by (simp add: total_a_pagar_cents_def saturating_add_exact saturating_sub_exact
      in_i64_def i64_min_def i64_max_def)

text \<open>C12. On every payable day each of the five amounts is its exact fraction (the base salary
  brought to one ordinary day, times the minutes, times the LOTTT percentage: 100, 30, 50,
  and for overtime 150 times the day's own premium) rounded to the nearest cent with halves
  upwards, with one division, and none of them panics or falls back to 0 by overflow.\<close>

theorem pay_rounds_half_up:
  assumes "pay_range m base ord" "0 \<le> pct" "pct \<le> 180"
  shows "\<exists>w p n r l.
    work_pay_cents m base ord k = Some w \<and> ot_pay_cents m base ord k pct = Some p \<and>
    night_premium_cents m base ord k = Some n \<and> rest_day_surcharge_cents m base ord k = Some r \<and>
    late_deduction_cents m base ord k = Some l \<and>
    rounds_half_up (m * base * unit_num k ord) (unit_den k ord * ord) w \<and>
    rounds_half_up (m * base * (150 * pct) * unit_num k ord) (10000 * unit_den k ord * ord) p \<and>
    rounds_half_up (m * base * 30 * unit_num k ord) (100 * unit_den k ord * ord) n \<and>
    rounds_half_up (m * base * 50 * unit_num k ord) (100 * unit_den k ord * ord) r \<and>
    rounds_half_up (m * base * unit_num k ord) (unit_den k ord * ord) l \<and>
    0 \<le> w \<and> 0 \<le> p \<and> 0 \<le> n \<and> 0 \<le> r \<and> 0 \<le> l"
  using work_pay_half_up [OF assms(1), of k] ot_pay_half_up [OF assms, of k]
    night_premium_half_up [OF assms(1), of k] rest_day_surcharge_half_up [OF assms(1), of k]
  unfolding late_deduction_eq_work_pay by auto

theorem pay_rounds_half_up_witness:
  "pay_range 60 5000 480 \<and> ot_pay_cents 60 5000 480 Daily 130 = Some 1219 \<and>
   rounds_half_up (60 * 5000 * (150 * 130)) (10000 * 480) 1219"
proof -
  have p: "pay_range 60 5000 480" by (simp add: pay_range_def)
  have e: "ot_pay_cents 60 5000 480 Daily 130 = Some 1219" by code_simp
  from pay_rounds_half_up [OF p, of 130 Daily] e p show ?thesis by auto
qed

text \<open>Pay never regresses: with the same salary, ordinary day and day type, more minutes never
  pay less, in any of the amounts, and a higher day premium never pays overtime less.\<close>

theorem pay_monotone:
  assumes "pay_range m' base ord" "0 \<le> m" "m \<le> m'" "0 \<le> pct" "pct \<le> pct'" "pct' \<le> 180"
  shows "\<exists>w w' p p' n n' r r'.
    work_pay_cents m base ord k = Some w \<and> work_pay_cents m' base ord k = Some w' \<and> w \<le> w' \<and>
    ot_pay_cents m base ord k pct = Some p \<and> ot_pay_cents m' base ord k pct' = Some p' \<and> p \<le> p' \<and>
    night_premium_cents m base ord k = Some n \<and> night_premium_cents m' base ord k = Some n' \<and> n \<le> n' \<and>
    rest_day_surcharge_cents m base ord k = Some r \<and> rest_day_surcharge_cents m' base ord k = Some r' \<and> r \<le> r'"
proof -
  have le: "m * base \<le> m' * base"
    using assms by (auto simp: pay_range_def intro: mult_right_mono)
  have p: "pay_range m base ord" using assms le by (auto simp: pay_range_def)
  note r = pay_rangeD [OF p] pay_rangeD [OF assms(1)]
  have u: "0 < unit_den k ord * ord" "0 < 100 * unit_den k ord * ord" "0 < 10000 * unit_den k ord * ord"
    using denominators(2) [OF r(3,4), of 1 k] denominators(2) [OF r(3,4), of 100 k]
      denominators(2) [OF r(3,4), of 10000 k] by auto
  have les: "m * base * unit_num k ord \<le> m' * base * unit_num k ord"
    "m * base * 30 * unit_num k ord \<le> m' * base * 30 * unit_num k ord"
    "m * base * 50 * unit_num k ord \<le> m' * base * 50 * unit_num k ord"
    "m * base * (150 * pct) * unit_num k ord \<le> m' * base * (150 * pct') * unit_num k ord"
    by (rule mult_right_mono [OF _ r(6)] le mult_right_mono [OF le] mult_mono [OF le] | use assms r(1) le in simp)+
  obtain w w' where "work_pay_cents m base ord k = Some w" "work_pay_cents m' base ord k = Some w'" "w \<le> w'"
    using work_pay_half_up [OF p, of k] work_pay_half_up [OF assms(1), of k]
      rounds_half_up_mono [OF u(1) les(1)] by blast
  moreover obtain x x' where "ot_pay_cents m base ord k pct = Some x" "ot_pay_cents m' base ord k pct' = Some x'" "x \<le> x'"
  proof -
    have "pct \<le> 180" "0 \<le> pct'" using assms by auto
    then show ?thesis
      using that ot_pay_half_up [OF p assms(4), of k] ot_pay_half_up [OF assms(1) _ assms(6), of k]
        rounds_half_up_mono [OF u(3) les(4)] by blast
  qed
  moreover obtain n n' where "night_premium_cents m base ord k = Some n" "night_premium_cents m' base ord k = Some n'" "n \<le> n'"
    using night_premium_half_up [OF p, of k] night_premium_half_up [OF assms(1), of k]
      rounds_half_up_mono [OF u(2) les(2)] by blast
  moreover obtain y y' where "rest_day_surcharge_cents m base ord k = Some y" "rest_day_surcharge_cents m' base ord k = Some y'" "y \<le> y'"
    using rest_day_surcharge_half_up [OF p, of k] rest_day_surcharge_half_up [OF assms(1), of k]
      rounds_half_up_mono [OF u(2) les(3)] by blast
  ultimately show ?thesis by blast
qed


theorem pay_monotone_witness:
  "\<exists>w w'. work_pay_cents 299 5000 480 Daily = Some w \<and> work_pay_cents 300 5000 480 Daily = Some w' \<and> w \<le> w'"
  using pay_monotone [of 300 5000 480 299 100 130 Daily] by (auto simp: pay_range_def)

text \<open>The unit of the salary loses no money (H-08): one hour at an hourly salary and one
  ordinary day at a daily salary pay the base salary to the cent, and thirty ordinary days at
  a monthly salary differ from it by at most 15 cents, the rounding of thirty days.\<close>

theorem salary_units_exact:
  assumes "pay_range ord base ord" "pay_range 60 base ord"
  shows "work_pay_cents 60 base ord Hourly = Some base \<and> work_pay_cents ord base ord Daily = Some base \<and>
    (\<exists>q. work_pay_cents ord base ord Monthly = Some q \<and> \<bar>30 * q - base\<bar> \<le> 15)"
proof (intro conjI)
  have o: "0 < ord" using assms(1) by (simp add: pay_range_def)
  from work_pay_half_up [OF assms(2), of Hourly] obtain h where h: "work_pay_cents 60 base ord Hourly = Some h"
    "rounds_half_up (60 * base * ord) (60 * ord) h" by auto
  have "h = base"
    using rounds_half_up_unique [OF _ h(2), of base] rounds_half_up_exact [of "60 * ord" base] o
    by (simp add: mult.commute mult.left_commute)
  with h show "work_pay_cents 60 base ord Hourly = Some base" by simp
  from work_pay_half_up [OF assms(1), of Daily] obtain d where d: "work_pay_cents ord base ord Daily = Some d"
    "rounds_half_up (ord * base) ord d" by auto
  have "d = base" using rounds_half_up_unique [OF o d(2)] rounds_half_up_exact [OF o] by simp
  with d show "work_pay_cents ord base ord Daily = Some base" by simp
  from work_pay_half_up [OF assms(1), of Monthly] obtain q where q: "work_pay_cents ord base ord Monthly = Some q"
    "rounds_half_up (ord * base) (30 * ord) q" by auto
  have "ord * (30 * (2 * q)) \<le> ord * (2 * base + 30)" "ord * (2 * base + 30) < ord * (30 * (2 * (q + 1)))"
    using q(2) by (auto simp: rounds_half_up_def algebra_simps)
  then have "60 * q \<le> 2 * base + 30" "2 * base + 30 < 60 * q + 60"
    using o by (simp_all add: mult_le_cancel_left mult_less_cancel_left)
  then have "\<bar>30 * q - base\<bar> \<le> 15" by linarith
  with q show "\<exists>q. work_pay_cents ord base ord Monthly = Some q \<and> \<bar>30 * q - base\<bar> \<le> 15" by blast
qed

theorem salary_units_exact_witness:
  "work_pay_cents 60 1250 480 Hourly = Some 1250 \<and> work_pay_cents 480 1250 480 Monthly = Some 42"
proof -
  have "work_pay_cents 480 1250 480 Monthly = Some 42" by code_simp
  with salary_units_exact [of 480 1250] show ?thesis by (simp add: pay_range_def)
qed

end
