(* ===== verification/Calendar.thy ===== *)
theory Calendar
  imports Prelude
begin

text \<open>
  The part of the \<open>chrono\<close> and \<open>chrono-tz\<close> crates the backend relies on.  Both are
  third-party code, so their functions are the fields of the records \<open>chrono\<close> and
  \<open>tzinfo\<close>, parameters of every definition that uses them; the locale
  \<open>chrono_calendar\<close> names the documented behaviour the proofs need.  A
  \<open>NaiveDate\<close> is its day number (days since 1970-01-01), a \<open>NaiveDateTime\<close> the
  second count \<open>86400 * date + seconds since midnight\<close>.  The last section shows
  that the proleptic Gregorian calendar satisfies the locale.
\<close>

type_synonym date = int
type_synonym naive_dt = int

datatype local_result = Single i64 | Ambiguous i64 i64 | NoLocal

record chrono =
  weekday_mon :: "date \<Rightarrow> nat"
  ymd :: "date \<Rightarrow> int \<times> nat \<times> nat"
  of_ymd :: "int \<Rightarrow> nat \<Rightarrow> nat \<Rightarrow> date option"
  parse_date :: "string \<Rightarrow> date option"
  format_date :: "date \<Rightarrow> string"
  parse_hm :: "string \<Rightarrow> int option"
  min_date :: date
  max_date :: date

record tzinfo =
  from_local :: "naive_dt \<Rightarrow> local_result"
  local_date :: "i64 \<Rightarrow> date"

definition date_ok :: "chrono \<Rightarrow> date \<Rightarrow> bool" where
  "date_ok c d \<longleftrightarrow> min_date c \<le> d \<and> d \<le> max_date c"

text \<open>\<open>succ_opt\<close>, \<open>pred_opt\<close>, and the panicking \<open>date + Duration::days(n)\<close>.\<close>

definition date_add :: "chrono \<Rightarrow> date \<Rightarrow> int \<Rightarrow> date option" where
  "date_add c d n = (if date_ok c (d + n) then Some (d + n) else None)"

definition ndt_add :: "chrono \<Rightarrow> naive_dt \<Rightarrow> int \<Rightarrow> naive_dt option" where
  "ndt_add c t s = (if date_ok c ((t + s) div 86400) then Some (t + s) else None)"

definition is_weekend :: "chrono \<Rightarrow> date \<Rightarrow> bool" where
  "is_weekend c d \<longleftrightarrow> weekday_mon c d = 5 \<or> weekday_mon c d = 6"

locale chrono_calendar =
  fixes c :: chrono
  assumes weekday_range: "weekday_mon c d < 7"
    and weekday_succ: "weekday_mon c (d + 1) = (weekday_mon c d + 1) mod 7"
    and month_range: "date_ok c d \<Longrightarrow> ymd c d = (y, m, k) \<Longrightarrow> 1 \<le> m \<and> m \<le> 12 \<and> 1 \<le> k"
    and month_day: "date_ok c d \<Longrightarrow> ymd c d = (y, m, k) \<Longrightarrow> 1 \<le> j \<Longrightarrow> j \<le> 28 \<Longrightarrow>
      of_ymd c y m j = Some (d - int k + int j)"
    and next_month: "date_ok c d \<Longrightarrow> date_ok c (d + 31) \<Longrightarrow> ymd c d = (y, m, k) \<Longrightarrow>
      \<exists>len. 28 \<le> len \<and> len \<le> 31 \<and> int k \<le> len \<and>
        of_ymd c (if m = 12 then y + 1 else y) (if m = 12 then 1 else m + 1) 1
          = Some (d - int k + 1 + len)"
    and year_start: "date_ok c d \<Longrightarrow> ymd c d = (y, m, k) \<Longrightarrow>
      \<exists>s. of_ymd c y 1 1 = Some s \<and> s \<le> d \<and> d < s + 366"
begin

lemma weekday_add: "weekday_mon c (d + int n) = (weekday_mon c d + n) mod 7"
proof (induction n)
  case 0
  then show ?case using weekday_range [of d] by simp
next
  case (Suc n)
  have "weekday_mon c (d + int (Suc n)) = weekday_mon c ((d + int n) + 1)"
    by (simp add: algebra_simps)
  then show ?case by (simp add: weekday_succ Suc mod_Suc_eq)
qed

lemma weekday_of_monday: "weekday_mon c (d - int (weekday_mon c d)) = 0"
proof -
  define m where "m = d - int (weekday_mon c d)"
  have lt: "weekday_mon c m < 7" "weekday_mon c d < 7" by (rule weekday_range)+
  have "weekday_mon c d = (weekday_mon c m + weekday_mon c d) mod 7"
    using weekday_add [of m "weekday_mon c d"] by (simp add: m_def)
  with lt have "weekday_mon c m = 0" by presburger
  then show ?thesis by (simp add: m_def)
qed

lemma seven_consecutive_weekend:
  "weekday_mon c m = 0 \<Longrightarrow> n < 7 \<Longrightarrow> is_weekend c (m + int n) \<longleftrightarrow> n = 5 \<or> n = 6"
  by (simp add: is_weekend_def weekday_add)

end

section \<open>The proleptic Gregorian calendar\<close>

definition leap :: "int \<Rightarrow> bool" where
  "leap y \<longleftrightarrow> y mod 4 = 0 \<and> (y mod 100 \<noteq> 0 \<or> y mod 400 = 0)"

definition year_begin :: "int \<Rightarrow> int" where
  "year_begin y = 365 * (y - 1970) + (y - 1) div 4 - (y - 1) div 100 + (y - 1) div 400 - 477"

definition month_begin :: "bool \<Rightarrow> nat \<Rightarrow> int" where
  "month_begin l m =
     (let b = (if l then 1 else 0) in
      if m \<le> 1 then 0 else if m = 2 then 31 else
      if m = 3 then 59 + b else if m = 4 then 90 + b else if m = 5 then 120 + b else
      if m = 6 then 151 + b else if m = 7 then 181 + b else if m = 8 then 212 + b else
      if m = 9 then 243 + b else if m = 10 then 273 + b else if m = 11 then 304 + b else
      if m = 12 then 334 + b else 365 + b)"

definition year_of :: "date \<Rightarrow> int" where
  "year_of n =
     (let y = 1970 + n * 400 div 146097 in
      if n < year_begin y then y - 1 else if year_begin (y + 1) \<le> n then y + 1 else y)"

definition month_of :: "bool \<Rightarrow> int \<Rightarrow> nat" where
  "month_of l k =
     (if k < month_begin l 2 then 1 else if k < month_begin l 3 then 2 else
      if k < month_begin l 4 then 3 else if k < month_begin l 5 then 4 else
      if k < month_begin l 6 then 5 else if k < month_begin l 7 then 6 else
      if k < month_begin l 8 then 7 else if k < month_begin l 9 then 8 else
      if k < month_begin l 10 then 9 else if k < month_begin l 11 then 10 else
      if k < month_begin l 12 then 11 else 12)"

definition greg_ymd :: "date \<Rightarrow> int \<times> nat \<times> nat" where
  "greg_ymd d =
     (let y = year_of d; k = d - year_begin y; m = month_of (leap y) k
      in (y, m, nat (k - month_begin (leap y) m) + 1))"

definition greg_of_ymd :: "int \<Rightarrow> nat \<Rightarrow> nat \<Rightarrow> date option" where
  "greg_of_ymd y m k =
     (if - 262143 \<le> y \<and> y \<le> 262142 \<and> 1 \<le> m \<and> m \<le> 12 \<and> 1 \<le> k \<and>
         int k \<le> month_begin (leap y) (m + 1) - month_begin (leap y) m
      then Some (year_begin y + month_begin (leap y) m + int k - 1) else None)"

fun digit :: "char \<Rightarrow> int option" where
  "digit ch = (let n = int (of_char ch :: nat) in
     if 48 \<le> n \<and> n \<le> 57 then Some (n - 48) else None)"

fun digits_val :: "int \<Rightarrow> string \<Rightarrow> int option" where
  "digits_val acc [] = Some acc"
| "digits_val acc (ch # s) =
     (case digit ch of None \<Rightarrow> None | Some n \<Rightarrow> digits_val (10 * acc + n) s)"

definition greg_parse_date :: "string \<Rightarrow> date option" where
  "greg_parse_date s =
     (if length s = 10 \<and> s ! 4 = CHR ''-'' \<and> s ! 7 = CHR ''-''
      then Option.bind (digits_val 0 (take 4 s)) (\<lambda>y.
           Option.bind (digits_val 0 (take 2 (drop 5 s))) (\<lambda>m.
           Option.bind (digits_val 0 (drop 8 s)) (\<lambda>k. greg_of_ymd y (nat m) (nat k))))
      else None)"

definition digit_char :: "int \<Rightarrow> char" where
  "digit_char n = char_of (nat (n + 48))"

definition pad2 :: "int \<Rightarrow> string" where
  "pad2 n = [digit_char (n div 10 mod 10), digit_char (n mod 10)]"

definition greg_format_date :: "date \<Rightarrow> string" where
  "greg_format_date d =
     (case greg_ymd d of (y, m, k) \<Rightarrow>
        pad2 (y div 100) @ pad2 y @ ''-'' @ pad2 (int m) @ ''-'' @ pad2 (int k))"

definition greg_parse_hm :: "string \<Rightarrow> int option" where
  "greg_parse_hm s =
     (if length s = 5 \<and> s ! 2 = CHR '':''
      then Option.bind (digits_val 0 (take 2 s)) (\<lambda>h.
           Option.bind (digits_val 0 (drop 3 s)) (\<lambda>m.
             if h < 24 \<and> m < 60 then Some (h * 3600 + m * 60) else None))
      else None)"

definition gregorian :: chrono where
  "gregorian = \<lparr>weekday_mon = (\<lambda>d. nat ((d + 3) mod 7)), ymd = greg_ymd,
     of_ymd = greg_of_ymd, parse_date = greg_parse_date, format_date = greg_format_date,
     parse_hm = greg_parse_hm,
     min_date = year_begin (- 262143), max_date = year_begin 262143 - 1\<rparr>"

text \<open>A zone with a constant offset, such as America/Caracas (UTC-4, no DST since 2016).\<close>

definition fixed_zone :: "i64 \<Rightarrow> tzinfo" where
  "fixed_zone off = \<lparr>from_local = (\<lambda>t. Single (t - off)), local_date = (\<lambda>e. (e + off) div 86400)\<rparr>"

abbreviation caracas :: tzinfo where
  "caracas \<equiv> fixed_zone (- 14400)"

lemma month_begin_simps [simp]:
  "month_begin l 1 = 0" "month_begin l (Suc 0) = 0" "month_begin l 2 = 31"
  by (simp_all add: month_begin_def)

lemma div_step:
  fixes n y :: int
  assumes n: "0 < n"
  shows "y div n - (y - 1) div n = (if y mod n = 0 then 1 else 0)"
proof (cases "y mod n = 0")
  case True
  then obtain q where q: "y = n * q" by (auto elim: dvdE)
  have "(y - 1) div n = q - 1"
    by (rule int_div_pos_eq [where r = "n - 1"]) (use n q in \<open>simp_all add: algebra_simps\<close>)
  with q n show ?thesis by simp
next
  case False
  have "(y - 1) div n = y div n"
  proof (rule int_div_pos_eq)
    show "y - 1 = n * (y div n) + (y mod n - 1)" by simp
    show "0 \<le> y mod n - 1" using False pos_mod_sign [OF n, of y] by linarith
    show "y mod n - 1 < n" using pos_mod_bound [OF n, of y] by linarith
  qed
  with False show ?thesis by simp
qed

lemma year_begin_Suc: "year_begin (y + 1) = year_begin y + (if leap y then 366 else 365)"
proof -
  have "year_begin (y + 1) = year_begin y + 365 + (y div 4 - (y - 1) div 4)
      - (y div 100 - (y - 1) div 100) + (y div 400 - (y - 1) div 400)"
    by (simp add: year_begin_def)
  also have "y div 4 - (y - 1) div 4 = (if y mod 4 = 0 then 1 else 0)" by (rule div_step) simp
  also have "y div 100 - (y - 1) div 100 = (if y mod 100 = 0 then 1 else 0)" by (rule div_step) simp
  also have "y div 400 - (y - 1) div 400 = (if y mod 400 = 0 then 1 else 0)" by (rule div_step) simp
  finally have eq: "year_begin (y + 1) = year_begin y + 365 + (if y mod 4 = 0 then 1 else 0)
      - (if y mod 100 = 0 then 1 else 0) + (if y mod 400 = 0 then 1 else 0)" .
  have "400 dvd y \<Longrightarrow> 100 dvd y" "100 dvd y \<Longrightarrow> 4 dvd y"
    by (erule dvd_trans [rotated], simp)+
  with eq show ?thesis
    by (cases "4 dvd y"; cases "100 dvd y"; cases "400 dvd y") (simp_all only: leap_def mod_eq_0_iff_dvd, simp_all)
qed

lemma year_begin_mono: "x \<le> y \<Longrightarrow> year_begin x \<le> year_begin y"
  by (induction y rule: int_ge_induct) (auto simp: year_begin_Suc)

lemma year_begin_bounds:
  "146097 * (y - 1970) - 506 \<le> 400 * year_begin y \<and> 400 * year_begin y \<le> 146097 * (y - 1970) + 589"
proof -
  define q1 q2 q3 where q: "q1 = (y - 1) div 4" "q2 = (y - 1) div 100" "q3 = (y - 1) div 400"
  define r1 r2 r3 where r: "r1 = (y - 1) mod 4" "r2 = (y - 1) mod 100" "r3 = (y - 1) mod 400"
  have e: "y - 1 = 4 * q1 + r1" "y - 1 = 100 * q2 + r2" "y - 1 = 400 * q3 + r3"
    by (simp_all add: q r)
  have b: "0 \<le> r1" "r1 < 4" "0 \<le> r2" "r2 < 100" "0 \<le> r3" "r3 < 400"
    by (simp_all add: r)
  have "year_begin y = 365 * (y - 1970) + q1 - q2 + q3 - 477"
    by (simp add: year_begin_def q)
  then have "400 * year_begin y
      = 146000 * (y - 1970) + 100 * (y - 1 - r1) - 4 * (y - 1 - r2) + (y - 1 - r3) - 190800"
    using e by (simp add: algebra_simps)
  with b show ?thesis by (simp add: algebra_simps)
qed

lemma year_of_bracket: "year_begin (year_of n) \<le> n \<and> n < year_begin (year_of n + 1)"
proof -
  define z where "z = n * 400 div 146097"
  have q: "146097 * z \<le> 400 * n" "400 * n < 146097 * z + 146097"
    using mult_div_mod_eq [of 146097 "n * 400"] pos_mod_bound [of 146097 "n * 400"]
      pos_mod_sign [of 146097 "n * 400"] by (simp_all add: z_def)
  have lo: "year_begin (1970 + z - 1) \<le> n"
    using q(1) year_begin_bounds [of "1970 + z - 1"] by simp
  have hi: "n < year_begin (1970 + z + 2)"
    using q(2) year_begin_bounds [of "1970 + z + 2"] by simp
  show ?thesis
    using lo hi unfolding year_of_def z_def [symmetric] Let_def
    by (auto simp: algebra_simps)
qed

lemma month_of_bracket:
  assumes "0 \<le> k" and "k < (if l then 366 else 365)"
  shows "1 \<le> month_of l k \<and> month_of l k \<le> 12 \<and> month_begin l (month_of l k) \<le> k
    \<and> k < month_begin l (month_of l k + 1)"
  using assms unfolding month_of_def month_begin_def Let_def
  by (cases l) (simp_all split: if_splits)

lemma month_length:
  "1 \<le> m \<Longrightarrow> m \<le> 12 \<Longrightarrow>
    28 \<le> month_begin l (m + 1) - month_begin l m \<and> month_begin l (m + 1) - month_begin l m \<le> 31"
  unfolding month_begin_def Let_def by (auto simp: le_Suc_eq numeral_eq_Suc)

lemma greg_ymd_parts:
  assumes "greg_ymd d = (y, m, k)"
  shows "y = year_of d" "1 \<le> m" "m \<le> 12" "1 \<le> k"
    "d = year_begin y + month_begin (leap y) m + int k - 1"
    "int k \<le> month_begin (leap y) (m + 1) - month_begin (leap y) m"
proof -
  define j where "j = d - year_begin (year_of d)"
  have y: "y = year_of d" and m: "m = month_of (leap (year_of d)) j"
    and k: "k = nat (j - month_begin (leap (year_of d)) m) + 1"
    using assms by (auto simp: greg_ymd_def Let_def j_def)
  have "0 \<le> j" "j < (if leap (year_of d) then 366 else 365)"
    using year_of_bracket [of d] by (simp_all add: j_def year_begin_Suc)
  note br = month_of_bracket [OF this]
  show "y = year_of d" "1 \<le> m" "m \<le> 12" "1 \<le> k"
    "d = year_begin y + month_begin (leap y) m + int k - 1"
    "int k \<le> month_begin (leap y) (m + 1) - month_begin (leap y) m"
    using br by (auto simp: y m k j_def)
qed

lemma gregorian_sel [simp]:
  "weekday_mon gregorian d = nat ((d + 3) mod 7)" "ymd gregorian = greg_ymd"
  "of_ymd gregorian = greg_of_ymd" "parse_date gregorian = greg_parse_date"
  "format_date gregorian = greg_format_date" "parse_hm gregorian = greg_parse_hm"
  "date_ok gregorian d \<longleftrightarrow> year_begin (- 262143) \<le> d \<and> d < year_begin 262143"
  by (auto simp: gregorian_def date_ok_def)

lemma year_of_range:
  assumes "date_ok gregorian d"
  shows "- 262143 \<le> year_of d" "year_of d \<le> 262142"
proof -
  have "year_begin (- 262143) < year_begin (year_of d + 1)"
    "year_begin (year_of d) < year_begin 262143"
    using assms year_of_bracket [of d] by auto
  then have "\<not> year_of d + 1 \<le> - 262143" "\<not> 262143 \<le> year_of d"
    using year_begin_mono linorder_not_less by blast+
  then show "- 262143 \<le> year_of d" "year_of d \<le> 262142" by auto
qed

interpretation greg: chrono_calendar gregorian
proof
  fix d y m k j
  show "weekday_mon gregorian d < 7" by simp
  have "(d + 4) mod 7 = ((d + 3) mod 7 + 1) mod 7" by presburger
  then show "weekday_mon gregorian (d + 1) = (weekday_mon gregorian d + 1) mod 7"
    by (simp add: nat_mod_distrib nat_add_distrib algebra_simps)
  assume ok: "date_ok gregorian d" and "ymd gregorian d = (y, m, k)"
  then have e: "greg_ymd d = (y, m, k)" by simp
  note p = greg_ymd_parts [OF e] and ml = month_length [OF greg_ymd_parts(2,3) [OF e]]
  note yr = year_of_range [OF ok]
  show "1 \<le> m \<and> m \<le> 12 \<and> 1 \<le> k" using p by simp
  show "of_ymd gregorian y m j = Some (d - int k + int j)" if "1 \<le> j" "j \<le> 28"
    using that p yr ml [of "leap y"] by (simp add: greg_of_ymd_def)
  show "\<exists>s. of_ymd gregorian y 1 1 = Some s \<and> s \<le> d \<and> d < s + 366"
    using yr year_of_bracket [of d] p(1) month_length [of 1 "leap y"]
    by (auto simp: greg_of_ymd_def year_begin_Suc split: if_splits)
  assume ok2: "date_ok gregorian (d + 31)"
  define len where "len = month_begin (leap y) (m + 1) - month_begin (leap y) m"
  have len: "28 \<le> len" "len \<le> 31" "int k \<le> len"
    using ml [of "leap y"] p(6) by (simp_all add: len_def)
  have "of_ymd gregorian (if m = 12 then y + 1 else y) (if m = 12 then 1 else m + 1) 1
      = Some (d - int k + 1 + len)"
  proof (cases "m = 12")
    case False
    with p yr show ?thesis
      using month_length [of "m + 1" "leap y"] by (simp add: greg_of_ymd_def len_def)
  next
    case True
    have "month_begin (leap y) 13 = (if leap y then 366 else 365)"
      by (simp add: month_begin_def)
    then have eq: "year_begin (y + 1) = d - int k + 1 + len"
      using p(5) True by (simp add: year_begin_Suc len_def)
    then have "year_begin (y + 1) \<le> d + 31" using len p(4) by simp
    then have "\<not> 262143 \<le> y + 1"
      using ok2 year_begin_mono [of 262143 "y + 1"] by auto
    with True eq yr p(1) month_length [of 1 "leap (y + 1)"] show ?thesis
      by (simp add: greg_of_ymd_def)
  qed
  with len show "\<exists>len. 28 \<le> len \<and> len \<le> 31 \<and> int k \<le> len \<and>
      of_ymd gregorian (if m = 12 then y + 1 else y) (if m = 12 then 1 else m + 1) 1
        = Some (d - int k + 1 + len)"
    by blast
qed

lemma date_ok_gregorian_near: "\<bar>d\<bar> \<le> 1000000 \<Longrightarrow> date_ok gregorian d"
  by (auto simp: year_begin_def abs_le_iff)

end
