(* ===== verification/Periods.thy ===== *)
theory Periods
  imports Calendar App_Error
begin

text \<open>
  Period boundaries (reports/periods.rs): the presets, their resolution against a
  reference date (\<open>None\<close> is chrono's panic on a date out of range), and the parsing of
  the request's strings.
\<close>

datatype period_preset = Weekly | BiweeklyFirst | BiweeklySecond | PeriodMonthly | Custom date date

definition last_day_of_month :: "chrono \<Rightarrow> int \<Rightarrow> nat \<Rightarrow> date option" where
  "last_day_of_month c year month = do {
     let (next_year, next_month) = (if month = 12 then (year + 1, 1) else (year, month + 1));
     d \<leftarrow> of_ymd c next_year next_month 1;
     date_add c d (- 1) }"

fun resolve_period :: "chrono \<Rightarrow> period_preset \<Rightarrow> date \<Rightarrow> (date \<times> date) option" where
  "resolve_period c Weekly ref_date = do {
     mon \<leftarrow> date_add c ref_date (- int (weekday_mon c ref_date));
     sun \<leftarrow> date_add c mon 6;
     Some (mon, sun) }"
| "resolve_period c BiweeklyFirst ref_date = (case ymd c ref_date of (year, month, _) \<Rightarrow> do {
     first \<leftarrow> of_ymd c year month 1;
     fifteenth \<leftarrow> of_ymd c year month 15;
     Some (first, fifteenth) })"
| "resolve_period c BiweeklySecond ref_date = (case ymd c ref_date of (year, month, _) \<Rightarrow> do {
     sixteenth \<leftarrow> of_ymd c year month 16;
     eom \<leftarrow> last_day_of_month c year month;
     Some (sixteenth, eom) })"
| "resolve_period c PeriodMonthly ref_date = (case ymd c ref_date of (year, month, _) \<Rightarrow> do {
     first \<leftarrow> of_ymd c year month 1;
     eom \<leftarrow> last_day_of_month c year month;
     Some (first, eom) })"
| "resolve_period c (Custom f t) ref_date = Some (f, t)"

definition parse_period :: "chrono \<Rightarrow> string \<Rightarrow> string \<Rightarrow> string \<Rightarrow> period_preset result" where
  "parse_period c period_type from_date to_date =
     (case parse_date c from_date of
        None \<Rightarrow> Inl (Validation ''VALIDATION_ERROR'' ''from_date must be YYYY-MM-DD'')
      | Some from \<Rightarrow>
        (case parse_date c to_date of
           None \<Rightarrow> Inl (Validation ''VALIDATION_ERROR'' ''to_date must be YYYY-MM-DD'')
         | Some to \<Rightarrow>
             if period_type = ''weekly'' then Inr Weekly
             else if period_type = ''biweekly_first'' then Inr BiweeklyFirst
             else if period_type = ''biweekly_second'' then Inr BiweeklySecond
             else if period_type = ''monthly'' then Inr PeriodMonthly
             else if period_type = ''custom'' then Inr (Custom from to)
             else Inl (Validation ''VALIDATION_ERROR'' (''Unknown period_type: '' @ period_type))))"

section \<open>Boundaries\<close>

context chrono_calendar
begin

lemma date_add_ok: "date_ok c a \<Longrightarrow> date_ok c b \<Longrightarrow> a \<le> d + n \<Longrightarrow> d + n \<le> b \<Longrightarrow> date_add c d n = Some (d + n)"
  by (auto simp: date_add_def date_ok_def)

lemma week_contains:
  assumes "date_ok c (d - 6)" "date_ok c (d + 6)"
  shows "resolve_period c Weekly d = Some (d - int (weekday_mon c d), d - int (weekday_mon c d) + 6)"
proof -
  have "weekday_mon c d < 7" by (rule weekday_range)
  then show ?thesis using assms by (simp add: date_add_ok [OF assms])
qed

lemma month_resolved:
  assumes "date_ok c (d - 31)" "date_ok c (d + 31)" "ymd c d = (y, m, k)"
  shows "\<exists>len. 28 \<le> len \<and> len \<le> 31 \<and> int k \<le> len \<and> 1 \<le> k \<and> of_ymd c y m 1 = Some (d - int k + 1) \<and>
    of_ymd c y m 15 = Some (d - int k + 15) \<and> of_ymd c y m 16 = Some (d - int k + 16) \<and>
    last_day_of_month c y m = Some (d - int k + len)"
proof -
  have ok: "date_ok c d" using assms by (auto simp: date_ok_def)
  note r = month_range [OF ok assms(3)]
  obtain len where len: "28 \<le> len" "len \<le> 31" "int k \<le> len"
    "of_ymd c (if m = 12 then y + 1 else y) (if m = 12 then 1 else m + 1) 1 = Some (d - int k + 1 + len)"
    using next_month [OF ok assms(2,3)] by auto
  have "date_add c (d - int k + 1 + len) (- 1) = Some (d - int k + len)"
    using date_add_ok [OF assms(1,2), of "d - int k + 1 + len" "- 1"] len r by simp
  then have "last_day_of_month c y m = Some (d - int k + len)"
    using len(4) by (auto simp: last_day_of_month_def)
  with len r month_day [OF ok assms(3)] show ?thesis by (intro exI [of _ len]) simp
qed

lemma week_stable:
  assumes "date_ok c (d - 31)" "date_ok c (d + 31)" "mon = d - int (weekday_mon c d)" "mon \<le> e" "e \<le> mon + 6"
  shows "resolve_period c Weekly e = Some (mon, mon + 6)"
proof -
  have "weekday_mon c (mon + int (nat (e - mon))) = nat (e - mon)"
    using assms(4,5) weekday_of_monday [of d] unfolding weekday_add assms(3) by simp
  then have "weekday_mon c e = nat (e - mon)" using assms(4) by simp
  moreover have "date_ok c (e - 6)" "date_ok c (e + 6)"
    using assms weekday_range [of d] by (auto simp: date_ok_def)
  ultimately show ?thesis using week_contains [of e] assms(4) by simp
qed

end

text \<open>The presets resolve to the payroll periods they name: the week is the Monday to Sunday that
  contains the reference date, and every date of it resolves to the same week; the two
  fortnights are adjacent, 1st to 15th and 16th to the end of the month, together they are
  exactly the month, and the reference date lies in it.  None of the presets panics.\<close>

theorem periods_partition:
  assumes "chrono_calendar c" "date_ok c (d - 31)" "date_ok c (d + 31)"
  shows "(\<exists>mon. weekday_mon c mon = 0 \<and> mon \<le> d \<and> d \<le> mon + 6 \<and>
      (\<forall>e. mon \<le> e \<and> e \<le> mon + 6 \<longrightarrow> resolve_period c Weekly e = Some (mon, mon + 6))) \<and>
    (\<exists>first eom. resolve_period c BiweeklyFirst d = Some (first, first + 14) \<and>
      resolve_period c BiweeklySecond d = Some (first + 15, eom) \<and>
      resolve_period c PeriodMonthly d = Some (first, eom) \<and>
      first + 27 \<le> eom \<and> eom \<le> first + 30 \<and> first \<le> d \<and> d \<le> eom)"
proof
  define mon where "mon = d - int (weekday_mon c d)"
  have "mon \<le> d" "d \<le> mon + 6" "weekday_mon c mon = 0"
    using chrono_calendar.weekday_range [OF assms(1), of d]
      chrono_calendar.weekday_of_monday [OF assms(1), of d] by (simp_all add: mon_def)
  with chrono_calendar.week_stable [OF assms mon_def]
  show "\<exists>mon. weekday_mon c mon = 0 \<and> mon \<le> d \<and> d \<le> mon + 6 \<and>
      (\<forall>e. mon \<le> e \<and> e \<le> mon + 6 \<longrightarrow> resolve_period c Weekly e = Some (mon, mon + 6))" by blast
  obtain y m k where "ymd c d = (y, m, k)" by (cases "ymd c d")
  with chrono_calendar.month_resolved [OF assms this] obtain len where
    "28 \<le> len" "len \<le> 31" "int k \<le> len" "1 \<le> k" "of_ymd c y m 1 = Some (d - int k + 1)"
    "of_ymd c y m 15 = Some (d - int k + 15)" "of_ymd c y m 16 = Some (d - int k + 16)"
    "last_day_of_month c y m = Some (d - int k + len)" "ymd c d = (y, m, k)" by auto
  then show "\<exists>first eom. resolve_period c BiweeklyFirst d = Some (first, first + 14) \<and>
      resolve_period c BiweeklySecond d = Some (first + 15, eom) \<and>
      resolve_period c PeriodMonthly d = Some (first, eom) \<and>
      first + 27 \<le> eom \<and> eom \<le> first + 30 \<and> first \<le> d \<and> d \<le> eom"
    by (intro exI [of _ "d - int k + 1"] exI [of _ "d - int k + len"]) simp
qed

theorem periods_partition_witness:
  "resolve_period gregorian Weekly 20568 = Some (20563, 20569) \<and>
   (\<exists>first eom. resolve_period gregorian BiweeklyFirst 20568 = Some (first, first + 14) \<and> first \<le> 20568)"
proof -
  have "date_ok gregorian (20568 - 31)" "date_ok gregorian (20568 + 31)" by (simp_all add: year_begin_def)
  note p = periods_partition [OF greg.chrono_calendar_axioms this]
  have "resolve_period gregorian Weekly 20568 = Some (20563, 20569)" by code_simp
  with p show ?thesis by auto
qed

lemma parse_period_ok:
  "parse_period c ty f t = Inr p \<Longrightarrow> \<exists>df dt. parse_date c f = Some df \<and> parse_date c t = Some dt \<and>
    (p = Custom df dt \<and> ty = ''custom'' \<or> p \<in> {Weekly, BiweeklyFirst, BiweeklySecond, PeriodMonthly})"
  by (auto simp: parse_period_def split: option.splits if_splits)

lemma parse_period_error:
  "parse_period c ty f t = Inl e \<Longrightarrow> fst (into_response e) = 422 \<and> fst (snd (into_response e)) = ''VALIDATION_ERROR''"
  by (auto simp: parse_period_def split: option.splits if_splits)

end
