(* ===== verification/Calc_Models.thy ===== *)
theory Calc_Models
  imports Calendar
begin

text \<open>
  The data of the calculation engine: calc/models.rs and calc/anomalies.rs.  Record
  fields carry the Rust names, with a prefix where several structs use the same one.
\<close>

datatype anomaly_code =
    MissingEntry
  | MissingExit
  | UnknownFaceInWindow
  | LunchPunchMissing
  | OtCapExceededDaily
  | OtCapExceededWeekly
  | OtCapExceededAnnual
  | EventsOnLeaveDay
  | RecomputeAfterEdit
  | OvernightInferenceAmbiguous

fun anomaly_as_str :: "anomaly_code \<Rightarrow> string" where
  "anomaly_as_str MissingEntry = ''MISSING_ENTRY''"
| "anomaly_as_str MissingExit = ''MISSING_EXIT''"
| "anomaly_as_str UnknownFaceInWindow = ''UNKNOWN_FACE_IN_WINDOW''"
| "anomaly_as_str LunchPunchMissing = ''LUNCH_PUNCH_MISSING''"
| "anomaly_as_str OtCapExceededDaily = ''OT_CAP_EXCEEDED_DAILY''"
| "anomaly_as_str OtCapExceededWeekly = ''OT_CAP_EXCEEDED_WEEKLY''"
| "anomaly_as_str OtCapExceededAnnual = ''OT_CAP_EXCEEDED_ANNUAL''"
| "anomaly_as_str EventsOnLeaveDay = ''EVENTS_ON_LEAVE_DAY''"
| "anomaly_as_str RecomputeAfterEdit = ''RECOMPUTE_AFTER_EDIT''"
| "anomaly_as_str OvernightInferenceAmbiguous = ''OVERNIGHT_INFERENCE_AMBIGUOUS''"

text \<open>The CHECK constraint of migration 008 on \<open>daily_record_anomalies.code\<close>.\<close>

definition anomaly_check :: "string list" where
  "anomaly_check =
     [''MISSING_ENTRY'', ''MISSING_EXIT'', ''UNKNOWN_FACE_IN_WINDOW'', ''LUNCH_PUNCH_MISSING'',
      ''OT_CAP_EXCEEDED_DAILY'', ''OT_CAP_EXCEEDED_WEEKLY'', ''OT_CAP_EXCEEDED_ANNUAL'',
      ''EVENTS_ON_LEAVE_DAY'', ''RECOMPUTE_AFTER_EDIT'', ''OVERNIGHT_INFERENCE_AMBIGUOUS'']"

record attendance_event_row =
  ev_id :: string
  ev_employee_id :: "string option"
  ev_device_id :: string
  ev_direction :: string
  ev_captured_at :: i64
  ev_is_unknown :: bool

record department_config =
  dc_id :: string
  shift_start_time :: string
  shift_end_time :: string
  dc_shift_type :: string
  is_overnight_shift :: bool
  ordinary_daily_minutes :: i64
  lunch_mode :: string
  lunch_duration_min :: "i64 option"

record global_rules_row =
  late_arrival_tolerance_min :: i64
  early_departure_tolerance_min :: i64
  bonus_minutes :: i64

record leave_row =
  lv_id :: string
  lv_employee_id :: string
  lv_from_date :: date
  lv_to_date :: date
  lv_type :: string

record engine_input =
  in_events :: "attendance_event_row list"
  in_dept :: department_config
  in_rules :: global_rules_row
  in_leave :: "leave_row option"
  in_anchor_date :: date
  in_tz :: tzinfo
  weekly_ot_minutes_so_far :: i64
  annual_ot_minutes_so_far :: i64
  prior_record_existed :: bool

record daily_record_output =
  work_minutes :: i64
  overtime_minutes :: i64
  late_minutes :: i64
  early_departure_minutes :: i64
  is_rest_day_worked :: bool
  entry_at :: "i64 option"
  exit_at :: "i64 option"
  out_leave_id :: "string option"
  out_anomalies :: "anomaly_code list"

text \<open>
  The rules singleton as PATCH /rules admits it (rules/models.rs: each value 0-60).
\<close>

definition rules_ok :: "global_rules_row \<Rightarrow> bool" where
  "rules_ok r \<longleftrightarrow>
     0 \<le> late_arrival_tolerance_min r \<and> late_arrival_tolerance_min r \<le> 60 \<and>
     0 \<le> early_departure_tolerance_min r \<and> early_departure_tolerance_min r \<le> 60 \<and>
     0 \<le> bonus_minutes r \<and> bonus_minutes r \<le> 60"

text \<open>
  Every code the engine can emit is admitted by the CHECK constraint, the constraint
  admits nothing else, and no two codes share a string.
\<close>

lemma anomaly_as_str_inj: "anomaly_as_str a = anomaly_as_str b \<Longrightarrow> a = b"
  by (cases a; cases b) simp_all

lemma anomaly_strs_are_check: "set anomaly_check = range anomaly_as_str"
proof
  show "set anomaly_check \<subseteq> range anomaly_as_str"
    by (auto simp: anomaly_check_def intro: range_eqI [of _ _ MissingEntry]
      range_eqI [of _ _ MissingExit] range_eqI [of _ _ UnknownFaceInWindow]
      range_eqI [of _ _ LunchPunchMissing] range_eqI [of _ _ OtCapExceededDaily]
      range_eqI [of _ _ OtCapExceededWeekly] range_eqI [of _ _ OtCapExceededAnnual]
      range_eqI [of _ _ EventsOnLeaveDay] range_eqI [of _ _ RecomputeAfterEdit]
      range_eqI [of _ _ OvernightInferenceAmbiguous])
  show "range anomaly_as_str \<subseteq> set anomaly_check"
  proof
    fix s assume "s \<in> range anomaly_as_str"
    then obtain a where "s = anomaly_as_str a" by auto
    then show "s \<in> set anomaly_check" by (cases a) (simp_all add: anomaly_check_def)
  qed
qed

end
