(* ===== verification/Overtime.thy ===== *)
theory Overtime
  imports Calc_Models
begin

text \<open>
  The per-day policies of the engine: lunch deduction (calc/lunch.rs), the LOTTT
  overtime caps (calc/overtime.rs) and the expected minutes of a day
  (calc/expected.rs).
\<close>

definition compute_lunch_deduction ::
  "i64 \<Rightarrow> bool \<Rightarrow> department_config \<Rightarrow> i64 \<times> anomaly_code option" where
  "compute_lunch_deduction worked_minutes had_mid_shift_break dept =
     (let fallback = (case lunch_duration_min dept of None \<Rightarrow> 0 | Some d \<Rightarrow> d) in
      if lunch_mode dept = ''fixed'' then
        (if worked_minutes > fallback then (fallback, None) else (0, None))
      else if lunch_mode dept = ''punch'' then
        (if had_mid_shift_break then (0, None) else (fallback, Some LunchPunchMissing))
      else (fallback, None))"

definition check_overtime_caps :: "i64 \<Rightarrow> i64 \<Rightarrow> i64 \<Rightarrow> i64 \<Rightarrow> anomaly_code list" where
  "check_overtime_caps work ot weekly_so_far annual_so_far =
     (if work > 600 then [OtCapExceededDaily] else []) @
     (if i64_add weekly_so_far ot > 600 then [OtCapExceededWeekly] else []) @
     (if i64_add annual_so_far ot > 6000 then [OtCapExceededAnnual] else [])"

definition expected_minutes :: "chrono \<Rightarrow> i64 \<Rightarrow> date \<Rightarrow> bool \<Rightarrow> i64" where
  "expected_minutes c ordinary d has_leave =
     (if has_leave \<or> ordinary \<le> 0 then 0
      else if is_weekend c d then 0 else ordinary)"

definition deficit_minutes :: "i64 \<Rightarrow> i64 \<Rightarrow> i64" where
  "deficit_minutes expected worked = max (i64_sub expected worked) 0"

lemma lunch_fixed_bounds:
  assumes "lunch_mode dept = ''fixed''" "0 \<le> worked"
  shows "fst (compute_lunch_deduction worked b dept) \<le> worked"
    and "fst (compute_lunch_deduction worked b dept) \<noteq> 0 \<Longrightarrow>
      fst (compute_lunch_deduction worked b dept) < worked"
  using assms by (auto simp: compute_lunch_deduction_def Let_def split: if_splits)

lemma lunch_anomaly_iff:
  "snd (compute_lunch_deduction worked b dept) = Some a \<longleftrightarrow>
    lunch_mode dept = ''punch'' \<and> \<not> b \<and> a = LunchPunchMissing"
  by (auto simp: compute_lunch_deduction_def Let_def)

lemma expected_minutes_nonneg: "0 \<le> expected_minutes c ordinary d l"
  by (simp add: expected_minutes_def)

lemma expected_minutes_le: "0 \<le> ordinary \<Longrightarrow> expected_minutes c ordinary d l \<le> ordinary"
  by (simp add: expected_minutes_def)

lemma deficit_minutes_exact:
  "0 \<le> e \<Longrightarrow> 0 \<le> w \<Longrightarrow> in_i64 e \<Longrightarrow> in_i64 w \<Longrightarrow> deficit_minutes e w = max (e - w) 0"
  by (simp add: deficit_minutes_def i64_sub_exact in_i64_def i64_min_def i64_max_def)

lemma deficit_minutes_bounds:
  "0 \<le> e \<Longrightarrow> 0 \<le> w \<Longrightarrow> in_i64 e \<Longrightarrow> in_i64 w \<Longrightarrow> 0 \<le> deficit_minutes e w \<and> deficit_minutes e w \<le> e"
  by (simp add: deficit_minutes_exact)

end
