(* ===== verification/Report.thy ===== *)
theory Report
  imports Schema Money Periods Overtime Auth Db
begin

text \<open>
  The payroll report (reports/service.rs, \<open>compute_report\<close>).  The function is split where
  the code has its numbered sections: the period and its guards, the daily-records query
  with its joins, the per-row money, the sweep that accumulates one entry per employee,
  the secondary leaves query, absences with expected minutes and deficit, and the totals.
  A value of type \<open>'a outcome\<close> is \<open>None\<close> for a panic and otherwise the \<open>Result\<close>.  The
  code stops at the first row that fails and drops what it accumulated, so the rows are
  first prepared in order (\<open>prepare_rows\<close>) and then swept.
\<close>

type_synonym 'a outcome = "'a result option"

definition and_then :: "'a outcome \<Rightarrow> ('a \<Rightarrow> 'b outcome) \<Rightarrow> 'b outcome" where
  "and_then r f = (case r of None \<Rightarrow> None | Some (Inl e) \<Rightarrow> Some (Inl e) | Some (Inr x) \<Rightarrow> f x)"

fun map_outcome :: "('a \<Rightarrow> 'b outcome) \<Rightarrow> 'a list \<Rightarrow> 'b list outcome" where
  "map_outcome f [] = Some (Inr [])"
| "map_outcome f (x # xs) = and_then (f x) (\<lambda>y. and_then (map_outcome f xs) (\<lambda>ys. Some (Inr (y # ys))))"

record report_params =
  rp_from_date :: string
  rp_to_date :: string
  rp_period_type :: string
  rp_department_ids :: "string list option"
  rp_include_inactive :: "bool option"
  rp_employee_id :: "string option"
  rp_shift_type :: "string option"

record aggregates =
  ag_work_min :: i64
  ag_expected_min :: i64
  ag_deficit_min :: i64
  ag_ot_min :: i64
  ag_late_min :: i64
  ag_days_worked :: i64
  ag_days_absent :: i64
  ag_work_pay :: i64
  ag_ot_pay :: i64
  ag_night_premium :: i64
  ag_rest_day_surcharge :: i64
  ag_late_deduction :: i64
  ag_total :: i64
  ag_days_ivss :: i64
  ag_days_vacation :: i64
  ag_days_permission :: i64
  ag_days_unpaid :: i64

definition aggregates_default :: aggregates where
  "aggregates_default = \<lparr>ag_work_min = 0, ag_expected_min = 0, ag_deficit_min = 0, ag_ot_min = 0,
     ag_late_min = 0, ag_days_worked = 0, ag_days_absent = 0, ag_work_pay = 0, ag_ot_pay = 0,
     ag_night_premium = 0, ag_rest_day_surcharge = 0, ag_late_deduction = 0, ag_total = 0,
     ag_days_ivss = 0, ag_days_vacation = 0, ag_days_permission = 0, ag_days_unpaid = 0\<rparr>"

record acc_row =
  ac_employee_id :: string
  ac_dept_id :: string
  ac_cedula :: string
  ac_nombre :: string
  ac_departamento :: string
  ac_cargo :: string
  ac_shift_type :: string
  ac_agg :: aggregates
  ac_anomaly_codes :: "string list"
  ac_worked_dates :: "date set"
  ac_leave_dates :: "date set"
  ac_worked_by_date :: "date \<rightharpoonup> i64"
  ac_hire_date :: "date option"
  ac_terminated_on :: "date option"
  ac_ordinary_daily_minutes :: i64

section \<open>Scope and period\<close>

definition scoped_department_ids :: "actor_scope \<Rightarrow> string list option \<Rightarrow> string list option" where
  "scoped_department_ids scope requested =
     (case scope_department_id scope of Some dept \<Rightarrow> Some [dept] | None \<Rightarrow> requested)"

definition require_salary_kind :: "string option \<Rightarrow> salary_kind option" where
  "require_salary_kind raw = Option.bind raw from_db_str"

text \<open>\<open>from_timestamp\<close> fails outside chrono's range of dates.\<close>

definition epoch_to_naive_date :: "chrono \<Rightarrow> i64 option \<Rightarrow> date option" where
  "epoch_to_naive_date c epoch =
     (case epoch of None \<Rightarrow> None
      | Some t \<Rightarrow> if date_ok c (t div 86400) then Some (t div 86400) else None)"

definition report_range :: "chrono \<Rightarrow> report_params \<Rightarrow> (date \<times> date) outcome" where
  "report_range c params =
     (case parse_period c (rp_period_type params) (rp_from_date params) (rp_to_date params) of
        Inl e \<Rightarrow> Some (Inl e)
      | Inr preset \<Rightarrow>
        (case parse_date c (rp_from_date params) of
           None \<Rightarrow> Some (Inl (Validation ''VALIDATION_ERROR'' ''from_date must be YYYY-MM-DD''))
         | Some ref_date \<Rightarrow>
           (case resolve_period c preset ref_date of
              None \<Rightarrow> None
            | Some (from, to) \<Rightarrow>
                if to - from > 366
                then Some (Inl (Validation ''VALIDATION_ERROR'' ''Period range cannot exceed 366 days''))
                else if from > to
                then Some (Inl (Validation ''VALIDATION_ERROR'' (''from_date must be '' @ [CHR 0xE2, CHR 0x89, CHR 0xA4] @ '' to_date'')))
                else Some (Inr (from, to)))))"

section \<open>The queries\<close>

text \<open>The WHERE clause shared by both queries: employment overlaps the period, and the filters.\<close>

definition in_universe :: "date \<Rightarrow> date \<Rightarrow> report_params \<Rightarrow> employee_row \<Rightarrow> bool" where
  "in_universe from to params e \<longleftrightarrow>
     none_or (\<lambda>t. t \<ge> 86400 * from) (em_terminated_on e) \<and>
     none_or (\<lambda>h. h \<le> 86400 * to) (em_hire_date e) \<and>
     (case rp_department_ids params of
        None \<Rightarrow> True | Some ids \<Rightarrow> ids = [] \<or> em_department_id e \<in> set ids) \<and>
     none_or (\<lambda>i. em_id e = i) (rp_employee_id params)"

record report_row =
  rr_employee_id :: string
  rr_cedula :: string
  rr_nombre :: string
  rr_cargo :: string
  rr_dept_id :: string
  rr_dept_name :: string
  rr_base_salary_cents :: i64
  rr_ordinary_daily_minutes :: i64
  rr_daily :: "daily_row option"
  rr_leave_type :: "string option"
  rr_override_work_minutes :: "i64 option"
  rr_anomaly_codes :: "string list"
  rr_salary_kind :: "string option"
  rr_hire_date :: "i64 option"
  rr_terminated_on :: "i64 option"

text \<open>The rows of one employee: daily records of the period, each with its active override
  and the active leave it points to; no record at all gives one NULL row.\<close>

definition employee_rows ::
  "chrono \<Rightarrow> db \<Rightarrow> date \<Rightarrow> date \<Rightarrow> report_params \<Rightarrow> employee_row \<Rightarrow> department_row \<Rightarrow> report_row list" where
  "employee_rows c s from to params e d =
     (let records = filter (\<lambda>r. dr_employee_id r = em_id e \<and>
            format_date c from \<le> dr_anchor_date r \<and> dr_anchor_date r \<le> format_date c to \<and>
            none_or (\<lambda>st. dr_shift_type r = st) (rp_shift_type params)) (t_daily_records s);
          row = (\<lambda>dr ov lv. \<lparr>rr_employee_id = em_id e, rr_cedula = em_code e, rr_nombre = em_name e,
            rr_cargo = em_position e, rr_dept_id = de_id d, rr_dept_name = de_name d,
            rr_base_salary_cents = em_base_salary_cents e,
            rr_ordinary_daily_minutes = de_ordinary_daily_minutes d, rr_daily = dr,
            rr_leave_type = map_option le_type lv,
            rr_override_work_minutes = Option.bind ov ov_work_minutes,
            rr_anomaly_codes = (case dr of None \<Rightarrow> []
              | Some r \<Rightarrow> map an_code (filter (\<lambda>a. an_daily_record_id a = dr_id r) (t_anomalies s))),
            rr_salary_kind = em_salary_kind e, rr_hire_date = em_hire_date e,
            rr_terminated_on = em_terminated_on e\<rparr>)
      in concat (map (\<lambda>dr. case dr of
           None \<Rightarrow> [row None None None]
         | Some r \<Rightarrow>
             concat (map (\<lambda>ov. map (row dr ov)
               (left_join (filter (\<lambda>l. Some (le_id l) = dr_leave_id r \<and> le_status l = ''active'') (t_leaves s))))
             (left_join (filter (\<lambda>v. ov_daily_record_id v = dr_id r \<and> ov_status v = ''active'') (t_overrides s)))))
         (left_join records)))"

definition report_rows :: "chrono \<Rightarrow> db \<Rightarrow> date \<Rightarrow> date \<Rightarrow> report_params \<Rightarrow> report_row list" where
  "report_rows c s from to params =
     sort_key (\<lambda>r. (rr_dept_name r, rr_nombre r, case rr_daily r of None \<Rightarrow> '''' | Some d \<Rightarrow> dr_anchor_date d))
       (concat (map (\<lambda>e. if in_universe from to params e
          then concat (map (employee_rows c s from to params e)
                 (filter (\<lambda>d. de_id d = em_department_id e) (t_departments s)))
          else []) (t_employees s)))"

record leave_query_row =
  lq_employee :: employee_row
  lq_department :: department_row
  lq_leave :: leave_table_row

definition leave_rows :: "chrono \<Rightarrow> db \<Rightarrow> date \<Rightarrow> date \<Rightarrow> report_params \<Rightarrow> leave_query_row list" where
  "leave_rows c s from to params =
     concat (map (\<lambda>l. concat (map (\<lambda>e. concat (map (\<lambda>d.
         if em_id e = le_employee_id l \<and> de_id d = em_department_id e \<and>
            le_status l = ''active'' \<and> le_deleted_at l = None \<and>
            le_from_date l \<le> format_date c to \<and> format_date c from \<le> le_to_date l \<and>
            in_universe from to params e \<and> none_or (\<lambda>st. de_shift_type d = st) (rp_shift_type params)
         then [\<lparr>lq_employee = e, lq_department = d, lq_leave = l\<rparr>] else [])
       (t_departments s))) (t_employees s))) (t_leaves s))"


section \<open>One row\<close>

record day_pay =
  dp_work :: i64
  dp_ot :: i64
  dp_night :: i64
  dp_rest :: i64
  dp_late :: i64
  dp_total :: i64

definition no_pay :: day_pay where
  "no_pay = \<lparr>dp_work = 0, dp_ot = 0, dp_night = 0, dp_rest = 0, dp_late = 0, dp_total = 0\<rparr>"

text \<open>What one row does to its employee's entry.\<close>

datatype day_effect =
    NoRecord
  | UnpaidLeave date
  | Vacation date "i64 option"
  | WorkDay date string i64 i64 i64 "day_pay option"

text \<open>The money of a standard day: the overtime slice is taken out of the ordinary minutes
  (C-01), the day premium enters overtime as a factor, lateness is not charged (C-02).\<close>

definition day_premium_pct :: "string \<Rightarrow> i64 \<Rightarrow> i64" where
  "day_premium_pct shift rest_day = 100 + (if shift = ''night'' then 30 else 0) + (if rest_day = 1 then 50 else 0)"

definition standard_day_pay ::
  "i64 \<Rightarrow> i64 \<Rightarrow> i64 \<Rightarrow> string \<Rightarrow> i64 \<Rightarrow> i64 \<Rightarrow> i64 \<Rightarrow> salary_kind \<Rightarrow> day_pay option" where
  "standard_day_pay effective overtime late_min shift rest_day base ord kind = do {
     let ordinary_min = max (i64_sub effective overtime) 0;
     work_pay \<leftarrow> work_pay_cents ordinary_min base ord kind;
     ot_pay \<leftarrow> ot_pay_cents overtime base ord kind (day_premium_pct shift rest_day);
     night \<leftarrow> (if shift = ''night'' then night_premium_cents ordinary_min base ord kind else Some 0);
     rest \<leftarrow> (if rest_day = 1 then rest_day_surcharge_cents ordinary_min base ord kind else Some 0);
     late \<leftarrow> late_deduction_cents late_min base ord kind;
     Some \<lparr>dp_work = work_pay, dp_ot = ot_pay, dp_night = night, dp_rest = rest, dp_late = late,
       dp_total = total_a_pagar_cents work_pay ot_pay night rest 0\<rparr> }"

definition row_effect :: "chrono \<Rightarrow> report_row \<Rightarrow> day_effect outcome" where
  "row_effect c r =
     (case rr_daily r of
        None \<Rightarrow> Some (Inr NoRecord)
      | Some d \<Rightarrow>
        (case parse_date c (dr_anchor_date d) of
           None \<Rightarrow> Some (Inl (Internal (OtherError ''input contains invalid characters'')))
         | Some anchor_date \<Rightarrow>
           let effective = (case rr_override_work_minutes r of None \<Rightarrow> dr_work_minutes d | Some m \<Rightarrow> m);
               kind = require_salary_kind (rr_salary_kind r) in
           if rr_leave_type r \<in> {Some ''medical'', Some ''unpaid'', Some ''manual''}
           then Some (Inr (UnpaidLeave anchor_date))
           else if rr_leave_type r = Some ''vacation''
           then (case kind of
                   None \<Rightarrow> Some (Inr (Vacation anchor_date None))
                 | Some k \<Rightarrow> map_option (\<lambda>p. Inr (Vacation anchor_date (Some p)))
                     (work_pay_cents (rr_ordinary_daily_minutes r) (rr_base_salary_cents r)
                        (rr_ordinary_daily_minutes r) k))
           else (case kind of
                   None \<Rightarrow> Some (Inr (WorkDay anchor_date (dr_shift_type d) effective
                     (dr_overtime_minutes d) (dr_late_minutes d) None))
                 | Some k \<Rightarrow> map_option (\<lambda>p. Inr (WorkDay anchor_date (dr_shift_type d) effective
                     (dr_overtime_minutes d) (dr_late_minutes d) (Some p)))
                     (standard_day_pay effective (dr_overtime_minutes d) (dr_late_minutes d) (dr_shift_type d)
                        (dr_is_rest_day_worked d) (rr_base_salary_cents r) (rr_ordinary_daily_minutes r) k))))"

definition new_entry :: "chrono \<Rightarrow> report_row \<Rightarrow> acc_row" where
  "new_entry c r =
     \<lparr>ac_employee_id = rr_employee_id r, ac_dept_id = rr_dept_id r, ac_cedula = rr_cedula r,
      ac_nombre = rr_nombre r, ac_departamento = rr_dept_name r, ac_cargo = rr_cargo r,
      ac_shift_type = (case rr_daily r of None \<Rightarrow> '''' | Some d \<Rightarrow> dr_shift_type d),
      ac_agg = aggregates_default, ac_anomaly_codes = [], ac_worked_dates = {}, ac_leave_dates = {},
      ac_worked_by_date = Map.empty, ac_hire_date = epoch_to_naive_date c (rr_hire_date r),
      ac_terminated_on = epoch_to_naive_date c (rr_terminated_on r),
      ac_ordinary_daily_minutes = rr_ordinary_daily_minutes r\<rparr>"

definition add_pay :: "i64 \<Rightarrow> i64 \<Rightarrow> i64 \<Rightarrow> day_pay \<Rightarrow> aggregates \<Rightarrow> aggregates" where
  "add_pay effective overtime late p a =
     a\<lparr>ag_work_min := saturating_add (ag_work_min a) effective,
       ag_ot_min := saturating_add (ag_ot_min a) overtime,
       ag_late_min := saturating_add (ag_late_min a) late,
       ag_work_pay := saturating_add (ag_work_pay a) (dp_work p),
       ag_ot_pay := saturating_add (ag_ot_pay a) (dp_ot p),
       ag_night_premium := saturating_add (ag_night_premium a) (dp_night p),
       ag_rest_day_surcharge := saturating_add (ag_rest_day_surcharge a) (dp_rest p),
       ag_late_deduction := saturating_add (ag_late_deduction a) (dp_late p),
       ag_total := saturating_add (ag_total a) (dp_total p)\<rparr>"

fun apply_effect :: "day_effect \<Rightarrow> acc_row \<Rightarrow> acc_row" where
  "apply_effect NoRecord e = e"
| "apply_effect (UnpaidLeave d) e = e\<lparr>ac_leave_dates := insert d (ac_leave_dates e)\<rparr>"
| "apply_effect (Vacation d (Some pay)) e =
     e\<lparr>ac_leave_dates := insert d (ac_leave_dates e),
       ac_agg := (ac_agg e)\<lparr>ag_work_pay := saturating_add (ag_work_pay (ac_agg e)) pay,
         ag_total := saturating_add (ag_total (ac_agg e)) pay\<rparr>\<rparr>"
| "apply_effect (Vacation d None) e =
     e\<lparr>ac_leave_dates := insert d (ac_leave_dates e),
       ac_anomaly_codes := set_insert ''SALARY_KIND_MISSING'' (ac_anomaly_codes e)\<rparr>"
| "apply_effect (WorkDay d shift effective overtime late pay) e =
     (let agg = add_pay effective overtime late (case pay of None \<Rightarrow> no_pay | Some p \<Rightarrow> p) (ac_agg e) in
      e\<lparr>ac_anomaly_codes := (if pay = None then set_insert ''SALARY_KIND_MISSING'' (ac_anomaly_codes e)
           else ac_anomaly_codes e),
        ac_agg := (if effective > 0 then agg\<lparr>ag_days_worked := i64_add (ag_days_worked agg) 1\<rparr> else agg),
        ac_worked_dates := (if effective > 0 then insert d (ac_worked_dates e) else ac_worked_dates e),
        ac_worked_by_date := (ac_worked_by_date e)(d \<mapsto> effective),
        ac_shift_type := shift\<rparr>)"

text \<open>The anomaly codes of the record join the entry's set, except on the NULL row.\<close>

definition apply_row :: "report_row \<times> day_effect \<Rightarrow> acc_row \<Rightarrow> acc_row" where
  "apply_row re e =
     (case re of (r, eff) \<Rightarrow>
        let e' = apply_effect eff e in
        if eff = NoRecord then e'
        else e'\<lparr>ac_anomaly_codes := fold set_insert (rr_anomaly_codes r) (ac_anomaly_codes e')\<rparr>)"

section \<open>The sweeps\<close>

definition prepare_rows :: "chrono \<Rightarrow> report_row list \<Rightarrow> (report_row \<times> day_effect) list outcome" where
  "prepare_rows c = map_outcome (\<lambda>r. and_then (row_effect c r) (\<lambda>eff. Some (Inr (r, eff))))"

definition sweep_rows ::
  "chrono \<Rightarrow> (report_row \<times> day_effect) list \<Rightarrow> (string \<times> acc_row) list \<Rightarrow> (string \<times> acc_row) list" where
  "sweep_rows c = sweep_map entry_with (\<lambda>re. rr_employee_id (fst re)) (\<lambda>re. new_entry c (fst re)) apply_row"

text \<open>\<open>entry(dept_id).or_insert(dept_name)\<close>.\<close>

definition see_departments :: "(string \<times> string) list \<Rightarrow> (string \<times> string) list \<Rightarrow> (string \<times> string) list" where
  "see_departments = sweep_map entry_with fst snd (\<lambda>_ name. name)"

text \<open>A leave row with its overlap; an empty overlap is skipped.\<close>

definition leave_overlap :: "chrono \<Rightarrow> date \<Rightarrow> date \<Rightarrow> leave_query_row \<Rightarrow> (date \<times> date) outcome" where
  "leave_overlap c from to q =
     (case parse_date c (le_from_date (lq_leave q)) of
        None \<Rightarrow> Some (Inl (Internal (OtherError ''input contains invalid characters'')))
      | Some l_from \<Rightarrow>
        (case parse_date c (le_to_date (lq_leave q)) of
           None \<Rightarrow> Some (Inl (Internal (OtherError ''input contains invalid characters'')))
         | Some l_to \<Rightarrow>
             if max from l_from \<le> min to l_to \<and> \<not> date_ok c (min to l_to + 1) then None
             else Some (Inr (max from l_from, min to l_to))))"

definition prepare_leaves ::
  "chrono \<Rightarrow> date \<Rightarrow> date \<Rightarrow> leave_query_row list \<Rightarrow> (leave_query_row \<times> date \<times> date) list outcome" where
  "prepare_leaves c from to qs =
     and_then (map_outcome (\<lambda>q. and_then (leave_overlap c from to q) (\<lambda>ov. Some (Inr (q, ov)))) qs)
       (\<lambda>ps. Some (Inr (filter (\<lambda>(q, a, b). a \<le> b) ps)))"

definition leave_entry :: "chrono \<Rightarrow> leave_query_row \<Rightarrow> acc_row" where
  "leave_entry c q =
     \<lparr>ac_employee_id = em_id (lq_employee q), ac_dept_id = de_id (lq_department q), ac_cedula = em_code (lq_employee q),
      ac_nombre = em_name (lq_employee q), ac_departamento = de_name (lq_department q),
      ac_cargo = em_position (lq_employee q), ac_shift_type = de_shift_type (lq_department q),
      ac_agg = aggregates_default, ac_anomaly_codes = [], ac_worked_dates = {}, ac_leave_dates = {},
      ac_worked_by_date = Map.empty, ac_hire_date = epoch_to_naive_date c (em_hire_date (lq_employee q)),
      ac_terminated_on = epoch_to_naive_date c (em_terminated_on (lq_employee q)),
      ac_ordinary_daily_minutes = de_ordinary_daily_minutes (lq_department q)\<rparr>"

text \<open>One iteration of \<open>while d <= overlap_to\<close>, and the loop.\<close>

definition count_leave_day :: "string \<Rightarrow> date \<Rightarrow> acc_row \<Rightarrow> acc_row" where
  "count_leave_day ty d e =
     (let a = ac_agg e in
      e\<lparr>ac_leave_dates := insert d (ac_leave_dates e),
        ac_agg :=
          (if ty = ''medical'' then a\<lparr>ag_days_ivss := i64_add (ag_days_ivss a) 1\<rparr>
           else if ty = ''vacation'' then a\<lparr>ag_days_vacation := i64_add (ag_days_vacation a) 1\<rparr>
           else if ty = ''manual'' then a\<lparr>ag_days_permission := i64_add (ag_days_permission a) 1\<rparr>
           else if ty = ''unpaid'' then a\<lparr>ag_days_unpaid := i64_add (ag_days_unpaid a) 1\<rparr>
           else a)\<rparr>)"

definition apply_leave :: "leave_query_row \<times> date \<times> date \<Rightarrow> acc_row \<Rightarrow> acc_row" where
  "apply_leave p e =
     (case p of (q, overlap_from, overlap_to) \<Rightarrow>
        fold (count_leave_day (le_type (lq_leave q))) [overlap_from..overlap_to] e)"

definition sweep_leaves ::
  "chrono \<Rightarrow> (leave_query_row \<times> date \<times> date) list \<Rightarrow> (string \<times> acc_row) list \<Rightarrow> (string \<times> acc_row) list" where
  "sweep_leaves c = sweep_map entry_with (\<lambda>p. em_id (lq_employee (fst p))) (\<lambda>p. leave_entry c (fst p)) apply_leave"


section \<open>Absences, expected minutes and deficit\<close>

definition weekdays_in_period :: "chrono \<Rightarrow> date \<Rightarrow> date \<Rightarrow> date list" where
  "weekdays_in_period c from to = filter (\<lambda>d. weekday_mon c d < 5) [from..to]"

definition employed_on :: "acc_row \<Rightarrow> date \<Rightarrow> bool" where
  "employed_on e d \<longleftrightarrow> none_or (\<lambda>h. d \<ge> h) (ac_hire_date e) \<and> none_or (\<lambda>t. d \<le> t) (ac_terminated_on e)"

definition worked_on :: "acc_row \<Rightarrow> date \<Rightarrow> i64" where
  "worked_on e d = (case ac_worked_by_date e d of None \<Rightarrow> 0 | Some m \<Rightarrow> m)"

definition expect_day :: "chrono \<Rightarrow> acc_row \<Rightarrow> date \<Rightarrow> aggregates \<Rightarrow> aggregates" where
  "expect_day c e d a =
     (let day_expected = expected_minutes c (ac_ordinary_daily_minutes e) d False in
      a\<lparr>ag_expected_min := saturating_add (ag_expected_min a) day_expected,
        ag_deficit_min := saturating_add (ag_deficit_min a) (deficit_minutes day_expected (worked_on e d))\<rparr>)"

definition close_entry :: "chrono \<Rightarrow> date \<Rightarrow> date \<Rightarrow> acc_row \<Rightarrow> acc_row" where
  "close_entry c from to e =
     (let weekdays = weekdays_in_period c from to;
          absent = int (length (filter (\<lambda>d. employed_on e d \<and> d \<notin> ac_worked_dates e \<and> d \<notin> ac_leave_dates e) weekdays));
          due = filter (\<lambda>d. employed_on e d \<and> d \<notin> ac_leave_dates e) weekdays
      in e\<lparr>ac_anomaly_codes := (if ac_hire_date e = None then set_insert ''HIRE_DATE_MISSING'' (ac_anomaly_codes e)
             else ac_anomaly_codes e),
           ac_agg := fold (expect_day c e) due ((ac_agg e)\<lparr>ag_days_absent := absent\<rparr>)\<rparr>)"

section \<open>Totals\<close>

definition accumulate :: "aggregates \<Rightarrow> aggregates \<Rightarrow> aggregates" where
  "accumulate into from =
     \<lparr>ag_work_min = saturating_add (ag_work_min into) (ag_work_min from),
      ag_expected_min = saturating_add (ag_expected_min into) (ag_expected_min from),
      ag_deficit_min = saturating_add (ag_deficit_min into) (ag_deficit_min from),
      ag_ot_min = saturating_add (ag_ot_min into) (ag_ot_min from),
      ag_late_min = saturating_add (ag_late_min into) (ag_late_min from),
      ag_days_worked = saturating_add (ag_days_worked into) (ag_days_worked from),
      ag_days_absent = saturating_add (ag_days_absent into) (ag_days_absent from),
      ag_work_pay = saturating_add (ag_work_pay into) (ag_work_pay from),
      ag_ot_pay = saturating_add (ag_ot_pay into) (ag_ot_pay from),
      ag_night_premium = saturating_add (ag_night_premium into) (ag_night_premium from),
      ag_rest_day_surcharge = saturating_add (ag_rest_day_surcharge into) (ag_rest_day_surcharge from),
      ag_late_deduction = saturating_add (ag_late_deduction into) (ag_late_deduction from),
      ag_total = saturating_add (ag_total into) (ag_total from),
      ag_days_ivss = saturating_add (ag_days_ivss into) (ag_days_ivss from),
      ag_days_vacation = saturating_add (ag_days_vacation into) (ag_days_vacation from),
      ag_days_permission = saturating_add (ag_days_permission into) (ag_days_permission from),
      ag_days_unpaid = saturating_add (ag_days_unpaid into) (ag_days_unpaid from)\<rparr>"

record employee_report_row =
  er_employee_id :: string
  er_dept_id :: string
  er_cedula :: string
  er_nombre :: string
  er_departamento :: string
  er_cargo :: string
  er_shift_type :: string
  er_aggregates :: aggregates
  er_anomaly_codes :: "string list"
  er_anomaly_count :: i64

record branding_header =
  bh_client_name :: string
  bh_client_rif :: string
  bh_from_date :: string
  bh_to_date :: string
  bh_generated_at_iso :: string

record report_payload =
  rp_header :: branding_header
  rp_rows :: "employee_report_row list"
  rp_dept_subtotals :: "(string \<times> string \<times> aggregates) list"
  rp_grand_total :: aggregates
  rp_departments_in_order :: "(string \<times> string) list"

definition to_report_row :: "acc_row \<Rightarrow> employee_report_row" where
  "to_report_row e =
     \<lparr>er_employee_id = ac_employee_id e, er_dept_id = ac_dept_id e, er_cedula = ac_cedula e,
      er_nombre = ac_nombre e, er_departamento = ac_departamento e, er_cargo = ac_cargo e,
      er_shift_type = ac_shift_type e, er_aggregates = ac_agg e, er_anomaly_codes = ac_anomaly_codes e,
      er_anomaly_count = int (length (ac_anomaly_codes e))\<rparr>"

definition dept_subtotal_map :: "acc_row list \<Rightarrow> (string \<times> string \<times> aggregates) list" where
  "dept_subtotal_map entries = sweep_map entry_with ac_dept_id (\<lambda>e. (ac_departamento e, aggregates_default))
     (\<lambda>e (n, a). (n, accumulate a (ac_agg e))) entries []"

definition grand_total :: "acc_row list \<Rightarrow> aggregates" where
  "grand_total entries = foldl (\<lambda>g e. accumulate g (ac_agg e)) aggregates_default entries"

definition assemble :: "branding_header \<Rightarrow> (string \<times> acc_row) list \<Rightarrow> (string \<times> string) list \<Rightarrow> report_payload" where
  "assemble header acc dept_seen =
     (let entries = map snd acc;
          subtotals = dept_subtotal_map entries;
          dept_order = sort_key snd dept_seen
      in \<lparr>rp_header = header, rp_rows = map to_report_row entries,
          rp_dept_subtotals = concat (map (\<lambda>(i, name). case map_of subtotals i of
              None \<Rightarrow> [] | Some (_, agg) \<Rightarrow> [(i, name, agg)]) dept_order),
          rp_grand_total = grand_total entries, rp_departments_in_order = dept_order\<rparr>)"

section \<open>The report\<close>

text \<open>Sections 3 to 5 of the code: the accumulator, closed, and the departments seen.\<close>

definition accumulate_report ::
  "chrono \<Rightarrow> db \<Rightarrow> date \<Rightarrow> date \<Rightarrow> report_params \<Rightarrow> ((string \<times> acc_row) list \<times> (string \<times> string) list) outcome" where
  "accumulate_report c s from to params =
     and_then (prepare_rows c (report_rows c s from to params)) (\<lambda>rows.
     and_then (prepare_leaves c from to (leave_rows c s from to params)) (\<lambda>leaves.
       let acc = sweep_leaves c leaves (sweep_rows c rows []);
           seen = see_departments
             (map (\<lambda>(r, _). (rr_dept_id r, rr_dept_name r)) rows @
              map (\<lambda>(q, _). (de_id (lq_department q), de_name (lq_department q))) leaves) []
       in Some (Inr (map (\<lambda>(i, e). (i, close_entry c from to e)) acc, seen))))"

definition compute_report :: "auth_libs \<Rightarrow> chrono \<Rightarrow> i64 \<Rightarrow> db \<Rightarrow> report_params \<Rightarrow> report_payload outcome" where
  "compute_report L c now s params =
     and_then (report_range c params) (\<lambda>(from, to).
       case t_tenant_info s of
         None \<Rightarrow> Some (Inl (Internal (OtherError ''tenant_info row missing'')))
       | Some (client_name, client_rif) \<Rightarrow>
           let header = \<lparr>bh_client_name = client_name, bh_client_rif = client_rif,
                 bh_from_date = format_date c from, bh_to_date = format_date c to,
                 bh_generated_at_iso = epoch_to_iso L now\<rparr>
           in and_then (accumulate_report c s from to params) (\<lambda>(acc, seen). Some (Inr (assemble header acc seen))))"

text \<open>The handler: the scope is imposed on the request before the report runs.\<close>

definition generate_report :: "auth_libs \<Rightarrow> chrono \<Rightarrow> i64 \<Rightarrow> db \<Rightarrow> claims \<Rightarrow> report_params \<Rightarrow> report_payload outcome" where
  "generate_report L c now s claims params =
     (let invalid = (if length (rp_from_date params) \<noteq> 10 then [''from_date must be YYYY-MM-DD (10 chars)''] else []) @
            (if length (rp_to_date params) \<noteq> 10 then [''to_date must be YYYY-MM-DD (10 chars)''] else []) in
      if invalid \<noteq> [] then Some (Inl (Validation ''VALIDATION_ERROR'' (validator_text L invalid)))
      else compute_report L c now s
        (params\<lparr>rp_department_ids := scoped_department_ids (scope_from_claims claims) (rp_department_ids params)\<rparr>))"


section \<open>The entries of the report\<close>

lemma and_then_eq_ok: "and_then r f = Some (Inr y) \<longleftrightarrow> (\<exists>x. r = Some (Inr x) \<and> f x = Some (Inr y))"
  by (auto simp: and_then_def split: option.splits sum.splits)

lemma and_then_ok [simp]: "and_then (Some (Inr x)) f = f x"
  by (simp add: and_then_def)

lemma map_outcome_ok:
  "map_outcome f xs = Some (Inr ys) \<longleftrightarrow> list_all2 (\<lambda>x y. f x = Some (Inr y)) xs ys"
  by (induction xs arbitrary: ys) (auto simp: and_then_eq_ok list_all2_Cons1)

lemma prepare_rows_ok:
  assumes "prepare_rows c rows = Some (Inr ps)"
  shows "map fst ps = rows" "p \<in> set ps \<Longrightarrow> row_effect c (fst p) = Some (Inr (snd p))"
proof -
  have l: "list_all2 (\<lambda>r p. row_effect c r = Some (Inr (snd p)) \<and> fst p = r) rows ps"
    using assms unfolding prepare_rows_def map_outcome_ok
    by (rule list_all2_mono) (auto simp: and_then_eq_ok)
  show "map fst ps = rows" using l by (induction rule: list_all2_induct) auto
  show "row_effect c (fst p) = Some (Inr (snd p))" if "p \<in> set ps"
    using l that by (induction rule: list_all2_induct) auto
qed

lemma prepare_leaves_ok:
  assumes "prepare_leaves c from to qs = Some (Inr ps)"
  shows "\<exists>os. map fst os = qs \<and> ps = filter (\<lambda>(q, a, b). a \<le> b) os \<and>
    (\<forall>p \<in> set os. leave_overlap c from to (fst p) = Some (Inr (snd p)))"
proof -
  obtain os where os: "map_outcome (\<lambda>q. and_then (leave_overlap c from to q) (\<lambda>ov. Some (Inr (q, ov)))) qs = Some (Inr os)"
    "ps = filter (\<lambda>(q, a, b). a \<le> b) os"
    using assms by (auto simp: prepare_leaves_def and_then_eq_ok)
  from os(1) have l: "list_all2 (\<lambda>q p. leave_overlap c from to q = Some (Inr (snd p)) \<and> fst p = q) qs os"
    unfolding map_outcome_ok by (rule list_all2_mono) (auto simp: and_then_eq_ok)
  have "map fst os = qs" using l by (induction rule: list_all2_induct) auto
  moreover have "\<forall>p \<in> set os. leave_overlap c from to (fst p) = Some (Inr (snd p))"
    using l by (induction rule: list_all2_induct) auto
  ultimately show ?thesis using os(2) by blast
qed

lemma employee_rows_of:
  assumes "r \<in> set (employee_rows c s from to params e d)"
  shows "rr_employee_id r = em_id e \<and> rr_dept_id r = de_id d \<and> rr_dept_name r = de_name d \<and>
    rr_ordinary_daily_minutes r = de_ordinary_daily_minutes d \<and> rr_base_salary_cents r = em_base_salary_cents e \<and>
    (case rr_daily r of None \<Rightarrow> True | Some x \<Rightarrow> x \<in> set (t_daily_records s) \<and> dr_employee_id x = em_id e)"
  using assms by (auto simp: employee_rows_def Let_def set_left_join split: option.splits if_splits)

lemma concat_map_not_Nil: "xs \<noteq> [] \<Longrightarrow> (\<And>x. x \<in> set xs \<Longrightarrow> f x \<noteq> []) \<Longrightarrow> concat (map f xs) \<noteq> []"
  by (cases xs) auto

lemma employee_rows_not_Nil: "employee_rows c s from to params e d \<noteq> []"
  unfolding employee_rows_def Let_def
  by (rule concat_map_not_Nil; simp split: option.split; intro allI impI; rule concat_map_not_Nil; simp)

text \<open>The employees of the report and the department each is in.\<close>

definition reported :: "db \<Rightarrow> date \<Rightarrow> date \<Rightarrow> report_params \<Rightarrow> (employee_row \<times> department_row) set" where
  "reported s from to params = {(e, d). e \<in> set (t_employees s) \<and> in_universe from to params e \<and>
     d \<in> set (t_departments s) \<and> de_id d = em_department_id e}"

lemma report_rows_set:
  "set (report_rows c s from to params) =
     (\<Union>(e, d) \<in> reported s from to params. set (employee_rows c s from to params e d))"
  by (force simp: report_rows_def reported_def split: if_splits)

lemma report_row_of:
  assumes "r \<in> set (report_rows c s from to params)"
  shows "\<exists>(e, d) \<in> reported s from to params. rr_employee_id r = em_id e \<and> rr_dept_id r = de_id d \<and> rr_dept_name r = de_name d"
  using assms employee_rows_of unfolding report_rows_set by fast

lemma report_rows_ids:
  "rr_employee_id ` set (report_rows c s from to params) = em_id ` fst ` reported s from to params"
proof
  show "rr_employee_id ` set (report_rows c s from to params) \<subseteq> em_id ` fst ` reported s from to params"
  proof clarify
    fix r assume "r \<in> set (report_rows c s from to params)"
    from report_row_of [OF this] show "rr_employee_id r \<in> em_id ` fst ` reported s from to params" by force
  qed
  show "em_id ` fst ` reported s from to params \<subseteq> rr_employee_id ` set (report_rows c s from to params)"
  proof clarify
    fix e d assume r: "(e, d) \<in> reported s from to params"
    obtain x where "x \<in> set (employee_rows c s from to params e d)"
      using employee_rows_not_Nil by (meson last_in_set)
    with r employee_rows_of [OF this] show "em_id (fst (e, d)) \<in> rr_employee_id ` set (report_rows c s from to params)"
      unfolding report_rows_set by (auto intro!: rev_image_eqI [of x])
  qed
qed

lemma leave_row_of:
  assumes "q \<in> set (leave_rows c s from to params)"
  shows "(lq_employee q, lq_department q) \<in> reported s from to params"
  using assms by (auto simp: leave_rows_def reported_def split: if_splits)

text \<open>Nothing a row or a leave does changes whose entry it is.\<close>

lemma apply_effect_id [simp]:
  "ac_dept_id (apply_effect eff e) = ac_dept_id e" "ac_employee_id (apply_effect eff e) = ac_employee_id e"
  by (induction eff e rule: apply_effect.induct) (simp_all add: Let_def)

lemma apply_row_id [simp]:
  "ac_dept_id (apply_row re e) = ac_dept_id e" "ac_employee_id (apply_row re e) = ac_employee_id e"
  by (simp_all add: apply_row_def Let_def split: prod.split)

lemma count_leave_day_id [simp]:
  "ac_dept_id (count_leave_day ty d e) = ac_dept_id e" "ac_employee_id (count_leave_day ty d e) = ac_employee_id e"
  by (simp_all add: count_leave_day_def Let_def)

lemma fold_count_id:
  "ac_dept_id (fold (count_leave_day ty) ds e) = ac_dept_id e \<and>
   ac_employee_id (fold (count_leave_day ty) ds e) = ac_employee_id e"
  by (induction ds arbitrary: e) auto

lemma apply_leave_id [simp]:
  "ac_dept_id (apply_leave p e) = ac_dept_id e" "ac_employee_id (apply_leave p e) = ac_employee_id e"
  by (simp_all add: apply_leave_def fold_count_id split: prod.split)

lemma close_entry_id [simp]:
  "ac_dept_id (close_entry c from to e) = ac_dept_id e"
  "ac_employee_id (close_entry c from to e) = ac_employee_id e"
  by (simp_all add: close_entry_def Let_def)


lemma sweep_rows_ok: "om_ok m \<Longrightarrow> om_ok (sweep_rows c rows m)"
  unfolding sweep_rows_def by (rule om.sweep_invar)

lemma sweep_leaves_ok: "om_ok m \<Longrightarrow> om_ok (sweep_leaves c ls m)"
  unfolding sweep_leaves_def by (rule om.sweep_invar)

lemma om_ok_map_snd: "om_ok m \<Longrightarrow> om_ok (map (\<lambda>(i, e). (i, f e)) m)"
  by (simp add: om_ok_def comp_def case_prod_unfold)

lemma fst_image_comp: "map fst (map (\<lambda>(i, e). (i, f e)) m) = map fst m"
  by (simp add: comp_def case_prod_unfold)

definition entry_of :: "db \<Rightarrow> date \<Rightarrow> date \<Rightarrow> report_params \<Rightarrow> string \<Rightarrow> acc_row \<Rightarrow> bool" where
  "entry_of s from to params i e \<longleftrightarrow> ac_employee_id e = i \<and>
     (\<exists>(em, d) \<in> reported s from to params. em_id em = i \<and> de_id d = ac_dept_id e)"

lemma accumulate_report_entries:
  assumes "accumulate_report c s from to params = Some (Inr (acc, seen))"
  shows "om_ok acc \<and> set (map fst acc) = em_id ` fst ` reported s from to params \<and>
    (\<forall>(i, e) \<in> set acc. entry_of s from to params i e)"
proof -
  obtain rows ls where rows: "prepare_rows c (report_rows c s from to params) = Some (Inr rows)"
    and ls: "prepare_leaves c from to (leave_rows c s from to params) = Some (Inr ls)"
    and acc: "acc = map (\<lambda>(i, e). (i, close_entry c from to e)) (sweep_leaves c ls (sweep_rows c rows []))"
    using assms by (auto simp: accumulate_report_def and_then_eq_ok Let_def)
  let ?a = "sweep_rows c rows []" and ?b = "sweep_leaves c ls (sweep_rows c rows [])"
  have ok: "om_ok ?a" "om_ok ?b"
    by (simp_all add: sweep_rows_ok sweep_leaves_ok om.invar_empty)
  have leaves: "(lq_employee (fst p), lq_department (fst p)) \<in> reported s from to params" if "p \<in> set ls" for p
  proof -
    obtain os where "map fst os = leave_rows c s from to params" "set ls \<subseteq> set os"
      using prepare_leaves_ok [OF ls] by auto
    then have "fst p \<in> set (leave_rows c s from to params)" using that by (metis image_eqI list.set_map subsetD)
    then show ?thesis by (rule leave_row_of)
  qed
  have rowset: "fst p \<in> set (report_rows c s from to params)" if "p \<in> set rows" for p
    using prepare_rows_ok(1) [OF rows] that by (metis image_eqI list.set_map)
  have "set (map fst ?a) = rr_employee_id ` set (report_rows c s from to params)"
    unfolding sweep_rows_def om.sweep_keys [OF om.invar_empty] prepare_rows_ok(1) [OF rows, symmetric]
    by (simp add: image_image)
  then have keys_a: "set (map fst ?a) = em_id ` fst ` reported s from to params"
    by (simp add: report_rows_ids)
  have "set (map fst ?b) = set (map fst ?a) \<union> (\<lambda>p. em_id (lq_employee (fst p))) ` set ls"
    unfolding sweep_leaves_def by (rule om.sweep_keys [OF ok(1)])
  also have "\<dots> = set (map fst ?a)"
    unfolding keys_a using leaves by force
  finally have keys: "set (map fst ?b) = em_id ` fst ` reported s from to params" by (simp only: keys_a)
  have vals_a: "entry_of s from to params i e" if "map_of ?a i = Some e" for i e
  proof (rule om.sweep_all [OF om.invar_empty _ _ _ that [unfolded sweep_rows_def]])
    fix p assume "p \<in> set rows"
    from report_row_of [OF rowset [OF this]]
    show "entry_of s from to params (rr_employee_id (fst p)) (apply_row p (new_entry c (fst p)))"
      by (fastforce simp: entry_of_def new_entry_def)
  qed (auto simp: entry_of_def)
  have vals_b: "entry_of s from to params i e" if "map_of ?b i = Some e" for i e
  proof (rule om.sweep_all [OF ok(1) vals_a _ _ that [unfolded sweep_leaves_def]])
    fix p assume "p \<in> set ls"
    from leaves [OF this]
    show "entry_of s from to params (em_id (lq_employee (fst p))) (apply_leave p (leave_entry c (fst p)))"
      by (force simp: entry_of_def leave_entry_def reported_def)
  qed (auto simp: entry_of_def)
  have "\<forall>(i, e) \<in> set acc. entry_of s from to params i e"
    using vals_b by (force simp: acc om_in_iff [OF ok(2)] entry_of_def)
  with keys om_ok_map_snd [OF ok(2)] show ?thesis by (simp only: acc fst_image_comp) simp
qed

lemma compute_report_entries:
  assumes "compute_report L c now s params = Some (Inr payload)"
  shows "\<exists>from to acc seen header. report_range c params = Some (Inr (from, to)) \<and>
    accumulate_report c s from to params = Some (Inr (acc, seen)) \<and> payload = assemble header acc seen"
  using assms by (auto simp: compute_report_def and_then_eq_ok Let_def split: option.splits) (rule exI, rule refl)

text \<open>Everybody is in the report, once (C-05): exactly one row for each employee of an existing
  department whose employment overlaps the period and who passes the filters, with or
  without daily records or leaves, in order of id, and no row for anybody else.\<close>

theorem report_has_every_employee_once:
  assumes "compute_report L c now s params = Some (Inr payload)"
  shows "\<exists>from to. report_range c params = Some (Inr (from, to)) \<and>
    sorted_wrt (<) (map er_employee_id (rp_rows payload)) \<and>
    er_employee_id ` set (rp_rows payload) = {em_id e | e d. e \<in> set (t_employees s) \<and>
      in_universe from to params e \<and> d \<in> set (t_departments s) \<and> de_id d = em_department_id e}"
proof -
  from compute_report_entries [OF assms] obtain "from" to acc seen header where
    r: "report_range c params = Some (Inr (from, to))" and
    a: "accumulate_report c s from to params = Some (Inr (acc, seen))" and p: "payload = assemble header acc seen"
    by blast
  note acc = accumulate_report_entries [OF a]
  have ids: "map er_employee_id (rp_rows payload) = map fst acc"
    using acc by (auto simp: p assemble_def Let_def to_report_row_def entry_of_def)
  then have "er_employee_id ` set (rp_rows payload) = set (map fst acc)" by (metis list.set_map)
  also have "\<dots> = em_id ` fst ` reported s from to params" using acc by simp
  also have "\<dots> = {em_id e | e d. e \<in> set (t_employees s) \<and>
      in_universe from to params e \<and> d \<in> set (t_departments s) \<and> de_id d = em_department_id e}"
    by (force simp: reported_def)
  finally show ?thesis using r acc ids by (auto simp: om_ok_def)
qed

text \<open>C14. A report never leaves the actor's department (H-11): whatever departments the request asks for,
  every row, every subtotal and every listed department of a report generated for a scoped
  actor is of that actor's own department.\<close>

theorem report_confined_to_scope:
  assumes "generate_report L c now s claims params = Some (Inr payload)"
    and "scope_from_claims claims = Department dept"
  shows "(\<forall>row \<in> set (rp_rows payload). er_dept_id row = dept) \<and>
    (\<forall>(i, n) \<in> set (rp_departments_in_order payload). i = dept) \<and>
    (\<forall>(i, n, a) \<in> set (rp_dept_subtotals payload). i = dept)"
proof -
  let ?params = "params\<lparr>rp_department_ids := Some [dept]\<rparr>"
  have "compute_report L c now s ?params = Some (Inr payload)"
    using assms by (auto simp: generate_report_def scoped_department_ids_def Let_def split: if_splits)
  from compute_report_entries [OF this] obtain "from" to acc seen header where
    a: "accumulate_report c s from to ?params = Some (Inr (acc, seen))" and p: "payload = assemble header acc seen"
    by blast
  have dept: "de_id d = dept" if "(e, d) \<in> reported s from to ?params" for e d
    using that by (auto simp: reported_def in_universe_def)
  have rows: "\<forall>row \<in> set (rp_rows payload). er_dept_id row = dept"
    using accumulate_report_entries [OF a] dept
    by (fastforce simp: p assemble_def Let_def to_report_row_def entry_of_def)
  obtain rows ls where rs: "prepare_rows c (report_rows c s from to ?params) = Some (Inr rows)"
    and ls: "prepare_leaves c from to (leave_rows c s from to ?params) = Some (Inr ls)"
    and seen: "seen = see_departments (map (\<lambda>(r, _). (rr_dept_id r, rr_dept_name r)) rows @
              map (\<lambda>(q, _). (de_id (lq_department q), de_name (lq_department q))) ls) []"
    using a by (auto simp: accumulate_report_def and_then_eq_ok Let_def)
  have "rr_dept_id r = dept" if "(r, x) \<in> set rows" for r x
  proof -
    have "r \<in> set (report_rows c s from to ?params)"
      using prepare_rows_ok(1) [OF rs] that by (metis fst_conv image_eqI list.set_map)
    from report_row_of [OF this] dept show ?thesis by auto
  qed
  moreover have "de_id (lq_department q) = dept" if "(q, x) \<in> set ls" for q x
  proof -
    obtain os where "map fst os = leave_rows c s from to ?params" "set ls \<subseteq> set os"
      using prepare_leaves_ok [OF ls] by auto
    then have "q \<in> set (leave_rows c s from to ?params)" using that by (metis fst_conv image_eqI list.set_map subsetD)
    from leave_row_of [OF this] dept show ?thesis by blast
  qed
  ultimately have "set (map fst seen) \<subseteq> {dept}"
    unfolding seen see_departments_def om.sweep_keys [OF om.invar_empty] by auto
  then have order: "\<forall>(i, n) \<in> set (rp_departments_in_order payload). i = dept"
    by (auto simp: p assemble_def Let_def)
  then have "\<forall>(i, n, a) \<in> set (rp_dept_subtotals payload). i = dept"
    by (auto simp: p assemble_def Let_def split: option.splits)
  with rows order show ?thesis by blast
qed


section \<open>Totals\<close>

definition agg_fields :: "(aggregates \<Rightarrow> i64) list" where
  "agg_fields = [ag_work_min, ag_expected_min, ag_deficit_min, ag_ot_min, ag_late_min, ag_days_worked,
     ag_days_absent, ag_work_pay, ag_ot_pay, ag_night_premium, ag_rest_day_surcharge, ag_late_deduction,
     ag_total, ag_days_ivss, ag_days_vacation, ag_days_permission, ag_days_unpaid]"

lemma agg_field_accumulate:
  "f \<in> set agg_fields \<Longrightarrow> f (accumulate a b) = saturating_add (f a) (f b) \<and> f aggregates_default = 0"
  by (auto simp: agg_fields_def accumulate_def aggregates_default_def)

lemma foldl_saturating:
  "\<bar>a\<bar> + (\<Sum>x\<leftarrow>xs. \<bar>x\<bar>) \<le> i64_max \<Longrightarrow> foldl saturating_add a xs = a + sum_list xs"
proof (induction xs arbitrary: a)
  case Nil
  then show ?case by simp
next
  case (Cons x xs)
  have "0 \<le> (\<Sum>x\<leftarrow>xs. \<bar>x\<bar>)" by (induction xs) auto
  with Cons.prems have "in_i64 (a + x)" by (auto simp: in_i64_def i64_min_def i64_max_def)
  moreover have "\<bar>a + x\<bar> + (\<Sum>x\<leftarrow>xs. \<bar>x\<bar>) \<le> i64_max" using Cons.prems abs_triangle_ineq [of a x] by simp
  ultimately show ?case using Cons.IH [of "a + x"] by (simp add: saturating_add_exact)
qed

lemma foldl_field:
  "f \<in> set agg_fields \<Longrightarrow> f (foldl (\<lambda>g e. accumulate g (ac_agg e)) a es) = foldl saturating_add (f a) (map (\<lambda>e. f (ac_agg e)) es)"
  by (induction es arbitrary: a) (auto simp: agg_field_accumulate)

lemma sum_abs_filter: "(\<Sum>x\<leftarrow>filter P xs. \<bar>g x\<bar>) \<le> (\<Sum>x\<leftarrow>xs. \<bar>g x :: int\<bar>)"
  by (induction xs) auto

text \<open>The subtotal of a department is the fold over its own entries.\<close>

lemma dept_subtotal_lookup:
  "map_of (dept_subtotal_map es) i =
    (case filter (\<lambda>e. ac_dept_id e = i) es of [] \<Rightarrow> None
     | e # _ \<Rightarrow> Some (ac_departamento e, grand_total (filter (\<lambda>e. ac_dept_id e = i) es)))"
proof -
  let ?upd = "\<lambda>e (n, a). (n :: string, accumulate a (ac_agg e))"
  have go: "map_of (sweep_map entry_with ac_dept_id (\<lambda>e. (ac_departamento e, aggregates_default)) ?upd fs m) i =
      Some (n, foldl (\<lambda>g e. accumulate g (ac_agg e)) a fs)"
    if "om_ok m" "map_of m i = Some (n, a)" "\<forall>e \<in> set fs. ac_dept_id e = i" for fs m n a
    using that
  proof (induction fs arbitrary: m a)
    case Nil
    then show ?case by simp
  next
    case (Cons e fs)
    let ?m = "entry_with (ac_dept_id e) (ac_departamento e, aggregates_default) (?upd e) m"
    have "map_of ?m i = Some (n, accumulate a (ac_agg e))" using Cons.prems by (simp add: map_of_entry)
    from Cons.IH [OF om_ok_entry [OF Cons.prems(1)] this] Cons.prems(3) show ?case by simp
  qed
  have "map_of (dept_subtotal_map es) i =
      map_of (sweep_map entry_with ac_dept_id (\<lambda>e. (ac_departamento e, aggregates_default)) ?upd
        (filter (\<lambda>e. ac_dept_id e = i) es) []) i"
    unfolding dept_subtotal_map_def by (rule om.sweep_only [OF om.invar_empty])
  also have "\<dots> = (case filter (\<lambda>e. ac_dept_id e = i) es of [] \<Rightarrow> None
     | e # _ \<Rightarrow> Some (ac_departamento e, grand_total (filter (\<lambda>e. ac_dept_id e = i) es)))"
  proof (cases "filter (\<lambda>e. ac_dept_id e = i) es")
    case (Cons e fs)
    have d: "ac_dept_id e = i" "\<forall>e \<in> set fs. ac_dept_id e = i"
      using arg_cong [OF Cons, of set] by auto
    let ?m = "entry_with (ac_dept_id e) (ac_departamento e, aggregates_default) (?upd e) []"
    have "map_of ?m i = Some (ac_departamento e, accumulate aggregates_default (ac_agg e))" "om_ok ?m"
      using d by (simp_all add: om_ok_def)
    from go [OF this(2,1) d(2)] show ?thesis by (simp add: Cons grand_total_def)
  qed simp
  finally show ?thesis .
qed

lemma sum_by_key:
  assumes "distinct ks" "\<forall>x \<in> set xs. key x \<in> set ks"
  shows "(\<Sum>k\<leftarrow>ks. \<Sum>x\<leftarrow>filter (\<lambda>x. key x = k) xs. g x) = (\<Sum>x\<leftarrow>xs. g x :: int)"
  using assms(2)
proof (induction xs)
  case Nil
  show ?case by (induction ks) auto
next
  case (Cons x xs)
  have "(\<Sum>k\<leftarrow>ks. \<Sum>y\<leftarrow>filter (\<lambda>y. key y = k) (x # xs). g y) =
      (\<Sum>k\<leftarrow>ks. (if key x = k then g x else 0) + (\<Sum>y\<leftarrow>filter (\<lambda>y. key y = k) xs. g y))"
    by (intro arg_cong [of _ _ sum_list] map_cong) auto
  also have "\<dots> = (\<Sum>k\<leftarrow>ks. if key x = k then g x else 0) + (\<Sum>y\<leftarrow>xs. g y)"
    using Cons by (simp add: sum_list_addf)
  also have "(\<Sum>k\<leftarrow>ks. if key x = k then g x else 0) = g x"
    using assms(1) Cons.prems by (simp add: sum_list_distinct_conv_sum_set sum.delta)
  finally show ?case by simp
qed

lemma seen_covers:
  assumes "accumulate_report c s from to params = Some (Inr (acc, seen))"
  shows "om_ok seen \<and> (\<forall>(i, e) \<in> set acc. ac_dept_id e \<in> set (map fst seen))"
proof -
  obtain rows ls where rows: "prepare_rows c (report_rows c s from to params) = Some (Inr rows)"
    and acc: "acc = map (\<lambda>(i, e). (i, close_entry c from to e)) (sweep_leaves c ls (sweep_rows c rows []))"
    and seen: "seen = see_departments (map (\<lambda>(r, _). (rr_dept_id r, rr_dept_name r)) rows @
              map (\<lambda>(q, _). (de_id (lq_department q), de_name (lq_department q))) ls) []"
    using assms by (auto simp: accumulate_report_def and_then_eq_ok Let_def)
  have sm: "set (map fst seen) = (\<lambda>p. rr_dept_id (fst p)) ` set rows \<union> (\<lambda>p. de_id (lq_department (fst p))) ` set ls"
    unfolding seen see_departments_def om.sweep_keys [OF om.invar_empty]
    by (simp add: case_prod_unfold image_Un image_image)
  let ?a = "sweep_rows c rows []" and ?b = "sweep_leaves c ls (sweep_rows c rows [])"
  have ok: "om_ok ?a" "om_ok ?b" by (simp_all add: sweep_rows_ok sweep_leaves_ok om.invar_empty)
  have vals_a: "ac_dept_id e \<in> set (map fst seen)" if "map_of ?a i = Some e" for i e
    by (rule om.sweep_all [OF om.invar_empty _ _ _ that [unfolded sweep_rows_def]])
      (unfold sm, auto simp: new_entry_def)
  have "ac_dept_id e \<in> set (map fst seen)" if "map_of ?b i = Some e" for i e
    by (rule om.sweep_all [OF ok(1) vals_a _ _ that [unfolded sweep_leaves_def]])
      (unfold sm, auto simp: leave_entry_def)
  moreover have "om_ok seen" unfolding seen see_departments_def by (rule om.sweep_invar [OF om.invar_empty])
  ultimately show ?thesis by (auto simp: acc om_in_iff [OF ok(2)])
qed

text \<open>C4. The totals add up: in every one of the 17 numeric columns the grand total is the sum of the
  rows, each department's subtotal is the sum of its own rows, the subtotals sum to the
  grand total and no department is listed twice, as long as the column's absolute values
  sum to at most i64::MAX.\<close>

theorem report_totals_add_up:
  assumes "compute_report L c now s params = Some (Inr payload)" "f \<in> set agg_fields"
    and "(\<Sum>row\<leftarrow>rp_rows payload. \<bar>f (er_aggregates row)\<bar>) \<le> i64_max"
  shows "f (rp_grand_total payload) = (\<Sum>row\<leftarrow>rp_rows payload. f (er_aggregates row)) \<and>
    (\<forall>(i, n, a) \<in> set (rp_dept_subtotals payload).
       f a = (\<Sum>row\<leftarrow>filter (\<lambda>row. er_dept_id row = i) (rp_rows payload). f (er_aggregates row))) \<and>
    (\<Sum>(i, n, a)\<leftarrow>rp_dept_subtotals payload. f a) = f (rp_grand_total payload) \<and>
    distinct (map fst (rp_dept_subtotals payload))"
proof -
  from compute_report_entries [OF assms(1)] obtain "from" to acc seen header where
    a: "accumulate_report c s from to params = Some (Inr (acc, seen))" and p: "payload = assemble header acc seen"
    by blast
  define es where "es = map snd acc"
  define g :: "acc_row \<Rightarrow> int" where "g e = f (ac_agg e)" for e
  define order where "order = sort_key snd seen"
  define sub where "sub i = filter (\<lambda>e. ac_dept_id e = i) es" for i
  have rows: "rp_rows payload = map to_report_row es" by (simp add: p assemble_def Let_def es_def)
  have sums: "(\<Sum>row\<leftarrow>rp_rows payload. f (er_aggregates row)) = (\<Sum>e\<leftarrow>es. g e)"
    "(\<Sum>row\<leftarrow>filter (\<lambda>row. er_dept_id row = i) (rp_rows payload). f (er_aggregates row)) = (\<Sum>e\<leftarrow>sub i. g e)" for i
    by (simp_all add: rows filter_map comp_def to_report_row_def g_def sub_def)
  have bound: "(\<Sum>e\<leftarrow>es. \<bar>g e\<bar>) \<le> i64_max"
    using assms(3) by (simp add: rows comp_def to_report_row_def g_def)
  have fold: "f (grand_total xs) = (\<Sum>e\<leftarrow>xs. g e)" if "(\<Sum>e\<leftarrow>xs. \<bar>g e\<bar>) \<le> i64_max" for xs
    using that foldl_saturating [of 0 "map g xs"] foldl_field [OF assms(2), of aggregates_default xs]
      agg_field_accumulate [OF assms(2)] by (simp add: grand_total_def g_def [abs_def] comp_def)
  have subb: "(\<Sum>e\<leftarrow>sub i. \<bar>g e\<bar>) \<le> i64_max" for i
    using order_trans [OF sum_abs_filter bound] by (simp add: sub_def)
  have grand: "f (rp_grand_total payload) = (\<Sum>e\<leftarrow>es. g e)"
    using fold [OF bound] by (simp add: p assemble_def Let_def es_def)
  have subtotals: "rp_dept_subtotals payload =
      map (\<lambda>(i, n). (i, n, grand_total (sub i))) (filter (\<lambda>(i, n). sub i \<noteq> []) order)"
  proof -
    have "map_of (dept_subtotal_map es) i =
        (if sub i = [] then None else Some (ac_departamento (hd (sub i)), grand_total (sub i)))" for i
      by (cases "sub i") (simp_all add: dept_subtotal_lookup sub_def)
    then have "rp_dept_subtotals payload = concat (map (\<lambda>(i, n). case (if sub i = [] then None
        else Some (ac_departamento (hd (sub i)), grand_total (sub i))) of
          None \<Rightarrow> [] | Some (_, agg) \<Rightarrow> [(i, n, agg)]) order)"
      by (simp add: p assemble_def Let_def es_def order_def)
    also have "\<dots> = map (\<lambda>(i, n). (i, n, grand_total (sub i))) (filter (\<lambda>(i, n). sub i \<noteq> []) order)"
      by (induction order) auto
    finally show ?thesis .
  qed
  note cover = seen_covers [OF a]
  have dist: "distinct (map fst order)"
  proof -
    have "mset (map fst order) = mset (map fst seen)" by (simp add: order_def)
    then show ?thesis using om_distinct cover mset_eq_imp_distinct_iff by blast
  qed
  have cov: "\<forall>e \<in> set es. ac_dept_id e \<in> set (map fst order)"
    using cover by (auto simp: es_def order_def)
  have "(\<Sum>(i, n, a)\<leftarrow>rp_dept_subtotals payload. f a) =
      (\<Sum>(i, n)\<leftarrow>filter (\<lambda>(i, n). sub i \<noteq> []) order. \<Sum>e\<leftarrow>sub i. g e)"
    unfolding subtotals using fold [OF subb]
    by (simp add: comp_def case_prod_unfold)
  also have "\<dots> = (\<Sum>(i, n)\<leftarrow>order. \<Sum>e\<leftarrow>sub i. g e)"
    by (induction order) auto
  also have "\<dots> = (\<Sum>i\<leftarrow>map fst order. \<Sum>e\<leftarrow>sub i. g e)" by (simp add: comp_def case_prod_unfold)
  also have "\<dots> = (\<Sum>e\<leftarrow>es. g e)" unfolding sub_def by (rule sum_by_key [OF dist cov])
  finally have total: "(\<Sum>(i, n, a)\<leftarrow>rp_dept_subtotals payload. f a) = f (rp_grand_total payload)"
    by (simp add: grand)
  have "\<forall>(i, n, a) \<in> set (rp_dept_subtotals payload).
      f a = (\<Sum>row\<leftarrow>filter (\<lambda>row. er_dept_id row = i) (rp_rows payload). f (er_aggregates row))"
    using fold [OF subb] by (auto simp: subtotals sums)
  moreover have "distinct (map fst (rp_dept_subtotals payload))"
    using distinct_map_filter [OF dist, of "\<lambda>(i, n). sub i \<noteq> []"]
    by (simp add: subtotals comp_def case_prod_unfold)
  ultimately show ?thesis using total grand sums(1) by simp
qed


section \<open>Absences and deficit\<close>

lemma expect_fold:
  assumes "1 \<le> ac_ordinary_daily_minutes e" "ac_ordinary_daily_minutes e \<le> 1440"
    and "\<forall>d. 0 \<le> worked_on e d \<and> worked_on e d \<le> 1000000" "\<forall>d \<in> set ds. weekday_mon c d < 5"
    and "0 \<le> ag_expected_min a" "0 \<le> ag_deficit_min a"
    and "ag_expected_min a + 1440 * int (length ds) \<le> 1000000000000"
    and "ag_deficit_min a + 1440 * int (length ds) \<le> 1000000000000"
  shows "ag_expected_min (fold (expect_day c e) ds a) = ag_expected_min a + ac_ordinary_daily_minutes e * int (length ds) \<and>
    ag_deficit_min (fold (expect_day c e) ds a) = ag_deficit_min a + (\<Sum>d\<leftarrow>ds. max 0 (ac_ordinary_daily_minutes e - worked_on e d)) \<and>
    ag_days_absent (fold (expect_day c e) ds a) = ag_days_absent a"
  using assms(4-)
proof (induction ds arbitrary: a)
  case Nil
  then show ?case by simp
next
  case (Cons d ds)
  let ?o = "ac_ordinary_daily_minutes e"
  let ?b = "expect_day c e d a"
  have "expected_minutes c ?o d False = ?o"
    using Cons.prems(1) assms(1) by (auto simp: expected_minutes_def is_weekend_def)
  moreover have w: "0 \<le> worked_on e d" "worked_on e d \<le> 1000000" using assms(3) by auto
  then have "deficit_minutes ?o (worked_on e d) = max 0 (?o - worked_on e d)"
    using assms(1,2) by (simp add: deficit_minutes_def i64_sub_exact in_i64_def i64_min_def i64_max_def max.commute)
  moreover have m: "0 \<le> max 0 (?o - worked_on e d)" "max 0 (?o - worked_on e d) \<le> 1440" using assms(1,2) w by auto
  moreover have "in_i64 (ag_deficit_min a + max 0 (?o - worked_on e d))" "in_i64 (ag_expected_min a + ?o)"
  proof -
    have "0 \<le> int (length ds)" "int (length (d # ds)) = int (length ds) + 1" by simp_all
    with Cons.prems(2-) assms(1,2) m
    show "in_i64 (ag_deficit_min a + max 0 (?o - worked_on e d))" "in_i64 (ag_expected_min a + ?o)"
      unfolding in_i64_def i64_min_def i64_max_def by linarith+
  qed
  ultimately have b: "ag_expected_min ?b = ag_expected_min a + ?o" "ag_days_absent ?b = ag_days_absent a"
    "ag_deficit_min ?b = ag_deficit_min a + max 0 (?o - worked_on e d)"
    by (simp_all add: expect_day_def Let_def saturating_add_exact)
  have "ag_expected_min (fold (expect_day c e) ds ?b) = ag_expected_min ?b + ?o * int (length ds) \<and>
      ag_deficit_min (fold (expect_day c e) ds ?b) = ag_deficit_min ?b + (\<Sum>d\<leftarrow>ds. max 0 (?o - worked_on e d)) \<and>
      ag_days_absent (fold (expect_day c e) ds ?b) = ag_days_absent ?b"
    using Cons.prems b m assms(1,2) by (intro Cons.IH) auto
  with b show ?case by (simp add: algebra_simps)
qed

text \<open>Expected minutes, deficit and absences are computed over the same days (D-34): the weekdays of
  the period inside the employment window that are not leave days.  The expected minutes are
  the department's ordinary day for each of them, the deficit is the sum of the daily
  shortfalls against what was actually worked that day (overtime on one day never offsets
  another), the absences are those without worked minutes, and the deficit never exceeds
  the expected minutes.\<close>

theorem expected_and_deficit:
  assumes "ag_expected_min (ac_agg e) = 0" "ag_deficit_min (ac_agg e) = 0"
    and "1 \<le> ac_ordinary_daily_minutes e" "ac_ordinary_daily_minutes e \<le> 1440"
    and "\<forall>d. 0 \<le> worked_on e d \<and> worked_on e d \<le> 1000000" "to - from \<le> 366"
    and "due = {d. from \<le> d \<and> d \<le> to \<and> weekday_mon c d < 5 \<and> employed_on e d \<and> d \<notin> ac_leave_dates e}"
    and "a = ac_agg (close_entry c from to e)"
  shows "ag_expected_min a = ac_ordinary_daily_minutes e * int (card due) \<and>
    ag_deficit_min a = (\<Sum>d\<in>due. max 0 (ac_ordinary_daily_minutes e - worked_on e d)) \<and>
    ag_days_absent a = int (card (due - ac_worked_dates e)) \<and>
    0 \<le> ag_deficit_min a \<and> ag_deficit_min a \<le> ag_expected_min a"
proof -
  let ?o = "ac_ordinary_daily_minutes e"
  define ds where "ds = filter (\<lambda>d. employed_on e d \<and> d \<notin> ac_leave_dates e) (weekdays_in_period c from to)"
  define a0 where "a0 = (ac_agg e)\<lparr>ag_days_absent := int (length (filter (\<lambda>d. employed_on e d \<and>
    d \<notin> ac_worked_dates e \<and> d \<notin> ac_leave_dates e) (weekdays_in_period c from to)))\<rparr>"
  have a: "a = fold (expect_day c e) ds a0"
    by (simp add: assms(8) close_entry_def Let_def ds_def a0_def)
  have dist: "distinct (weekdays_in_period c from to)" by (simp add: weekdays_in_period_def)
  have set_ds: "set ds = due" by (auto simp: ds_def weekdays_in_period_def assms(7))
  have len_ds: "length ds = card due" using distinct_card [of ds] dist by (simp add: ds_def flip: set_ds)
  have "length ds \<le> length [from..to]"
    unfolding ds_def weekdays_in_period_def by (meson length_filter_le order_trans)
  then have "length ds \<le> 367" using assms(6) by (simp add: length_upto)
  then have fold: "ag_expected_min a = ?o * int (length ds)" "ag_days_absent a = ag_days_absent a0"
    "ag_deficit_min a = (\<Sum>d\<leftarrow>ds. max 0 (?o - worked_on e d))"
    using expect_fold [OF assms(3,4,5), of ds c a0] assms(1,2)
    by (auto simp: a a0_def ds_def weekdays_in_period_def)
  have "ag_days_absent a0 = int (card (due - ac_worked_dates e))"
  proof -
    let ?xs = "filter (\<lambda>d. employed_on e d \<and> d \<notin> ac_worked_dates e \<and> d \<notin> ac_leave_dates e) (weekdays_in_period c from to)"
    have "set ?xs = due - ac_worked_dates e" by (auto simp: weekdays_in_period_def assms(7))
    then show ?thesis using distinct_card [of ?xs] dist by (simp add: a0_def)
  qed
  moreover have "(\<Sum>d\<leftarrow>ds. max 0 (?o - worked_on e d)) = (\<Sum>d\<in>due. max 0 (?o - worked_on e d))"
    using dist by (simp add: sum_list_distinct_conv_sum_set ds_def flip: set_ds)
  moreover have "(\<Sum>d\<in>due. max 0 (?o - worked_on e d)) \<le> ?o * int (card due)"
    using sum_bounded_above [of due "\<lambda>d. max 0 (?o - worked_on e d)" ?o] assms(3,5) by (auto simp: mult.commute)
  moreover have "0 \<le> (\<Sum>d\<in>due. max 0 (?o - worked_on e d))" by (rule sum_nonneg) simp
  ultimately show ?thesis using fold len_ds by simp
qed


section \<open>The pay of a standard day\<close>

lemma rounds_bound:
  assumes "rounds_half_up n d q" "0 < d"
  shows "\<bar>2 * d * q - 2 * n\<bar> \<le> d"
proof -
  have "2 * d * (q + 1) = 2 * d * q + 2 * d" by (simp add: algebra_simps)
  with assms show ?thesis unfolding rounds_half_up_def by linarith
qed

lemma rounds_scaled:
  assumes "rounds_half_up n (c * u) q" "0 < c * u" "0 \<le> s"
  shows "\<bar>2 * (s * c) * (u * q) - 2 * s * n\<bar> \<le> (s * c) * u"
proof -
  have "s * \<bar>2 * (c * u) * q - 2 * n\<bar> \<le> s * (c * u)"
    by (rule mult_left_mono [OF rounds_bound [OF assms(1,2)] assms(3)])
  moreover have "s * \<bar>2 * (c * u) * q - 2 * n\<bar> = \<bar>s * (2 * (c * u) * q - 2 * n)\<bar>"
    using assms(3) by (simp add: abs_mult)
  moreover have "s * (2 * (c * u) * q - 2 * n) = 2 * (s * c) * (u * q) - 2 * s * n"
    by (simp add: algebra_simps)
  ultimately show ?thesis by (simp add: mult.assoc)
qed

lemma rounds_le:
  assumes "rounds_half_up n (c * d) q" "0 < c" "1 \<le> d" "n \<le> c * b" "0 \<le> b"
  shows "q \<le> b + 1"
proof (cases "q \<le> 0")
  case False
  have "c * (d * (2 * q - 1)) \<le> 2 * n" using assms(1) by (simp add: rounds_half_up_def algebra_simps)
  also have "\<dots> \<le> c * (2 * b)" using assms(4) by simp
  finally have "d * (2 * q - 1) \<le> 2 * b" using assms(2) by (simp add: mult_le_cancel_left)
  moreover have "1 * (2 * q - 1) \<le> d * (2 * q - 1)" using False assms(3) by (intro mult_right_mono) auto
  ultimately show ?thesis by simp
qed (use assms(5) in simp)

lemma pay_num_bound:
  assumes "pay_range m base ord" "0 \<le> pct"
  shows "m * base * pct * unit_num k ord \<le> 100000000000 * pct * 1440"
proof -
  note p = pay_rangeD [OF assms(1)]
  have "m * base * pct \<le> 100000000000 * pct" using p(2) assms(2) by (rule mult_right_mono)
  from mult_mono [OF this p(7) [of k]] p(6) [of k] assms(2) show ?thesis by simp
qed

text \<open>C2. Every minute of a standard day is paid once and at its own rate (C-01, C-02, LOTTT 117, 118,
  120): the total is the sum of its four parts, it is within two cents of paying the ordinary
  minutes at the day's percentage (100, plus 30 at night, plus 50 on a rest day) and the
  overtime minutes at one and a half times that percentage, and the late minutes change
  nothing in it.\<close>

theorem standard_day_paid_once:
  assumes "pay_range ordinary base ord" "pay_range overtime base ord" "pay_range late base ord" "pay_range late' base ord"
    and "ordinary = max (i64_sub effective overtime) 0" "pct = day_premium_pct shift rest_day"
  shows "\<exists>p p'. standard_day_pay effective overtime late shift rest_day base ord k = Some p \<and>
    standard_day_pay effective overtime late' shift rest_day base ord k = Some p' \<and>
    dp_total p = dp_work p + dp_ot p + dp_night p + dp_rest p \<and> dp_total p' = dp_total p \<and>
    \<bar>10000 * (unit_den k ord * ord) * dp_total p
      - base * unit_num k ord * (100 * pct * ordinary + 150 * pct * overtime)\<bar> \<le> 20000 * (unit_den k ord * ord)"
proof -
  define u where "u = unit_den k ord * ord"
  define B where "B = base * unit_num k ord"
  have pct: "0 \<le> pct" "pct \<le> 180" by (auto simp: assms(6) day_premium_pct_def)
  note d = denominators [OF pay_rangeD(3,4) [OF assms(1)], of _ k]
  have u: "0 < u" "1 \<le> u" using d(2) [of 1] by (auto simp: u_def)
  obtain w where w: "work_pay_cents ordinary base ord k = Some w" "0 \<le> w" "rounds_half_up (ordinary * B) u w"
    using work_pay_half_up [OF assms(1), of k] by (auto simp: u_def B_def mult.assoc)
  obtain x where x: "ot_pay_cents overtime base ord k pct = Some x" "0 \<le> x"
      "rounds_half_up (overtime * base * (150 * pct) * unit_num k ord) (10000 * unit_den k ord * ord) x"
    using ot_pay_half_up [OF assms(2) pct, of k] by auto
  obtain n0 where n0: "night_premium_cents ordinary base ord k = Some n0" "0 \<le> n0"
      "rounds_half_up (ordinary * base * 30 * unit_num k ord) (100 * unit_den k ord * ord) n0"
    using night_premium_half_up [OF assms(1), of k] by auto
  obtain r0 where r0: "rest_day_surcharge_cents ordinary base ord k = Some r0" "0 \<le> r0"
      "rounds_half_up (ordinary * base * 50 * unit_num k ord) (100 * unit_den k ord * ord) r0"
    using rest_day_surcharge_half_up [OF assms(1), of k] by auto
  obtain l l' where l: "late_deduction_cents late base ord k = Some l" "late_deduction_cents late' base ord k = Some l'"
    using work_pay_half_up [OF assms(3), of k] work_pay_half_up [OF assms(4), of k]
    unfolding late_deduction_eq_work_pay by auto
  define n where "n = (if shift = ''night'' then n0 else 0)"
  define r where "r = (if rest_day = 1 then r0 else 0)"
  define nn where "nn = (if shift = ''night'' then 1 else 0 :: int)"
  define rr where "rr = (if rest_day = 1 then 1 else 0 :: int)"
  have le: "w \<le> 1000000000000000000" "x \<le> 1000000000000000000" "n0 \<le> 1000000000000000000" "r0 \<le> 1000000000000000000"
    using rounds_le [of "ordinary * B" 1 u w 144000000000000] w(3) u(2) pay_num_bound [OF assms(1), of 1 k]
      rounds_le [of _ 10000 u x 388800000000000] x(3) pay_num_bound [OF assms(2), of "150 * pct" k] pct
      rounds_le [of _ 100 u n0 43200000000000] n0(3) pay_num_bound [OF assms(1), of 30 k]
      rounds_le [of _ 100 u r0 72000000000000] r0(3) pay_num_bound [OF assms(1), of 50 k]
    by (force simp: u_def B_def mult.assoc)+
  have total: "total_a_pagar_cents w x n r 0 = w + x + n + r"
    using total_exact [of w x n r 0] le w(2) x(2) n0(2) r0(2) by (auto simp: n_def r_def)
  let ?p = "\<lambda>l. \<lparr>dp_work = w, dp_ot = x, dp_night = n, dp_rest = r, dp_late = l, dp_total = w + x + n + r\<rparr>"
  have pay: "standard_day_pay effective overtime la shift rest_day base ord k = Some (?p ll)"
    if "late_deduction_cents la base ord k = Some ll" for la ll
    using that w(1) x(1) n0(1) r0(1) total
    by (simp add: standard_day_pay_def flip: assms(5,6)) (auto simp: n_def r_def)
  have "\<bar>20000 * (u * w) - 20000 * (ordinary * B)\<bar> \<le> 10000 * u"
    using rounds_bound [OF w(3) u(1)] by linarith
  moreover have "\<bar>20000 * (u * x) - 2 * (150 * pct * overtime * B)\<bar> \<le> 10000 * u"
    using rounds_bound [OF x(3)] u(1) by (simp add: u_def B_def algebra_simps)
  moreover have "\<bar>20000 * (u * n) - 6000 * (nn * (ordinary * B))\<bar> \<le> 10000 * u"
    using rounds_scaled [of "ordinary * base * 30 * unit_num k ord" 100 u n0 100] n0(3) u(1)
    by (auto simp: u_def B_def n_def nn_def algebra_simps)
  moreover have "\<bar>20000 * (u * r) - 10000 * (rr * (ordinary * B))\<bar> \<le> 10000 * u"
    using rounds_scaled [of "ordinary * base * 50 * unit_num k ord" 100 u r0 100] r0(3) u(1)
    by (auto simp: u_def B_def r_def rr_def algebra_simps)
  moreover have "100 * pct * ordinary * B = 10000 * (ordinary * B) + 3000 * (nn * (ordinary * B)) + 5000 * (rr * (ordinary * B))"
    by (simp add: assms(6) day_premium_pct_def nn_def rr_def)
  moreover have "10000 * u * (w + x + n + r) = 10000 * (u * w) + 10000 * (u * x) + 10000 * (u * n) + 10000 * (u * r)"
    by (simp add: algebra_simps)
  moreover have "B * (100 * pct * ordinary + 150 * pct * overtime) = 100 * pct * ordinary * B + 150 * pct * overtime * B"
    by (simp add: algebra_simps)
  ultimately have "\<bar>10000 * u * (w + x + n + r) - B * (100 * pct * ordinary + 150 * pct * overtime)\<bar> \<le> 20000 * u"
    by linarith
  with pay [OF l(1)] pay [OF l(2)] show ?thesis
    by (intro exI [of _ "?p l"] exI [of _ "?p l'"]) (simp add: u_def B_def)
qed


section \<open>Isolation and totality\<close>

definition ok_value :: "'a outcome \<Rightarrow> 'a" where
  "ok_value r = projr (the r)"

lemma prepare_rows_map:
  assumes "prepare_rows c rows = Some (Inr ps)"
  shows "ps = map (\<lambda>r. (r, ok_value (row_effect c r))) rows"
  using prepare_rows_ok [OF assms]
  by (simp add: map_idI prod_eq_iff ok_value_def comp_def flip: prepare_rows_ok(1) [OF assms])

lemma prepare_leaves_map:
  assumes "prepare_leaves c from to qs = Some (Inr ps)"
  shows "ps = filter (\<lambda>(q, a, b). a \<le> b) (map (\<lambda>q. (q, ok_value (leave_overlap c from to q))) qs)"
proof -
  obtain os where os: "map fst os = qs" "ps = filter (\<lambda>(q, a, b). a \<le> b) os"
    "\<forall>p \<in> set os. leave_overlap c from to (fst p) = Some (Inr (snd p))"
    using prepare_leaves_ok [OF assms] by blast
  then have "map (\<lambda>q. (q, ok_value (leave_overlap c from to q))) qs = os"
    unfolding os(1) [symmetric] map_map comp_def by (intro map_idI) (simp add: ok_value_def)
  with os(2) show ?thesis by simp
qed

text \<open>The databases differ only in the rows and records of employees other than \<open>k\<close>.\<close>

definition same_for :: "string \<Rightarrow> db \<Rightarrow> db \<Rightarrow> bool" where
  "same_for k s s' \<longleftrightarrow>
     filter (\<lambda>e. em_id e = k) (t_employees s) = filter (\<lambda>e. em_id e = k) (t_employees s') \<and>
     filter (\<lambda>r. dr_employee_id r = k) (t_daily_records s) = filter (\<lambda>r. dr_employee_id r = k) (t_daily_records s') \<and>
     t_departments s = t_departments s' \<and> t_anomalies s = t_anomalies s' \<and>
     t_overrides s = t_overrides s' \<and> t_leaves s = t_leaves s'"

lemma filter_concat_map0: "filter P (concat (map f xs)) = concat (map (\<lambda>x. filter P (f x)) xs)"
  by (induction xs) auto

lemma filter_concat_map:
  "(\<And>x y. x \<in> set xs \<Longrightarrow> y \<in> set (f x) \<Longrightarrow> P y \<longleftrightarrow> Q x) \<Longrightarrow>
    filter P (concat (map f xs)) = concat (map f (filter Q xs))"
proof (induction xs)
  case (Cons x xs)
  have "filter P (f x) = (if Q x then f x else [])"
    using Cons.prems [of x] by (auto simp: filter_empty_conv intro!: filter_True)
  with Cons show ?case by simp
qed simp

lemma employee_rows_same:
  assumes "same_for k s s'" "em_id e = k"
  shows "employee_rows c s from to params e d = employee_rows c s' from to params e d"
proof -
  have f: "filter (\<lambda>r. dr_employee_id r = em_id e \<and> Q r) (t_daily_records s) =
      filter (\<lambda>r. dr_employee_id r = em_id e \<and> Q r) (t_daily_records s')" for Q
  proof -
    have "filter Q (filter (\<lambda>r. dr_employee_id r = k) (t_daily_records s)) =
        filter Q (filter (\<lambda>r. dr_employee_id r = k) (t_daily_records s'))"
      using assms(1) by (simp add: same_for_def)
    then show ?thesis by (simp add: assms(2) conj_commute)
  qed
  have "t_anomalies s = t_anomalies s'" "t_overrides s = t_overrides s'" "t_leaves s = t_leaves s'"
    using assms(1) by (simp_all add: same_for_def)
  then show ?thesis by (simp only: employee_rows_def f)
qed

lemma report_rows_same:
  assumes "same_for k s s'"
  shows "filter (\<lambda>r. rr_employee_id r = k) (report_rows c s from to params) =
    filter (\<lambda>r. rr_employee_id r = k) (report_rows c s' from to params)"
proof -
  let ?f = "\<lambda>s e. if in_universe from to params e
      then concat (map (employee_rows c s from to params e)
             (filter (\<lambda>d. de_id d = em_department_id e) (t_departments s))) else []"
  have "filter (\<lambda>r. rr_employee_id r = k) (concat (map (?f s) (t_employees s))) =
      concat (map (?f s) (filter (\<lambda>e. em_id e = k) (t_employees s)))" for s
    by (rule filter_concat_map) (auto simp: employee_rows_of split: if_splits)
  moreover have "concat (map (?f s) (filter (\<lambda>e. em_id e = k) (t_employees s))) =
      concat (map (?f s') (filter (\<lambda>e. em_id e = k) (t_employees s')))"
    using assms employee_rows_same [OF assms]
    by (auto simp: same_for_def intro!: arg_cong [of _ _ concat] map_cong)
  ultimately show ?thesis by (simp add: report_rows_def filter_sort)
qed

lemma leave_rows_same:
  assumes "same_for k s s'"
  shows "filter (\<lambda>q. em_id (lq_employee q) = k) (leave_rows c s from to params) =
    filter (\<lambda>q. em_id (lq_employee q) = k) (leave_rows c s' from to params)"
proof -
  let ?g = "\<lambda>s l e. concat (map (\<lambda>d.
         if em_id e = le_employee_id l \<and> de_id d = em_department_id e \<and>
            le_status l = ''active'' \<and> le_deleted_at l = None \<and>
            le_from_date l \<le> format_date c to \<and> format_date c from \<le> le_to_date l \<and>
            in_universe from to params e \<and> none_or (\<lambda>st. de_shift_type d = st) (rp_shift_type params)
         then [\<lparr>lq_employee = e, lq_department = d, lq_leave = l\<rparr>] else []) (t_departments s))"
  have one: "filter (\<lambda>q. em_id (lq_employee q) = k) (concat (map (?g s l) (t_employees s))) =
      concat (map (?g s l) (filter (\<lambda>e. em_id e = k) (t_employees s)))" for s l
    by (rule filter_concat_map) (auto split: if_splits)
  have "filter (\<lambda>q. em_id (lq_employee q) = k) (leave_rows c s from to params) =
      concat (map (\<lambda>l. concat (map (?g s l) (filter (\<lambda>e. em_id e = k) (t_employees s)))) (t_leaves s))" for s
    unfolding leave_rows_def by (subst filter_concat_map0) (simp only: one)
  then show ?thesis using assms by (simp add: same_for_def)
qed



lemma standard_day_pay_ok:
  assumes "pay_range ordinary base ord" "pay_range overtime base ord" "pay_range late base ord"
    and "ordinary = max (i64_sub effective overtime) 0"
  shows "\<exists>p. standard_day_pay effective overtime late shift rest_day base ord k = Some p"
proof -
  have pct: "0 \<le> day_premium_pct shift rest_day" "day_premium_pct shift rest_day \<le> 180"
    by (auto simp: day_premium_pct_def)
  show ?thesis
    using work_pay_half_up [OF assms(1), of k] ot_pay_half_up [OF assms(2) pct, of k]
      night_premium_half_up [OF assms(1), of k] rest_day_surcharge_half_up [OF assms(1), of k]
      work_pay_half_up [OF assms(3), of k]
    by (simp add: standard_day_pay_def late_deduction_eq_work_pay Let_def flip: assms(4)) auto
qed

text \<open>What the report needs of a row: the dates parse, and the amounts are payable.  The salary unit
  may be missing or unknown.\<close>

definition row_ok :: "chrono \<Rightarrow> report_row \<Rightarrow> bool" where
  "row_ok c r \<longleftrightarrow> (case rr_daily r of None \<Rightarrow> True | Some d \<Rightarrow>
     let effective = (case rr_override_work_minutes r of None \<Rightarrow> dr_work_minutes d | Some m \<Rightarrow> m);
         base = rr_base_salary_cents r; ord = rr_ordinary_daily_minutes r in
     parse_date c (dr_anchor_date d) \<noteq> None \<and> pay_range ord base ord \<and>
     pay_range (max (i64_sub effective (dr_overtime_minutes d)) 0) base ord \<and>
     pay_range (dr_overtime_minutes d) base ord \<and> pay_range (dr_late_minutes d) base ord)"

lemma row_effect_ok:
  assumes "row_ok c r"
  shows "\<exists>eff. row_effect c r = Some (Inr eff)"
proof (cases "rr_daily r")
  case None
  then show ?thesis by (simp add: row_effect_def)
next
  case (Some d)
  let ?eff = "case rr_override_work_minutes r of None \<Rightarrow> dr_work_minutes d | Some m \<Rightarrow> m"
  obtain ad where ad: "parse_date c (dr_anchor_date d) = Some ad"
    and p: "pay_range (rr_ordinary_daily_minutes r) (rr_base_salary_cents r) (rr_ordinary_daily_minutes r)"
      "pay_range (max (i64_sub ?eff (dr_overtime_minutes d)) 0) (rr_base_salary_cents r) (rr_ordinary_daily_minutes r)"
      "pay_range (dr_overtime_minutes d) (rr_base_salary_cents r) (rr_ordinary_daily_minutes r)"
      "pay_range (dr_late_minutes d) (rr_base_salary_cents r) (rr_ordinary_daily_minutes r)"
    using assms by (auto simp: row_ok_def Some Let_def)
  have day: "\<exists>x. standard_day_pay ?eff (dr_overtime_minutes d) (dr_late_minutes d) (dr_shift_type d)
      (dr_is_rest_day_worked d) (rr_base_salary_cents r) (rr_ordinary_daily_minutes r) k = Some x" for k
    using standard_day_pay_ok [OF p(2-4) refl] by blast
  have vac: "\<exists>x. work_pay_cents (rr_ordinary_daily_minutes r) (rr_base_salary_cents r) (rr_ordinary_daily_minutes r) k = Some x" for k
    using work_pay_half_up [OF p(1)] by blast
  show ?thesis
    using day vac by (auto simp: row_effect_def Some ad Let_def split: option.splits)
qed

lemma map_outcome_total:
  "(\<And>x. x \<in> set xs \<Longrightarrow> \<exists>y. f x = Some (Inr y)) \<Longrightarrow> \<exists>ys. map_outcome f xs = Some (Inr ys)"
proof (induction xs)
  case (Cons x xs)
  then obtain y ys where "f x = Some (Inr y)" "map_outcome f xs = Some (Inr ys)" by fastforce
  then show ?case by simp
qed simp

lemma leave_overlap_ok:
  assumes "parse_date c (le_from_date (lq_leave q)) \<noteq> None" "parse_date c (le_to_date (lq_leave q)) \<noteq> None"
    and "date_ok c from" "date_ok c (to + 1)"
  shows "\<exists>ab. leave_overlap c from to q = Some (Inr ab)"
  using assms by (auto simp: leave_overlap_def date_ok_def min_def max_def)

lemma compute_report_total:
  assumes "report_range c params = Some (Inr (from, to))" "t_tenant_info s \<noteq> None"
    and "date_ok c from" "date_ok c (to + 1)"
    and "\<forall>r \<in> set (report_rows c s from to params). row_ok c r"
    and "\<forall>q \<in> set (leave_rows c s from to params).
      parse_date c (le_from_date (lq_leave q)) \<noteq> None \<and> parse_date c (le_to_date (lq_leave q)) \<noteq> None"
  shows "\<exists>payload. compute_report L c now s params = Some (Inr payload)"
proof -
  have "\<exists>rows. prepare_rows c (report_rows c s from to params) = Some (Inr rows)"
    unfolding prepare_rows_def
  proof (rule map_outcome_total)
    fix r assume "r \<in> set (report_rows c s from to params)"
    with assms(5) row_effect_ok [of c r] obtain eff where "row_effect c r = Some (Inr eff)" by auto
    then show "\<exists>y. and_then (row_effect c r) (\<lambda>eff. Some (Inr (r, eff))) = Some (Inr y)" by simp
  qed
  then obtain rows where rows: "prepare_rows c (report_rows c s from to params) = Some (Inr rows)" ..
  have "\<exists>os. map_outcome (\<lambda>q. and_then (leave_overlap c from to q) (\<lambda>ov. Some (Inr (q, ov))))
      (leave_rows c s from to params) = Some (Inr os)"
  proof (rule map_outcome_total)
    fix q assume "q \<in> set (leave_rows c s from to params)"
    with assms(6) leave_overlap_ok [OF _ _ assms(3,4), of q] obtain ab where
      "leave_overlap c from to q = Some (Inr ab)" by auto
    then show "\<exists>y. and_then (leave_overlap c from to q) (\<lambda>ov. Some (Inr (q, ov))) = Some (Inr y)" by simp
  qed
  then obtain ls where "prepare_leaves c from to (leave_rows c s from to params) = Some (Inr ls)"
    by (auto simp: prepare_leaves_def)
  with rows assms(1,2) show ?thesis
    by (auto simp: compute_report_def accumulate_report_def Let_def)
qed

text \<open>A report over a readable database always comes out (I7): for a valid period whose dates are
  in range, if the dates stored in its rows and leaves parse and the amounts are payable, the
  report is produced, with no error and no panic, whether or not an employee has a salary
  unit, a known one, or a hire date.\<close>

theorem report_never_fails:
  assumes "report_range c params = Some (Inr (from, to))" "t_tenant_info s \<noteq> None"
    and "date_ok c from" "date_ok c (to + 1)"
    and "\<forall>r \<in> set (report_rows c s from to params). row_ok c r"
    and "\<forall>q \<in> set (leave_rows c s from to params).
      parse_date c (le_from_date (lq_leave q)) \<noteq> None \<and> parse_date c (le_to_date (lq_leave q)) \<noteq> None"
  shows "\<exists>payload. compute_report L c now s params = Some (Inr payload)"
  using compute_report_total [OF assms] .

section \<open>The export record\<close>

record export_row =
  xr_id :: string
  xr_record_id :: string
  xr_params :: report_params
  xr_format :: string
  xr_actor_id :: string
  xr_created_at :: i64

definition record_export ::
  "write_outcome \<Rightarrow> i64 \<Rightarrow> string \<Rightarrow> string \<Rightarrow> export_row list \<Rightarrow> string \<Rightarrow> report_params \<Rightarrow> string
    \<Rightarrow> export_row list \<times> unit result" where
  "record_export wo now new_id synthetic_id log actor_id params format =
     (case run_insert wo (\<lambda>_. None) \<lparr>xr_id = new_id, xr_record_id = synthetic_id, xr_params = params,
         xr_format = format, xr_actor_id = actor_id, xr_created_at = now\<rparr> log of
        (log', Inl e) \<Rightarrow> (log', Inl (from_db_write e))
      | (log', Inr _) \<Rightarrow> (log', Inr ()))"

text \<open>\<open>generate_json\<close>, and \<open>generate_excel\<close> up to the workbook builder, which is a parameter:
  the export is recorded only once the artifact exists.\<close>

definition generate ::
  "auth_libs \<Rightarrow> chrono \<Rightarrow> (report_payload \<Rightarrow> 'a result) \<Rightarrow> string \<Rightarrow> write_outcome \<Rightarrow> i64 \<Rightarrow> string \<Rightarrow> string \<Rightarrow> db
    \<Rightarrow> export_row list \<Rightarrow> claims \<Rightarrow> report_params \<Rightarrow> (export_row list \<times> 'a result) option" where
  "generate L c build format wo now new_id synthetic_id s log claims params =
     (case generate_report L c now s claims params of
        None \<Rightarrow> None
      | Some (Inl e) \<Rightarrow> Some (log, Inl e)
      | Some (Inr payload) \<Rightarrow>
        (case build payload of
           Inl e \<Rightarrow> Some (log, Inl e)
         | Inr artifact \<Rightarrow>
           (case record_export wo now new_id synthetic_id log (cl_sub claims)
               (params\<lparr>rp_department_ids := scoped_department_ids (scope_from_claims claims) (rp_department_ids params)\<rparr>)
               format of
              (log', Inl e) \<Rightarrow> Some (log', Inl e)
            | (log', Inr _) \<Rightarrow> Some (log', Inr artifact))))"

text \<open>An export is recorded exactly when it is delivered: a request that fails leaves the audit log
  as it was, and one that answers with the artifact has appended exactly one entry, which names
  the token's subject as the actor and the filters that were really applied.\<close>

theorem export_recorded_iff_delivered:
  assumes "generate L c build format wo now new_id synthetic_id s log claims params = Some (log', r)"
  shows "(case r of
      Inl e \<Rightarrow> log' = log
    | Inr artifact \<Rightarrow> \<exists>x. log' = log @ [x] \<and> xr_actor_id x = cl_sub claims \<and> xr_format x = format \<and>
        rp_department_ids (xr_params x) = scoped_department_ids (scope_from_claims claims) (rp_department_ids params))"
  using assms
  by (cases wo) (auto simp: generate_def record_export_def split: option.splits sum.splits)

end
