(* ===== verification/Report_Examples.thy ===== *)
theory Report_Examples
  imports Report
begin

text \<open>
  A small database on which the report's theorems are applied: two departments, an employee
  with overtime, one without a salary unit and one on vacation.
\<close>

definition sample_employee :: "string \<Rightarrow> string \<Rightarrow> string option \<Rightarrow> employee_row" where
  "sample_employee i dept kind = \<lparr>em_id = i, em_code = ''V-'' @ i, em_name = i, em_department_id = dept,
     em_status = ''active'', em_position = '''', em_hire_date = Some 0, em_base_salary_cents = 5000,
     em_salary_kind = kind, em_terminated_on = None, em_face_id = None, em_deleted_at = None, em_version = 1,
     em_created_at = 0, em_updated_at = 0\<rparr>"

definition sample_department :: "string \<Rightarrow> department_row" where
  "sample_department i = \<lparr>de_id = i, de_name = ''Dept '' @ i, de_base_salary_cents = 0,
     de_shift_start_time = ''08:00'', de_shift_end_time = ''17:00'', de_lunch_mode = ''fixed'',
     de_lunch_duration_min = Some 60, de_status = ''active'', de_deleted_at = None, de_version = 1,
     de_shift_type = ''day'', de_is_overnight_shift = False, de_ordinary_daily_minutes = 480, de_created_at = 0, de_updated_at = 0\<rparr>"

definition sample_daily :: "string \<Rightarrow> string \<Rightarrow> i64 \<Rightarrow> i64 \<Rightarrow> daily_row" where
  "sample_daily i emp work ot = \<lparr>dr_id = i, dr_employee_id = emp, dr_department_id = ''A'',
     dr_anchor_date = ''2026-04-20'', dr_shift_type = ''day'', dr_work_minutes = work,
     dr_overtime_minutes = ot, dr_late_minutes = 5, dr_early_departure_minutes = 0,
     dr_is_rest_day_worked = 0, dr_entry_at = None, dr_exit_at = None, dr_leave_id = None,
     dr_computed_at = 0, dr_created_at = 0, dr_updated_at = 0\<rparr>"

definition sample_db :: db where
  "sample_db = \<lparr>t_employees = [sample_employee ''1'' ''A'' (Some ''daily''), sample_employee ''2'' ''A'' None,
       sample_employee ''3'' ''B'' (Some ''monthly'')],
     t_departments = [sample_department ''A'', sample_department ''B''],
     t_daily_records = [sample_daily ''r1'' ''1'' 540 60, sample_daily ''r2'' ''2'' 480 0],
     t_anomalies = [], t_overrides = [],
     t_leaves = [\<lparr>le_id = ''l'', le_employee_id = ''3'', le_from_date = ''2026-04-21'',
       le_to_date = ''2026-04-22'', le_type = ''vacation'', le_status = ''active'', le_deleted_at = None,
       le_justification = ''vacaciones'', le_evidence_path = None, le_created_by = ''u1'', le_cancelled_by = None,
       le_version = 1, le_created_at = 0, le_updated_at = 0\<rparr>],
     t_events = [], t_global_rules = None, t_tenant_info = Some (''ACME'', ''J-1'')\<rparr>"

definition sample_params :: report_params where
  "sample_params = \<lparr>rp_from_date = ''2026-04-20'', rp_to_date = ''2026-04-26'', rp_period_type = ''custom'',
     rp_department_ids = None, rp_include_inactive = None, rp_employee_id = None, rp_shift_type = None\<rparr>"

lemma sample_range: "report_range gregorian sample_params = Some (Inr (20563, 20569))"
  by code_simp

lemma sample_rows_ok: "\<forall>r \<in> set (report_rows gregorian sample_db 20563 20569 sample_params). row_ok gregorian r"
proof -
  have "list_all (row_ok gregorian) (report_rows gregorian sample_db 20563 20569 sample_params)" by code_simp
  then show ?thesis by (simp add: list_all_iff)
qed

lemma sample_leaves_ok: "\<forall>q \<in> set (leave_rows gregorian sample_db 20563 20569 sample_params).
    parse_date gregorian (le_from_date (lq_leave q)) \<noteq> None \<and> parse_date gregorian (le_to_date (lq_leave q)) \<noteq> None"
proof -
  have "list_all (\<lambda>q. parse_date gregorian (le_from_date (lq_leave q)) \<noteq> None \<and>
      parse_date gregorian (le_to_date (lq_leave q)) \<noteq> None)
    (leave_rows gregorian sample_db 20563 20569 sample_params)" by code_simp
  then show ?thesis by (simp add: list_all_iff)
qed

lemma sample_dates_ok: "date_ok gregorian 20563" "date_ok gregorian (20569 + 1)"
  by (simp_all add: year_begin_def)

lemma sample_report: "\<exists>payload. compute_report toy_libs gregorian 0 sample_db sample_params = Some (Inr payload)"
  by (rule compute_report_total [OF sample_range _ sample_dates_ok sample_rows_ok sample_leaves_ok])
    (simp add: sample_db_def)

theorem report_never_fails_witness:
  "\<exists>payload. compute_report toy_libs gregorian 0 sample_db sample_params = Some (Inr payload)"
  by (rule report_never_fails [OF sample_range _ sample_dates_ok sample_rows_ok sample_leaves_ok])
    (simp add: sample_db_def)

theorem report_has_every_employee_once_witness:
  "\<exists>payload. compute_report toy_libs gregorian 0 sample_db sample_params = Some (Inr payload) \<and>
    er_employee_id ` set (rp_rows payload) = {''1'', ''2'', ''3''}"
proof -
  obtain payload where p: "compute_report toy_libs gregorian 0 sample_db sample_params = Some (Inr payload)"
    using sample_report ..
  have "er_employee_id ` set (rp_rows payload) = {em_id e | e d. e \<in> set (t_employees sample_db) \<and>
      in_universe 20563 20569 sample_params e \<and> d \<in> set (t_departments sample_db) \<and> de_id d = em_department_id e}"
    using report_has_every_employee_once [OF p] by (auto simp: sample_range)
  also have "\<dots> = em_id ` set (t_employees sample_db)"
  proof -
    have "in_universe 20563 20569 sample_params e \<and> (\<exists>d \<in> set (t_departments sample_db). de_id d = em_department_id e)"
      if "e \<in> set (t_employees sample_db)" for e
      using that by (auto simp: sample_db_def sample_employee_def sample_department_def in_universe_def sample_params_def)
    then show ?thesis by blast
  qed
  also have "\<dots> = {''1'', ''2'', ''3''}" by (simp add: sample_db_def sample_employee_def)
  finally show ?thesis using p by blast
qed

definition sample_claims :: claims where
  "sample_claims = \<lparr>cl_sub = ''u'', cl_role = Supervisor, cl_department_id = Some ''A'', cl_exp = 0, cl_iat = 0,
     cl_jti = ''j'', cl_token_type = ''access''\<rparr>"

lemma scoped_sample:
  "\<exists>payload. generate_report toy_libs gregorian 0 sample_db sample_claims sample_params = Some (Inr payload)"
proof -
  let ?p = "sample_params\<lparr>rp_department_ids := Some [''A'']\<rparr>"
  have range: "report_range gregorian ?p = Some (Inr (20563, 20569))" by code_simp
  have "list_all (row_ok gregorian) (report_rows gregorian sample_db 20563 20569 ?p)" by code_simp
  then have rows: "\<forall>r \<in> set (report_rows gregorian sample_db 20563 20569 ?p). row_ok gregorian r"
    by (simp only: list_all_iff)
  have "leave_rows gregorian sample_db 20563 20569 ?p = []" by code_simp
  then have leaves: "\<forall>q \<in> set (leave_rows gregorian sample_db 20563 20569 ?p).
    parse_date gregorian (le_from_date (lq_leave q)) \<noteq> None \<and> parse_date gregorian (le_to_date (lq_leave q)) \<noteq> None"
    by simp
  have "\<exists>payload. compute_report toy_libs gregorian 0 sample_db ?p = Some (Inr payload)"
    by (rule compute_report_total [OF range _ sample_dates_ok rows leaves]) (simp add: sample_db_def)
  then show ?thesis
    by (simp add: generate_report_def scoped_department_ids_def scope_from_claims_def sample_claims_def
        Let_def) (simp add: sample_params_def)
qed

theorem report_confined_to_scope_witness:
  "\<exists>payload. generate_report toy_libs gregorian 0 sample_db sample_claims sample_params = Some (Inr payload) \<and>
    (\<forall>row \<in> set (rp_rows payload). er_dept_id row = ''A'')"
proof -
  obtain payload where p: "generate_report toy_libs gregorian 0 sample_db sample_claims sample_params = Some (Inr payload)"
    using scoped_sample ..
  have "scope_from_claims sample_claims = Department ''A''" by (simp add: scope_from_claims_def sample_claims_def)
  from report_confined_to_scope [OF p this] p show ?thesis by blast
qed

lemma sample_totals:
  "(case accumulate_report gregorian sample_db 20563 20569 sample_params of
      Some (Inr p) \<Rightarrow> map (\<lambda>r. ag_total (ac_agg (snd r))) (fst p)
    | _ \<Rightarrow> []) = [5938, 0, 0]"
  by code_simp

theorem report_totals_add_up_witness:
  "\<exists>payload. compute_report toy_libs gregorian 0 sample_db sample_params = Some (Inr payload) \<and>
    ag_total (rp_grand_total payload) = 5938 \<and> (\<Sum>(i, n, a)\<leftarrow>rp_dept_subtotals payload. ag_total a) = 5938"
proof -
  obtain payload where p: "compute_report toy_libs gregorian 0 sample_db sample_params = Some (Inr payload)"
    using sample_report ..
  from compute_report_entries [OF p] sample_range obtain acc seen header where
    a: "accumulate_report gregorian sample_db 20563 20569 sample_params = Some (Inr (acc, seen))"
    and pl: "payload = assemble header acc seen" by auto
  have vals: "map (\<lambda>row. ag_total (er_aggregates row)) (rp_rows payload) = [5938, 0, 0]"
    using sample_totals by (simp add: a pl assemble_def Let_def to_report_row_def comp_def)
  have "(\<Sum>row\<leftarrow>rp_rows payload. \<bar>ag_total (er_aggregates row)\<bar>) = sum_list (map abs [5938, 0, 0 :: int])"
    unfolding vals [symmetric] by (simp add: comp_def)
  then have "(\<Sum>row\<leftarrow>rp_rows payload. \<bar>ag_total (er_aggregates row)\<bar>) \<le> i64_max"
    by (simp add: i64_max_def)
  from report_totals_add_up [OF p _ this] have
    "ag_total (rp_grand_total payload) = (\<Sum>row\<leftarrow>rp_rows payload. ag_total (er_aggregates row))"
    "(\<Sum>(i, n, a)\<leftarrow>rp_dept_subtotals payload. ag_total a) = ag_total (rp_grand_total payload)"
    by (simp_all add: agg_fields_def)
  then show ?thesis using p vals by auto
qed

definition sample_entry :: acc_row where
  "sample_entry = \<lparr>ac_employee_id = ''1'', ac_dept_id = ''A'', ac_cedula = '''', ac_nombre = '''',
     ac_departamento = ''A'', ac_cargo = '''', ac_shift_type = ''day'', ac_agg = aggregates_default,
     ac_anomaly_codes = [], ac_worked_dates = {20563}, ac_leave_dates = {20565},
     ac_worked_by_date = [20563 \<mapsto> 400], ac_hire_date = Some 20000, ac_terminated_on = Some 20566,
     ac_ordinary_daily_minutes = 480\<rparr>"

theorem expected_and_deficit_witness:
  "ag_expected_min (ac_agg (close_entry gregorian 20563 20569 sample_entry)) = 480 * 3 \<and>
   ag_deficit_min (ac_agg (close_entry gregorian 20563 20569 sample_entry))
     \<le> ag_expected_min (ac_agg (close_entry gregorian 20563 20569 sample_entry))"
proof
  let ?due = "{d. 20563 \<le> d \<and> d \<le> 20569 \<and> weekday_mon gregorian d < 5 \<and> employed_on sample_entry d \<and>
    d \<notin> ac_leave_dates sample_entry}"
  have worked: "\<forall>d. 0 \<le> worked_on sample_entry d \<and> worked_on sample_entry d \<le> 1000000"
    by (simp add: worked_on_def sample_entry_def)
  have init: "ag_expected_min (ac_agg sample_entry) = 0" "ag_deficit_min (ac_agg sample_entry) = 0"
    "1 \<le> ac_ordinary_daily_minutes sample_entry" "ac_ordinary_daily_minutes sample_entry \<le> 1440"
    by (simp_all add: sample_entry_def aggregates_default_def)
  note r = expected_and_deficit [OF init worked _ refl refl, of 20569 20563 gregorian]
  show "ag_expected_min (ac_agg (close_entry gregorian 20563 20569 sample_entry)) = 480 * 3"
    by code_simp
  show "ag_deficit_min (ac_agg (close_entry gregorian 20563 20569 sample_entry))
     \<le> ag_expected_min (ac_agg (close_entry gregorian 20563 20569 sample_entry))"
    using r by simp
qed

theorem standard_day_paid_once_witness:
  "\<exists>p. standard_day_pay 540 60 5 ''night'' 0 5000 480 Daily = Some p \<and> dp_total p = 7719"
proof -
  have r: "pay_range 480 5000 480" "pay_range 60 5000 480" "pay_range 5 5000 480" "pay_range 0 5000 480"
    by (simp_all add: pay_range_def)
  have o: "480 = max (i64_sub 540 60) 0" by code_simp
  have v: "standard_day_pay 540 60 5 ''night'' 0 5000 480 Daily = Some
      \<lparr>dp_work = 5000, dp_ot = 1219, dp_night = 1500, dp_rest = 0, dp_late = 52, dp_total = 7719\<rparr>" by code_simp
  from standard_day_paid_once [OF r o refl, of "''night''" 0 Daily] v show ?thesis by auto
qed

definition other_db :: db where
  "other_db = sample_db\<lparr>t_employees := [sample_employee ''1'' ''A'' (Some ''daily''), sample_employee ''2'' ''A'' (Some ''weekly'')],
     t_daily_records := [sample_daily ''r1'' ''1'' 540 60]\<rparr>"


theorem export_recorded_iff_delivered_witness:
  "\<exists>log r. generate toy_libs gregorian (\<lambda>p. Inr ()) ''json'' Ran 0 ''x'' ''y'' sample_db [] sample_claims sample_params
      = Some (log, r) \<and> (case r of Inl e \<Rightarrow> log = [] | Inr _ \<Rightarrow> \<exists>x. log = [x] \<and> xr_actor_id x = ''u'')"
proof -
  obtain payload where p: "generate_report toy_libs gregorian 0 sample_db sample_claims sample_params = Some (Inr payload)"
    using scoped_sample ..
  then obtain log r where g: "generate toy_libs gregorian (\<lambda>p. Inr ()) ''json'' Ran 0 ''x'' ''y'' sample_db []
      sample_claims sample_params = Some (log, r)"
    by (simp add: generate_def record_export_def)
  from export_recorded_iff_delivered [OF g] g show ?thesis
    by (auto simp: sample_claims_def split: sum.splits)
qed

end
