(* ===== verification/Transitions.thy ===== *)
theory Transitions
  imports Main
begin

text \<open>
  The components that several tasks drive are step functions: an event either applies to
  a state or is not possible in it (\<open>None\<close>).  A run is a list of events.  The locale
  \<open>stepper\<close> is the contract an invariant has with a step function, with what follows for
  whole runs; \<open>simulation\<close> extends it to an abstract specification.
\<close>

fun run_steps :: "('e \<Rightarrow> 's \<Rightarrow> 's option) \<Rightarrow> 'e list \<Rightarrow> 's \<Rightarrow> 's option" where
  "run_steps step [] s = Some s"
| "run_steps step (e # es) s = (case step e s of None \<Rightarrow> None | Some s' \<Rightarrow> run_steps step es s')"

lemma run_steps_append:
  "run_steps step (xs @ ys) s = Option.bind (run_steps step xs s) (run_steps step ys)"
  by (induction xs arbitrary: s) (auto split: option.split)

locale stepper =
  fixes step :: "'e \<Rightarrow> 's \<Rightarrow> 's option" and inv :: "'s \<Rightarrow> bool"
  assumes step_inv: "inv s \<Longrightarrow> step e s = Some s' \<Longrightarrow> inv s'"
begin

lemma run_inv: "inv s \<Longrightarrow> run_steps step es s = Some s' \<Longrightarrow> inv s'"
  by (induction es arbitrary: s) (auto split: option.splits dest: step_inv)

lemma run_relation:
  assumes refl: "\<And>s. R s s" and trans: "\<And>a b c. R a b \<Longrightarrow> R b c \<Longrightarrow> R a c"
    and one: "\<And>s e s'. inv s \<Longrightarrow> step e s = Some s' \<Longrightarrow> R s s'"
  shows "inv s \<Longrightarrow> run_steps step es s = Some s' \<Longrightarrow> R s s'"
proof (induction es arbitrary: s)
  case Nil
  then show ?case by (simp add: refl)
next
  case (Cons e es)
  then obtain m where "step e s = Some m" "run_steps step es m = Some s'"
    by (auto split: option.splits)
  with Cons show ?case by (blast intro: trans one step_inv)
qed

end

fun run_labels ::
  "('e \<Rightarrow> 's \<Rightarrow> 's option) \<Rightarrow> ('e \<Rightarrow> 's \<Rightarrow> 'l list) \<Rightarrow> 'e list \<Rightarrow> 's \<Rightarrow> 'l list" where
  "run_labels step label [] s = []"
| "run_labels step label (e # es) s =
     label e s @ (case step e s of None \<Rightarrow> [] | Some s' \<Rightarrow> run_labels step label es s')"

text \<open>A simulation: every step is some abstract steps, none if the step is internal.\<close>

locale simulation = stepper step inv
  for step :: "'e \<Rightarrow> 's \<Rightarrow> 's option" and inv :: "'s \<Rightarrow> bool" +
  fixes spec :: "'l \<Rightarrow> 'a \<Rightarrow> 'a option" and abs :: "'s \<Rightarrow> 'a"
    and label :: "'e \<Rightarrow> 's \<Rightarrow> 'l list"
  assumes step_refines:
    "inv s \<Longrightarrow> step e s = Some s' \<Longrightarrow> run_steps spec (label e s) (abs s) = Some (abs s')"
begin

lemma run_refines:
  "inv s \<Longrightarrow> run_steps step es s = Some s' \<Longrightarrow> run_steps spec (run_labels step label es s) (abs s) = Some (abs s')"
  by (induction es arbitrary: s)
    (auto simp: run_steps_append step_refines split: option.splits dest: step_inv)

end

end
