(* ===== verification/Write_Queue.thy ===== *)
theory Write_Queue
  imports Db Transitions "HOL-Library.Word"
begin

text \<open>
  The single-writer queue (db/write\_queue.rs): any number of tasks submit commands through
  a bounded channel, one worker owns the writing connection and runs them.  A task takes
  the admission lock, looks at \<open>closed\<close>, waits for a place in the channel and sends; every
  \<open>await\<close> of the source is a point where another task may run, so the queue is a step
  function over the events between two such points.  \<open>wq_sent\<close>, \<open>wq_history\<close> and
  \<open>wq_answers\<close> are history: what was sent, what was run (with what the connection did) and what
  each caller was told.  The database is a value of type \<open>'d\<close>, a callback a value of type
  \<open>'c\<close>, a job's output a value of type \<open>'v\<close>.
\<close>

section \<open>The queue\<close>

record write_stats =
  st_depth :: "64 word"
  st_accepted :: "64 word"
  st_completed :: "64 word"
  st_failed :: "64 word"
  st_busy_rejections :: "64 word"
  st_closed_rejections :: "64 word"

definition stats_default :: write_stats where
  "stats_default = \<lparr>st_depth = 0, st_accepted = 0, st_completed = 0, st_failed = 0,
     st_busy_rejections = 0, st_closed_rejections = 0\<rparr>"

text \<open>A transaction's job collects the \<open>after_commit\<close> callbacks it registered.\<close>

datatype ('d, 'c, 'v) write_command =
    Job "'d \<Rightarrow> 'd \<times> (any_error + 'v)"
  | Transaction "'d \<Rightarrow> 'd \<times> 'c list \<times> (any_error + 'v)"
  | Flush
  | Shutdown

text \<open>What a reply channel carries.\<close>

datatype 'v answer = Output "any_error + 'v" | Done

datatype ('d, 'c, 'v) worker =
    Idle
  | Running nat "('d, 'c, 'v) write_command"
  | Stopped
  | Crashed

fun running :: "('d, 'c, 'v) worker \<Rightarrow> (nat \<times> ('d, 'c, 'v) write_command) list" where
  "running (Running t c) = [(t, c)]"
| "running w = []"

text \<open>The receiver is dropped when the worker returns or panics.\<close>

fun receiver_gone :: "('d, 'c, 'v) worker \<Rightarrow> bool" where
  "receiver_gone Stopped = True"
| "receiver_gone Crashed = True"
| "receiver_gone w = False"

text \<open>What the connection did with a transaction: \<open>BEGIN\<close> and \<open>COMMIT\<close> can fail.\<close>

datatype connection = Works | BeginFails any_error | CommitFails any_error

record ('d, 'c, 'v) write_queue =
  wq_capacity :: nat
  wq_channel :: "(nat \<times> ('d, 'c, 'v) write_command) list"
  wq_admission :: "(nat \<times> ('d, 'c, 'v) write_command) option"
  wq_closed :: bool
  wq_stats :: write_stats
  wq_worker :: "('d, 'c, 'v) worker"
  wq_db :: 'd
  wq_called :: "'c list"
  wq_sent :: "(nat \<times> ('d, 'c, 'v) write_command) list"
  wq_history :: "(nat \<times> ('d, 'c, 'v) write_command \<times> connection) list"
  wq_answers :: "(nat \<times> (db_write_error + 'v answer)) list"

text \<open>\<open>DbWriteQueue::channel\<close>: \<open>None\<close> is the panic of its \<open>assert!\<close>.\<close>

definition channel :: "nat \<Rightarrow> 'd \<Rightarrow> ('d, 'c, 'v) write_queue option" where
  "channel capacity d =
     (if capacity = 0 then None
      else Some \<lparr>wq_capacity = capacity, wq_channel = [], wq_admission = None, wq_closed = False,
        wq_stats = stats_default, wq_worker = Idle, wq_db = d, wq_called = [],
        wq_sent = [], wq_history = [], wq_answers = []\<rparr>)"

fun is_control :: "('d, 'c, 'v) write_command \<Rightarrow> bool" where
  "is_control Flush = True"
| "is_control Shutdown = True"
| "is_control (Job j) = False"
| "is_control (Transaction j) = False"

text \<open>\<open>close_and_flush\<close> admits its command with \<open>closing\<close> set, and nobody else does.\<close>

fun is_closing :: "('d, 'c, 'v) write_command \<Rightarrow> bool" where
  "is_closing Shutdown = True"
| "is_closing c = False"

definition answer :: "nat \<Rightarrow> db_write_error + 'v answer \<Rightarrow> ('d, 'c, 'v) write_queue \<Rightarrow> ('d, 'c, 'v) write_queue" where
  "answer t a q = q\<lparr>wq_answers := wq_answers q @ [(t, a)]\<rparr>"

definition reject_busy :: "nat \<Rightarrow> ('d, 'c, 'v) write_queue \<Rightarrow> ('d, 'c, 'v) write_queue" where
  "reject_busy t q = answer t (Inl Busy)
     (q\<lparr>wq_stats := (wq_stats q)\<lparr>st_busy_rejections := st_busy_rejections (wq_stats q) + 1\<rparr>\<rparr>)"

definition reject_closed :: "nat \<Rightarrow> ('d, 'c, 'v) write_queue \<Rightarrow> ('d, 'c, 'v) write_queue" where
  "reject_closed t q = answer t (Inl Closed)
     (q\<lparr>wq_stats := (wq_stats q)\<lparr>st_closed_rejections := st_closed_rejections (wq_stats q) + 1\<rparr>\<rparr>)"

section \<open>Admission\<close>

text \<open>A command is sent once (\<open>command.take()\<close>).\<close>

definition used :: "nat \<Rightarrow> (nat \<times> 'x) list \<Rightarrow> bool" where
  "used t xs \<longleftrightarrow> t \<in> set (map fst xs)"

definition holds :: "nat \<Rightarrow> (nat \<times> 'x) option \<Rightarrow> bool" where
  "holds t a \<longleftrightarrow> map_option fst a = Some t"

text \<open>
  \<open>admit_once\<close> and \<open>admit_control\<close> up to the wait for a place: the lock is free, \<open>closed\<close> is
  read (or swapped) at once, and the lock stays held while the task waits.  A second
  close is refused without being counted.
\<close>

definition admit_acquire ::
  "nat \<Rightarrow> ('d, 'c, 'v) write_command \<Rightarrow> ('d, 'c, 'v) write_queue \<Rightarrow> ('d, 'c, 'v) write_queue option" where
  "admit_acquire t c q =
     (if wq_admission q \<noteq> None \<or> used t (wq_sent q) then None
      else if is_closing c then
        (if wq_closed q then Some (answer t (Inl Closed) q)
         else Some (q\<lparr>wq_closed := True, wq_admission := Some (t, c)\<rparr>))
      else if wq_closed q then Some (reject_closed t q)
      else Some (q\<lparr>wq_admission := Some (t, c)\<rparr>))"

text \<open>The deadline passes before the lock is free; a closing task waits without a deadline.\<close>

definition admit_timeout ::
  "nat \<Rightarrow> ('d, 'c, 'v) write_command \<Rightarrow> ('d, 'c, 'v) write_queue \<Rightarrow> ('d, 'c, 'v) write_queue option" where
  "admit_timeout t c q =
     (if wq_admission q = None \<or> is_closing c \<or> used t (wq_sent q) \<or> holds t (wq_admission q)
      then None else Some (reject_busy t q))"

text \<open>The task that holds the lock gets a place and sends.  Control commands are not counted.\<close>

definition count_accepted :: "('d, 'c, 'v) write_command \<Rightarrow> write_stats \<Rightarrow> write_stats" where
  "count_accepted c st =
     (if is_control c then st
      else st\<lparr>st_accepted := st_accepted st + 1, st_depth := st_depth st + 1\<rparr>)"

definition admit_send :: "('d, 'c, 'v) write_queue \<Rightarrow> ('d, 'c, 'v) write_queue option" where
  "admit_send q =
     (case wq_admission q of None \<Rightarrow> None
      | Some (t, c) \<Rightarrow>
        if receiver_gone (wq_worker q) then
          Some (answer t (Inl WorkerStopped) (q\<lparr>wq_admission := None\<rparr>))
        else if wq_capacity q \<le> length (wq_channel q) then None
        else Some (q\<lparr>wq_admission := None, wq_stats := count_accepted c (wq_stats q),
               wq_channel := wq_channel q @ [(t, c)], wq_sent := wq_sent q @ [(t, c)]\<rparr>))"

text \<open>The deadline passes while the channel is full.\<close>

definition admit_give_up :: "('d, 'c, 'v) write_queue \<Rightarrow> ('d, 'c, 'v) write_queue option" where
  "admit_give_up q =
     (case wq_admission q of None \<Rightarrow> None
      | Some (t, c) \<Rightarrow>
        if receiver_gone (wq_worker q) \<or> is_closing c \<or> length (wq_channel q) < wq_capacity q then None
        else Some (reject_busy t (q\<lparr>wq_admission := None\<rparr>)))"

text \<open>The caller's future is dropped while it waits for a place.\<close>

definition admit_abandon :: "('d, 'c, 'v) write_queue \<Rightarrow> ('d, 'c, 'v) write_queue option" where
  "admit_abandon q = (if wq_admission q = None then None else Some (q\<lparr>wq_admission := None\<rparr>))"

section \<open>The worker\<close>

text \<open>
  A job runs on the connection itself; a transaction is committed when its job succeeds and
  rolled back when it fails, and the callbacks run after the commit, one after the other
  (a panicking callback is caught).
\<close>

fun run_command ::
  "connection \<Rightarrow> ('d, 'c, 'v) write_command \<Rightarrow> 'd \<Rightarrow> 'd \<times> 'c list \<times> 'v answer" where
  "run_command conn (Job j) d = (case j d of (d', r) \<Rightarrow> (d', [], Output r))"
| "run_command (BeginFails e) (Transaction j) d = (d, [], Output (Inl e))"
| "run_command Works (Transaction j) d =
     (case j d of
        (d', after_commit, Inr v) \<Rightarrow> (d', after_commit, Output (Inr v))
      | (d', after_commit, Inl e) \<Rightarrow> (d, [], Output (Inl e)))"
| "run_command (CommitFails e) (Transaction j) d =
     (case j d of
        (d', after_commit, Inr v) \<Rightarrow> (d, [], Output (Inl e))
      | (d', after_commit, Inl e') \<Rightarrow> (d, [], Output (Inl e')))"
| "run_command conn Flush d = (d, [], Done)"
| "run_command conn Shutdown d = (d, [], Done)"

fun record_result :: "'v answer \<Rightarrow> write_stats \<Rightarrow> write_stats" where
  "record_result (Output (Inr v)) st = st\<lparr>st_completed := st_completed st + 1\<rparr>"
| "record_result (Output (Inl e)) st = st\<lparr>st_failed := st_failed st + 1\<rparr>"
| "record_result Done st = st"

definition worker_take :: "('d, 'c, 'v) write_queue \<Rightarrow> ('d, 'c, 'v) write_queue option" where
  "worker_take q =
     (case (wq_worker q, wq_channel q) of
        (Idle, (t, c) # rest) \<Rightarrow> Some (q\<lparr>wq_channel := rest, wq_worker := Running t c, wq_stats :=
          (if is_control c then wq_stats q
           else (wq_stats q)\<lparr>st_depth := st_depth (wq_stats q) - 1\<rparr>)\<rparr>)
      | _ \<Rightarrow> None)"

text \<open>Dropping the receiver drops the reply channels of what is still queued.\<close>

definition drop_receiver :: "('d, 'c, 'v) write_queue \<Rightarrow> ('d, 'c, 'v) write_queue" where
  "drop_receiver q = q\<lparr>wq_channel := [],
     wq_answers := wq_answers q @ map (\<lambda>(t, c). (t, Inl WorkerStopped)) (wq_channel q)\<rparr>"

definition worker_finish ::
  "connection \<Rightarrow> ('d, 'c, 'v) write_queue \<Rightarrow> ('d, 'c, 'v) write_queue option" where
  "worker_finish conn q =
     (case wq_worker q of
        Running t c \<Rightarrow>
          (case run_command conn c (wq_db q) of (d', callbacks, a) \<Rightarrow>
             let q' = answer t (Inr a) (q\<lparr>wq_db := d', wq_called := wq_called q @ callbacks,
               wq_stats := record_result a (wq_stats q),
               wq_history := wq_history q @ [(t, c, conn)]\<rparr>)
             in if is_closing c then Some (drop_receiver (q'\<lparr>wq_worker := Stopped\<rparr>))
                else Some (q'\<lparr>wq_worker := Idle\<rparr>))
      | _ \<Rightarrow> None)"

text \<open>The worker task dies: it could not open or configure its connection, or a job panicked,
  with some of that job's own statements done (an open transaction is rolled back).\<close>

definition worker_crash :: "'d \<Rightarrow> ('d, 'c, 'v) write_queue \<Rightarrow> ('d, 'c, 'v) write_queue option" where
  "worker_crash d' q =
     (if receiver_gone (wq_worker q) then None
      else Some (drop_receiver (q\<lparr>wq_worker := Crashed,
        wq_db := (case wq_worker q of Running t (Job j) \<Rightarrow> d' | _ \<Rightarrow> wq_db q),
        wq_answers := wq_answers q @ map (\<lambda>(t, c). (t, Inl WorkerStopped)) (running (wq_worker q))\<rparr>)))"

datatype ('d, 'c, 'v) queue_event =
    Acquire nat "('d, 'c, 'v) write_command"
  | LockTimeout nat "('d, 'c, 'v) write_command"
  | Send
  | GiveUp
  | Abandon
  | Take
  | Finish connection
  | Crash 'd

fun queue_step ::
  "('d, 'c, 'v) queue_event \<Rightarrow> ('d, 'c, 'v) write_queue \<Rightarrow> ('d, 'c, 'v) write_queue option" where
  "queue_step (Acquire t c) q = admit_acquire t c q"
| "queue_step (LockTimeout t c) q = admit_timeout t c q"
| "queue_step Send q = admit_send q"
| "queue_step GiveUp q = admit_give_up q"
| "queue_step Abandon q = admit_abandon q"
| "queue_step Take q = worker_take q"
| "queue_step (Finish conn) q = worker_finish conn q"
| "queue_step (Crash d') q = worker_crash d' q"

section \<open>What the caller sees\<close>

text \<open>\<open>submit_job\<close>, \<open>submit_transaction\<close>: the error of a job becomes \<open>Job\<close>; an output of another
  type than expected cannot be downcast.\<close>

fun submit_result :: "db_write_error + 'v answer \<Rightarrow> db_write_error + 'v" where
  "submit_result (Inl e) = Inl e"
| "submit_result (Inr (Output (Inl e))) = Inl (JobFailed e)"
| "submit_result (Inr (Output (Inr v))) = Inr v"
| "submit_result (Inr Done) = Inl WorkerStopped"

fun control_result :: "db_write_error + 'v answer \<Rightarrow> db_write_error + unit" where
  "control_result (Inl e) = Inl e"
| "control_result (Inr a) = Inr ()"

text \<open>
  \<open>admit\<close>: the outcomes of the attempts of one command in order (None: admitted).  A
  foreground command has one attempt; a background one retries while the queue is busy,
  once after each delay.
\<close>

fun admit_retry ::
  "'t list \<Rightarrow> db_write_error option list \<Rightarrow> db_write_error option" where
  "admit_retry [] attempts = Some Busy"
| "admit_retry (delay # delays) [] = Some Busy"
| "admit_retry (delay # delays) (a # attempts) =
     (if a = Some Busy then admit_retry delays attempts else a)"

definition background_retry_delays :: "nat list" where
  "background_retry_delays = [100, 250, 500]"

definition admit :: "bool \<Rightarrow> db_write_error option list \<Rightarrow> db_write_error option" where
  "admit background attempts =
     (if hd attempts = Some Busy \<and> background
      then admit_retry background_retry_delays (tl attempts) else hd attempts)"

section \<open>The serial database\<close>

text \<open>
  What the queue promises: a database that performs the submitted commands one at a time,
  each at once and completely, in the order they were submitted.
\<close>

record ('d, 'c, 'v) serial =
  se_pending :: "(nat \<times> ('d, 'c, 'v) write_command) list"
  se_db :: 'd
  se_called :: "'c list"
  se_answers :: "(nat \<times> 'v answer) list"

datatype ('d, 'c, 'v) serial_op = Submit nat "('d, 'c, 'v) write_command" | Perform connection | Lose 'd

fun serial_step ::
  "('d, 'c, 'v) serial_op \<Rightarrow> ('d, 'c, 'v) serial \<Rightarrow> ('d, 'c, 'v) serial option" where
  "serial_step (Submit t c) s = Some (s\<lparr>se_pending := se_pending s @ [(t, c)]\<rparr>)"
| "serial_step (Perform conn) s =
     (case se_pending s of [] \<Rightarrow> None
      | (t, c) # rest \<Rightarrow>
        (case run_command conn c (se_db s) of (d', callbacks, a) \<Rightarrow>
           Some \<lparr>se_pending = rest, se_db = d', se_called = se_called s @ callbacks,
                  se_answers = se_answers s @ [(t, a)]\<rparr>))"
| "serial_step (Lose d') s = Some (s\<lparr>se_pending := [], se_db := d'\<rparr>)"

definition delivered :: "(nat \<times> (db_write_error + 'v answer)) list \<Rightarrow> (nat \<times> 'v answer) list" where
  "delivered xs = concat (map (\<lambda>(t, a). case a of Inl e \<Rightarrow> [] | Inr v \<Rightarrow> [(t, v)]) xs)"

definition queue_abs :: "('d, 'c, 'v) write_queue \<Rightarrow> ('d, 'c, 'v) serial" where
  "queue_abs q = \<lparr>se_pending = running (wq_worker q) @ wq_channel q, se_db = wq_db q,
     se_called = wq_called q, se_answers = delivered (wq_answers q)\<rparr>"

fun queue_label ::
  "('d, 'c, 'v) queue_event \<Rightarrow> ('d, 'c, 'v) write_queue \<Rightarrow> ('d, 'c, 'v) serial_op list" where
  "queue_label Send q =
     (case wq_admission q of None \<Rightarrow> []
      | Some (t, c) \<Rightarrow> if receiver_gone (wq_worker q) then [] else [Submit t c])"
| "queue_label (Finish conn) q = [Perform conn]"
| "queue_label (Crash d') q = [Lose (case wq_worker q of Running t (Job j) \<Rightarrow> d' | _ \<Rightarrow> wq_db q)]"
| "queue_label e q = []"

section \<open>Invariant\<close>

definition jobs :: "(nat \<times> ('d, 'c, 'v) write_command) list \<Rightarrow> nat" where
  "jobs xs = length (filter (\<lambda>x. \<not> is_control (snd x)) xs)"

definition finished :: "('d, 'c, 'v) write_queue \<Rightarrow> (nat \<times> ('d, 'c, 'v) write_command) list" where
  "finished q = map (\<lambda>(t, c, conn). (t, c)) (wq_history q)"

definition closes :: "(nat \<times> ('d, 'c, 'v) write_command) list \<Rightarrow> bool" where
  "closes xs \<longleftrightarrow> (\<exists>x \<in> set xs. is_closing (snd x))"

text \<open>The channel is what was sent, less what the worker took, in order.\<close>

definition log_ok :: "('d, 'c, 'v) write_queue \<Rightarrow> bool" where
  "log_ok q \<longleftrightarrow> 0 < wq_capacity q \<and> length (wq_channel q) \<le> wq_capacity q
     \<and> (wq_worker q \<noteq> Crashed \<longrightarrow> wq_sent q = finished q @ running (wq_worker q) @ wq_channel q)
     \<and> (wq_worker q = Crashed \<longrightarrow> wq_channel q = [] \<and> (\<exists>rest. wq_sent q = finished q @ rest))
     \<and> map fst (delivered (wq_answers q)) = map fst (finished q)"

definition tickets_ok :: "('d, 'c, 'v) write_queue \<Rightarrow> bool" where
  "tickets_ok q \<longleftrightarrow> distinct (map fst (wq_sent q))
     \<and> (\<forall>t c. wq_admission q = Some (t, c) \<longrightarrow> \<not> used t (wq_sent q))"

text \<open>At most one \<open>Shutdown\<close> is ever sent, after everything else.\<close>

definition close_ok :: "('d, 'c, 'v) write_queue \<Rightarrow> bool" where
  "close_ok q \<longleftrightarrow> \<not> closes (butlast (wq_sent q))
     \<and> (closes (wq_sent q) \<longrightarrow> wq_closed q \<and> wq_admission q = None)
     \<and> (\<forall>t c. wq_admission q = Some (t, c) \<longrightarrow> (is_closing c \<longleftrightarrow> wq_closed q))
     \<and> (closes (finished q) \<longleftrightarrow> wq_worker q = Stopped)"

text \<open>The counters of \<open>stats\<close>.\<close>

definition counts_ok :: "('d, 'c, 'v) write_queue \<Rightarrow> bool" where
  "counts_ok q \<longleftrightarrow> st_accepted (wq_stats q) = of_nat (jobs (wq_sent q))
     \<and> st_completed (wq_stats q) + st_failed (wq_stats q) = of_nat (jobs (finished q))
     \<and> (wq_worker q \<noteq> Crashed \<longrightarrow> st_depth (wq_stats q) = of_nat (jobs (wq_channel q)))"

definition queue_ok :: "('d, 'c, 'v) write_queue \<Rightarrow> bool" where
  "queue_ok q \<longleftrightarrow> log_ok q \<and> tickets_ok q \<and> close_ok q \<and> counts_ok q"

named_theorems queue_ops \<open>the definitions of the queue's steps\<close>

declare admit_acquire_def [queue_ops] admit_timeout_def [queue_ops] admit_send_def [queue_ops]
  admit_give_up_def [queue_ops] admit_abandon_def [queue_ops] worker_take_def [queue_ops]
  worker_finish_def [queue_ops] worker_crash_def [queue_ops] answer_def [queue_ops]
  reject_busy_def [queue_ops] reject_closed_def [queue_ops] count_accepted_def [queue_ops]
  drop_receiver_def [queue_ops] Let_def [queue_ops]
lemma finished_simps [simp]:
  "finished (q\<lparr>wq_channel := ch\<rparr>) = finished q" "finished (q\<lparr>wq_admission := a\<rparr>) = finished q"
  "finished (q\<lparr>wq_closed := b\<rparr>) = finished q" "finished (q\<lparr>wq_stats := st\<rparr>) = finished q"
  "finished (q\<lparr>wq_worker := w\<rparr>) = finished q" "finished (q\<lparr>wq_db := d\<rparr>) = finished q"
  "finished (q\<lparr>wq_called := cb\<rparr>) = finished q" "finished (q\<lparr>wq_sent := sn\<rparr>) = finished q"
  "finished (q\<lparr>wq_answers := an\<rparr>) = finished q"
  "finished (q\<lparr>wq_history := wq_history q' @ [(t, c, conn)]\<rparr>) = finished q' @ [(t, c)]"
  by (simp_all add: finished_def)

lemma delivered_simps [simp]:
  "delivered [] = []"
  "delivered (xs @ ys) = delivered xs @ delivered ys"
  "delivered ((t, Inl e) # xs) = delivered xs"
  "delivered ((t, Inr v) # xs) = (t, v) # delivered xs"
  by (simp_all add: delivered_def)

lemma delivered_lost [simp]: "delivered (map (\<lambda>(t, c). (t, Inl (e t c))) xs) = []"
  by (induction xs) auto

lemma jobs_simps [simp]:
  "jobs [] = 0" "jobs (xs @ ys) = jobs xs + jobs ys"
  "jobs (x # xs) = (if is_control (snd x) then jobs xs else Suc (jobs xs))"
  by (simp_all add: jobs_def)

lemma closes_simps [simp]:
  "\<not> closes []" "closes (xs @ ys) \<longleftrightarrow> closes xs \<or> closes ys"
  "closes (x # xs) \<longleftrightarrow> is_closing (snd x) \<or> closes xs"
  by (auto simp: closes_def)

lemma closing_control [simp]: "is_closing c \<Longrightarrow> is_control c"
  by (cases c) auto

lemma run_command_cases:
  obtains (out) d' cbs r where "run_command conn c d = (d', cbs, Output r)" "\<not> is_control c"
  | (ack) "run_command conn c d = (d, [], Done)" "is_control c"
proof (cases c)
  case (Job j)
  then show ?thesis using out by (cases "j d") auto
next
  case (Transaction j)
  then show ?thesis using out
    by (cases "j d"; cases conn; cases "snd (snd (j d))") auto
qed (use ack in auto)

lemma distinct_snoc_used:
  "distinct (map fst (xs @ [(t, c)])) \<longleftrightarrow> distinct (map fst xs) \<and> \<not> used t xs"
  by (auto simp: used_def)

lemma step_tickets: "tickets_ok q \<Longrightarrow> queue_step e q = Some q' \<Longrightarrow> tickets_ok q'"
  by (cases e) (auto simp: queue_ops tickets_ok_def distinct_snoc_used simp del: map_append
      split: worker.splits option.splits if_splits list.splits prod.splits)

lemma shutdown_last:
  "log_ok q \<Longrightarrow> close_ok q \<Longrightarrow> wq_worker q = Running t c \<Longrightarrow> is_closing c \<Longrightarrow> wq_channel q = []"
  by (cases "wq_channel q" rule: rev_cases) (auto simp: log_ok_def close_ok_def butlast_append)

lemma record_result_stats [simp]:
  "st_accepted (record_result a st) = st_accepted st"
  "st_depth (record_result a st) = st_depth st"
  "st_completed (record_result a st) + st_failed (record_result a st) =
    st_completed st + st_failed st + (case a of Output r \<Rightarrow> 1 | Done \<Rightarrow> 0)"
  by (cases "(a, st)" rule: record_result.cases; simp)+

lemma run_command_done: "run_command conn c d = (d', cbs, a) \<Longrightarrow> is_control c \<longleftrightarrow> a = Done"
  by (rule run_command_cases [of conn c d]) auto

lemma admission_log:
  "queue_step e q = Some q' \<Longrightarrow> \<forall>conn. e \<noteq> Finish conn \<Longrightarrow> log_ok q \<Longrightarrow> log_ok q'"
  by (cases e) (auto simp: queue_ops log_ok_def
      split: worker.splits option.splits if_splits list.splits prod.splits)

lemma admission_close:
  "queue_step e q = Some q' \<Longrightarrow> \<forall>conn. e \<noteq> Finish conn \<Longrightarrow> close_ok q \<Longrightarrow> close_ok q'"
  by (cases e) (auto simp: queue_ops close_ok_def
      split: worker.splits option.splits if_splits list.splits prod.splits)

lemma admission_counts:
  "queue_step e q = Some q' \<Longrightarrow> \<forall>conn. e \<noteq> Finish conn \<Longrightarrow> counts_ok q \<Longrightarrow> counts_ok q'"
  by (cases e) (auto simp: queue_ops counts_ok_def
      split: worker.splits option.splits if_splits list.splits prod.splits)

lemma finish_step:
  assumes "worker_finish conn q = Some q'" "log_ok q" "close_ok q" "counts_ok q"
  shows "log_ok q' \<and> close_ok q' \<and> counts_ok q'"
proof -
  obtain t c where w: "wq_worker q = Running t c"
    using assms(1) by (auto simp: worker_finish_def split: worker.splits)
  obtain d' cbs a where r: "run_command conn c (wq_db q) = (d', cbs, a)" by (rule prod_cases3)
  show ?thesis
  proof (cases "is_closing c")
    case True
    then have c: "wq_channel q = []" "a = Done"
      using shutdown_last [OF assms(2,3) w] run_command_done [OF r] by auto
    then show ?thesis using assms True
      by (simp add: queue_ops log_ok_def close_ok_def counts_ok_def w r) auto
  next
    case False
    then have "q' = answer t (Inr a) (q\<lparr>wq_db := d', wq_called := wq_called q @ cbs,
      wq_stats := record_result a (wq_stats q), wq_history := wq_history q @ [(t, c, conn)]\<rparr>)
      \<lparr>wq_worker := Idle\<rparr>"
      using assms(1) by (simp add: worker_finish_def w r Let_def)
    then show ?thesis using assms(2-) False run_command_done [OF r]
      by (cases a) (simp_all add: answer_def log_ok_def close_ok_def counts_ok_def w)
  qed
qed

lemma queue_step_ok: "queue_ok q \<Longrightarrow> queue_step e q = Some q' \<Longrightarrow> queue_ok q'"
  using admission_log [of e q q'] admission_close [of e q q'] admission_counts [of e q q'] finish_step [of _ q q'] step_tickets [of q e q']
  by (cases "\<exists>conn. e = Finish conn") (auto simp: queue_ok_def)

lemma channel_ok: "channel n d = Some q \<Longrightarrow> queue_ok q"
  by (auto simp: channel_def queue_ok_def log_ok_def tickets_ok_def close_ok_def counts_ok_def
      stats_default_def finished_def split: if_splits)

lemma queue_step_refines:
  assumes "queue_ok q" "queue_step e q = Some q'"
  shows "run_steps serial_step (queue_label e q) (queue_abs q) = Some (queue_abs q')"
proof (cases e)
  case (Finish conn)
  obtain t c where w: "wq_worker q = Running t c"
    using assms(2) by (auto simp: Finish worker_finish_def split: worker.splits)
  obtain d' cbs a where r: "run_command conn c (wq_db q) = (d', cbs, a)" by (rule prod_cases3)
  show ?thesis using assms shutdown_last [OF _ _ w]
    by (cases "is_closing c") (simp_all add: Finish queue_ops queue_abs_def queue_ok_def w r, auto)
qed (use assms in \<open>auto simp: queue_ops queue_abs_def split: if_splits option.splits worker.splits list.splits\<close>)

interpretation write_queue: simulation queue_step queue_ok serial_step queue_abs queue_label
  by unfold_locales (blast intro: queue_step_ok, rule queue_step_refines)

text \<open>C15. The write queue refines a serial database: whatever the interleaving of the submitting
  tasks, the timeouts, cancellations and failures, what the queue does to the database, the
  callbacks it runs and the results it hands out are those of a database that performs the
  admitted commands one at a time, completely, in the order of their admission.\<close>

theorem queue_refines_serial_database:
  assumes "channel n d = Some q" "run_steps queue_step es q = Some q'"
  shows "run_steps serial_step (run_labels queue_step queue_label es q)
      \<lparr>se_pending = [], se_db = d, se_called = [], se_answers = []\<rparr> = Some (queue_abs q')"
proof -
  have "queue_abs q = \<lparr>se_pending = [], se_db = d, se_called = [], se_answers = []\<rparr>"
    using assms(1) by (auto simp: channel_def queue_abs_def split: if_splits)
  then show ?thesis using write_queue.run_refines [OF channel_ok [OF assms(1)] assms(2)] by simp
qed

text \<open>The channel never holds more than its capacity and the counters of \<open>stats\<close> balance: the depth
  is the number of queued writes (it never wraps), and every accepted write is queued, being
  run, completed or failed, unless the worker died.\<close>

theorem queue_counters_balance:
  assumes "channel n d = Some q" "run_steps queue_step es q = Some q'" "n < 2 ^ 64"
  shows "length (wq_channel q') \<le> n \<and> st_accepted (wq_stats q') = of_nat (jobs (wq_sent q')) \<and>
    (wq_worker q' = Crashed \<or>
      unat (st_depth (wq_stats q')) = jobs (wq_channel q') \<and>
      st_accepted (wq_stats q') = st_depth (wq_stats q') + of_nat (jobs (running (wq_worker q')))
        + st_completed (wq_stats q') + st_failed (wq_stats q'))"

proof -
  have ok: "queue_ok q'" by (rule write_queue.run_inv [OF channel_ok [OF assms(1)] assms(2)])
  have cap: "wq_capacity q' = wq_capacity q" if "queue_ok q" "run_steps queue_step es q = Some q'" for es q
    by (rule write_queue.run_relation [of "\<lambda>a b. wq_capacity b = wq_capacity a", OF _ _ _ that])
      (auto simp: queue_ops split: if_splits option.splits worker.splits list.splits prod.splits elim!: queue_step.elims)
  have n: "wq_capacity q' = n"
    using cap [OF channel_ok [OF assms(1)] assms(2)] assms(1) by (auto simp: channel_def split: if_splits)
  then have len: "length (wq_channel q') \<le> n" using ok by (simp add: queue_ok_def log_ok_def)
  have le: "jobs (wq_channel q') \<le> n"
    using len length_filter_le [of _ "wq_channel q'"] unfolding jobs_def by (rule order_trans [rotated])
  have depth: "unat (st_depth (wq_stats q')) = jobs (wq_channel q')" if "wq_worker q' \<noteq> Crashed"
    using ok that le assms(3) by (simp add: queue_ok_def counts_ok_def unat_of_nat)
  show ?thesis using ok len depth
    by (auto simp: queue_ok_def counts_ok_def log_ok_def add.assoc)
qed

lemma delivered_mem: "(t, v) \<in> set (delivered xs) \<longleftrightarrow> (t, Inr v) \<in> set xs"
  by (induction xs) (auto simp: delivered_def split: sum.splits)

lemma finished_prefix: "log_ok q \<Longrightarrow> \<exists>rest. wq_sent q = finished q @ rest"
  by (cases "wq_worker q = Crashed") (auto simp: log_ok_def)

lemma distinct_split_unique:
  "us @ t # vs = us' @ t # vs' \<Longrightarrow> distinct (us @ t # vs) \<Longrightarrow> us = us' \<and> vs = vs'"
  by (auto simp: append_eq_append_conv2 append_eq_Cons_conv Cons_eq_append_conv)

text \<open>A flush is a barrier: when a command is answered, every command sent before it has been run
  and answered before, however many tasks submit.\<close>

theorem flush_is_a_barrier:
  assumes "channel n d = Some q" "run_steps queue_step es q = Some q'"
    and "wq_sent q' = earlier @ (t, c) # later" "wq_answers q' = before @ (t, Inr a) # after"
    and "(s, c') \<in> set earlier"
  shows "\<exists>b. (s, Inr b) \<in> set before"
proof -
  have ok: "queue_ok q'" by (rule write_queue.run_inv [OF channel_ok [OF assms(1)] assms(2)])
  obtain rest where "wq_sent q' = finished q' @ rest"
    using finished_prefix ok by (auto simp: queue_ok_def)
  then have "map fst earlier @ t # map fst later = map fst (finished q') @ map fst rest"
    using arg_cong [OF assms(3), of "map fst"] by simp
  moreover have "map fst (finished q') = map fst (delivered before) @ t # map fst (delivered after)"
    using ok by (simp add: queue_ok_def log_ok_def assms(4))
  ultimately have "map fst earlier = map fst (delivered before)"
    using distinct_split_unique [of "map fst earlier" t "map fst later"] ok
    by (simp add: queue_ok_def tickets_ok_def assms(3))
  then have "s \<in> fst ` set (delivered before)" using assms(5) by (metis fst_conv image_eqI list.set_map)
  then show ?thesis by (auto simp: delivered_mem)
qed

lemma stopped_empty:
  assumes "queue_ok q" "wq_worker q = Stopped"
  shows "wq_channel q = [] \<and> wq_sent q = finished q"
  using assms by (cases "wq_channel q" rule: rev_cases)
    (auto simp: queue_ok_def log_ok_def close_ok_def butlast_append)

lemma stopped_forever:
  assumes "queue_ok q" "run_steps queue_step es q = Some q'" "wq_worker q = Stopped"
  shows "wq_worker q' = Stopped \<and> wq_sent q' = wq_sent q \<and> wq_db q' = wq_db q"
proof -
  have "wq_worker q = Stopped \<longrightarrow> wq_worker q' = Stopped \<and> wq_sent q' = wq_sent q \<and> wq_db q' = wq_db q"
    by (rule write_queue.run_relation [of "\<lambda>a b. wq_worker a = Stopped \<longrightarrow>
          wq_worker b = Stopped \<and> wq_sent b = wq_sent a \<and> wq_db b = wq_db a", OF _ _ _ assms(1,2)])
      (auto simp: queue_ops split: if_splits option.splits elim!: queue_step.elims)
  then show ?thesis using assms(3) by simp
qed

text \<open>C16. Closing drains the queue: when \<open>close_and_flush\<close> is answered, every command ever sent has
  been run and answered, in order, and from then on nothing is sent and nothing changes the
  database.\<close>

theorem close_drains:
  assumes "channel n d = Some q" "run_steps queue_step es q = Some q'"
    and "(t, c) \<in> set (wq_sent q')" "is_closing c" "(t, Inr a) \<in> set (wq_answers q')"
    and "run_steps queue_step es' q' = Some q''"
  shows "map fst (delivered (wq_answers q')) = map fst (wq_sent q') \<and>
    wq_sent q'' = wq_sent q' \<and> wq_db q'' = wq_db q'"
proof -
  have ok: "queue_ok q'" by (rule write_queue.run_inv [OF channel_ok [OF assms(1)] assms(2)])
  obtain rest where rest: "wq_sent q' = finished q' @ rest"
    using finished_prefix ok by (auto simp: queue_ok_def)
  have "t \<in> fst ` set (finished q')"
    using assms(5) ok by (metis delivered_mem fst_conv image_eqI list.set_map log_ok_def queue_ok_def)
  then have "t \<notin> fst ` set rest" using ok rest by (auto simp: queue_ok_def tickets_ok_def)
  then have "(t, c) \<in> set (finished q')" using assms(3) rest by (auto simp: image_iff)
  then have "closes (finished q')" using assms(4) unfolding closes_def by force
  then have "wq_worker q' = Stopped" using ok by (simp add: queue_ok_def close_ok_def)
  then show ?thesis using ok stopped_empty [OF ok] stopped_forever [OF ok assms(6)]
    by (simp add: queue_ok_def log_ok_def)
qed

definition drain_events :: "(nat \<Rightarrow> connection) \<Rightarrow> ('d, 'c, 'v) write_queue \<Rightarrow> ('d, 'c, 'v) queue_event list" where
  "drain_events conn q = map (\<lambda>x. Finish (conn (fst x))) (running (wq_worker q))
     @ concat (map (\<lambda>x. [Take, Finish (conn (fst x))]) (wq_channel q))"

lemma finish_runs:
  "wq_worker q = Running t c \<Longrightarrow> \<exists>q'. worker_finish conn q = Some q' \<and> wq_sent q' = wq_sent q \<and>
     (if is_closing c then wq_worker q' = Stopped else wq_worker q' = Idle \<and> wq_channel q' = wq_channel q)"
  by (cases "run_command conn c (wq_db q)") (auto simp: queue_ops)

lemma drain_channel:
  assumes "queue_ok q" "wq_channel q = [] \<or> wq_worker q = Idle" "wq_worker q \<noteq> Crashed" "running (wq_worker q) = []"
  shows "\<exists>q'. run_steps queue_step (concat (map (\<lambda>x. [Take, Finish (conn (fst x))]) (wq_channel q))) q = Some q'
    \<and> map fst (delivered (wq_answers q')) = map fst (wq_sent q) \<and> wq_channel q' = [] \<and> wq_sent q' = wq_sent q"
  using assms
proof (induction "wq_channel q" arbitrary: q)
  case Nil
  then show ?case by (auto simp: queue_ok_def log_ok_def)
next
  case (Cons x rest)
  obtain t c where x: "x = (t, c)" by (cases x)
  have ch: "wq_channel q = (t, c) # rest" using Cons.hyps(2) x by simp
  have idle: "wq_worker q = Idle" using Cons.prems(2) ch by simp
  obtain q1 where q1: "worker_take q = Some q1" "wq_worker q1 = Running t c" "wq_channel q1 = rest"
      "wq_sent q1 = wq_sent q"
    by (simp add: worker_take_def ch idle)
  obtain q2 where q2: "worker_finish (conn t) q1 = Some q2" "wq_sent q2 = wq_sent q1"
      "if is_closing c then wq_worker q2 = Stopped else wq_worker q2 = Idle \<and> wq_channel q2 = wq_channel q1"
    using finish_runs [OF q1(2)] by blast
  have ok1: "queue_ok q1" using queue_step_ok [of q Take q1] Cons.prems(1) q1(1) by simp
  have ok2: "queue_ok q2" using queue_step_ok [of q1 "Finish (conn t)" q2] ok1 q2(1) by simp
  have rest: "rest = wq_channel q2"
    using q2(3) q1(3) shutdown_last [of q1 t c] ok1 q1(2) stopped_empty [OF ok2]
    by (simp add: queue_ok_def split: if_splits)
  have "wq_channel q2 = [] \<or> wq_worker q2 = Idle" "wq_worker q2 \<noteq> Crashed" "running (wq_worker q2) = []"
    using q2(3) stopped_empty [OF ok2] by (auto split: if_splits)
  from Cons.hyps(1) [OF rest ok2 this] show ?case
    using q1 q2 by (simp add: x ch rest)
qed

text \<open>C17. Every accepted write is answered: from any state the queue can reach with its worker alive,
  one turn of the worker for each queued command, whatever the connection does, answers every
  command ever sent exactly once and in order.\<close>

theorem accepted_writes_are_answered:
  assumes "channel n d = Some q" "run_steps queue_step es q = Some q'" "wq_worker q' \<noteq> Crashed"
  shows "\<exists>q''. run_steps queue_step (drain_events conn q') q' = Some q'' \<and>
    map fst (delivered (wq_answers q'')) = map fst (wq_sent q') \<and> distinct (map fst (wq_sent q'))"
proof -
  have ok: "queue_ok q'" by (rule write_queue.run_inv [OF channel_ok [OF assms(1)] assms(2)])
  have d: "distinct (map fst (wq_sent q'))" using ok by (simp add: queue_ok_def tickets_ok_def)
  show ?thesis
  proof (cases "running (wq_worker q')")
    case Nil
    then have "wq_channel q' = [] \<or> wq_worker q' = Idle"
      using assms(3) stopped_empty [OF ok] by (cases "wq_worker q'") auto
    then show ?thesis using drain_channel [OF ok _ assms(3) Nil, of conn] Nil d
      by (auto simp: drain_events_def)
  next
    case (Cons x xs)
    then obtain t c where w: "wq_worker q' = Running t c" by (cases "wq_worker q'") auto
    obtain p where p: "worker_finish (conn t) q' = Some p" "wq_sent p = wq_sent q'"
        "if is_closing c then wq_worker p = Stopped else wq_worker p = Idle \<and> wq_channel p = wq_channel q'"
      using finish_runs [OF w] by blast
    have okp: "queue_ok p" using queue_step_ok [of q' "Finish (conn t)" p] ok p(1) by simp
    have ch: "wq_channel q' = wq_channel p"
      using p(3) shutdown_last [of q' t c] ok w stopped_empty [OF okp]
      by (simp add: queue_ok_def split: if_splits)
    have "wq_channel p = [] \<or> wq_worker p = Idle" "wq_worker p \<noteq> Crashed" "running (wq_worker p) = []"
      using p(3) stopped_empty [OF okp] by (auto split: if_splits)
    from drain_channel [OF okp this, of conn] show ?thesis
      using p d by (auto simp: drain_events_def w ch)
  qed
qed

text \<open>Transactions are atomic: the caller gets an output exactly when the transaction was
  committed, and then the database is what the job made it and the callbacks it registered
  were run; on any failure (of BEGIN, of the job or of COMMIT) the caller gets the error, the
  database is unchanged and no callback is run.\<close>

theorem transactions_are_atomic:
  assumes "wq_worker q = Running t (Transaction j)" "worker_finish conn q = Some q'"
  shows "wq_worker q' = Idle \<and>
    ((\<exists>v. j (wq_db q) = (wq_db q', drop (length (wq_called q)) (wq_called q'), Inr v) \<and>
        wq_answers q' = wq_answers q @ [(t, Inr (Output (Inr v)))] \<and> conn = Works)
     \<or> (\<exists>e. wq_db q' = wq_db q \<and> wq_called q' = wq_called q \<and>
        wq_answers q' = wq_answers q @ [(t, Inr (Output (Inl e)))] \<and>
        (conn = BeginFails e \<or> conn = CommitFails e \<or> snd (snd (j (wq_db q))) = Inl e)))"
  using assms
  by (cases conn; cases "j (wq_db q)"; cases "snd (snd (j (wq_db q)))") (auto simp: queue_ops)

text \<open>Admission retries: a foreground write is tried once; a background write is tried again while
  the queue is busy, four times at most, and returns its first outcome that is not "busy".\<close>

theorem background_writes_retry_while_busy:
  assumes "attempts \<noteq> []"
  shows "admit False attempts = hd attempts \<and>
    admit True attempts = (case dropWhile (\<lambda>a. a = Some Busy) (take 4 attempts) of [] \<Rightarrow> Some Busy | a # as \<Rightarrow> a)"
proof -
  have "admit_retry delays as = (case dropWhile (\<lambda>a. a = Some Busy) (take (length delays) as) of [] \<Rightarrow> Some Busy | a # as \<Rightarrow> a)"
    for delays :: "nat list" and as
    by (induction delays as rule: admit_retry.induct) auto
  then show ?thesis using assms by (cases attempts) (auto simp: admit_def background_retry_delays_def numeral_3_eq_3)
qed

section \<open>A run of the queue\<close>

text \<open>Three tasks share a queue with two places: a write, a flush and the final close.\<close>

definition append_job :: "(nat list, nat, nat) write_command" where
  "append_job = Transaction (\<lambda>d. (d @ [length d], [7], Inr (length d)))"

definition sample_queue :: "(nat list, nat, nat) write_queue" where
  "sample_queue = \<lparr>wq_capacity = 2, wq_channel = [], wq_admission = None, wq_closed = False,
     wq_stats = stats_default, wq_worker = Idle, wq_db = [], wq_called = [],
     wq_sent = [], wq_history = [], wq_answers = []\<rparr>"

definition sample_run :: "(nat list, nat, nat) queue_event list" where
  "sample_run = [Acquire 1 append_job, LockTimeout 2 append_job, Send, Take, Acquire 3 Flush, Send,
     Finish Works, Take, Finish Works, Acquire 4 Shutdown, Send, Acquire 5 append_job, Take, Finish Works]"

definition sample_end :: "(nat list, nat, nat) write_queue" where
  "sample_end = the (run_steps queue_step sample_run sample_queue)"

definition sample_middle :: "(nat list, nat, nat) write_queue" where
  "sample_middle = the (run_steps queue_step (take 6 sample_run) sample_queue)"

lemma sample_channel: "channel 2 [] = Some sample_queue"
  by (simp add: channel_def sample_queue_def)

lemma sample_runs:
  "run_steps queue_step sample_run sample_queue = Some sample_end"
  "run_steps queue_step (take 6 sample_run) sample_queue = Some sample_middle"
proof -
  have "run_steps queue_step sample_run sample_queue \<noteq> None"
    "run_steps queue_step (take 6 sample_run) sample_queue \<noteq> None"
    unfolding option.disc_eq_case(1) by code_simp+
  then show "run_steps queue_step sample_run sample_queue = Some sample_end"
    "run_steps queue_step (take 6 sample_run) sample_queue = Some sample_middle"
    by (auto simp: sample_end_def sample_middle_def)
qed

lemma sample_states:
  "map fst (wq_sent sample_end) = [1, 3, 4]"
  "wq_answers sample_end = [(2, Inl Busy), (1, Inr (Output (Inr 0))), (3, Inr Done), (5, Inl Closed), (4, Inr Done)]"
  "wq_db sample_end = [0]" 
  "st_accepted (wq_stats sample_end) = 1"
  by code_simp+

lemma sample_sent: "wq_sent sample_end = [(1, append_job), (3, Flush), (4, Shutdown)]"
  by (simp add: sample_end_def sample_run_def sample_queue_def queue_ops used_def holds_def append_job_def)

theorem queue_refines_serial_database_witness:
  "run_steps serial_step (run_labels queue_step queue_label sample_run sample_queue)
     \<lparr>se_pending = [], se_db = [], se_called = [], se_answers = []\<rparr> = Some (queue_abs sample_end) \<and>
   se_db (queue_abs sample_end) = [0]"
  using queue_refines_serial_database [OF sample_channel sample_runs(1)] sample_states(3)
  by (simp add: queue_abs_def)

theorem queue_counters_balance_witness:
  "length (wq_channel sample_middle) \<le> 2 \<and> unat (st_depth (wq_stats sample_middle)) = 0 \<and>
   st_accepted (wq_stats sample_middle) = 1"
proof -
  have "jobs (wq_channel sample_middle) = 0" "jobs (wq_sent sample_middle) = 1"
     "(case wq_worker sample_middle of Crashed \<Rightarrow> False | _ \<Rightarrow> True)"
    by code_simp+
  then show ?thesis using queue_counters_balance [OF sample_channel sample_runs(2)] by auto
qed

theorem flush_is_a_barrier_witness:
  "\<exists>b. (1, Inr b) \<in> set [(2::nat, Inl Busy), (1, Inr (Output (Inr (0::nat))))]"
  by (rule flush_is_a_barrier [OF sample_channel sample_runs(1), where earlier = "[(1, append_job)]"
        and t = 3 and c = Flush and later = "[(4, Shutdown)]" and a = Done
        and after = "[(5, Inl Closed), (4, Inr Done)]" and c' = append_job])
    (simp_all add: sample_sent sample_states)

theorem close_drains_witness:
  "map fst (delivered (wq_answers sample_end)) = map fst (wq_sent sample_end) \<and>
   run_steps queue_step [Acquire 9 append_job] sample_end \<noteq> None"
proof -
  have "\<exists>q. run_steps queue_step [Acquire 9 append_job] sample_end = Some q"
    by (simp add: sample_end_def sample_run_def sample_queue_def queue_ops used_def holds_def append_job_def)
  then show ?thesis
    using close_drains [OF sample_channel sample_runs(1), of 4 Shutdown Done]
    by (auto simp: sample_sent sample_states)
qed

theorem accepted_writes_are_answered_witness:
  "\<exists>q. run_steps queue_step (drain_events (\<lambda>t. Works) sample_middle) sample_middle = Some q \<and>
     map fst (delivered (wq_answers q)) = map fst (wq_sent sample_middle) \<and> wq_channel sample_middle \<noteq> []"
proof -
  have w: "wq_worker sample_middle \<noteq> Crashed" "wq_channel sample_middle \<noteq> []"
    by (simp_all add: sample_middle_def sample_run_def sample_queue_def queue_ops used_def holds_def append_job_def)
  then show ?thesis
    using accepted_writes_are_answered [OF sample_channel sample_runs(2) w(1), of "\<lambda>t. Works"] by auto
qed

theorem transactions_are_atomic_witness:
  "\<exists>q. worker_finish (CommitFails (OtherError ''disk full'')) sample_middle = Some q \<and>
     wq_db q = wq_db sample_middle \<and> wq_called q = []"
proof -
  have w: "wq_worker sample_middle = Running 1 (Transaction (\<lambda>d. (d @ [length d], [7], Inr (length d))))"
      "wq_called sample_middle = []"
    by (simp_all add: sample_middle_def sample_run_def sample_queue_def queue_ops used_def holds_def append_job_def)
  obtain q where q: "worker_finish (CommitFails (OtherError ''disk full'')) sample_middle = Some q"
    using finish_runs [OF w(1)] by blast
  then show ?thesis using transactions_are_atomic [OF w(1) q] w(2) by auto
qed

theorem background_writes_retry_while_busy_witness:
  "admit True [Some Busy, Some Busy, None] = None \<and> admit False [Some Busy] = Some Busy"
  using background_writes_retry_while_busy [of "[Some Busy, Some Busy, None]"]
    background_writes_retry_while_busy [of "[Some Busy]"] by simp

end
