(* ===== verification/Versioned.thy ===== *)
theory Versioned
  imports Db Transitions
begin

text \<open>
  Tables with optimistic locking.  The services of departments, employees, devices, rules and
  tenant information change a row only where its id and the version the client read still match,
  and count the version up in the same statement.  \<open>checked_update\<close> is such an \<open>UPDATE\<close> on a
  table with constraints; the locale is the contract of the operations of a service and what
  follows from it for any sequence of them.
\<close>

section \<open>An update under constraints\<close>

text \<open>\<open>violation\<close> reads the table after the statement and answers the message of the first
  constraint it breaks; a statement that breaks one changes nothing.\<close>

definition checked_update ::
  "write_outcome \<Rightarrow> ('r list \<Rightarrow> string option) \<Rightarrow> ('r \<Rightarrow> bool) \<Rightarrow> ('r \<Rightarrow> 'r) \<Rightarrow> 'r list
    \<Rightarrow> 'r list \<times> (db_write_error + nat)" where
  "checked_update wo violation P f t =
     (case violation (update_where P f t) of
        None \<Rightarrow> run_update wo P f t
      | Some m \<Rightarrow> (t, Inl (case wo of Ran \<Rightarrow> JobFailed (OtherError m) | NotRun e \<Rightarrow> e)))"

definition checked_insert ::
  "write_outcome \<Rightarrow> ('r list \<Rightarrow> string option) \<Rightarrow> 'r \<Rightarrow> 'r list \<Rightarrow> 'r list \<times> (db_write_error + nat)" where
  "checked_insert wo violation r t = run_insert wo (\<lambda>t. violation (t @ [r])) r t"

lemma checked_update_cases:
  assumes "checked_update wo violation P f t = (t', x)"
  obtains (ran) "t' = update_where P f t" "x = Inr (rows_affected P t)" "violation t' = None"
  | (failed) e where "t' = t" "x = Inl e"
  using assms by (cases wo) (auto simp: checked_update_def split: option.splits)

lemma checked_insert_cases:
  assumes "checked_insert wo violation r t = (t', x)"
  obtains (ran) "t' = t @ [r]" "x = Inr 1" "violation t' = None"
  | (failed) e where "t' = t" "x = Inl e"
  using assms by (cases wo) (auto simp: checked_insert_def split: option.splits)

lemma same_key: "distinct (map k t) \<Longrightarrow> a \<in> set t \<Longrightarrow> b \<in> set t \<Longrightarrow> k a = k b \<Longrightarrow> a = b"
  by (auto simp: distinct_map dest: inj_onD)

lemma updated_row_gone:
  assumes "r \<in> set t" "P r" "\<And>q. version (f q) = version q + (1::i64)" "\<And>q. key (f q) = key q" "distinct (map key t)"
  shows "r \<notin> set (update_where P f t)"
proof
  assume "r \<in> set (update_where P f t)"
  then obtain q where q: "q \<in> set t" "r = (if P q then f q else q)" by (auto simp: in_set_update_where)
  then have "q = r" using same_key [OF assms(5) q(1) assms(1)] assms(4) by metis
  with q(2) assms(2,3) show False by (metis add_cancel_right_right zero_neq_one)
qed

lemma find_append_None: "find P t = None \<Longrightarrow> find P (t @ s) = find P s"
  by (induction t) (auto split: if_splits)

lemma find_distinct2:
  assumes "distinct (map k t)" "r \<in> set t" "Q r"
  shows "find (\<lambda>q. k q = k r \<and> Q q) t = Some r"
  using assms by (induction t) (auto simp: image_iff)

lemma find_update_key:
  "(\<And>r. k (f r) = k r) \<Longrightarrow>
   find (\<lambda>r. k r = i) (update_where P f t) = map_option (\<lambda>r. if P r then f r else r) (find (\<lambda>r. k r = i) t)"
  by (induction t) (auto simp: table_simps)

lemma find_snoc_other: "\<not> P r \<Longrightarrow> find P (t @ [r]) = find P t"
  by (induction t) auto

section \<open>Versioned tables\<close>

text \<open>How the rows of a table change in one operation: each keeps its key and never loses
  version, and rows with fresh keys may be appended.  An operation conditioned on a key and a
  version touches only the row that has both, and counts the version up.\<close>

definition versioned_row :: "('r \<Rightarrow> string) \<Rightarrow> ('r \<Rightarrow> i64) \<Rightarrow> (string \<times> i64) option \<Rightarrow> 'r \<Rightarrow> 'r \<Rightarrow> bool" where
  "versioned_row key version target r r' \<longleftrightarrow> r' = r \<or> key r' = key r \<and>
     (case target of None \<Rightarrow> version r \<le> version r'
      | Some (i, v) \<Rightarrow> key r = i \<and> version r = v \<and> version r' = v + 1)"

definition versioned_step ::
  "('r \<Rightarrow> string) \<Rightarrow> ('r \<Rightarrow> i64) \<Rightarrow> (string \<times> i64) option \<Rightarrow> 'r list \<Rightarrow> 'r list \<Rightarrow> bool" where
  "versioned_step key version target t t' \<longleftrightarrow> (\<exists>rs new. t' = rs @ new \<and>
     list_all2 (versioned_row key version target) t rs \<and> distinct (map key new) \<and> key ` set new \<inter> key ` set t = {})"

lemma versioned_row_le: "versioned_row key version target r r' \<Longrightarrow> version r \<le> version r' \<and> key r' = key r"
  by (auto simp: versioned_row_def split: option.splits)

lemma versioned_step_refl: "versioned_step key version target t t"
  unfolding versioned_step_def
  by (rule exI [of _ t], rule exI [of _ "[]"]) (auto simp: versioned_row_def intro: list_all2_refl)

lemma versioned_step_update:
  assumes "\<And>r. r \<in> set t \<Longrightarrow> P r \<Longrightarrow> versioned_row key version target r (f r)"
  shows "versioned_step key version target t (update_where P f t)"
proof -
  have "list_all2 (versioned_row key version target) t (update_where P f t)"
    using assms by (auto simp: update_where_def list_all2_conv_all_nth versioned_row_def)
  then show ?thesis
    unfolding versioned_step_def by (intro exI [of _ "update_where P f t"] exI [of _ "[]"]) simp
qed

lemma versioned_step_snoc: "key r \<notin> key ` set t \<Longrightarrow> versioned_step key version target t (t @ [r])"
  unfolding versioned_step_def
  by (rule exI [of _ t], rule exI [of _ "[r]"]) (auto simp: versioned_row_def intro: list_all2_refl)

lemma versioned_stepE:
  assumes "versioned_step key version target t t'"
  obtains rs new where "t' = rs @ new" "map key rs = map key t"
    "distinct (map key new)" "key ` set new \<inter> key ` set t = {}"
    "\<And>r. r \<in> set rs \<Longrightarrow> \<exists>q \<in> set t. versioned_row key version target q r"
proof -
  obtain rs new where t': "t' = rs @ new" and rs: "list_all2 (versioned_row key version target) t rs"
    and new: "distinct (map key new)" "key ` set new \<inter> key ` set t = {}"
    using assms by (auto simp: versioned_step_def)
  have "map key rs = map key t"
    using rs by (induction rule: list_all2_induct) (auto dest: versioned_row_le)
  moreover have "\<exists>q \<in> set t. versioned_row key version target q r" if "r \<in> set rs" for r
    using rs that by (metis list_all2_conv_all_nth in_set_conv_nth)
  ultimately show thesis using that t' new by blast
qed

lemma versioned_step_keys:
  assumes "versioned_step key version target t t'" "distinct (map key t)"
  shows "distinct (map key t')"
proof -
  obtain rs new where n: "t' = rs @ new" "map key rs = map key t" "distinct (map key new)" "key ` set new \<inter> key ` set t = {}"
    using versioned_stepE [OF assms(1)] by metis
  then have "key ` set rs = key ` set t" by (metis set_map)
  with n assms(2) show ?thesis by auto
qed

text \<open>A version that has been passed is never seen again.\<close>

definition past :: "('r \<Rightarrow> string) \<Rightarrow> ('r \<Rightarrow> i64) \<Rightarrow> string \<Rightarrow> i64 \<Rightarrow> 'r list \<Rightarrow> bool" where
  "past key version i v t \<longleftrightarrow> i \<in> key ` set t \<and> (\<forall>r \<in> set t. key r = i \<longrightarrow> v < version r)"

lemma pastI:
  assumes "versioned_step key version target t t'" "i \<in> key ` set t"
    and "\<And>q r. q \<in> set t \<Longrightarrow> r \<in> set t' \<Longrightarrow> versioned_row key version target q r \<Longrightarrow> key r = i \<Longrightarrow> v < version r"
  shows "past key version i v t'"
proof -
  obtain rs new where n: "t' = rs @ new" "map key rs = map key t" "key ` set new \<inter> key ` set t = {}"
    "\<And>r. r \<in> set rs \<Longrightarrow> \<exists>q \<in> set t. versioned_row key version target q r"
    using versioned_stepE [OF assms(1)] by metis
  have keys: "key ` set rs = key ` set t" using n(2) by (metis set_map)
  have "v < version r" if r: "r \<in> set t'" "key r = i" for r
  proof -
    have "r \<in> set rs" using r n(1,3) assms(2) by auto
    then obtain q where "q \<in> set t" "versioned_row key version target q r" using n(4) by blast
    then show ?thesis using assms(3) r by blast
  qed
  moreover have "i \<in> key ` set t'" using assms(2) keys n(1) by auto
  ultimately show ?thesis by (simp add: past_def)
qed

lemma versioned_step_past:
  assumes "versioned_step key version target t t'" "past key version i v t"
  shows "past key version i v t'"
proof (rule pastI [OF assms(1)])
  show "i \<in> key ` set t" using assms(2) by (simp add: past_def)
next
  fix q r assume a: "q \<in> set t" "versioned_row key version target q r" "key r = i"
  then have "version q \<le> version r" "key q = i" using versioned_row_le [OF a(2)] by auto
  moreover have "v < version q" using assms(2) a(1) calculation(2) by (simp add: past_def)
  ultimately show "v < version r" by simp
qed

lemma versioned_step_hit:
  assumes "versioned_step key version (Some (i, v)) t t'" "distinct (map key t)"
    and "r \<in> set t" "key r = i" "version r = v" "r \<notin> set t'"
  shows "past key version i v t'"
proof (rule pastI [OF assms(1)])
  show "i \<in> key ` set t" using assms(3,4) by blast
next
  fix p q assume a: "p \<in> set t" "q \<in> set t'" "versioned_row key version (Some (i, v)) p q" "key q = i"
  then have "key p = i" using versioned_row_le [OF a(3)] by auto
  then have "p = r" using assms(2,3,4) a(1) by (auto simp: distinct_map dest: inj_onD)
  moreover have "q \<noteq> p" using a(2) assms(6) calculation by auto
  ultimately show "v < version q" using a(3) by (simp add: versioned_row_def)
qed

text \<open>The table after a sequence of operations.\<close>

definition run_all :: "('op \<Rightarrow> 'r list \<Rightarrow> 'r list \<times> 'b) \<Rightarrow> 'op list \<Rightarrow> 'r list \<Rightarrow> 'r list" where
  "run_all run ops t = foldl (\<lambda>t op. fst (run op t)) t ops"

lemma run_all_simps [simp]: "run_all run [] t = t" "run_all run (op # ops) t = run_all run ops (fst (run op t))"
  by (simp_all add: run_all_def)

lemma run_all_inv: "(\<And>t op. I t \<Longrightarrow> I (fst (run op t))) \<Longrightarrow> I t \<Longrightarrow> I (run_all run ops t)"
  by (induction ops arbitrary: t) auto

text \<open>The contract of a service: \<open>target op\<close> is the row and the version an operation is
  conditioned on; it answers a value only if that row is there in that version, and then it has
  changed it.\<close>

locale versioned =
  fixes key :: "'r \<Rightarrow> string" and version :: "'r \<Rightarrow> i64"
    and target :: "'op \<Rightarrow> (string \<times> i64) option"
    and run :: "'op \<Rightarrow> 'r list \<Rightarrow> 'r list \<times> ('e + 'a)"
  assumes rows: "distinct (map key t) \<Longrightarrow> versioned_step key version (target op) t (fst (run op t))"
    and hit: "distinct (map key t) \<Longrightarrow> target op = Some (i, v) \<Longrightarrow> run op t = (t', Inr a) \<Longrightarrow>
      \<exists>r \<in> set t. key r = i \<and> version r = v \<and> r \<notin> set t'"
begin

lemma keys: "distinct (map key t) \<Longrightarrow> distinct (map key (fst (run op t)))"
  by (rule versioned_step_keys [OF rows])

lemma keys_many: "distinct (map key t) \<Longrightarrow> distinct (map key (run_all run ops t))"
  by (induction ops arbitrary: t) (auto intro: keys)

lemma past_many:
  "distinct (map key t) \<Longrightarrow> past key version i v t \<Longrightarrow> past key version i v (run_all run ops t)"
  by (induction ops arbitrary: t) (auto intro: keys versioned_step_past [OF rows])

text \<open>Whoever writes first wins: a second write that read the same version is refused, whatever
  happens between the two.\<close>

lemma lost_update:
  assumes "distinct (map key t)" "target op = Some (i, v)" "target op' = Some (i, v)" "run op t = (t', Inr a)"
  shows "\<exists>e. snd (run op' (run_all run ops t')) = Inl e"
proof -
  have d: "distinct (map key t')" using keys [OF assms(1), of op] assms(4) by simp
  obtain r where "r \<in> set t" "key r = i" "version r = v" "r \<notin> set t'"
    using hit [OF assms(1,2,4)] by blast
  then have "past key version i v t'"
    using versioned_step_hit [of key version i v t t' r] rows [OF assms(1), of op] assms(1,2,4) by simp
  then have p: "past key version i v (run_all run ops t')" by (rule past_many [OF d])
  have d': "distinct (map key (run_all run ops t'))" by (rule keys_many [OF d])
  show ?thesis
  proof (cases "run op' (run_all run ops t')")
    case (Pair t'' x)
    then show ?thesis using hit [OF d' assms(3)] p by (cases x) (auto simp: past_def)
  qed
qed

end

end
