(* ===== verification/Byte_Strings.thy ===== *)
theory Byte_Strings
  imports Db
begin

text \<open>
  Byte strings.  A \<open>char\<close> is a byte, so a \<open>string\<close> is both a \<open>[u8]\<close> and the UTF-8 bytes of a
  \<open>str\<close>.  The theory holds what the parsers use of Rust's standard library: ASCII classes
  and case, trimming, UTF-8 validity and the lossy conversion, and the search for a
  subslice (isapi/parser.rs).
\<close>

section \<open>ASCII\<close>

definition byte :: "char \<Rightarrow> nat" where
  "byte ch = of_char ch"

definition ascii_lower :: "char \<Rightarrow> char" where
  "ascii_lower ch = (if 65 \<le> byte ch \<and> byte ch \<le> 90 then char_of (byte ch + 32) else ch)"

definition to_ascii_lowercase :: "string \<Rightarrow> string" where
  "to_ascii_lowercase s = map ascii_lower s"

definition eq_ignore_ascii_case :: "string \<Rightarrow> string \<Rightarrow> bool" where
  "eq_ignore_ascii_case s t \<longleftrightarrow> to_ascii_lowercase s = to_ascii_lowercase t"

definition is_ascii_alphanumeric :: "char \<Rightarrow> bool" where
  "is_ascii_alphanumeric ch \<longleftrightarrow> 48 \<le> byte ch \<and> byte ch \<le> 57 \<or> 65 \<le> byte ch \<and> byte ch \<le> 90
     \<or> 97 \<le> byte ch \<and> byte ch \<le> 122"

text \<open>\<open>u8::is_ascii_whitespace\<close> leaves out the vertical tab, \<open>char::is_whitespace\<close> does not.\<close>

definition is_ascii_whitespace :: "char \<Rightarrow> bool" where
  "is_ascii_whitespace ch \<longleftrightarrow> byte ch \<in> {32, 9, 10, 12, 13}"

definition is_whitespace :: "char \<Rightarrow> bool" where
  "is_whitespace ch \<longleftrightarrow> byte ch = 32 \<or> 9 \<le> byte ch \<and> byte ch \<le> 13"

definition trim_end_by :: "(char \<Rightarrow> bool) \<Rightarrow> string \<Rightarrow> string" where
  "trim_end_by P s = rev (dropWhile P (rev s))"

definition trim_by :: "(char \<Rightarrow> bool) \<Rightarrow> string \<Rightarrow> string" where
  "trim_by P s = trim_end_by P (dropWhile P s)"

definition crlf :: string where
  "crlf = [CHR 0x0D, CHR 0x0A]"

section \<open>UTF-8\<close>

text \<open>How many bytes a sequence that starts with \<open>b\<close> has (0: none starts so), and which second
  bytes it may have (no overlong forms, no surrogates, nothing above U+10FFFF).\<close>

definition utf8_width :: "nat \<Rightarrow> nat" where
  "utf8_width b = (if b < 128 then 1 else if 194 \<le> b \<and> b \<le> 223 then 2
     else if 224 \<le> b \<and> b \<le> 239 then 3 else if 240 \<le> b \<and> b \<le> 244 then 4 else 0)"

definition utf8_cont :: "char \<Rightarrow> bool" where
  "utf8_cont ch \<longleftrightarrow> 128 \<le> byte ch \<and> byte ch \<le> 191"

definition utf8_second :: "nat \<Rightarrow> char \<Rightarrow> bool" where
  "utf8_second b ch \<longleftrightarrow>
     (if b = 224 then 160 else if b = 240 then 144 else 128) \<le> byte ch \<and>
     byte ch \<le> (if b = 237 then 159 else if b = 244 then 143 else 191)"

text \<open>The first character of a string: is it well formed, and how many bytes it takes; of an
  ill-formed one, the longest start of a well-formed sequence (at least one byte).\<close>

definition utf8_first :: "string \<Rightarrow> bool \<times> nat" where
  "utf8_first s = (case s of [] \<Rightarrow> (True, 0) | ch # rest \<Rightarrow>
     (let k = utf8_width (byte ch);
          good = (case rest of [] \<Rightarrow> 0 | x # xs \<Rightarrow>
            if utf8_second (byte ch) x then 1 + length (takeWhile utf8_cont (take (k - 2) xs)) else 0)
      in if k = 0 then (False, 1) else if k = 1 then (True, 1)
         else if good + 1 = k then (True, k) else (False, 1 + good)))"

lemma utf8_first_pos: "s \<noteq> [] \<Longrightarrow> 0 < snd (utf8_first s)"
  by (cases s) (auto simp: utf8_first_def Let_def)

function utf8_ok :: "string \<Rightarrow> bool" where
  "utf8_ok s = (if s = [] then True else case utf8_first s of (ok, n) \<Rightarrow> ok \<and> utf8_ok (drop n s))"
  by auto

termination
proof (relation "measure length")
  fix s x y assume "s \<noteq> []" "(x, y) = utf8_first s"
  then show "(drop y s, s) \<in> measure length" using utf8_first_pos [of s] by (cases s) (auto dest: sym)
qed simp

text \<open>\<open>String::from_utf8_lossy\<close>: every ill-formed piece becomes U+FFFD.\<close>

function utf8_lossy :: "string \<Rightarrow> string" where
  "utf8_lossy s = (if s = [] then [] else case utf8_first s of
     (ok, n) \<Rightarrow> (if ok then take n s else [CHR 0xEF, CHR 0xBF, CHR 0xBD]) @ utf8_lossy (drop n s))"
  by auto

termination
proof (relation "measure length")
  fix s x y assume "s \<noteq> []" "(x, y) = utf8_first s"
  then show "(drop y s, s) \<in> measure length" using utf8_first_pos [of s] by (cases s) (auto dest: sym)
qed simp

declare utf8_ok.simps [simp del] utf8_lossy.simps [simp del]

lemma utf8_lossy_id: "utf8_ok s \<Longrightarrow> utf8_lossy s = s"
proof (induction s rule: utf8_ok.induct)
  case (1 s)
  show ?case
  proof (cases "s = []")
    case False
    obtain ok n where f: "utf8_first s = (ok, n)" by (cases "utf8_first s")
    then have "ok" "utf8_ok (drop n s)" using 1(2) False by (auto simp: utf8_ok.simps [of s])
    with 1(1) [OF False f [symmetric]] f False show ?thesis by (simp add: utf8_lossy.simps [of s])
  qed (simp add: utf8_lossy.simps)
qed

lemma utf8_ok_ascii: "(\<forall>ch \<in> set s. byte ch < 128) \<Longrightarrow> utf8_ok s"
proof (induction s)
  case (Cons ch s)
  then have "utf8_first (ch # s) = (True, 1)" by (simp add: utf8_first_def utf8_width_def)
  with Cons show ?case by (simp add: utf8_ok.simps [of "ch # s"])
qed (simp add: utf8_ok.simps)

section \<open>Numbers\<close>

text \<open>\<open>Display\<close> of an integer.\<close>

function show_nat :: "nat \<Rightarrow> string" where
  "show_nat n = (if n < 10 then [char_of (48 + n)] else show_nat (n div 10) @ [char_of (48 + n mod 10)])"
  by auto

termination by (relation "measure id") auto

declare show_nat.simps [simp del]

definition show_int :: "int \<Rightarrow> string" where
  "show_int i = (if i < 0 then CHR ''-'' # show_nat (nat (- i)) else show_nat (nat i))"

section \<open>Searching\<close>

fun find_sub :: "string \<Rightarrow> string \<Rightarrow> nat option" where
  "find_sub [] needle = None"
| "find_sub (ch # s) needle =
     (if prefix_of needle (ch # s) then Some 0 else map_option Suc (find_sub s needle))"

definition find_subslice :: "string \<Rightarrow> string \<Rightarrow> nat option" where
  "find_subslice haystack needle =
     (if needle = [] \<or> length haystack < length needle then None else find_sub haystack needle)"

lemma prefix_of_length: "prefix_of p s \<Longrightarrow> length p \<le> length s"
  by (induction p s rule: prefix_of.induct) auto

lemma prefix_of_eq: "prefix_of p s \<longleftrightarrow> (\<exists>r. s = p @ r)"
  by (induction p s rule: prefix_of.induct) auto

lemma find_sub_short: "needle \<noteq> [] \<Longrightarrow> length s < length needle \<Longrightarrow> find_sub s needle = None"
  by (induction s) (auto dest: prefix_of_length)

lemma find_subslice_eq: "needle \<noteq> [] \<Longrightarrow> find_subslice s needle = find_sub s needle"
  by (simp add: find_subslice_def find_sub_short)

lemma find_sub_Some:
  "find_sub s needle = Some k \<longleftrightarrow>
     k < length s \<and> prefix_of needle (drop k s) \<and> (\<forall>j < k. \<not> prefix_of needle (drop j s))"
proof (induction s needle arbitrary: k rule: find_sub.induct)
  case (2 ch s needle)
  show ?case
  proof (cases "prefix_of needle (ch # s)")
    case False
    then show ?thesis using 2 by (cases k) (auto simp: less_Suc_eq_0_disj)
  qed (auto intro: gr0I)
qed simp

lemma find_sub_None: "needle \<noteq> [] \<Longrightarrow> find_sub s needle = None \<longleftrightarrow> (\<forall>j. \<not> prefix_of needle (drop j s))"
proof (induction s needle rule: find_sub.induct)
  case (1 needle)
  then show ?case by (simp add: prefix_of_eq)
next
  case (2 ch s needle)
  show ?case
  proof (cases "prefix_of needle (ch # s)")
    case True
    then show ?thesis by (auto intro!: exI [of _ 0])
  next
    case False
    have "(\<forall>j. \<not> prefix_of needle (drop j (ch # s))) \<longleftrightarrow> (\<forall>j. \<not> prefix_of needle (drop j s))"
    proof
      assume a: "\<forall>j. \<not> prefix_of needle (drop j (ch # s))"
      show "\<forall>j. \<not> prefix_of needle (drop j s)"
      proof
        fix j show "\<not> prefix_of needle (drop j s)" using a [rule_format, of "Suc j"] by simp
      qed
    next
      assume a: "\<forall>j. \<not> prefix_of needle (drop j s)"
      show "\<forall>j. \<not> prefix_of needle (drop j (ch # s))"
      proof
        fix j show "\<not> prefix_of needle (drop j (ch # s))" using a False by (cases j) auto
      qed
    qed
    then show ?thesis using False 2 by simp
  qed
qed

text \<open>What follows the first occurrence does not matter.\<close>

lemma find_sub_append: "find_sub s needle = Some k \<Longrightarrow> find_sub (s @ t) needle = Some k"
proof (induction s needle arbitrary: k rule: find_sub.induct)
  case (2 ch s needle)
  show ?case
  proof (cases "prefix_of needle (ch # s)")
    case True
    then have "prefix_of needle ((ch # s) @ t)" by (metis append.assoc prefix_of_eq)
    then show ?thesis using True 2(2) by auto
  next
    case False
    then obtain j where j: "k = Suc j" "find_sub s needle = Some j" using 2(2) by auto
    then have "find_sub (s @ t) needle = Some j" using 2(1) False by blast
    moreover have "\<not> prefix_of needle (ch # s @ t)"
    proof
      assume "prefix_of needle (ch # s @ t)"
      then have "needle = take (length needle) ((ch # s) @ t)" by (auto simp: prefix_of_eq)
      moreover have len: "length needle \<le> length s"
        using j(2) by (auto simp: find_sub_Some dest: prefix_of_length)
      have "take (length needle) ((ch # s) @ t) = take (length needle) (ch # s)"
        using len by (subst take_append) simp
      ultimately have "needle = take (length needle) (ch # s)" by (rule trans)
      then have "prefix_of needle (ch # s)" by (metis append_take_drop_id prefix_of_append)
      with False show False by blast
    qed
    ultimately show ?thesis using j by simp
  qed
qed simp

end
