(* ===== verification/Ip_Text.thy ===== *)
theory Ip_Text
  imports Byte_Strings
begin

text \<open>
  \<open>std::net::IpAddr::from_str\<close>, which devices/models.rs checks addresses with: the parser of
  the standard library over the characters not read yet.  A reader answers the rest of the text,
  and the value where one is needed; a failed reader leaves the text where it was.
\<close>

definition dec_digit :: "char \<Rightarrow> int option" where
  "dec_digit ch = (let b = of_char ch in if 48 \<le> b \<and> b \<le> 57 then Some (b - 48) else None)"

definition hex_digit :: "char \<Rightarrow> int option" where
  "hex_digit ch =
     (let b = of_char ch in
      if 48 \<le> b \<and> b \<le> 57 then Some (b - 48)
      else if 97 \<le> b \<and> b \<le> 102 then Some (b - 87)
      else if 65 \<le> b \<and> b \<le> 70 then Some (b - 55) else None)"

text \<open>\<open>read_number\<close>: at most \<open>max_digits\<close> digits (one more is a failure), below the limit of the
  type, with or without a leading zero.\<close>

definition read_number ::
  "(char \<Rightarrow> int option) \<Rightarrow> int \<Rightarrow> nat \<Rightarrow> int \<Rightarrow> bool \<Rightarrow> string \<Rightarrow> string option" where
  "read_number digit radix max_digits limit allow_zero_prefix s =
     (let ds = takeWhile (\<lambda>ch. digit ch \<noteq> None) s;
          n = foldl (\<lambda>acc ch. acc * radix + the (digit ch)) 0 ds
      in if ds = [] \<or> max_digits < length ds \<or> limit \<le> n
            \<or> (\<not> allow_zero_prefix \<and> hd ds = CHR ''0'' \<and> 1 < length ds)
         then None else Some (drop (length ds) s))"

definition read_char :: "char \<Rightarrow> string \<Rightarrow> string option" where
  "read_char ch s = (case s of [] \<Rightarrow> None | x # xs \<Rightarrow> if x = ch then Some xs else None)"

text \<open>\<open>read_separator\<close>: the separator precedes every element but the first.\<close>

definition read_separator :: "char \<Rightarrow> nat \<Rightarrow> (string \<Rightarrow> string option) \<Rightarrow> string \<Rightarrow> string option" where
  "read_separator sep i inner s = (if i = 0 then inner s else Option.bind (read_char sep s) inner)"

definition read_octet :: "string \<Rightarrow> string option" where
  "read_octet = read_number dec_digit 10 3 256 False"

definition read_ipv4 :: "string \<Rightarrow> string option" where
  "read_ipv4 s = fold (\<lambda>i rest. Option.bind rest (read_separator (CHR ''.'') i read_octet)) [0..<4] (Some s)"

definition read_group :: "string \<Rightarrow> string option" where
  "read_group = read_number hex_digit 16 4 65536 True"

text \<open>\<open>read_groups\<close> from the group \<open>i\<close> of at most \<open>limit\<close>: how many were read, whether the last
  two were an embedded IPv4 address.\<close>

function read_groups :: "nat \<Rightarrow> nat \<Rightarrow> string \<Rightarrow> nat \<times> bool \<times> string" where
  "read_groups limit i s =
     (if limit \<le> i then (limit, False, s)
      else case (if i < limit - 1 then read_separator (CHR '':'') i read_ipv4 s else None) of
        Some s' \<Rightarrow> (i + 2, True, s')
      | None \<Rightarrow>
          (case read_separator (CHR '':'') i read_group s of
             None \<Rightarrow> (i, False, s)
           | Some s' \<Rightarrow> read_groups limit (i + 1) s'))"
  by auto

termination by (relation "measure (\<lambda>(limit, i, s). limit - i)") auto

declare read_groups.simps [simp del]

definition read_ipv6 :: "string \<Rightarrow> string option" where
  "read_ipv6 s =
     (case read_groups 8 0 s of (head_size, head_ipv4, s1) \<Rightarrow>
        if head_size = 8 then Some s1
        else if head_ipv4 then None
        else Option.bind (read_char (CHR '':'') s1) (\<lambda>s2.
          map_option (\<lambda>s3. case read_groups (8 - (head_size + 1)) 0 s3 of (tail_size, tail_ipv4, s4) \<Rightarrow> s4)
            (read_char (CHR '':'') s2)))"

definition ip_addr_ok :: "string \<Rightarrow> bool" where
  "ip_addr_ok s = ((case read_ipv4 s of Some rest \<Rightarrow> Some rest | None \<Rightarrow> read_ipv6 s) = Some [])"

lemma ip_addr_examples:
  "ip_addr_ok ''192.168.1.64''" "ip_addr_ok ''::1''" "ip_addr_ok ''fe80::1:2''" "ip_addr_ok ''::ffff:10.0.0.1''"
  "ip_addr_ok ''1:2:3:4:5:6:7:8''"
  "\<not> ip_addr_ok ''''" "\<not> ip_addr_ok ''256.1.1.1''" "\<not> ip_addr_ok ''10.01.0.1''" "\<not> ip_addr_ok ''10.0.0''"
  "\<not> ip_addr_ok ''1:2:3:4:5:6:7''" "\<not> ip_addr_ok ''reader.local''" "\<not> ip_addr_ok ''1::2::3''"
  by code_simp+

end
