(* ===== verification/Devices.thy ===== *)
theory Devices
  imports Versioned Ip_Text Auth Schema "HOL-Library.List_Lexorder" "HOL-Library.Char_ord"
begin

text \<open>
  The register of readers (devices/models.rs, devices/service.rs, devices/handlers.rs) and the
  encryption of their credentials (devices/crypto.rs).  The handlers answer, change the table,
  and emit the lifecycle events the supervisor reconciles its tasks with.  AES-GCM and base64 are
  a record of functions; what a reader answers to a command is an argument.
\<close>

section \<open>Data\<close>

record device_row =
  dv_id :: string
  dv_name :: string
  dv_ip :: string
  dv_port :: i64
  dv_scheme :: string
  dv_username :: string
  dv_encrypted_password :: string
  dv_direction :: string
  dv_allow_insecure_tls :: bool
  dv_connection_state :: string
  dv_last_seen_at :: "i64 option"
  dv_status :: string
  dv_deleted_at :: "i64 option"
  dv_version :: i64
  dv_created_at :: i64
  dv_updated_at :: i64
  dv_ingest_mode :: string
  dv_push_token :: "string option"

record device_response =
  dp_id :: string
  dp_name :: string
  dp_ip :: string
  dp_port :: i64
  dp_scheme :: string
  dp_username :: string
  dp_direction :: string
  dp_allow_insecure_tls :: bool
  dp_connection_state :: string
  dp_last_seen_at :: "string option"
  dp_status :: string
  dp_deleted_at :: "string option"
  dp_version :: i64
  dp_created_at :: string
  dp_updated_at :: string

record create_device_request =
  cv_name :: string
  cv_ip :: string
  cv_port :: i64
  cv_scheme :: string
  cv_username :: string
  cv_password :: string
  cv_direction :: string
  cv_allow_insecure_tls :: bool

record update_device_request =
  uv_name :: "string option"
  uv_ip :: "string option"
  uv_port :: "i64 option"
  uv_scheme :: "string option"
  uv_username :: "string option"
  uv_password :: "string option"
  uv_direction :: "string option"
  uv_allow_insecure_tls :: "bool option"
  uv_status :: "string option"
  uv_version :: i64

record device_with_plaintext =
  dw_id :: string
  dw_name :: string
  dw_base_url :: string
  dw_username :: string
  dw_password :: string
  dw_direction :: string
  dw_allow_insecure_tls :: bool
  dw_status :: string
  dw_version :: i64
  dw_ingest_mode :: string
  dw_push_token :: "string option"

section \<open>Credentials\<close>

record cipher_libs =
  aes_gcm_encrypt :: "string \<Rightarrow> string \<Rightarrow> string \<Rightarrow> string + string"
  aes_gcm_decrypt :: "string \<Rightarrow> string \<Rightarrow> string \<Rightarrow> string option"
  base64_encode :: "string \<Rightarrow> string"
  base64_decode :: "string \<Rightarrow> string option"

definition encrypt_password :: "cipher_libs \<Rightarrow> string \<Rightarrow> string \<Rightarrow> string \<Rightarrow> string + string" where
  "encrypt_password C nonce key plaintext =
     (case aes_gcm_encrypt C key nonce plaintext of
        Inl e \<Rightarrow> Inl (''encrypt failed: '' @ e)
      | Inr ciphertext \<Rightarrow> Inr (base64_encode C (nonce @ ciphertext)))"

definition decrypt_password :: "cipher_libs \<Rightarrow> string \<Rightarrow> string \<Rightarrow> string + string" where
  "decrypt_password C key encoded =
     (case base64_decode C encoded of
        None \<Rightarrow> Inl ''device password ciphertext is not valid base64''
      | Some combined \<Rightarrow>
          if length combined \<le> 12 then Inl ''device password ciphertext is too short to contain a nonce''
          else (case aes_gcm_decrypt C key (take 12 combined) (drop 12 combined) of
              None \<Rightarrow> Inl ''device password decrypt failed (key wrong or tampered)''
            | Some plaintext \<Rightarrow>
                if utf8_ok plaintext then Inr plaintext
                else Inl ''decrypted device password is not valid UTF-8''))"

section \<open>Validation\<close>

definition validate_scheme :: "string \<Rightarrow> string + unit" where
  "validate_scheme s =
     (if s \<in> {''http'', ''https''} then Inr ()
      else Inl (''scheme must be '' @ quoted ''http'' @ '' or '' @ quoted ''https''))"

definition validate_direction :: "string \<Rightarrow> string + unit" where
  "validate_direction s =
     (if s \<in> {''entry'', ''exit''} then Inr ()
      else Inl (''direction must be '' @ quoted ''entry'' @ '' or '' @ quoted ''exit''))"

definition validate_ip :: "string \<Rightarrow> string + unit" where
  "validate_ip s = (if ip_addr_ok s then Inr () else Inl ''ip must be a valid IPv4 or IPv6 address'')"

definition validate_device_status :: "string \<Rightarrow> string + unit" where
  "validate_device_status s =
     (if s \<in> {''active'', ''inactive''} then Inr ()
      else Inl (''status must be '' @ quoted ''active'' @ '' or '' @ quoted ''inactive''))"

definition val_err :: "string \<Rightarrow> app_error" where
  "val_err msg = Validation ''VALIDATION_ERROR'' msg"

text \<open>A field that is absent is not checked.\<close>

definition check_field :: "('a \<Rightarrow> string + unit) \<Rightarrow> 'a option \<Rightarrow> unit result" where
  "check_field check field = (case field of None \<Rightarrow> Inr () | Some v \<Rightarrow> map_err val_err (check v))"

section \<open>The table\<close>

text \<open>The constraints of the table: the CHECK of each column (migrations 003 and 022), the primary
  key and the unique index of the addresses of the active devices.\<close>

definition active_addresses :: "device_row list \<Rightarrow> (string \<times> i64) list" where
  "active_addresses t = map (\<lambda>r. (dv_ip r, dv_port r)) (filter (\<lambda>r. dv_status r = ''active'') t)"

definition device_checks :: "device_row \<Rightarrow> bool" where
  "device_checks r \<longleftrightarrow> 1 \<le> dv_port r \<and> dv_port r \<le> 65535 \<and> dv_scheme r \<in> {''http'', ''https''} \<and>
     dv_direction r \<in> {''entry'', ''exit''} \<and> dv_connection_state r \<in> {''online'', ''offline'', ''unknown''} \<and>
     dv_status r \<in> {''active'', ''inactive''} \<and> dv_ingest_mode r \<in> {''stream'', ''push''}"

definition device_violation :: "device_row list \<Rightarrow> string option" where
  "device_violation t =
     (if \<not> list_all device_checks t then Some ''CHECK constraint failed: devices''
      else if \<not> distinct (map dv_id t) then Some ''UNIQUE constraint failed: devices.id''
      else if \<not> distinct (active_addresses t) then Some ''UNIQUE constraint failed: devices.ip, devices.port''
      else None)"

definition address_taken :: "db_write_error \<Rightarrow> bool" where
  "address_taken e \<longleftrightarrow> str_contains (db_write_text e) ''UNIQUE constraint failed'' \<and>
     (str_contains (db_write_text e) ''idx_devices_ip_port_active'' \<or>
      str_contains (db_write_text e) ''devices.ip'' \<and> str_contains (db_write_text e) ''devices.port'')"

definition row_to_device :: "auth_libs \<Rightarrow> device_row \<Rightarrow> device_response" where
  "row_to_device L r = \<lparr>dp_id = dv_id r, dp_name = dv_name r, dp_ip = dv_ip r, dp_port = dv_port r,
     dp_scheme = dv_scheme r, dp_username = dv_username r, dp_direction = dv_direction r,
     dp_allow_insecure_tls = dv_allow_insecure_tls r, dp_connection_state = dv_connection_state r,
     dp_last_seen_at = map_option (epoch_to_iso L) (dv_last_seen_at r), dp_status = dv_status r,
     dp_deleted_at = map_option (epoch_to_iso L) (dv_deleted_at r), dp_version = dv_version r,
     dp_created_at = epoch_to_iso L (dv_created_at r), dp_updated_at = epoch_to_iso L (dv_updated_at r)\<rparr>"

definition device_not_found :: "string \<Rightarrow> app_error" where
  "device_not_found i = NotFound ''DEVICE_NOT_FOUND'' (''Device '' @ quoted i @ '' not found'')"

definition get_device :: "auth_libs \<Rightarrow> device_row list \<Rightarrow> string \<Rightarrow> device_response result" where
  "get_device L t i =
     (case find (\<lambda>r. dv_id r = i) t of None \<Rightarrow> Inl (device_not_found i) | Some r \<Rightarrow> Inr (row_to_device L r))"

text \<open>What surrounds a write: the outcome of the queue, the clock, a fresh id and a fresh nonce.\<close>

record device_env =
  dn_write :: write_outcome
  dn_now :: i64
  dn_uuid :: string
  dn_nonce :: string

definition new_device :: "device_env \<Rightarrow> string \<Rightarrow> create_device_request \<Rightarrow> device_row" where
  "new_device E encrypted req =
     \<lparr>dv_id = dn_uuid E, dv_name = cv_name req, dv_ip = cv_ip req, dv_port = cv_port req,
      dv_scheme = cv_scheme req, dv_username = cv_username req, dv_encrypted_password = encrypted,
      dv_direction = cv_direction req, dv_allow_insecure_tls = cv_allow_insecure_tls req,
      dv_connection_state = ''offline'', dv_last_seen_at = None, dv_status = ''active'',
      dv_deleted_at = None, dv_version = 1, dv_created_at = dn_now E, dv_updated_at = dn_now E,
      dv_ingest_mode = ''stream'', dv_push_token = None\<rparr>"

definition create_device_queued ::
  "auth_libs \<Rightarrow> cipher_libs \<Rightarrow> string \<Rightarrow> device_env \<Rightarrow> create_device_request \<Rightarrow> device_row list
    \<Rightarrow> device_row list \<times> device_response result" where
  "create_device_queued L C key E req t =
     (case bind_result (map_err val_err (validate_ip (cv_ip req))) (\<lambda>_.
           bind_result (map_err val_err (validate_scheme (cv_scheme req))) (\<lambda>_.
           bind_result (map_err val_err (validate_direction (cv_direction req))) (\<lambda>_.
             map_err (\<lambda>m. Internal (OtherError m)) (encrypt_password C (dn_nonce E) key (cv_password req))))) of
        Inl e \<Rightarrow> (t, Inl e)
      | Inr encrypted \<Rightarrow>
          (case checked_insert (dn_write E) device_violation (new_device E encrypted req) t of
             (t', Inl e) \<Rightarrow>
               (t', Inl (if address_taken e
                  then Conflict ''DEVICE_IP_EXISTS''
                    (''Device with IP '' @ cv_ip req @ '':'' @ show_int (cv_port req) @ '' is already active'')
                  else from_db_write e))
           | (t', Inr n) \<Rightarrow> (t', get_device L t' (dn_uuid E))))"

definition list_devices ::
  "auth_libs \<Rightarrow> device_row list \<Rightarrow> i64 option \<Rightarrow> i64 option \<Rightarrow> string option \<Rightarrow> string option
    \<Rightarrow> device_response paginated_response result" where
  "list_devices L t limit0 offset0 status0 direction0 =
     (let limit = page_limit limit0; offset = page_offset offset0;
          status = (case status0 of None \<Rightarrow> ''active'' | Some s \<Rightarrow> s)
      in bind_result (check_field validate_direction direction0) (\<lambda>_.
        let rows = filter (\<lambda>r. dv_status r = status \<and>
              (case direction0 of None \<Rightarrow> True | Some d \<Rightarrow> dv_direction r = d)) t
        in Inr \<lparr>pr_data = map (row_to_device L) (sql_page limit offset (sort_key dv_name rows)),
                pr_total = int (length rows), pr_limit = limit, pr_offset = offset\<rparr>))"

text \<open>The SET clause of an update; the password is encrypted before.\<close>

definition device_sets_empty :: "update_device_request \<Rightarrow> bool" where
  "device_sets_empty req \<longleftrightarrow> uv_name req = None \<and> uv_ip req = None \<and> uv_port req = None \<and>
     uv_scheme req = None \<and> uv_username req = None \<and> uv_password req = None \<and> uv_direction req = None \<and>
     uv_allow_insecure_tls req = None \<and> uv_status req = None"

definition or_keep :: "'a option \<Rightarrow> 'a \<Rightarrow> 'a" where
  "or_keep given old = (case given of None \<Rightarrow> old | Some v \<Rightarrow> v)"

definition device_sets :: "i64 \<Rightarrow> string option \<Rightarrow> update_device_request \<Rightarrow> device_row \<Rightarrow> device_row" where
  "device_sets now encrypted req r =
     r\<lparr>dv_name := or_keep (uv_name req) (dv_name r), dv_ip := or_keep (uv_ip req) (dv_ip r),
       dv_port := or_keep (uv_port req) (dv_port r), dv_scheme := or_keep (uv_scheme req) (dv_scheme r),
       dv_username := or_keep (uv_username req) (dv_username r),
       dv_encrypted_password := or_keep encrypted (dv_encrypted_password r),
       dv_direction := or_keep (uv_direction req) (dv_direction r),
       dv_allow_insecure_tls := or_keep (uv_allow_insecure_tls req) (dv_allow_insecure_tls r),
       dv_status := or_keep (uv_status req) (dv_status r), dv_updated_at := now, dv_version := dv_version r + 1\<rparr>"

definition device_stale :: "device_row list \<Rightarrow> string \<Rightarrow> app_error" where
  "device_stale t i =
     (if \<exists>r \<in> set t. dv_id r = i
      then Conflict ''VERSION_CONFLICT''
        ''Device was modified by another request. Fetch the latest version and retry.''
      else device_not_found i)"

definition update_device_checks :: "update_device_request \<Rightarrow> unit result" where
  "update_device_checks req =
     bind_result (check_field validate_ip (uv_ip req)) (\<lambda>_.
     bind_result (check_field validate_scheme (uv_scheme req)) (\<lambda>_.
     bind_result (check_field validate_direction (uv_direction req)) (\<lambda>_.
     check_field validate_device_status (uv_status req))))"

definition encrypt_given ::
  "cipher_libs \<Rightarrow> string \<Rightarrow> string \<Rightarrow> string option \<Rightarrow> string option result" where
  "encrypt_given C nonce key password =
     (case password of
        None \<Rightarrow> Inr None
      | Some p \<Rightarrow> (case encrypt_password C nonce key p of
          Inl m \<Rightarrow> Inl (Internal (OtherError m)) | Inr enc \<Rightarrow> Inr (Some enc)))"

definition update_device_queued ::
  "auth_libs \<Rightarrow> cipher_libs \<Rightarrow> string \<Rightarrow> device_env \<Rightarrow> string \<Rightarrow> update_device_request \<Rightarrow> device_row list
    \<Rightarrow> device_row list \<times> device_response result" where
  "update_device_queued L C key E i req t =
     (case bind_result (update_device_checks req) (\<lambda>_. encrypt_given C (dn_nonce E) key (uv_password req)) of
        Inl e \<Rightarrow> (t, Inl e)
      | Inr encrypted \<Rightarrow>
          if device_sets_empty req then (t, get_device L t i)
          else (case checked_update (dn_write E) device_violation (\<lambda>r. dv_id r = i \<and> dv_version r = uv_version req)
                  (device_sets (dn_now E) encrypted req) t of
             (t', Inl e) \<Rightarrow>
               (t', Inl (if address_taken e
                  then Conflict ''DEVICE_IP_EXISTS'' ''Another active device already uses this IP:port''
                  else from_db_write e))
           | (t', Inr n) \<Rightarrow> if n = 0 then (t', Inl (device_stale t' i)) else (t', get_device L t' i)))"

definition deactivate_device_queued ::
  "device_env \<Rightarrow> string \<Rightarrow> device_row list \<Rightarrow> device_row list \<times> unit result" where
  "deactivate_device_queued E i t =
     (case checked_update (dn_write E) device_violation (\<lambda>r. dv_id r = i \<and> dv_status r = ''active'')
         (\<lambda>r. r\<lparr>dv_status := ''inactive'', dv_deleted_at := Some (dn_now E), dv_updated_at := dn_now E,
                 dv_version := dv_version r + 1\<rparr>) t of
        (t', Inl e) \<Rightarrow> (t', Inl (from_db_write e))
      | (t', Inr n) \<Rightarrow>
          (t', if n = 0 then Inl (NotFound ''DEVICE_NOT_FOUND''
                 (''Device '' @ quoted i @ '' not found or already inactive'')) else Inr ()))"

definition plaintext_device :: "device_row \<Rightarrow> string \<Rightarrow> device_with_plaintext" where
  "plaintext_device r password =
     \<lparr>dw_id = dv_id r, dw_name = dv_name r,
      dw_base_url = dv_scheme r @ ''://'' @ dv_ip r @ '':'' @ show_int (dv_port r),
      dw_username = dv_username r, dw_password = password, dw_direction = dv_direction r,
      dw_allow_insecure_tls = dv_allow_insecure_tls r, dw_status = dv_status r, dw_version = dv_version r,
      dw_ingest_mode = dv_ingest_mode r, dw_push_token = dv_push_token r\<rparr>"

definition get_decrypted :: "cipher_libs \<Rightarrow> string \<Rightarrow> device_row list \<Rightarrow> string \<Rightarrow> device_with_plaintext result" where
  "get_decrypted C key t i =
     (case find (\<lambda>r. dv_id r = i \<and> dv_status r = ''active'') t of
        None \<Rightarrow> Inl (NotFound ''DEVICE_NOT_FOUND'' (''Active device '' @ quoted i @ '' not found''))
      | Some r \<Rightarrow> (case decrypt_password C key (dv_encrypted_password r) of
          Inl m \<Rightarrow> Inl (Internal (OtherError m)) | Inr password \<Rightarrow> Inr (plaintext_device r password)))"

text \<open>A row that cannot be decrypted is skipped.\<close>

definition list_active :: "cipher_libs \<Rightarrow> string \<Rightarrow> device_row list \<Rightarrow> device_with_plaintext list" where
  "list_active C key t =
     List.map_filter (\<lambda>r. case decrypt_password C key (dv_encrypted_password r) of
         Inl m \<Rightarrow> None | Inr password \<Rightarrow> Some (plaintext_device r password))
       (sort_key dv_created_at (filter (\<lambda>r. dv_status r = ''active'' \<and> dv_deleted_at r = None) t))"

section \<open>Handlers and lifecycle events\<close>

datatype device_lifecycle_event = Start string | Stop string | Restart string

text \<open>The messages of the derived length and range checks of a body.\<close>

definition length_between :: "nat \<Rightarrow> nat \<Rightarrow> string \<Rightarrow> bool" where
  "length_between a b s \<longleftrightarrow> a \<le> length s \<and> length s \<le> b"

definition create_device_invalid :: "create_device_request \<Rightarrow> string list" where
  "create_device_invalid req =
     (if length_between 1 100 (cv_name req) then [] else [''name must be 1-100 chars'']) @
     (if length_between 1 100 (cv_ip req) then [] else [''ip must be a valid address'']) @
     (if 1 \<le> cv_port req \<and> cv_port req \<le> 65535 then [] else [''port must be 1..=65535'']) @
     (if length_between 1 10 (cv_scheme req) then [] else [''length'']) @
     (if length_between 1 100 (cv_username req) then [] else [''length'']) @
     (if length_between 1 200 (cv_password req) then [] else [''password must be 1-200 chars'']) @
     (if length_between 1 10 (cv_direction req) then [] else [''length''])"

definition update_device_invalid :: "update_device_request \<Rightarrow> string list" where
  "update_device_invalid req =
     (if none_or (length_between 1 100) (uv_name req) then [] else [''length'']) @
     (if none_or (length_between 1 100) (uv_ip req) then [] else [''length'']) @
     (if none_or (\<lambda>p. 1 \<le> p \<and> p \<le> 65535) (uv_port req) then [] else [''range'']) @
     (if none_or (length_between 1 100) (uv_username req) then [] else [''length'']) @
     (if none_or (length_between 1 200) (uv_password req) then [] else [''length''])"

text \<open>A handler answers the table, what it emitted, and its response; a creation also publishes
  a backfill request for the device.\<close>

definition create_device ::
  "auth_libs \<Rightarrow> cipher_libs \<Rightarrow> string \<Rightarrow> device_env \<Rightarrow> create_device_request \<Rightarrow> device_row list
    \<Rightarrow> device_row list \<times> device_lifecycle_event list \<times> string list \<times> device_response result" where
  "create_device L C key E body t =
     (if create_device_invalid body \<noteq> [] then (t, [], [], Inl (val_err (validator_text L (create_device_invalid body))))
      else case create_device_queued L C key E body t of
        (t', Inl e) \<Rightarrow> (t', [], [], Inl e)
      | (t', Inr device) \<Rightarrow> (t', [Start (dp_id device)], [dp_id device], Inr device))"

definition touches_connection :: "update_device_request \<Rightarrow> bool" where
  "touches_connection req \<longleftrightarrow> uv_ip req \<noteq> None \<or> uv_port req \<noteq> None \<or> uv_scheme req \<noteq> None \<or>
     uv_username req \<noteq> None \<or> uv_password req \<noteq> None \<or> uv_allow_insecure_tls req \<noteq> None \<or> uv_status req \<noteq> None"

text \<open>The snapshot before, against the answered device and the ciphertext read again.\<close>

definition connection_changed :: "device_row option \<Rightarrow> device_response \<Rightarrow> device_row list \<Rightarrow> bool" where
  "connection_changed pre device t =
     (case pre of
        None \<Rightarrow> True
      | Some s \<Rightarrow> dv_ip s \<noteq> dp_ip device \<or> dv_port s \<noteq> dp_port device \<or> dv_scheme s \<noteq> dp_scheme device \<or>
          dv_username s \<noteq> dp_username device \<or> dv_allow_insecure_tls s \<noteq> dp_allow_insecure_tls device \<or>
          dv_status s \<noteq> dp_status device \<or>
          (case find (\<lambda>r. dv_id r = dv_id s) t of
             None \<Rightarrow> False | Some r \<Rightarrow> dv_encrypted_password r \<noteq> dv_encrypted_password s))"

definition update_device ::
  "auth_libs \<Rightarrow> cipher_libs \<Rightarrow> string \<Rightarrow> device_env \<Rightarrow> string \<Rightarrow> update_device_request \<Rightarrow> device_row list
    \<Rightarrow> device_row list \<times> device_lifecycle_event list \<times> device_response result" where
  "update_device L C key E i body t =
     (if update_device_invalid body \<noteq> [] then (t, [], Inl (val_err (validator_text L (update_device_invalid body))))
      else (let pre = find (\<lambda>r. dv_id r = i) t in
        case update_device_queued L C key E i body t of
          (t', Inl e) \<Rightarrow> (t', [], Inl e)
        | (t', Inr device) \<Rightarrow>
            (t', if touches_connection body \<and> connection_changed pre device t' then [Restart i] else [], Inr device)))"

definition deactivate_device ::
  "device_env \<Rightarrow> string \<Rightarrow> device_row list \<Rightarrow> device_row list \<times> device_lifecycle_event list \<times> unit result" where
  "deactivate_device E i t =
     (case deactivate_device_queued E i t of
        (t', Inl e) \<Rightarrow> (t', [], Inl e)
      | (t', Inr u) \<Rightarrow> (t', [Stop i], Inr ()))"

section \<open>Commands\<close>

datatype command = DoorOpen | Reboot | EnrollmentMode

definition command_as_str :: "command \<Rightarrow> string" where
  "command_as_str cmd = (case cmd of DoorOpen \<Rightarrow> ''door_open'' | Reboot \<Rightarrow> ''reboot'' | EnrollmentMode \<Rightarrow> ''enrollment_mode'')"

definition from_request_str :: "string \<Rightarrow> command option" where
  "from_request_str s =
     (if s = ''door_open'' then Some DoorOpen else if s = ''reboot'' then Some Reboot
      else if s = ''enrollment_mode'' then Some EnrollmentMode else None)"

datatype command_audit_outcome = Audit_Ok string | Audit_Error string string | Audit_Timeout

definition outcome_str :: "command_audit_outcome \<Rightarrow> string" where
  "outcome_str out = (case out of Audit_Ok body \<Rightarrow> ''ok'' | Audit_Error code m \<Rightarrow> ''error'' | Audit_Timeout \<Rightarrow> ''timeout'')"

record command_audit_row =
  cg_id :: string
  cg_actor_id :: string
  cg_device_id :: string
  cg_command :: string
  cg_outcome :: string
  cg_result :: "string option"
  cg_error_code :: "string option"
  cg_error_message :: "string option"
  cg_dispatched_at :: i64
  cg_completed_at :: i64

definition command_audit_of ::
  "string \<Rightarrow> string \<Rightarrow> string \<Rightarrow> command \<Rightarrow> command_audit_outcome \<Rightarrow> i64 \<Rightarrow> i64 \<Rightarrow> command_audit_row" where
  "command_audit_of i actor device cmd out dispatched completed =
     \<lparr>cg_id = i, cg_actor_id = actor, cg_device_id = device, cg_command = command_as_str cmd,
      cg_outcome = outcome_str out,
      cg_result = (case out of Audit_Ok body \<Rightarrow> Some body | _ \<Rightarrow> None),
      cg_error_code = (case out of Audit_Ok body \<Rightarrow> None | Audit_Error code m \<Rightarrow> Some code
         | Audit_Timeout \<Rightarrow> Some ''DEVICE_TIMEOUT''),
      cg_error_message = (case out of Audit_Ok body \<Rightarrow> None | Audit_Error code m \<Rightarrow> Some m
         | Audit_Timeout \<Rightarrow> Some ''Device did not respond within 10 seconds''),
      cg_dispatched_at = dispatched, cg_completed_at = completed\<rparr>"

record command_result =
  cx_outcome :: string
  cx_device_response :: string
  cx_dispatched_at :: string
  cx_completed_at :: string

text \<open>What the device did: the reader could not be built, or it answered, failed, or did not answer
  within the ten seconds.\<close>

datatype reader_answer = Unreachable string | Replied string | Failed string | No_Answer

definition audit_outcome :: "reader_answer \<Rightarrow> command_audit_outcome" where
  "audit_outcome a = (case a of Replied body \<Rightarrow> Audit_Ok body | Failed m \<Rightarrow> Audit_Error ''DEVICE_ERROR'' m
     | _ \<Rightarrow> Audit_Timeout)"

definition command_response :: "auth_libs \<Rightarrow> i64 \<Rightarrow> i64 \<Rightarrow> reader_answer \<Rightarrow> command_result result" where
  "command_response L dispatched completed a =
     (case a of
        Replied text \<Rightarrow> Inr \<lparr>cx_outcome = ''ok'', cx_device_response = text,
          cx_dispatched_at = epoch_to_iso L dispatched, cx_completed_at = epoch_to_iso L completed\<rparr>
      | Failed m \<Rightarrow> Inl (BadGateway ''DEVICE_ERROR'' m)
      | _ \<Rightarrow> Inl (Timeout ''DEVICE_TIMEOUT'' ''Device did not respond within 10 seconds''))"

definition dispatch_command ::
  "auth_libs \<Rightarrow> cipher_libs \<Rightarrow> string \<Rightarrow> device_env \<Rightarrow> i64 \<Rightarrow> (device_with_plaintext \<Rightarrow> command \<Rightarrow> reader_answer)
    \<Rightarrow> claims \<Rightarrow> string \<Rightarrow> string \<Rightarrow> device_row list \<Rightarrow> command_audit_row list
    \<Rightarrow> command_audit_row list \<times> command_result result" where
  "dispatch_command L C key E completed_at reader claims device_id body t log =
     (if \<not> length_between 1 50 body then (log, Inl (val_err (validator_text L [''length''])))
      else case from_request_str body of
        None \<Rightarrow> (log, Inl (val_err (''command must be one of door_open, reboot, enrollment_mode (got '' @ quoted body @ '')'')))
      | Some cmd \<Rightarrow>
          (case get_decrypted C key t device_id of
             Inl e \<Rightarrow> (log, Inl e)
           | Inr device \<Rightarrow>
               (case reader device cmd of
                  Unreachable m \<Rightarrow> (log, Inl (Internal (OtherError m)))
                | answer \<Rightarrow>
                    (case run_insert (dn_write E) (\<lambda>_. None) (command_audit_of (dn_uuid E) (cl_sub claims) device_id cmd
                         (audit_outcome answer) (dn_now E) completed_at) log of
                       (log', Inl e) \<Rightarrow> (log', Inl (from_db_write e))
                     | (log', Inr n) \<Rightarrow> (log', command_response L (dn_now E) completed_at answer)))))"

section \<open>Liveness of a device\<close>

text \<open>\<open>update_connection_state\<close> and \<open>touch_last_seen\<close> (supervisor/status.rs), the sweep of the
  watchdog (supervisor/watchdog.rs).\<close>

definition update_connection_state ::
  "write_outcome \<Rightarrow> i64 \<Rightarrow> string \<Rightarrow> string \<Rightarrow> device_row list \<Rightarrow> device_row list \<times> (db_write_error + nat)" where
  "update_connection_state wo now device_id new_state t =
     checked_update wo device_violation (\<lambda>r. dv_id r = device_id)
       (\<lambda>r. r\<lparr>dv_connection_state := new_state, dv_updated_at := now\<rparr>) t"

definition touch_last_seen ::
  "write_outcome \<Rightarrow> i64 \<Rightarrow> string \<Rightarrow> device_row list \<Rightarrow> device_row list \<times> (db_write_error + nat)" where
  "touch_last_seen wo now device_id t =
     checked_update wo device_violation (\<lambda>r. dv_id r = device_id) (\<lambda>r. r\<lparr>dv_last_seen_at := Some now\<rparr>) t"

definition stale_threshold_secs :: i64 where "stale_threshold_secs = 90"

definition watchdog_run_once ::
  "write_outcome \<Rightarrow> i64 \<Rightarrow> device_row list \<Rightarrow> device_row list \<times> (db_write_error + nat)" where
  "watchdog_run_once wo now t =
     checked_update wo device_violation
       (\<lambda>r. dv_status r = ''active'' \<and> dv_connection_state r \<noteq> ''offline'' \<and>
          (case dv_last_seen_at r of None \<Rightarrow> True | Some s \<Rightarrow> s < now - stale_threshold_secs))
       (\<lambda>r. r\<lparr>dv_connection_state := ''offline'', dv_updated_at := now\<rparr>) t"

section \<open>The table under any sequence of operations\<close>

definition devices_ok :: "device_row list \<Rightarrow> bool" where
  "devices_ok t \<longleftrightarrow> device_violation t = None \<and> list_all (\<lambda>r. ip_addr_ok (dv_ip r)) t"

datatype device_op =
    Create_Device device_env create_device_request
  | Update_Device device_env string update_device_request
  | Deactivate_Device device_env string
  | Seen write_outcome i64 string
  | Connected write_outcome i64 string string
  | Watchdog write_outcome i64

definition forget :: "'e + 'a \<Rightarrow> 'e + unit" where
  "forget x = (case x of Inl e \<Rightarrow> Inl e | Inr a \<Rightarrow> Inr ())"

fun device_run ::
  "auth_libs \<Rightarrow> cipher_libs \<Rightarrow> string \<Rightarrow> device_op \<Rightarrow> device_row list \<Rightarrow> device_row list \<times> unit result" where
  "device_run L C key (Create_Device E req) t = (case create_device L C key E req t of (t', ev, bf, x) \<Rightarrow> (t', forget x))"
| "device_run L C key (Update_Device E i req) t = (case update_device L C key E i req t of (t', ev, x) \<Rightarrow> (t', forget x))"
| "device_run L C key (Deactivate_Device E i) t = (case deactivate_device E i t of (t', ev, x) \<Rightarrow> (t', x))"
| "device_run L C key (Seen wo now i) t = (fst (touch_last_seen wo now i t), Inr ())"
| "device_run L C key (Connected wo now i st) t = (fst (update_connection_state wo now i st t), Inr ())"
| "device_run L C key (Watchdog wo now) t = (fst (watchdog_run_once wo now t), Inr ())"

definition device_target :: "device_op \<Rightarrow> (string \<times> i64) option" where
  "device_target op = (case op of
     Update_Device E i req \<Rightarrow> if device_sets_empty req then None else Some (i, uv_version req) | _ \<Rightarrow> None)"

lemma device_violation_None:
  "device_violation t = None \<longleftrightarrow> list_all device_checks t \<and> distinct (map dv_id t) \<and> distinct (active_addresses t)"
  by (simp add: device_violation_def)

lemma forget_eq [simp]: "forget (Inl e) = Inl e" "forget (Inr a) = Inr ()" "forget x = Inr u \<longleftrightarrow> (\<exists>a. x = Inr a)"
  by (auto simp: forget_def split: sum.splits)

lemma or_keep_simps [simp]: "or_keep None x = x" "or_keep (Some y) x = y"
  by (simp_all add: or_keep_def)

lemma device_sets_simps [simp]:
  "dv_id (device_sets now enc req r) = dv_id r" "dv_version (device_sets now enc req r) = dv_version r + 1"
  "dv_ip (device_sets now enc req r) = or_keep (uv_ip req) (dv_ip r)"
  by (simp_all add: device_sets_def)

lemma check_field_ip: "check_field validate_ip f = Inr u \<Longrightarrow> ip_addr_ok d \<Longrightarrow> ip_addr_ok (or_keep f d)"
  by (auto simp: check_field_def validate_ip_def map_err_eq_Inr split: option.splits if_splits)

text \<open>What each operation writes.\<close>

lemma create_device_queued_cases:
  assumes "create_device_queued L C key E req t = (t', x)"
  obtains (same) e where "t' = t" "x = Inl e"
  | (new) enc where "t' = t @ [new_device E enc req]" "x = get_device L t' (dn_uuid E)" "device_violation t' = None"
      "ip_addr_ok (cv_ip req)" "encrypt_password C (dn_nonce E) key (cv_password req) = Inr enc"
proof -
  let ?check = "bind_result (map_err val_err (validate_ip (cv_ip req))) (\<lambda>_.
           bind_result (map_err val_err (validate_scheme (cv_scheme req))) (\<lambda>_.
           bind_result (map_err val_err (validate_direction (cv_direction req))) (\<lambda>_.
             map_err (\<lambda>m. Internal (OtherError m)) (encrypt_password C (dn_nonce E) key (cv_password req)))))"
  show thesis
  proof (cases ?check)
    case (Inl e)
    then show thesis using assms by (intro same [of e]) (simp_all add: create_device_queued_def)
  next
    case (Inr enc)
    obtain t1 y where w: "checked_insert (dn_write E) device_violation (new_device E enc req) t = (t1, y)" by fastforce
    have ok: "ip_addr_ok (cv_ip req)" "encrypt_password C (dn_nonce E) key (cv_password req) = Inr enc"
      using Inr by (auto simp: bind_result_eq_Inr map_err_eq_Inr validate_ip_def split: if_splits)
    from w show thesis
      using assms Inr w ok same new by (cases rule: checked_insert_cases) (auto simp: create_device_queued_def)
  qed
qed

lemma get_device_in: "i \<in> dv_id ` set t \<Longrightarrow> \<exists>d. get_device L t i = Inr d"
  by (auto simp: get_device_def find_None_iff split: option.splits)

lemma update_where_ids: "map dv_id (update_where P (device_sets now enc req) t) = map dv_id t"
  by (rule map_update_where) simp

lemma update_device_queued_cases:
  assumes "update_device_queued L C key E i req t = (t', x)"
  obtains (same) "t' = t" "\<And>a. x = Inr a \<Longrightarrow> device_sets_empty req"
  | (set) enc where "t' = update_where (\<lambda>r. dv_id r = i \<and> dv_version r = uv_version req) (device_sets (dn_now E) enc req) t"
      "\<not> device_sets_empty req" "device_violation t' = None" "check_field validate_ip (uv_ip req) = Inr ()"
      "encrypt_given C (dn_nonce E) key (uv_password req) = Inr enc" "x = get_device L t' i" "\<exists>d. x = Inr d"
      "\<exists>r \<in> set t. dv_id r = i \<and> dv_version r = uv_version req"
proof (cases "bind_result (update_device_checks req) (\<lambda>_. encrypt_given C (dn_nonce E) key (uv_password req))")
  case (Inl e)
  then show thesis using assms by (intro same) (auto simp: update_device_queued_def)
next
  case (Inr enc)
  have ok: "check_field validate_ip (uv_ip req) = Inr ()" "encrypt_given C (dn_nonce E) key (uv_password req) = Inr enc"
    using Inr by (auto simp: bind_result_eq_Inr update_device_checks_def)
  show thesis
  proof (cases "device_sets_empty req")
    case True
    then show thesis using assms Inr by (intro same) (auto simp: update_device_queued_def)
  next
    case False
    obtain t1 y where w: "checked_update (dn_write E) device_violation (\<lambda>r. dv_id r = i \<and> dv_version r = uv_version req)
        (device_sets (dn_now E) enc req) t = (t1, y)" by fastforce
    from w show thesis
    proof (cases rule: checked_update_cases)
      case ran
      show thesis
      proof (cases "rows_affected (\<lambda>r. dv_id r = i \<and> dv_version r = uv_version req) t = 0")
        case True
        then have "t1 = t" using ran(1) by (simp add: rows_affected_0 update_where_none)
        then show thesis using assms Inr False w ran True by (intro same) (auto simp: update_device_queued_def)
      next
        case hit: False
        then have "\<exists>r \<in> set t. dv_id r = i \<and> dv_version r = uv_version req" by (simp add: rows_affected_0)
        moreover have "\<exists>d. get_device L t1 i = Inr d"
          using calculation update_where_ids by (intro get_device_in) (metis (mono_tags, lifting) ran(1) image_eqI set_map)
        ultimately show thesis using assms Inr False w ran ok hit by (intro set [of enc]) (auto simp: update_device_queued_def)
      qed
    qed (use assms Inr False w same in \<open>auto simp: update_device_queued_def\<close>)
  qed
qed

lemma deactivate_device_cases:
  assumes "deactivate_device E i t = (t', ev, x)"
  obtains (same) e where "t' = t" "x = Inl e" "ev = []"
  | (off) "t' = update_where (\<lambda>r. dv_id r = i \<and> dv_status r = ''active'') (\<lambda>r. r\<lparr>dv_status := ''inactive'',
        dv_deleted_at := Some (dn_now E), dv_updated_at := dn_now E, dv_version := dv_version r + 1\<rparr>) t"
      "device_violation t' = None" "x = Inr ()" "ev = [Stop i]" "\<exists>r \<in> set t. dv_id r = i"
proof -
  obtain t1 y where w: "checked_update (dn_write E) device_violation (\<lambda>r. dv_id r = i \<and> dv_status r = ''active'')
      (\<lambda>r. r\<lparr>dv_status := ''inactive'', dv_deleted_at := Some (dn_now E), dv_updated_at := dn_now E,
        dv_version := dv_version r + 1\<rparr>) t = (t1, y)" by fastforce
  from w show thesis
  proof (cases rule: checked_update_cases)
    case ran
    show thesis
    proof (cases "rows_affected (\<lambda>r. dv_id r = i \<and> dv_status r = ''active'') t = 0")
      case True
      then have "t1 = t" using ran(1) by (simp add: rows_affected_0 update_where_none)
      then show thesis using assms w ran True same by (auto simp: deactivate_device_def deactivate_device_queued_def)
    next
      case hit: False
      then have "\<exists>r \<in> set t. dv_id r = i" by (auto simp: rows_affected_0)
      then show thesis using assms w ran hit off by (simp add: deactivate_device_def deactivate_device_queued_def)
    qed
  qed (use assms w same in \<open>auto simp: deactivate_device_def deactivate_device_queued_def\<close>)
qed

lemma devices_ok_update:
  assumes "devices_ok t" "device_violation t' = None" "t' = update_where P f t"
    and "\<And>r. r \<in> set t \<Longrightarrow> P r \<Longrightarrow> ip_addr_ok (dv_ip r) \<Longrightarrow> ip_addr_ok (dv_ip (f r))"
  shows "devices_ok t'"
  using assms by (auto simp: devices_ok_def list_all_iff in_set_update_where)

lemma checked_update_devices_ok:
  assumes "devices_ok t" "\<And>r. dv_ip (f r) = dv_ip r"
  shows "devices_ok (fst (checked_update wo device_violation P f t))"
proof (cases "checked_update wo device_violation P f t")
  case (Pair t' x)
  then show ?thesis
    by (cases rule: checked_update_cases) (use assms devices_ok_update [OF assms(1)] Pair in auto)
qed

lemma create_device_queue:
  "create_device L C key E req t = (t', ev, bf, x) \<Longrightarrow> t' = t \<or> (\<exists>y. create_device_queued L C key E req t = (t', y))"
  by (auto simp: create_device_def split: if_splits prod.splits sum.splits)

lemma update_device_queue:
  assumes "update_device L C key E i req t = (t', ev, x)"
  obtains (invalid) e where "t' = t" "x = Inl e" "ev = []"
  | (queued) "update_device_queued L C key E i req t = (t', x)"
      "ev = (case x of Inl e \<Rightarrow> [] | Inr device \<Rightarrow>
         if touches_connection req \<and> connection_changed (find (\<lambda>r. dv_id r = i) t) device t' then [Restart i] else [])"
  using assms by (auto simp: update_device_def Let_def split: if_splits prod.splits sum.splits)

lemma device_run_ok: "devices_ok t \<Longrightarrow> devices_ok (fst (device_run L C key op t))"
proof (cases op)
  case (Create_Device E req)
  assume ok: "devices_ok t"
  obtain t' ev bf x where c: "create_device L C key E req t = (t', ev, bf, x)" by (metis prod_cases4)
  have "devices_ok t'"
  proof (cases "t' = t")
    case False
    then obtain y where "create_device_queued L C key E req t = (t', y)" using create_device_queue [OF c] by blast
    then show ?thesis
      using False ok by (cases rule: create_device_queued_cases) (auto simp: devices_ok_def new_device_def)
  qed (simp add: ok)
  then show ?thesis using Create_Device c by simp
next
  case (Update_Device E i req)
  assume ok: "devices_ok t"
  obtain t' ev x where u: "update_device L C key E i req t = (t', ev, x)" by (metis prod_cases3)
  then have "devices_ok t'"
  proof (cases rule: update_device_queue)
    case queued
    from queued(1) show ?thesis
    proof (cases rule: update_device_queued_cases)
      case (set enc)
      show ?thesis by (rule devices_ok_update [OF ok set(3,1)]) (use set(4) check_field_ip in auto)
    qed (simp add: ok)
  qed (simp add: ok)
  then show ?thesis using Update_Device u by simp
next
  case (Deactivate_Device E i)
  assume ok: "devices_ok t"
  obtain t' ev x where d: "deactivate_device E i t = (t', ev, x)" by (metis prod_cases3)
  then have "devices_ok t'"
    by (cases rule: deactivate_device_cases) (use ok devices_ok_update [OF ok] in auto)
  then show ?thesis using Deactivate_Device d by simp
qed (auto simp: touch_last_seen_def update_connection_state_def watchdog_run_once_def intro: checked_update_devices_ok)
text \<open>The service honours the contract of a versioned table.\<close>

lemma get_device_err: "get_device L t i = Inr d \<Longrightarrow> i \<in> dv_id ` set t"
  by (auto simp: get_device_def dest: find_Some_in split: option.splits)

lemma unversioned_update:
  assumes "\<And>r. dv_id (f r) = dv_id r \<and> dv_version r \<le> dv_version (f r)"
  shows "versioned_step dv_id dv_version None t (fst (checked_update wo device_violation P f t))"
proof (cases "checked_update wo device_violation P f t")
  case (Pair t' x)
  then show ?thesis
    by (cases rule: checked_update_cases)
      (use Pair assms in \<open>auto simp: versioned_row_def intro!: versioned_step_update versioned_step_refl\<close>)
qed

lemma device_run_rows: "versioned_step dv_id dv_version (device_target op) t (fst (device_run L C key op t))"
proof (cases op)
  case (Create_Device E req)
  obtain t' ev bf x where c: "create_device L C key E req t = (t', ev, bf, x)" by (metis prod_cases4)
  have "versioned_step dv_id dv_version None t t'"
  proof (cases "t' = t")
    case False
    then obtain y where "create_device_queued L C key E req t = (t', y)" using create_device_queue [OF c] by blast
    then show ?thesis
      by (cases rule: create_device_queued_cases)
        (auto simp: device_violation_None intro!: versioned_step_refl versioned_step_snoc)
  qed (simp add: versioned_step_refl)
  then show ?thesis using Create_Device c by (simp add: device_target_def)
next
  case (Update_Device E i req)
  obtain t' ev x where u: "update_device L C key E i req t = (t', ev, x)" by (metis prod_cases3)
  then have "versioned_step dv_id dv_version (device_target op) t t'"
  proof (cases rule: update_device_queue)
    case queued
    from queued(1) show ?thesis
      by (cases rule: update_device_queued_cases)
        (auto simp: Update_Device device_target_def versioned_row_def intro!: versioned_step_refl versioned_step_update)
  qed (simp add: versioned_step_refl)
  then show ?thesis using Update_Device u by simp
next
  case (Deactivate_Device E i)
  obtain t' ev x where d: "deactivate_device E i t = (t', ev, x)" by (metis prod_cases3)
  then have "versioned_step dv_id dv_version None t t'"
    by (cases rule: deactivate_device_cases) (auto simp: versioned_row_def intro!: versioned_step_refl versioned_step_update)
  then show ?thesis using Deactivate_Device d by (simp add: device_target_def)
qed (auto simp: device_target_def touch_last_seen_def update_connection_state_def watchdog_run_once_def
    intro!: unversioned_update)

lemma device_run_hit:
  assumes "distinct (map dv_id t)" "device_target op = Some (i, v)" "device_run L C key op t = (t', Inr a)"
  shows "\<exists>r \<in> set t. dv_id r = i \<and> dv_version r = v \<and> r \<notin> set t'"
proof -
  obtain E req where op: "op = Update_Device E i req" "\<not> device_sets_empty req" "v = uv_version req"
    using assms(2) by (auto simp: device_target_def split: device_op.splits if_splits)
  obtain ev x where u: "update_device L C key E i req t = (t', ev, Inr x)"
    using assms(3) op(1) by (auto split: prod.splits)
  from u have "update_device_queued L C key E i req t = (t', Inr x)" by (cases rule: update_device_queue) auto
  then show ?thesis
  proof (cases rule: update_device_queued_cases)
    case (set enc)
    then obtain r where r: "r \<in> set t" "dv_id r = i" "dv_version r = uv_version req" by blast
    moreover have "r \<notin> set t'"
      unfolding set(1) by (rule updated_row_gone [where version = dv_version and key = dv_id]) (use r assms(1) in auto)
    ultimately show ?thesis using op(3) by blast
  qed (use op(2) in auto)
qed

interpretation devices: versioned dv_id dv_version device_target "device_run L C key" for L C key
  by unfold_locales (rule device_run_rows, rule device_run_hit)

text \<open>C33. The register stays well typed: starting from an empty table, whatever is created, updated,
  deactivated, seen or swept, every device has a valid address, a port, a scheme, a direction, a
  status and a connection state of their types, the ids are unique, and two active devices never
  share an address.\<close>

theorem register_well_typed:
  "devices_ok (run_all (device_run L C key) ops []) \<and>
   (\<forall>r \<in> set (run_all (device_run L C key) ops []).
      ip_addr_ok (dv_ip r) \<and> dv_port r \<in> {1..65535} \<and> dv_scheme r \<in> {''http'', ''https''} \<and>
      dv_direction r \<in> {''entry'', ''exit''} \<and> dv_status r \<in> {''active'', ''inactive''} \<and>
      dv_connection_state r \<in> {''online'', ''offline'', ''unknown''} \<and>
      (\<forall>q \<in> set (run_all (device_run L C key) ops []). dv_id q = dv_id r \<or>
         dv_status r = ''active'' \<and> dv_status q = ''active'' \<and> dv_ip q = dv_ip r \<and> dv_port q = dv_port r \<longrightarrow> q = r))"
proof -
  define t where "t = run_all (device_run L C key) ops []"
  have ok: "devices_ok t" unfolding t_def
    by (rule run_all_inv [where I = devices_ok, OF device_run_ok])
      (auto simp: devices_ok_def device_violation_None active_addresses_def)
  have "inj_on (\<lambda>r. (dv_ip r, dv_port r)) {r \<in> set t. dv_status r = ''active''}"
    using ok by (simp add: devices_ok_def device_violation_None active_addresses_def distinct_map)
  then have "q = r" if "q \<in> set t" "r \<in> set t" "dv_status r = ''active''" "dv_status q = ''active''"
      "dv_ip q = dv_ip r" "dv_port q = dv_port r" for q r
    using that by (auto dest!: inj_onD)
  moreover have "q = r" if "q \<in> set t" "r \<in> set t" "dv_id q = dv_id r" for q r
    using that ok by (auto simp: devices_ok_def device_violation_None distinct_map dest: inj_onD)
  ultimately show ?thesis
    using ok unfolding t_def [symmetric] by (auto simp: devices_ok_def device_violation_None list_all_iff device_checks_def)
qed

text \<open>A second update of a device against a consumed version is refused, whatever happens to the
  register between the two.\<close>

theorem device_update_not_lost:
  assumes "distinct (map dv_id t)" "\<not> device_sets_empty req" "\<not> device_sets_empty req'"
    and "uv_version req' = uv_version req"
    and "update_device L C key E i req t = (t', ev, Inr device)"
    and "update_device L C key E' i req' (run_all (device_run L C key) ops t') = (t'', ev', x)"
  shows "t'' = run_all (device_run L C key) ops t' \<and> ev' = [] \<and> (\<exists>e. x = Inl e)"
proof -
  have "\<exists>e. forget x = Inl e"
    using devices.lost_update [of t "Update_Device E i req" i "uv_version req" "Update_Device E' i req'" L C key t' "()" ops]
      assms by (auto simp: device_target_def)
  then obtain e where e: "x = Inl e" by (cases x) auto
  from assms(6) show ?thesis
  proof (cases rule: update_device_queue)
    case queued
    from queued(1) show ?thesis by (cases rule: update_device_queued_cases) (use e queued(2) in auto)
  qed (use e in auto)
qed

text \<open>What the code relies on: AES-GCM opens what it sealed under the same key and nonce and never
  seals to the empty string (it appends a tag); base64 decodes what it encoded.\<close>

definition cipher_ok :: "cipher_libs \<Rightarrow> string \<Rightarrow> bool" where
  "cipher_ok C key \<longleftrightarrow> (\<forall>x. base64_decode C (base64_encode C x) = Some x) \<and>
     (\<forall>nonce p ct. length nonce = 12 \<and> aes_gcm_encrypt C key nonce p = Inr ct \<longrightarrow>
        ct \<noteq> [] \<and> aes_gcm_decrypt C key nonce ct = Some p)"

lemma decrypt_encrypted:
  assumes "cipher_ok C key" "length nonce = 12" "encrypt_password C nonce key p = Inr enc" "utf8_ok p"
  shows "decrypt_password C key enc = Inr p"
proof -
  obtain ct where ct: "aes_gcm_encrypt C key nonce p = Inr ct" "enc = base64_encode C (nonce @ ct)"
    using assms(3) by (auto simp: encrypt_password_def split: sum.splits)
  then have "ct \<noteq> []" "aes_gcm_decrypt C key nonce ct = Some p" using assms(1,2) by (auto simp: cipher_ok_def)
  with ct assms show ?thesis by (cases ct) (auto simp: decrypt_password_def cipher_ok_def)
qed

text \<open>A device is reached with the credentials it was given: after a successful creation, and
  after a successful update that sets a password, the active device decrypts to exactly that
  password, at the address and under the user name the table holds.\<close>

theorem device_credentials_roundtrip:
  assumes "cipher_ok C key" "length (dn_nonce E) = 12" "device_violation t = None"
  shows "(create_device L C key E req t = (t', ev, bf, Inr device) \<and> utf8_ok (cv_password req) \<longrightarrow>
       (\<exists>d. get_decrypted C key t' (dn_uuid E) = Inr d \<and> dw_password d = cv_password req \<and>
          dw_username d = cv_username req \<and>
          dw_base_url d = cv_scheme req @ ''://'' @ cv_ip req @ '':'' @ show_int (cv_port req))) \<and>
    (update_device L C key E i ureq t = (t'', ev', Inr device') \<and> uv_password ureq = Some p \<and> utf8_ok p \<and>
       dp_status device' = ''active'' \<longrightarrow>
       (\<exists>d. get_decrypted C key t'' i = Inr d \<and> dw_password d = p \<and> dw_username d = dp_username device' \<and>
          dw_base_url d = dp_scheme device' @ ''://'' @ dp_ip device' @ '':'' @ show_int (dp_port device')))"
proof (intro conjI impI; elim conjE)
  assume c: "create_device L C key E req t = (t', ev, bf, Inr device)" and p: "utf8_ok (cv_password req)"
  then have "create_device_queued L C key E req t = (t', Inr device)"
    by (auto simp: create_device_def split: if_splits prod.splits sum.splits)
  then show "\<exists>d. get_decrypted C key t' (dn_uuid E) = Inr d \<and> dw_password d = cv_password req \<and>
      dw_username d = cv_username req \<and>
      dw_base_url d = cv_scheme req @ ''://'' @ cv_ip req @ '':'' @ show_int (cv_port req)"
  proof (cases rule: create_device_queued_cases)
    case (new enc)
    have "dn_uuid E \<notin> dv_id ` set t" using new(1,3) by (simp add: device_violation_None new_device_def)
    then have "find (\<lambda>r. dv_id r = dn_uuid E \<and> dv_status r = ''active'') t' = Some (new_device E enc req)"
      unfolding new(1) by (subst find_append_None) (force simp: new_device_def find_None_iff)+
    then show ?thesis
      using decrypt_encrypted [OF assms(1,2) new(5) p]
      by (simp add: get_decrypted_def new_device_def plaintext_device_def)
  qed simp
next
  assume u: "update_device L C key E i ureq t = (t'', ev', Inr device')" and p: "uv_password ureq = Some p" "utf8_ok p"
    and active: "dp_status device' = ''active''"
  from u have "update_device_queued L C key E i ureq t = (t'', Inr device')" by (cases rule: update_device_queue) auto
  then show "\<exists>d. get_decrypted C key t'' i = Inr d \<and> dw_password d = p \<and> dw_username d = dp_username device' \<and>
      dw_base_url d = dp_scheme device' @ ''://'' @ dp_ip device' @ '':'' @ show_int (dp_port device')"
  proof (cases rule: update_device_queued_cases)
    case (set enc)
    obtain e where e: "enc = Some e" "encrypt_password C (dn_nonce E) key p = Inr e"
      using set(5) p(1) by (auto simp: encrypt_given_def split: sum.splits)
    obtain r where r: "r \<in> set t''" "dv_id r = i" "device' = row_to_device L r"
      using set(6) by (auto simp: get_device_def dest: find_Some_in split: option.splits)
    have d: "distinct (map dv_id t'')" using set(3) by (simp add: device_violation_None)
    have "dv_encrypted_password r = e"
    proof -
      obtain q where q: "q \<in> set t" "dv_id q = i" "dv_version q = uv_version ureq" using set(8) by blast
      then have "device_sets (dn_now E) enc ureq q \<in> set t''" by (auto simp: set(1) in_set_update_where)
      moreover have "dv_id (device_sets (dn_now E) enc ureq q) = i" using q by simp
      ultimately have "r = device_sets (dn_now E) enc ureq q" using same_key [OF d r(1)] r(2) by simp
      then show ?thesis by (simp add: device_sets_def e)
    qed
    moreover have "find (\<lambda>x. dv_id x = i \<and> dv_status x = ''active'') t'' = Some r"
      using find_distinct2 [OF d r(1), of "\<lambda>x. dv_status x = ''active''"] r active by (simp add: row_to_device_def)
    ultimately show ?thesis
      using decrypt_encrypted [OF assms(1,2) e(2) p(2)] r(3)
      by (simp add: get_decrypted_def plaintext_device_def row_to_device_def)
  qed (use p in \<open>auto simp: device_sets_empty_def\<close>)
qed

text \<open>A command is audited before it is answered: the client gets the reader's reply only with a row
  of the actor, the device, the command and the reply in the log.\<close>

lemma commands_are_audited:
  assumes "dispatch_command L C key E completed reader claims device_id body t log = (log', Inr r)"
  shows "\<exists>row cmd. log' = log @ [row] \<and> from_request_str body = Some cmd \<and> cg_command row = command_as_str cmd \<and>
    cg_actor_id row = cl_sub claims \<and> cg_device_id row = device_id \<and> cg_outcome row = ''ok'' \<and>
    cg_result row = Some (cx_device_response r)"
proof -
  obtain cmd device where c: "from_request_str body = Some cmd" "get_decrypted C key t device_id = Inr device"
    using assms by (auto simp: dispatch_command_def split: if_splits option.splits sum.splits)
  obtain reply where "reader device cmd = Replied reply" "dn_write E = Ran"
    "log' = log @ [command_audit_of (dn_uuid E) (cl_sub claims) device_id cmd (Audit_Ok reply) (dn_now E) completed]"
    "cx_device_response r = reply"
    using assms c by (cases "reader device cmd"; cases "dn_write E")
      (auto simp: dispatch_command_def command_response_def audit_outcome_def split: if_splits)
  then show ?thesis using c by (auto simp: command_audit_of_def outcome_str_def)
qed


section \<open>Examples\<close>

definition toy_cipher :: cipher_libs where
  "toy_cipher = \<lparr>aes_gcm_encrypt = (\<lambda>k n p. Inr (p @ ''T'')), aes_gcm_decrypt = (\<lambda>k n ct. Some (butlast ct)),
     base64_encode = id, base64_decode = Some\<rparr>"

definition sample_env :: "i64 \<Rightarrow> string \<Rightarrow> device_env" where
  "sample_env now i = \<lparr>dn_write = Ran, dn_now = now, dn_uuid = i, dn_nonce = replicate 12 (CHR ''n'')\<rparr>"

definition sample_reader :: create_device_request where
  "sample_reader = \<lparr>cv_name = ''gate'', cv_ip = ''10.0.0.5'', cv_port = 443, cv_scheme = ''https'', cv_username = ''admin'',
     cv_password = ''pw'', cv_direction = ''entry'', cv_allow_insecure_tls = True\<rparr>"

definition no_change :: "i64 \<Rightarrow> update_device_request" where
  "no_change v = \<lparr>uv_name = None, uv_ip = None, uv_port = None, uv_scheme = None, uv_username = None, uv_password = None,
     uv_direction = None, uv_allow_insecure_tls = None, uv_status = None, uv_version = v\<rparr>"

definition sample_row :: device_row where
  "sample_row = new_device (sample_env 100 ''dv1'') ''nnnnnnnnnnnnpwT'' sample_reader"

lemma sample_created:
  "create_device toy_libs toy_cipher [] (sample_env 100 ''dv1'') sample_reader [] =
     ([sample_row], [Start ''dv1''], [''dv1''], Inr (row_to_device toy_libs sample_row))"
  by code_simp

lemma toy_cipher_ok: "cipher_ok toy_cipher key"
  by (simp add: cipher_ok_def toy_cipher_def)

theorem device_credentials_roundtrip_witness:
  "\<exists>d. get_decrypted toy_cipher [] [sample_row] ''dv1'' = Inr d \<and> dw_password d = ''pw'' \<and>
     dw_base_url d = ''https://10.0.0.5:443''"
proof -
  have n: "length (dn_nonce (sample_env 100 ''dv1'')) = 12" by (simp add: sample_env_def)
  have v: "device_violation [] = None" by (simp add: device_violation_def active_addresses_def)
  have u: "utf8_ok (cv_password sample_reader)" by (rule utf8_ok_ascii) (simp add: sample_reader_def byte_def)
  have s: "cv_password sample_reader = ''pw''" "dn_uuid (sample_env 100 ''dv1'') = ''dv1''"
    "cv_scheme sample_reader @ ''://'' @ cv_ip sample_reader @ '':'' @ show_int (cv_port sample_reader) = ''https://10.0.0.5:443''"
    by code_simp+
  from device_credentials_roundtrip [OF toy_cipher_ok n v, THEN conjunct1, rule_format, OF conjI [OF sample_created u]]
  show ?thesis unfolding s by blast
qed

definition rename_patch :: update_device_request where
  "rename_patch = (no_change 1)\<lparr>uv_name := Some ''main gate''\<rparr>"

lemma sample_renamed:
  "update_device toy_libs toy_cipher [] (sample_env 200 ''x'') ''dv1'' rename_patch [sample_row] =
     ([sample_row\<lparr>dv_name := ''main gate'', dv_updated_at := 200, dv_version := 2\<rparr>], [],
      Inr (row_to_device toy_libs (sample_row\<lparr>dv_name := ''main gate'', dv_updated_at := 200, dv_version := 2\<rparr>)))"
  by code_simp

theorem device_update_not_lost_witness:
  "\<exists>e t. update_device toy_libs toy_cipher [] (sample_env 300 ''y'') ''dv1'' rename_patch
     (run_all (device_run toy_libs toy_cipher []) [Deactivate_Device (sample_env 250 ''z'') ''dv1'']
       [sample_row\<lparr>dv_name := ''main gate'', dv_updated_at := 200, dv_version := 2\<rparr>]) = (t, [], Inl e) \<and>
     map dv_status t = [''inactive'']"
proof -
  let ?t' = "[sample_row\<lparr>dv_name := ''main gate'', dv_updated_at := 200, dv_version := 2\<rparr>]"
  let ?t2 = "run_all (device_run toy_libs toy_cipher []) [Deactivate_Device (sample_env 250 ''z'') ''dv1''] ?t'"
  have n: "\<not> device_sets_empty rename_patch" by (simp add: device_sets_empty_def rename_patch_def)
  have d: "distinct (map dv_id [sample_row])" by simp
  have st: "map dv_status ?t2 = [''inactive'']" by code_simp
  obtain t ev x where u: "update_device toy_libs toy_cipher [] (sample_env 300 ''y'') ''dv1'' rename_patch ?t2 = (t, ev, x)"
    by (metis prod_cases3)
  from device_update_not_lost [OF d n n refl sample_renamed u] u st show ?thesis by auto
qed


theorem register_well_typed_witness:
  "\<exists>r. run_all (device_run toy_libs toy_cipher []) [Create_Device (sample_env 100 ''dv1'') sample_reader] [] = [r] \<and>
     ip_addr_ok (dv_ip r) \<and> dv_scheme r \<in> {''http'', ''https''} \<and> dv_port r \<in> {1..65535}"
proof -
  have run: "run_all (device_run toy_libs toy_cipher []) [Create_Device (sample_env 100 ''dv1'') sample_reader] [] = [sample_row]"
    by (simp add: sample_created)
  from register_well_typed [of toy_libs toy_cipher "[]" "[Create_Device (sample_env 100 ''dv1'') sample_reader]",
      unfolded run] show ?thesis by (simp only: run) simp
qed

end
