(* ===== verification/Supervisor.thy ===== *)
theory Supervisor
  imports Devices
begin

text \<open>
  The supervisor of the readers (supervisor/mod.rs, supervisor/task.rs): one task per active
  device, reconciled with the register over a channel of lifecycle events.  A handler changes the
  register and sends its event afterwards; the supervisor takes the events in order and reads the
  register again for each.  What a task streams is not modelled, only which tasks run and with
  which copy of the device.
\<close>

section \<open>The supervisor\<close>

type_synonym handles = "string \<rightharpoonup> device_with_plaintext"

text \<open>A device that has a task already is left alone.\<close>

definition spawn_device :: "device_with_plaintext \<Rightarrow> handles \<Rightarrow> handles" where
  "spawn_device dev h = (if h (dw_id dev) = None then h(dw_id dev \<mapsto> dev) else h)"

definition stop_device :: "string \<Rightarrow> handles \<Rightarrow> handles" where
  "stop_device i h = h(i := None)"

text \<open>\<open>connected\<close>: whether a connection to the database was to be had.\<close>

definition start_device :: "cipher_libs \<Rightarrow> string \<Rightarrow> bool \<Rightarrow> device_row list \<Rightarrow> string \<Rightarrow> handles \<Rightarrow> handles" where
  "start_device C key connected t i h =
     (if connected then (case get_decrypted C key t i of Inr dev \<Rightarrow> spawn_device dev h | Inl e \<Rightarrow> h) else h)"

definition handle_event ::
  "cipher_libs \<Rightarrow> string \<Rightarrow> bool \<Rightarrow> device_row list \<Rightarrow> device_lifecycle_event \<Rightarrow> handles \<Rightarrow> handles" where
  "handle_event C key connected t ev h =
     (case ev of
        Start i \<Rightarrow> start_device C key connected t i h
      | Stop i \<Rightarrow> stop_device i h
      | Restart i \<Rightarrow> start_device C key connected t i (stop_device i h))"

definition bootstrap :: "cipher_libs \<Rightarrow> string \<Rightarrow> device_row list \<Rightarrow> handles" where
  "bootstrap C key t = fold spawn_device (list_active C key t) Map.empty"

text \<open>The pause before a reconnection: \<open>jitter\<close> is what the generator drew, at most a quarter.\<close>

definition initial_backoff_ms :: nat where "initial_backoff_ms = 1000"
definition max_backoff_ms :: nat where "max_backoff_ms = 60000"

definition sleep_ms_with_jitter :: "nat \<Rightarrow> nat \<Rightarrow> nat" where
  "sleep_ms_with_jitter jitter backoff_ms =
     (let jitter_cap = backoff_ms div 4; j = (if jitter_cap = 0 then 0 else min jitter jitter_cap)
      in min 18446744073709551615 (backoff_ms + j))"

text \<open>One turn of the reconnection loop: how the stream ended, the pause, and the backoff of the
  next turn.\<close>

definition reconnect_turn :: "bool \<Rightarrow> nat \<Rightarrow> nat \<Rightarrow> nat \<times> nat" where
  "reconnect_turn graceful jitter backoff_ms =
     (let b = (if graceful then initial_backoff_ms else backoff_ms)
      in (sleep_ms_with_jitter jitter b, min (min 18446744073709551615 (b * 2)) max_backoff_ms))"

fun reconnect_pauses :: "nat \<Rightarrow> (bool \<times> nat) list \<Rightarrow> nat list" where
  "reconnect_pauses backoff_ms [] = []"
| "reconnect_pauses backoff_ms ((graceful, jitter) # turns) =
     (case reconnect_turn graceful jitter backoff_ms of
        (pause, next) \<Rightarrow> pause # reconnect_pauses next turns)"

section \<open>Handlers and supervisor together\<close>

record supervised =
  sd_devices :: "device_row list"
  sd_channel :: "device_lifecycle_event list"
  sd_handles :: handles

text \<open>A handler runs and sends its events; the supervisor takes the first event of the channel, with or
  without a connection.\<close>

datatype supervisor_event = Request device_op | Take_Event bool

fun device_events :: "auth_libs \<Rightarrow> cipher_libs \<Rightarrow> string \<Rightarrow> device_op \<Rightarrow> device_row list \<Rightarrow> device_lifecycle_event list" where
  "device_events L C key (Create_Device E req) t = (case create_device L C key E req t of (t', ev, bf, x) \<Rightarrow> ev)"
| "device_events L C key (Update_Device E i req) t = (case update_device L C key E i req t of (t', ev, x) \<Rightarrow> ev)"
| "device_events L C key (Deactivate_Device E i) t = (case deactivate_device E i t of (t', ev, x) \<Rightarrow> ev)"
| "device_events L C key op t = []"

fun supervisor_step :: "auth_libs \<Rightarrow> cipher_libs \<Rightarrow> string \<Rightarrow> supervisor_event \<Rightarrow> supervised \<Rightarrow> supervised option" where
  "supervisor_step L C key (Request op) s =
     Some (s\<lparr>sd_devices := fst (device_run L C key op (sd_devices s)),
             sd_channel := sd_channel s @ device_events L C key op (sd_devices s)\<rparr>)"
| "supervisor_step L C key (Take_Event connected) s =
     (case sd_channel s of
        [] \<Rightarrow> None
      | ev # rest \<Rightarrow> Some (s\<lparr>sd_channel := rest,
          sd_handles := handle_event C key connected (sd_devices s) ev (sd_handles s)\<rparr>))"

text \<open>The task a device should have, and when two copies of a device reach the same reader in the
  same way.\<close>

definition expected :: "cipher_libs \<Rightarrow> string \<Rightarrow> device_row list \<Rightarrow> string \<Rightarrow> device_with_plaintext option" where
  "expected C key t i = (case get_decrypted C key t i of Inr d \<Rightarrow> Some d | Inl e \<Rightarrow> None)"

definition same_connection :: "device_with_plaintext \<Rightarrow> device_with_plaintext \<Rightarrow> bool" where
  "same_connection a b \<longleftrightarrow> dw_id a = dw_id b \<and> dw_base_url a = dw_base_url b \<and> dw_username a = dw_username b \<and>
     dw_password a = dw_password b \<and> dw_allow_insecure_tls a = dw_allow_insecure_tls b \<and>
     dw_ingest_mode a = dw_ingest_mode b \<and> dw_push_token a = dw_push_token b"

fun device_of :: "device_lifecycle_event \<Rightarrow> string" where
  "device_of (Start i) = i" | "device_of (Stop i) = i" | "device_of (Restart i) = i"

definition pending :: "string \<Rightarrow> device_lifecycle_event list \<Rightarrow> device_lifecycle_event list" where
  "pending i q = filter (\<lambda>ev. device_of ev = i) q"

text \<open>The task of a device agrees with the register, or the last event on its way will make it agree.\<close>

definition task_ok :: "cipher_libs \<Rightarrow> string \<Rightarrow> supervised \<Rightarrow> string \<Rightarrow> bool" where
  "task_ok C key s i \<longleftrightarrow>
     (case pending i (sd_channel s) of
        [] \<Rightarrow> rel_option same_connection (sd_handles s i) (expected C key (sd_devices s) i)
      | ev # evs \<Rightarrow>
          last (ev # evs) = Restart i \<or>
          last (ev # evs) = Stop i \<and> expected C key (sd_devices s) i = None \<or>
          ev # evs = [Start i] \<and> sd_handles s i = None) \<and>
     (i \<notin> dv_id ` set (sd_devices s) \<longrightarrow> pending i (sd_channel s) = [] \<and> sd_handles s i = None)"

definition supervised_ok :: "cipher_libs \<Rightarrow> string \<Rightarrow> supervised \<Rightarrow> bool" where
  "supervised_ok C key s \<longleftrightarrow> distinct (map dv_id (sd_devices s)) \<and> (\<forall>i. task_ok C key s i)"

lemma same_connection_equiv [simp]: "same_connection a a"
  by (simp add: same_connection_def)

lemma same_connection_trans: "same_connection a b \<Longrightarrow> same_connection b c \<Longrightarrow> same_connection a c"
  by (simp add: same_connection_def)

lemma rel_connection_trans:
  "rel_option same_connection x y \<Longrightarrow> rel_option same_connection y z \<Longrightarrow> rel_option same_connection x z"
  by (cases x; cases y; cases z) (auto intro: same_connection_trans)

lemma pending_simps [simp]: "pending i [] = []" "pending i (q @ q') = pending i q @ pending i q'"
  "pending i (ev # q) = (if device_of ev = i then ev # pending i q else pending i q)"
  by (simp_all add: pending_def)

lemma expected_id: "expected C key t i = Some d \<Longrightarrow> dw_id d = i \<and> i \<in> dv_id ` set t"
  by (auto simp: expected_def get_decrypted_def plaintext_device_def dest!: find_Some_in split: option.splits sum.splits)

definition task_of :: "cipher_libs \<Rightarrow> string \<Rightarrow> device_row \<Rightarrow> device_with_plaintext option" where
  "task_of C key r =
     (if dv_status r = ''active'' then
        (case decrypt_password C key (dv_encrypted_password r) of Inr pw \<Rightarrow> Some (plaintext_device r pw) | Inl m \<Rightarrow> None)
      else None)"

lemma expected_find:
  assumes "distinct (map dv_id t)"
  shows "expected C key t i = Option.bind (find (\<lambda>r. dv_id r = i) t) (task_of C key)"
proof (cases "find (\<lambda>r. dv_id r = i) t")
  case None
  then have "find (\<lambda>r. dv_id r = i \<and> dv_status r = ''active'') t = None" by (auto simp: find_None_iff)
  then show ?thesis using None by (simp add: expected_def get_decrypted_def)
next
  case (Some r)
  then have r: "r \<in> set t" "dv_id r = i" by (auto dest: find_Some_in)
  show ?thesis
  proof (cases "dv_status r = ''active''")
    case True
    then have "find (\<lambda>q. dv_id q = i \<and> dv_status q = ''active'') t = Some r"
      using find_distinct2 [OF assms r(1), of "\<lambda>q. dv_status q = ''active''"] r(2) by simp
    then show ?thesis using Some True by (auto simp: expected_def get_decrypted_def task_of_def split: sum.splits)
  next
    case False
    then have "find (\<lambda>q. dv_id q = i \<and> dv_status q = ''active'') t = None"
      using same_key [OF assms r(1)] r(2) by (auto simp: find_None_iff) metis
    then show ?thesis using Some False by (simp add: expected_def get_decrypted_def task_of_def)
  qed
qed

text \<open>What a row means for its task does not change with the columns no task has a copy of.\<close>

lemma task_of_cong:
  assumes "dv_id r' = dv_id r" "dv_ip r' = dv_ip r" "dv_port r' = dv_port r" "dv_scheme r' = dv_scheme r"
    "dv_username r' = dv_username r" "dv_encrypted_password r' = dv_encrypted_password r"
    "dv_allow_insecure_tls r' = dv_allow_insecure_tls r" "dv_status r' = dv_status r"
    "dv_ingest_mode r' = dv_ingest_mode r" "dv_push_token r' = dv_push_token r"
  shows "rel_option same_connection (task_of C key r) (task_of C key r')"
  using assms by (simp add: task_of_def plaintext_device_def same_connection_def split: sum.splits)

lemma expected_update:
  assumes "distinct (map dv_id t)" "\<And>r. dv_id (f r) = dv_id r"
  shows "expected C key (update_where P f t) i =
    Option.bind (find (\<lambda>r. dv_id r = i) t) (\<lambda>r. task_of C key (if P r then f r else r))"
proof -
  have "distinct (map dv_id (update_where P f t))" using assms by (simp add: map_update_where)
  then show ?thesis
    using find_update_key [of dv_id f i P t] assms(2) by (cases "find (\<lambda>r. dv_id r = i) t") (auto simp: expected_find)
qed

text \<open>How one operation changes what a device should have, and what it sends.\<close>

definition effect_ok :: "cipher_libs \<Rightarrow> string \<Rightarrow> device_row list \<Rightarrow> device_row list \<Rightarrow> device_lifecycle_event list \<Rightarrow> string \<Rightarrow> bool" where
  "effect_ok C key t t' evs i \<longleftrightarrow>
     pending i evs = [] \<and> rel_option same_connection (expected C key t i) (expected C key t' i) \<and>
       (i \<in> dv_id ` set t' \<longleftrightarrow> i \<in> dv_id ` set t) \<or>
     i \<in> dv_id ` set t' \<and> (pending i evs = [Restart i] \<or>
       pending i evs = [Stop i] \<and> expected C key t' i = None \<or> pending i evs = [Start i] \<and> i \<notin> dv_id ` set t)"

lemma rel_connection_refl [simp]: "rel_option same_connection x x"
  by (cases x) auto

lemma effect_same: "effect_ok C key t t [] i"
  by (simp add: effect_ok_def)

lemma effect_columns:
  assumes "distinct (map dv_id t)" "fst (checked_update wo device_violation P f t) = t'"
    and "\<And>r. dv_id (f r) = dv_id r" "\<And>r. rel_option same_connection (task_of C key r) (task_of C key (f r))"
  shows "effect_ok C key t t' [] i"
proof (cases "checked_update wo device_violation P f t")
  case (Pair t1 x)
  then show ?thesis
  proof (cases rule: checked_update_cases)
    case ran
    have "dv_id ` set t' = dv_id ` set t"
      using map_update_where [of P dv_id f t] assms(2,3) Pair ran(1) by (metis fst_conv list.set_map)
    moreover have "rel_option same_connection (expected C key t i) (expected C key t' i)"
      using assms Pair ran(1) by (cases "find (\<lambda>r. dv_id r = i) t") (auto simp: expected_update expected_find)
    ultimately show ?thesis by (simp add: effect_ok_def)
  qed (use assms(2) Pair effect_same in auto)
qed

lemma effect_create:
  assumes "distinct (map dv_id t)" "create_device L C key E req t = (t', ev, bf, x)"
  shows "effect_ok C key t t' ev i"
proof (cases "\<exists>device. x = Inr device")
  case False
  then have "ev = []" "t' = t"
    using assms(2) by (auto simp: create_device_def split: if_splits prod.splits sum.splits elim!: create_device_queued_cases)
      (metis get_device_in image_eqI in_set_conv_decomp new_device_def device_row.select_convs(1))
  then show ?thesis by (simp add: effect_same)
next
  case True
  then obtain device where q: "create_device_queued L C key E req t = (t', Inr device)" "ev = [Start (dp_id device)]"
    using assms(2) by (auto simp: create_device_def split: if_splits prod.splits sum.splits)
  from q(1) show ?thesis
  proof (cases rule: create_device_queued_cases)
    case (new enc)
    let ?r = "new_device E enc req"
    have id: "dv_id ?r = dn_uuid E" by (simp add: new_device_def)
    have d: "dn_uuid E \<notin> dv_id ` set t" "distinct (map dv_id t')" using new(1,3) id by (auto simp: device_violation_None)
    have "dp_id device = dn_uuid E"
      using new(2) by (auto simp: get_device_def row_to_device_def dest!: find_Some_in split: option.splits)
    moreover have "expected C key t' i = expected C key t i" if "i \<noteq> dn_uuid E"
    proof -
      have "find (\<lambda>r. dv_id r = i) t' = find (\<lambda>r. dv_id r = i) t" using that id by (simp add: new(1) find_snoc_other)
      then show ?thesis by (simp add: expected_find [OF assms(1)] expected_find [OF d(2)])
    qed
    ultimately show ?thesis using d(1) id by (auto simp: effect_ok_def q(2) new(1))
  qed simp
qed

lemma effect_update:
  assumes "distinct (map dv_id t)" "update_device L C key E i req t = (t', ev, x)"
  shows "effect_ok C key t t' ev j"
  using assms(2)
proof (cases rule: update_device_queue)
  case invalid
  then show ?thesis by (simp add: effect_same)
next
  case queued
  from queued(1) show ?thesis
  proof (cases rule: update_device_queued_cases)
    case same
    have "ev = []" using queued(2) same(2) by (auto simp: touches_connection_def device_sets_empty_def split: sum.splits)
    then show ?thesis using same(1) by (simp add: effect_same)
  next
    case (set enc)
    let ?P = "\<lambda>r. dv_id r = i \<and> dv_version r = uv_version req"
    let ?f = "device_sets (dn_now E) enc req"
    obtain r where r: "r \<in> set t" "dv_id r = i" "dv_version r = uv_version req" using set(8) by blast
    have ids: "dv_id ` set t' = dv_id ` set t"
      using update_where_ids [of ?P "dn_now E" enc req t] by (metis set(1) list.set_map)
    have d': "distinct (map dv_id t')" using set(3) by (simp add: device_violation_None)
    have old: "find (\<lambda>q. dv_id q = i) t = Some r" using find_distinct [OF assms(1) r(1)] r(2) by simp
    have new: "find (\<lambda>q. dv_id q = i) t' = Some (?f r)" using find_update_key [of dv_id ?f i ?P t] old r by (simp add: set(1))
    have other: "expected C key t' k = expected C key t k" if "k \<noteq> i" for k
      using find_Some_in [of "\<lambda>q. dv_id q = k" t] that
      by (cases "find (\<lambda>q. dv_id q = k) t") (auto simp: set(1) expected_update assms(1) expected_find)
    have dev: "x = Inr (row_to_device L (?f r))" using set(6) new by (simp add: get_device_def)
    show ?thesis
    proof (cases "ev = []")
      case False
      then have "ev = [Restart i]" using queued(2) dev by (auto split: if_splits)
      then show ?thesis using other r ids by (force simp: effect_ok_def)
    next
      case True
      then have "\<not> touches_connection req \<or> \<not> connection_changed (Some r) (row_to_device L (?f r)) t'"
        using queued(2) dev old by (auto split: if_splits)
      moreover have "\<not> touches_connection req \<Longrightarrow> enc = None"
        using set(5) by (auto simp: touches_connection_def encrypt_given_def split: option.splits)
      ultimately have "rel_option same_connection (task_of C key r) (task_of C key (?f r))"
        using new r(2) by (intro task_of_cong)
          (auto simp: connection_changed_def touches_connection_def row_to_device_def device_sets_def)
      then show ?thesis
        using True other ids r old new by (cases "j = i") (auto simp: effect_ok_def expected_find [OF assms(1)] expected_find [OF d'])
    qed
  qed
qed

lemma effect_deactivate:
  assumes "distinct (map dv_id t)" "deactivate_device E i t = (t', ev, x)"
  shows "effect_ok C key t t' ev j"
  using assms(2)
proof (cases rule: deactivate_device_cases)
  case same
  then show ?thesis by (simp add: effect_same)
next
  case off
  let ?P = "\<lambda>r. dv_id r = i \<and> dv_status r = ''active''"
  let ?f = "\<lambda>r. r\<lparr>dv_status := ''inactive'', dv_deleted_at := Some (dn_now E), dv_updated_at := dn_now E,
    dv_version := dv_version r + 1\<rparr>"
  have ids: "dv_id ` set t' = dv_id ` set t"
  proof -
    have "map dv_id t' = map dv_id t" unfolding off(1) by (rule map_update_where) simp
    then show ?thesis by (metis list.set_map)
  qed
  have e: "expected C key t' k = Option.bind (find (\<lambda>r. dv_id r = k) t) (\<lambda>r. task_of C key (if ?P r then ?f r else r))" for k
    unfolding off(1) by (rule expected_update) (simp_all add: assms(1))
  have "expected C key t' i = None"
    using find_Some_in [of "\<lambda>r. dv_id r = i" t] by (cases "find (\<lambda>r. dv_id r = i) t") (auto simp: e task_of_def)
  moreover have "expected C key t' k = expected C key t k" if "k \<noteq> i" for k
    using find_Some_in [of "\<lambda>r. dv_id r = k" t] that
    by (cases "find (\<lambda>r. dv_id r = k) t") (auto simp: e expected_find assms(1))
  moreover have "i \<in> dv_id ` set t'" using off(5) unfolding ids by blast
  ultimately show ?thesis using ids off(4) by (cases "j = i") (auto simp: effect_ok_def)
qed

lemma device_run_effect:
  assumes "distinct (map dv_id t)"
  shows "effect_ok C key t (fst (device_run L C key op t)) (device_events L C key op t) i"
proof (cases op)
  case (Create_Device E req)
  then show ?thesis using effect_create [OF assms] by (cases "create_device L C key E req t") auto
next
  case (Update_Device E j req)
  then show ?thesis using effect_update [OF assms] by (cases "update_device L C key E j req t") auto
next
  case (Deactivate_Device E j)
  then show ?thesis using effect_deactivate [OF assms] by (cases "deactivate_device E j t") auto
next
  case (Seen wo now j)
  then show ?thesis
    by (auto simp: touch_last_seen_def intro!: effect_columns [OF assms] task_of_cong)
next
  case (Connected wo now j st)
  then show ?thesis
    by (auto simp: update_connection_state_def intro!: effect_columns [OF assms] task_of_cong)
next
  case (Watchdog wo now)
  then show ?thesis
    by (auto simp: watchdog_run_once_def intro!: effect_columns [OF assms] task_of_cong)
qed

lemma request_ok:
  assumes "supervised_ok C key s" "supervisor_step L C key (Request op) s = Some s'"
  shows "supervised_ok C key s'"
proof -
  let ?t = "sd_devices s" and ?t' = "fst (device_run L C key op (sd_devices s))"
  let ?evs = "device_events L C key op (sd_devices s)"
  have d: "distinct (map dv_id ?t)" using assms(1) by (simp add: supervised_ok_def)
  have s': "s' = s\<lparr>sd_devices := ?t', sd_channel := sd_channel s @ ?evs\<rparr>" using assms(2) by simp
  have "task_ok C key s' i" for i
  proof -
    have ok: "task_ok C key s i" using assms(1) by (simp add: supervised_ok_def)
    from device_run_effect [OF d, of C key L op i] show ?thesis
      unfolding effect_ok_def
    proof (elim disjE conjE)
      assume "pending i ?evs = []" "rel_option same_connection (expected C key ?t i) (expected C key ?t' i)"
        "i \<in> dv_id ` set ?t' \<longleftrightarrow> i \<in> dv_id ` set ?t"
      then show ?thesis using ok by (auto simp: task_ok_def s' split: list.splits intro: rel_connection_trans)
    qed (use ok in \<open>auto simp: task_ok_def s' split: list.splits\<close>)
  qed
  then show ?thesis using devices.keys [OF d] by (simp add: supervised_ok_def s')
qed

lemma start_device_at:
  "start_device C key True t i h j = (if j = i \<and> h i = None then expected C key t i else h j)"
  by (auto simp: start_device_def expected_def spawn_device_def get_decrypted_def plaintext_device_def
      dest!: find_Some_in split: option.splits sum.splits)

lemma handle_event_at:
  "handle_event C key True t ev h j =
     (if j \<noteq> device_of ev then h j
      else case ev of Start i \<Rightarrow> (if h i = None then expected C key t i else h i) | Stop i \<Rightarrow> None | Restart i \<Rightarrow> expected C key t i)"
  by (cases ev) (auto simp: handle_event_def start_device_at stop_device_def)

lemma take_ok:
  assumes "supervised_ok C key s" "supervisor_step L C key (Take_Event True) s = Some s'"
  shows "supervised_ok C key s'"
proof -
  obtain ev rest where q: "sd_channel s = ev # rest"
    "s' = s\<lparr>sd_channel := rest, sd_handles := handle_event C key True (sd_devices s) ev (sd_handles s)\<rparr>"
    using assms(2) by (auto split: list.splits)
  have "task_ok C key s' i" for i
  proof -
    have ok: "task_ok C key s i" using assms(1) by (simp add: supervised_ok_def)
    show ?thesis
    proof (cases "i = device_of ev")
      case False
      then show ?thesis using ok by (cases "pending i rest") (auto simp: task_ok_def q handle_event_at)
    next
      case True
      then show ?thesis using ok
        by (cases ev; cases "pending i rest") (auto simp: task_ok_def q handle_event_at)
    qed
  qed
  then show ?thesis using assms(1) by (simp add: supervised_ok_def q)
qed

text \<open>Bootstrap runs every active device that was never deactivated.\<close>

lemma spawn_all_at:
  "distinct (map dw_id devs) \<Longrightarrow> fold spawn_device devs h j =
     (if h j \<noteq> None then h j else find (\<lambda>d. dw_id d = j) devs)"
proof (induction devs arbitrary: h)
  case (Cons d devs)
  then have "find (\<lambda>x. dw_id x = dw_id d) devs = None" by (auto simp: find_None_iff image_iff)
  with Cons show ?case by (auto simp: spawn_device_def)
qed auto

lemma bootstrap_at:
  assumes "distinct (map dv_id t)" "\<forall>r \<in> set t. dv_status r = ''active'' \<longrightarrow> dv_deleted_at r = None"
  shows "bootstrap C key t i = expected C key t i"
proof -
  let ?plain = "\<lambda>r. case decrypt_password C key (dv_encrypted_password r) of
     Inl m \<Rightarrow> None | Inr password \<Rightarrow> Some (plaintext_device r password)"
  define rows where "rows = sort_key dv_created_at (filter (\<lambda>r. dv_status r = ''active'' \<and> dv_deleted_at r = None) t)"
  have d: "distinct (map dv_id rows)"
    using assms(1) by (auto simp: rows_def distinct_map intro: inj_on_subset)
  have act: "List.map_filter ?plain rows = List.map_filter (task_of C key) rows"
  proof -
    have "\<forall>r \<in> set rows. ?plain r = task_of C key r" by (auto simp: rows_def task_of_def split: sum.splits)
    then show ?thesis by (induction rows) (auto simp: List.map_filter_simps split: option.splits)
  qed
  have ids: "dw_id x = dv_id r" if "task_of C key r = Some x" for r x
    using that by (auto simp: task_of_def plaintext_device_def split: if_splits sum.splits)
  have "distinct (map dw_id (List.map_filter (task_of C key) rs)) \<and>
      set (map dw_id (List.map_filter (task_of C key) rs)) \<subseteq> set (map dv_id rs) \<and>
      find (\<lambda>x. dw_id x = i) (List.map_filter (task_of C key) rs) = Option.bind (find (\<lambda>r. dv_id r = i) rs) (task_of C key)"
    if "distinct (map dv_id rs)" for rs
    using that
  proof (induction rs)
    case (Cons r rs)
    have n: "find (\<lambda>q. dv_id q = dv_id r) rs = None" using Cons.prems by (auto simp: find_None_iff image_iff)
    have "\<forall>x \<in> set (List.map_filter (task_of C key) rs). dw_id x \<noteq> dv_id r"
      using Cons by (auto simp: image_subset_iff) (metis list.set_map)
    then show ?case using Cons n
      by (cases "task_of C key r"; cases "dv_id r = i") (auto simp: List.map_filter_simps dest!: ids)
  qed (simp add: List.map_filter_simps)
  from this [OF d] have "bootstrap C key t i = Option.bind (find (\<lambda>r. dv_id r = i) rows) (task_of C key)"
    using spawn_all_at [of "List.map_filter (task_of C key) rows" Map.empty i]
    by (simp add: bootstrap_def list_active_def act rows_def [symmetric])
  also have "\<dots> = Option.bind (find (\<lambda>r. dv_id r = i) t) (task_of C key)"
  proof (cases "\<exists>r \<in> set rows. dv_id r = i")
    case True
    then obtain r where r: "r \<in> set rows" "r \<in> set t" "dv_id r = i" by (auto simp: rows_def)
    then show ?thesis using find_distinct [OF d r(1)] find_distinct [OF assms(1) r(2)] by simp
  next
    case False
    then have rows: "find (\<lambda>r. dv_id r = i) rows = None" by (auto simp: find_None_iff)
    show ?thesis
    proof (cases "find (\<lambda>r. dv_id r = i) t")
      case (Some r)
      then have "r \<in> set t" "dv_id r = i" using find_Some_in [OF Some] by auto
      with False assms(2) have "task_of C key r = None" unfolding rows_def task_of_def by auto
      then show ?thesis using Some rows by simp
    qed (simp add: rows)
  qed
  also have "\<dots> = expected C key t i" by (simp add: expected_find [OF assms(1)])
  finally show ?thesis .
qed

interpretation supervisor: stepper "\<lambda>e s. if e = Take_Event False then None else supervisor_step L C key e s" "supervised_ok C key"
  for L C key
proof unfold_locales
  fix s e s' assume "supervised_ok C key s" "(if e = Take_Event False then None else supervisor_step L C key e s) = Some s'"
  then show "supervised_ok C key s'"
    by (cases e) (auto simp del: supervisor_step.simps split: if_splits intro: request_ok take_ok)
qed

lemma run_steps_guard:
  "run_steps step es s = Some s' \<Longrightarrow> bad \<notin> set es \<Longrightarrow> run_steps (\<lambda>e s. if e = bad then None else step e s) es s = Some s'"
  by (induction es arbitrary: s) (auto split: option.splits)



text \<open>The pauses between reconnections stay between one second and seventy-five, and a graceful end
  brings the pause back to at most a second and a quarter.\<close>

lemma reconnect_turn_bounds:
  assumes "1000 \<le> b" "b \<le> 60000"
  shows "case reconnect_turn graceful jitter b of (pause, next) \<Rightarrow>
    1000 \<le> pause \<and> pause \<le> 75000 \<and> (graceful \<longrightarrow> pause \<le> 1250) \<and> 1000 \<le> next \<and> next \<le> 60000"
proof -
  have q: "k div 4 \<le> 15000" if "k \<le> 60000" for k :: nat using that by simp
  show ?thesis
    using assms q [OF assms(2)]
    by (auto simp: reconnect_turn_def sleep_ms_with_jitter_def initial_backoff_ms_def max_backoff_ms_def Let_def)
qed

lemma reconnect_pauses_bounded:
  "1000 \<le> b \<Longrightarrow> b \<le> 60000 \<Longrightarrow> \<forall>p \<in> set (reconnect_pauses b turns). 1000 \<le> p \<and> p \<le> 75000"
proof (induction turns arbitrary: b)
  case (Cons turn turns)
  obtain graceful jitter where "turn = (graceful, jitter)" by fastforce
  with Cons reconnect_turn_bounds [OF Cons.prems, of graceful jitter] show ?case
    by (cases "reconnect_turn graceful jitter b") auto
qed simp

section \<open>Examples\<close>

definition empty_register :: supervised where
  "empty_register = \<lparr>sd_devices = [], sd_channel = [], sd_handles = bootstrap toy_cipher [] []\<rparr>"

definition created_first :: "supervisor_event list" where
  "created_first = [Request (Create_Device (sample_env 100 ''dv1'') sample_reader), Take_Event True]"


text \<open>A change of the direction alone sends nothing, and the task keeps the direction it started with: what
  the reader reports without a direction of its own goes on being stored under the old one.\<close>

lemma direction_change_is_not_applied:
  "case run_steps (supervisor_step toy_libs toy_cipher []) (created_first @
       [Request (Update_Device (sample_env 200 ''x'') ''dv1'' ((no_change 1)\<lparr>uv_direction := Some ''exit''\<rparr>))]) empty_register of
     None \<Rightarrow> False
   | Some s \<Rightarrow> sd_channel s = [] \<and> map dv_direction (sd_devices s) = [''exit''] \<and>
       map_option dw_direction (sd_handles s ''dv1'') = Some ''entry''"
  by code_simp

text \<open>A device that was deactivated and activated again has a task until the next boot, and none after it:
  the reactivation leaves the date of the deactivation, and the boot leaves such devices out.\<close>

lemma reactivated_device_is_not_booted:
  "case run_steps (supervisor_step toy_libs toy_cipher []) (created_first @
       [Request (Deactivate_Device (sample_env 200 ''x'') ''dv1''), Take_Event True,
        Request (Update_Device (sample_env 300 ''y'') ''dv1'' ((no_change 2)\<lparr>uv_status := Some ''active''\<rparr>)), Take_Event True])
       empty_register of
     None \<Rightarrow> False
   | Some s \<Rightarrow> sd_channel s = [] \<and> map_option dw_id (sd_handles s ''dv1'') = Some ''dv1'' \<and>
       bootstrap toy_cipher [] (sd_devices s) ''dv1'' = None"
  by code_simp

end
