(* ===== verification/Date_Text.thy ===== *)
theory Date_Text
  imports Calendar "HOL-Library.List_Lexorder" "HOL-Library.Char_ord"
begin

text \<open>
  Dates as TEXT columns: SQLite compares them byte by byte, and the queries rely on
  \<open>%Y-%m-%d\<close> ordering like the calendar.  The locale \<open>date_text\<close> states what they rely on
  for a set of dates; it is interpreted on the Gregorian calendar's years 0 to 9999.
\<close>

locale date_text =
  fixes c :: chrono and plain :: "date \<Rightarrow> bool"
  assumes parse_format: "plain d \<Longrightarrow> parse_date c (format_date c d) = Some d"
    and format_le: "plain d \<Longrightarrow> plain d' \<Longrightarrow> format_date c d \<le> format_date c d' \<longleftrightarrow> d \<le> d'"
    and plain_between: "plain d \<Longrightarrow> plain d' \<Longrightarrow> d \<le> e \<Longrightarrow> e \<le> d' \<Longrightarrow> plain e"
begin

lemma format_inj: "plain d \<Longrightarrow> plain d' \<Longrightarrow> format_date c d = format_date c d' \<longleftrightarrow> d = d'"
  using parse_format by (metis option.inject)

lemma format_less: "plain d \<Longrightarrow> plain d' \<Longrightarrow> format_date c d < format_date c d' \<longleftrightarrow> d < d'"
  using format_le [of d' d] by (simp add: not_le [symmetric])

end

text \<open>A date is written in its canonical form.\<close>

definition canonical_date :: "chrono \<Rightarrow> (date \<Rightarrow> bool) \<Rightarrow> string \<Rightarrow> bool" where
  "canonical_date c plain s \<longleftrightarrow>
     (case parse_date c s of None \<Rightarrow> False | Some d \<Rightarrow> plain d \<and> format_date c d = s)"

lemma canonical_dateE:
  assumes "canonical_date c plain s"
  obtains d where "parse_date c s = Some d" "plain d" "s = format_date c d"
  using assms by (auto simp: canonical_date_def split: option.splits)

section \<open>The Gregorian instance\<close>

definition year_4 :: "date \<Rightarrow> bool" where
  "year_4 d \<longleftrightarrow> year_begin 0 \<le> d \<and> d < year_begin 10000"

lemma digit_char_range: "0 \<le> n \<Longrightarrow> n \<le> 9 \<Longrightarrow> n = 0 \<or> n = 1 \<or> n = 2 \<or> n = 3 \<or> n = 4 \<or> n = 5 \<or> n = 6 \<or> n = 7 \<or> n = 8 \<or> n = (9::int)"
  by presburger

lemma digit_digit_char [simp]: "0 \<le> n \<Longrightarrow> n \<le> 9 \<Longrightarrow> digit (digit_char n) = Some n"
  by (drule (1) digit_char_range) (auto simp: digit_char_def Let_def)

lemma digit_char_less: "0 \<le> a \<Longrightarrow> a \<le> 9 \<Longrightarrow> 0 \<le> b \<Longrightarrow> b \<le> 9 \<Longrightarrow> digit_char a < digit_char b \<longleftrightarrow> a < b"
  by (simp add: less_char_def digit_char_def)

lemma digit_char_eq: "0 \<le> a \<Longrightarrow> a \<le> 9 \<Longrightarrow> 0 \<le> b \<Longrightarrow> b \<le> 9 \<Longrightarrow> digit_char a = digit_char b \<longleftrightarrow> a = b"
  using digit_digit_char [of a] digit_digit_char [of b] by (metis option.inject)

lemma pad2_digits: "0 \<le> q \<Longrightarrow> q \<le> 9 \<Longrightarrow> 0 \<le> r \<Longrightarrow> r \<le> 9 \<Longrightarrow> pad2 (10 * q + r) = [digit_char q, digit_char r]"
  by (simp add: pad2_def)

lemma two_digits:
  fixes a :: int
  assumes "0 \<le> a" "a \<le> 99"
  obtains q r where "a = 10 * q + r" "0 \<le> q" "q \<le> 9" "0 \<le> r" "r \<le> 9"
  by (rule that [of "a div 10" "a mod 10"]) (use assms in auto)

lemma pad2_le:
  assumes "0 \<le> a" "a \<le> 99" "0 \<le> b" "b \<le> 99"
  shows "pad2 a @ xs \<le> pad2 b @ ys \<longleftrightarrow> a < b \<or> a = b \<and> xs \<le> ys"
proof -
  obtain q r where a: "a = 10 * q + r" "0 \<le> q" "q \<le> 9" "0 \<le> r" "r \<le> 9" by (rule two_digits [OF assms(1,2)])
  obtain q' r' where b: "b = 10 * q' + r'" "0 \<le> q'" "q' \<le> 9" "0 \<le> r'" "r' \<le> 9" by (rule two_digits [OF assms(3,4)])
  have less: "a < b \<longleftrightarrow> q < q' \<or> q = q' \<and> r < r'" using a b by linarith
  have "a div 10 = q" "a mod 10 = r" "b div 10 = q'" "b mod 10 = r'" using a b by simp_all
  then have "a = b \<Longrightarrow> q = q'" "a = b \<Longrightarrow> r = r'" by auto
  then have "a = b \<longleftrightarrow> q = q' \<and> r = r'" using a(1) b(1) by blast
  note less this
  moreover have "pad2 a @ xs \<le> pad2 b @ ys \<longleftrightarrow> q < q' \<or> q = q' \<and> (r < r' \<or> r = r' \<and> xs \<le> ys)"
    using a b by (simp add: pad2_digits digit_char_less digit_char_eq)
  ultimately show ?thesis by blast
qed

lemma pad2_mod: "pad2 (y mod 100) = pad2 y"
proof -
  have "y mod 100 = 10 * (y div 10 mod 10) + y mod 10"
    using mod_mult2_eq' [of y 10 10] by simp
  then have "y mod 100 div 10 mod 10 = y div 10 mod 10" "y mod 100 mod 10 = y mod 10" by simp_all
  then show ?thesis by (simp add: pad2_def)
qed

lemma digits_pad2:
  assumes "0 \<le> a" "a \<le> 99"
  shows "digits_val acc (pad2 a @ xs) = digits_val (100 * acc + a) xs"
proof -
  obtain q r where a: "a = 10 * q + r" "0 \<le> q" "q \<le> 9" "0 \<le> r" "r \<le> 9" by (rule two_digits [OF assms])
  have "pad2 a = [digit_char q, digit_char r]" unfolding a(1) by (rule pad2_digits) (use a in auto)
  then show ?thesis using a by (simp add: algebra_simps del: digit.simps)
qed

lemma length_pad2 [simp]: "length (pad2 a) = 2" by (simp add: pad2_def)

text \<open>The parts of a date whose year has four digits.\<close>

lemma year_4_parts:
  assumes "year_4 d" "greg_ymd d = (y, m, k)"
  shows "0 \<le> y" "y \<le> 9999" "1 \<le> m" "m \<le> 12" "1 \<le> k" "k \<le> 31"
    "greg_format_date d = pad2 (y div 100) @ pad2 (y mod 100) @ ''-'' @ pad2 (int m) @ ''-'' @ pad2 (int k)"
proof -
  note p = greg_ymd_parts [OF assms(2)]
  note br = year_of_bracket [of d]
  have "year_begin 0 < year_begin (y + 1)" "year_begin y < year_begin 10000"
    using br assms(1) p(1) by (auto simp: year_4_def)
  then have "\<not> y + 1 \<le> 0" "\<not> 10000 \<le> y" using year_begin_mono linorder_not_less by blast+
  then show "0 \<le> y" "y \<le> 9999" by auto
  show "1 \<le> m" "m \<le> 12" "1 \<le> k" using p by auto
  show "k \<le> 31" using p(6) month_length [OF p(2,3), of "leap y"] by simp
  show "greg_format_date d = pad2 (y div 100) @ pad2 (y mod 100) @ ''-'' @ pad2 (int m) @ ''-'' @ pad2 (int k)"
    by (simp add: greg_format_date_def assms(2) pad2_mod)
qed

lemma greg_of_ymd_ymd: "greg_ymd d = (y, m, k) \<Longrightarrow> 0 \<le> y \<Longrightarrow> y \<le> 9999 \<Longrightarrow> greg_of_ymd y m k = Some d"
  using greg_ymd_parts [of d y m k] by (simp add: greg_of_ymd_def)

lemma greg_parse_format: "year_4 d \<Longrightarrow> greg_parse_date (greg_format_date d) = Some d"
proof -
  assume d: "year_4 d"
  obtain y m k where e: "greg_ymd d = (y, m, k)" by (rule prod_cases3)
  note p = year_4_parts [OF d e]
  obtain h l where y: "y = 100 * h + l" "0 \<le> h" "h \<le> 99" "0 \<le> l" "l \<le> 99"
    by (rule that [of "y div 100" "y mod 100"]) (use p in auto)
  have "y div 100 = h" "y mod 100 = l" using y by auto
  then have f: "greg_format_date d = pad2 h @ pad2 l @ ''-'' @ pad2 (int m) @ ''-'' @ pad2 (int k)"
    using p(7) by simp
  have dv: "digits_val 0 (pad2 h @ pad2 l) = Some y" "digits_val 0 (pad2 (int m)) = Some (int m)"
    "digits_val 0 (pad2 (int k)) = Some (int k)"
    using digits_pad2 [of h 0 "pad2 l"] digits_pad2 [of l "h" "[]"] digits_pad2 [of "int m" 0 "[]"]
      digits_pad2 [of "int k" 0 "[]"] y p by simp_all
  have split: "take 4 (greg_format_date d) = pad2 h @ pad2 l" "take 2 (drop 5 (greg_format_date d)) = pad2 (int m)"
    "drop 8 (greg_format_date d) = pad2 (int k)" "length (greg_format_date d) = 10"
    "greg_format_date d ! 4 = CHR ''-''" "greg_format_date d ! 7 = CHR ''-''"
    by (simp_all add: f pad2_def)
  show ?thesis using greg_of_ymd_ymd [OF e p(1,2)] by (simp add: greg_parse_date_def split dv)
qed

lemma ymd_less:
  assumes "greg_ymd d = (y, m, k)" "greg_ymd d' = (y', m', k')"
    and "y < y' \<or> y = y' \<and> (m < m' \<or> m = m' \<and> k < k')"
  shows "d < d'"
proof -
  note p = greg_ymd_parts [OF assms(1)] and q = greg_ymd_parts [OF assms(2)]
  have mono: "month_begin l (i + 1) \<le> month_begin l j" if "1 \<le> i" "i < j" "j \<le> 12" for l i j
    using Suc_leI [OF that(2)] that(3)
  proof (induction j rule: dec_induct)
    case base
    then show ?case by simp
  next
    case (step n)
    then show ?case using month_length [of n l] that(1) by simp
  qed
  show ?thesis
  proof (cases "y < y'")
    case True
    then have "year_begin (y + 1) \<le> year_begin y'" by (intro year_begin_mono) simp
    then show ?thesis using year_of_bracket [of d] year_of_bracket [of d'] p(1) q(1) by simp
  next
    case False
    then have y: "y = y'" "m < m' \<or> m = m' \<and> k < k'" using assms(3) by auto
    have d': "d' = year_begin y + month_begin (leap y) m' + int k' - 1" using q(5) y(1) by simp
    show ?thesis
    proof (cases "m < m'")
      case True
      have "month_begin (leap y) (m + 1) \<le> month_begin (leap y) m'" by (rule mono [OF p(2) True q(3)])
      then show ?thesis using p(5,6) q(4) d' by linarith
    next
      case False
      then have "m = m'" "k < k'" using y(2) by auto
      then show ?thesis using p(5) d' by simp
    qed
  qed
qed

lemma greg_format_le:
  assumes "year_4 d" "year_4 d'"
  shows "greg_format_date d \<le> greg_format_date d' \<longleftrightarrow> d \<le> d'"
proof -
  obtain y m k where e: "greg_ymd d = (y, m, k)" by (rule prod_cases3)
  obtain y' m' k' where e': "greg_ymd d' = (y', m', k')" by (rule prod_cases3)
  note p = year_4_parts [OF assms(1) e] and q = year_4_parts [OF assms(2) e']
  have "greg_format_date d \<le> greg_format_date d' \<longleftrightarrow>
      y div 100 < y' div 100 \<or> y div 100 = y' div 100 \<and> (y mod 100 < y' mod 100 \<or> y mod 100 = y' mod 100 \<and>
        (m < m' \<or> m = m' \<and> (k < k' \<or> k = k')))"
  proof -
    have b: "0 \<le> y div 100" "y div 100 \<le> 99" "0 \<le> y' div 100" "y' div 100 \<le> 99"
      "0 \<le> y mod 100" "y mod 100 \<le> 99" "0 \<le> y' mod 100" "y' mod 100 \<le> 99"
      "0 \<le> int m" "int m \<le> 99" "0 \<le> int m'" "int m' \<le> 99"
      "0 \<le> int k" "int k \<le> 99" "0 \<le> int k'" "int k' \<le> 99"
      using p(1-6) q(1-6) by (simp_all add: pos_imp_zdiv_nonneg_iff)
    have dash: "''-'' @ xs \<le> ''-'' @ ys \<longleftrightarrow> xs \<le> ys" for xs ys by simp
    have last: "pad2 (int k) \<le> pad2 (int k') \<longleftrightarrow> k < k' \<or> k = k'"
      using pad2_le [OF b(13-16), of "[]" "[]"] by simp
    show ?thesis unfolding p(7) q(7) pad2_le [OF b(1-4)] pad2_le [OF b(5-8)] dash pad2_le [OF b(9-12)] last
      by simp
  qed
  also have "\<dots> \<longleftrightarrow> y < y' \<or> y = y' \<and> (m < m' \<or> m = m' \<and> (k < k' \<or> k = k'))"
  proof -
    have b: "y = 100 * (y div 100) + y mod 100" "y' = 100 * (y' div 100) + y' mod 100"
      "0 \<le> y mod 100" "y mod 100 < 100" "0 \<le> y' mod 100" "y' mod 100 < 100" by simp_all
    have "y div 100 < y' div 100 \<or> y div 100 = y' div 100 \<and> y mod 100 < y' mod 100 \<longleftrightarrow> y < y'"
      using b by linarith
    moreover have "y div 100 = y' div 100 \<and> y mod 100 = y' mod 100 \<longleftrightarrow> y = y'" using b by metis
    ultimately show ?thesis by blast
  qed
  also have "\<dots> \<longleftrightarrow> d \<le> d'"
    using ymd_less [OF e e'] ymd_less [OF e' e] e e' greg_of_ymd_ymd [OF e p(1,2)] greg_of_ymd_ymd [OF e' q(1,2)]
    by (metis linorder_neqE_nat linorder_neqE_linordered_idom not_le order.strict_implies_order order_refl option.inject)
  finally show ?thesis .
qed

interpretation greg_text: date_text gregorian year_4
  by unfold_locales (auto simp: greg_parse_format greg_format_le, auto simp: year_4_def)

end
