(* ===== verification/Recompute.thy ===== *)
theory Recompute
  imports Calendar Transitions
begin

text \<open>
  The recompute worker (recompute/worker.rs): producers publish requests on an unbounded
  channel, one worker turns them into single-day recomputations.  What a day's
  recomputation does is Daily\_Records; here it is an entry of \<open>rw_done\<close>.
  \<open>rw_published\<close> is history: each published unit with how many recomputations had been done
  by then.  The nightly task's timer (recompute/nightly.rs) is at the end.
\<close>

section \<open>Requests\<close>

datatype recompute_request = Day string date | Range string date date

definition range_chunk_days :: nat where
  "range_chunk_days = 32"

definition receive_burst_limit :: nat where
  "receive_burst_limit = 64"

text \<open>The loop of \<open>process_chunk\<close>: the days it recomputes and where it stopped.\<close>

fun chunk_loop :: "chrono \<Rightarrow> nat \<Rightarrow> date \<Rightarrow> date \<Rightarrow> date list \<times> date option" where
  "chunk_loop c 0 d to = ([], Some d)"
| "chunk_loop c (Suc n) d to =
     (if to \<le> d then ([d], None)
      else case date_add c d 1 of
        None \<Rightarrow> ([d], None)
      | Some next \<Rightarrow> (case chunk_loop c n next to of (ds, k) \<Rightarrow> (d # ds, k)))"

fun process_chunk ::
  "chrono \<Rightarrow> recompute_request \<Rightarrow> (string \<times> date) list \<times> recompute_request option" where
  "process_chunk c (Day e d) = ([(e, d)], None)"
| "process_chunk c (Range e from to) =
     (case chunk_loop c range_chunk_days from to of
        (ds, k) \<Rightarrow> (map (Pair e) ds, map_option (\<lambda>d. Range e d to) k))"

section \<open>The worker\<close>

datatype worker_phase = Top | Chunk recompute_request | Burst | Exited

record recompute_worker =
  rw_rx :: "recompute_request list"
  rw_ready :: "recompute_request list"
  rw_pending :: "(string \<times> date) set"
  rw_draining :: bool
  rw_cancelled :: bool
  rw_phase :: worker_phase
  rw_done :: "(string \<times> date) list"
  rw_published :: "(nat \<times> string \<times> date) list"

definition new_worker :: recompute_worker where
  "new_worker = \<lparr>rw_rx = [], rw_ready = [], rw_pending = {}, rw_draining = False,
     rw_cancelled = False, rw_phase = Top, rw_done = [], rw_published = []\<rparr>"

text \<open>A day already waiting is not queued again.\<close>

fun enqueue ::
  "recompute_request \<Rightarrow> recompute_request list \<times> (string \<times> date) set \<Rightarrow> recompute_request list \<times> (string \<times> date) set" where
  "enqueue (Day e d) (ready, pending) =
     (if (e, d) \<in> pending then (ready, pending) else (ready @ [Day e d], insert (e, d) pending))"
| "enqueue (Range e from to) (ready, pending) = (ready @ [Range e from to], pending)"

text \<open>\<open>drain_receiver\<close>: at most \<open>limit\<close> requests move from the channel to the local queue.\<close>

definition drain_receiver :: "nat \<Rightarrow> recompute_worker \<Rightarrow> recompute_worker" where
  "drain_receiver limit w =
     (case fold enqueue (take limit (rw_rx w)) (rw_ready w, rw_pending w) of
        (ready, pending) \<Rightarrow> w\<lparr>rw_rx := drop limit (rw_rx w), rw_ready := ready, rw_pending := pending\<rparr>)"

fun unpend :: "recompute_request \<Rightarrow> (string \<times> date) set \<Rightarrow> (string \<times> date) set" where
  "unpend (Day e d) pending = pending - {(e, d)}"
| "unpend (Range e from to) pending = pending"

text \<open>One turn of the loop of \<open>run\<close>, between two points where it awaits; \<open>None\<close>: it is blocked.\<close>

definition worker_turn :: "chrono \<Rightarrow> recompute_worker \<Rightarrow> recompute_worker option" where
  "worker_turn c w =
     (let draining = rw_draining w \<or> rw_cancelled w in
      case rw_phase w of
        Top \<Rightarrow>
          (case rw_ready w of
             r # rest \<Rightarrow> Some (w\<lparr>rw_draining := draining, rw_ready := rest,
               rw_pending := unpend r (rw_pending w), rw_phase := Chunk r\<rparr>)
           | [] \<Rightarrow>
             if draining then
               (let w' = drain_receiver receive_burst_limit (w\<lparr>rw_draining := True\<rparr>)
                in Some (w'\<lparr>rw_phase := (if rw_ready w' = [] then Exited else Top)\<rparr>))
             else (case rw_rx w of
               [] \<Rightarrow> None
             | r # rest \<Rightarrow>
               (case enqueue r (rw_ready w, rw_pending w) of (ready, pending) \<Rightarrow>
                  Some (w\<lparr>rw_rx := rest, rw_ready := ready, rw_pending := pending, rw_phase := Burst\<rparr>))))
      | Chunk r \<Rightarrow>
          (case process_chunk c r of (units, continuation) \<Rightarrow>
             let w' = drain_receiver receive_burst_limit (w\<lparr>rw_done := rw_done w @ units\<rparr>)
             in Some (w'\<lparr>rw_ready := rw_ready w' @ (case continuation of None \<Rightarrow> [] | Some k \<Rightarrow> [k]),
                        rw_phase := Top\<rparr>))
      | Burst \<Rightarrow> Some (drain_receiver receive_burst_limit (w\<lparr>rw_draining := draining, rw_phase := Top\<rparr>))
      | Exited \<Rightarrow> None)"

text \<open>The single days a request stands for.\<close>

fun units_of :: "recompute_request \<Rightarrow> (string \<times> date) list" where
  "units_of (Day e d) = [(e, d)]"
| "units_of (Range e from to) = map (Pair e) [from..max from to]"

datatype recompute_event = Publish recompute_request | Cancel | Work | Hangup

text \<open>A request's dates are calendar dates; the channel is closed only when nobody publishes.\<close>

fun request_ok :: "chrono \<Rightarrow> recompute_request \<Rightarrow> bool" where
  "request_ok c (Day e d) \<longleftrightarrow> date_ok c d"
| "request_ok c (Range e from to) \<longleftrightarrow> date_ok c from \<and> date_ok c to"

fun recompute_step :: "chrono \<Rightarrow> recompute_event \<Rightarrow> recompute_worker \<Rightarrow> recompute_worker option" where
  "recompute_step c (Publish r) w =
     (if rw_phase w = Exited \<or> \<not> request_ok c r then None
      else Some (w\<lparr>rw_rx := rw_rx w @ [r],
             rw_published := rw_published w @ map (Pair (length (rw_done w))) (units_of r)\<rparr>))"
| "recompute_step c Cancel w = Some (w\<lparr>rw_cancelled := True\<rparr>)"
| "recompute_step c Work w = worker_turn c w"
| "recompute_step c Hangup w =
     (if rw_phase w = Top \<and> rw_ready w = [] \<and> rw_rx w = [] \<and> \<not> rw_draining w \<and> \<not> rw_cancelled w
      then Some (w\<lparr>rw_phase := Exited\<rparr>) else None)"

section \<open>No published day is lost\<close>

definition units :: "recompute_request list \<Rightarrow> (string \<times> date) set" where
  "units rs = (\<Union>r \<in> set rs. set (units_of r))"

definition days_in :: "recompute_request list \<Rightarrow> (string \<times> date) set" where
  "days_in rs = {(e, d). Day e d \<in> set rs}"

fun in_hand :: "worker_phase \<Rightarrow> recompute_request list" where
  "in_hand (Chunk r) = [r]"
| "in_hand p = []"

definition outstanding :: "recompute_worker \<Rightarrow> recompute_request list" where
  "outstanding w = in_hand (rw_phase w) @ rw_ready w @ rw_rx w"

lemma units_simps [simp]:
  "units [] = {}" "units (r # rs) = set (units_of r) \<union> units rs" "units (rs @ qs) = units rs \<union> units qs"
  by (auto simp: units_def)

lemma days_in_simps [simp]:
  "days_in [] = {}" "days_in (rs @ qs) = days_in rs \<union> days_in qs"
  "days_in (Day e d # rs) = insert (e, d) (days_in rs)" "days_in (Range e a b # rs) = days_in rs"
  by (auto simp: days_in_def)

fun is_day :: "recompute_request \<Rightarrow> bool" where
  "is_day (Day e d) = True"
| "is_day (Range e from to) = False"

definition days_once :: "recompute_request list \<Rightarrow> bool" where
  "days_once rs \<longleftrightarrow> distinct (filter is_day rs)"

lemma days_in_units: "days_in rs \<subseteq> units rs"
  by (force simp: days_in_def units_def)

lemma enqueue_units:
  assumes "enqueue r (ready, pending) = (ready', pending')" "pending = days_in ready"
  shows "pending' = days_in ready' \<and> (days_once ready \<longrightarrow> days_once ready') \<and>
    units ready' = units ready \<union> set (units_of r) \<and>
    set ready' \<subseteq> set ready \<union> {r} \<and> ready' \<noteq> []"
proof (cases r)
  case (Day e d)
  show ?thesis
  proof (cases "(e, d) \<in> pending")
    case True
    then have "(e, d) \<in> units ready" using assms(2) days_in_units by blast
    moreover have "ready \<noteq> []" using True assms(2) by auto
    moreover have "ready' = ready" "pending' = pending" using assms(1) True by (simp_all add: Day)
    ultimately show ?thesis using assms(2) by (auto simp: Day)
  next
    case False
    then have "ready' = ready @ [Day e d]" "pending' = insert (e, d) pending"
      using assms(1) by (simp_all add: Day)
    then show ?thesis using assms(2) False by (auto simp: Day days_in_def days_once_def)
  qed
qed (use assms in \<open>auto simp: days_once_def\<close>)

lemma fold_enqueue:
  assumes "fold enqueue rs (ready, pending) = (ready', pending')" "pending = days_in ready"
  shows "pending' = days_in ready' \<and> (days_once ready \<longrightarrow> days_once ready') \<and>
    units ready' = units ready \<union> units rs \<and>
    set ready' \<subseteq> set ready \<union> set rs \<and> (ready' = [] \<longleftrightarrow> ready = [] \<and> rs = [])"
  using assms
proof (induction rs arbitrary: ready pending)
  case Nil
  from Nil(1) have "ready' = ready" "pending' = pending" by simp_all
  then show ?case using Nil(2) by simp
next
  case (Cons r rs)
  obtain ready1 pending1 where e: "enqueue r (ready, pending) = (ready1, pending1)" by (rule prod.exhaust)
  note e1 = enqueue_units [OF e Cons.prems(2)]
  show ?case using Cons.IH [of ready1 pending1] Cons.prems(1) e e1 by auto
qed

lemma drain_receiver_ok:
  assumes "rw_pending w = days_in (rw_ready w)" "w' = drain_receiver n w"
  shows "rw_pending w' = days_in (rw_ready w')" "days_once (rw_ready w) \<Longrightarrow> days_once (rw_ready w')"
    "units (rw_ready w') \<union> units (rw_rx w') = units (rw_ready w) \<union> units (rw_rx w)"
    "set (rw_ready w') \<union> set (rw_rx w') \<subseteq> set (rw_ready w) \<union> set (rw_rx w)"
    "0 < n \<Longrightarrow> rw_ready w' = [] \<Longrightarrow> rw_ready w = [] \<and> rw_rx w = [] \<and> rw_rx w' = []"
    "rw_done w' = rw_done w" "rw_published w' = rw_published w" "rw_phase w' = rw_phase w"
    "rw_cancelled w' = rw_cancelled w" "rw_draining w' = rw_draining w"
proof -
  obtain ready pending where f: "fold enqueue (take n (rw_rx w)) (rw_ready w, rw_pending w) = (ready, pending)"
    by (rule prod.exhaust)
  have w': "w' = w\<lparr>rw_rx := drop n (rw_rx w), rw_ready := ready, rw_pending := pending\<rparr>"
    using assms(2) by (simp add: drain_receiver_def f)
  note ff = fold_enqueue [OF f assms(1)]
  have split: "units (take n (rw_rx w)) \<union> units (drop n (rw_rx w)) = units (rw_rx w)"
    "set (take n (rw_rx w)) \<union> set (drop n (rw_rx w)) = set (rw_rx w)"
    by (metis append_take_drop_id units_simps(3), metis append_take_drop_id set_append)
  show "rw_pending w' = days_in (rw_ready w')" using ff by (simp add: w')
  show "days_once (rw_ready w) \<Longrightarrow> days_once (rw_ready w')" using ff by (simp add: w')
  show "units (rw_ready w') \<union> units (rw_rx w') = units (rw_ready w) \<union> units (rw_rx w)"
    using ff split(1) by (auto simp: w')
  show "set (rw_ready w') \<union> set (rw_rx w') \<subseteq> set (rw_ready w) \<union> set (rw_rx w)"
    using ff split(2) by (auto simp: w')
  show "0 < n \<Longrightarrow> rw_ready w' = [] \<Longrightarrow> rw_ready w = [] \<and> rw_rx w = [] \<and> rw_rx w' = []"
    using ff by (auto simp: w')
qed (simp_all add: assms(2) drain_receiver_def split: prod.split)

lemma chunk_loop_units:
  assumes "chunk_loop c n d to = (ds, k)" "date_ok c d" "date_ok c to" "d \<le> to \<or> 0 < n"
  shows "(case k of None \<Rightarrow> ds = [d..max d to]
    | Some j \<Rightarrow> d \<le> j \<and> j \<le> to \<and> ds = [d..j - 1] \<and> date_ok c j \<and> length ds = n)"
  using assms
proof (induction c n d to arbitrary: ds k rule: chunk_loop.induct)
  case (1 c d to)
  then show ?case by auto
next
  case (2 c n d to)
  show ?case
  proof (cases "to \<le> d")
    case True
    then show ?thesis using 2 by (auto simp: max_def)
  next
    case False
    then have ok: "date_add c d 1 = Some (d + 1)" "date_ok c (d + 1)"
      using 2(3,4) by (auto simp: date_add_def date_ok_def)
    obtain ds' where r: "chunk_loop c n (d + 1) to = (ds', k)" "ds = d # ds'"
      using 2(2) False ok by (auto split: prod.splits)
    have "case k of None \<Rightarrow> ds' = [d + 1..max (d + 1) to]
      | Some j \<Rightarrow> d + 1 \<le> j \<and> j \<le> to \<and> ds' = [d + 1..j - 1] \<and> date_ok c j \<and> length ds' = n"
      using 2(1) [OF False ok(1) r(1) ok(2) 2(4)] False by auto
    then show ?thesis using False r(2) by (auto split: option.splits simp: upto_rec1 max_def)
  qed
qed

lemma process_chunk_units:
  assumes "process_chunk c r = (us, k)" "request_ok c r"
  shows "units_of r = us @ (case k of None \<Rightarrow> [] | Some q \<Rightarrow> units_of q)" "us \<noteq> []"
    "length us \<le> range_chunk_days" "k = Some q \<Longrightarrow> request_ok c q \<and> (\<exists>e a b. q = Range e a b)"
proof -
  have all: "units_of r = us @ (case k of None \<Rightarrow> [] | Some q \<Rightarrow> units_of q) \<and> us \<noteq> [] \<and>
    length us \<le> range_chunk_days \<and> (\<forall>q. k = Some q \<longrightarrow> request_ok c q \<and> (\<exists>e a b. q = Range e a b))"
  proof (cases r)
    case (Day e d)
    then show ?thesis using assms by (auto simp: range_chunk_days_def)
  next
    case (Range e a b)
    obtain ds j where l: "chunk_loop c range_chunk_days a b = (ds, j)" by (rule prod.exhaust)
    have len: "length ds \<le> n" if "chunk_loop c n d t = (ds, j)" for n d t ds j
      using that by (induction c n d t arbitrary: ds j rule: chunk_loop.induct)
        (auto split: if_splits option.splits prod.splits)
    have u: "case j of None \<Rightarrow> ds = [a..max a b]
      | Some i \<Rightarrow> a \<le> i \<and> i \<le> b \<and> ds = [a..i - 1] \<and> date_ok c i \<and> length ds = range_chunk_days"
      using chunk_loop_units [OF l] assms(2) by (simp add: Range range_chunk_days_def)
    have us: "us = map (Pair e) ds" "k = map_option (\<lambda>d. Range e d b) j"
      using assms(1) by (simp_all add: Range l)
    show ?thesis
    proof (cases j)
      case None
      then show ?thesis using u us len [OF l] Range by auto
    next
      case (Some i)
      have "[a..b] = [a..i - 1] @ [i..b]" using u Some by (intro upto_split1) auto
      moreover have "ds \<noteq> []" using u Some by (auto simp: range_chunk_days_def)
      ultimately show ?thesis using u us len [OF l] Range Some assms(2) by (auto simp: max_def)
    qed
  qed
  show "units_of r = us @ (case k of None \<Rightarrow> [] | Some q \<Rightarrow> units_of q)" "us \<noteq> []"
    "length us \<le> range_chunk_days" "k = Some q \<Longrightarrow> request_ok c q \<and> (\<exists>e a b. q = Range e a b)"
    using all by blast+
qed

text \<open>The invariant: what was published has been recomputed since, or is still outstanding.\<close>

definition recompute_ok :: "chrono \<Rightarrow> recompute_worker \<Rightarrow> bool" where
  "recompute_ok c w \<longleftrightarrow> (\<forall>r \<in> set (outstanding w). request_ok c r)
     \<and> rw_pending w = days_in (rw_ready w) \<and> days_once (rw_ready w)
     \<and> (\<forall>(n, u) \<in> set (rw_published w). n \<le> length (rw_done w) \<and>
          (u \<in> set (drop n (rw_done w)) \<or> u \<in> units (outstanding w)))
     \<and> (rw_phase w = Exited \<longrightarrow> outstanding w = [])"

lemma recompute_okI:
  assumes "recompute_ok c w" "rw_published w' = rw_published w"
    and "set (outstanding w') \<subseteq> {r. request_ok c r}" "rw_pending w' = days_in (rw_ready w')"
    and "days_once (rw_ready w')" and "rw_done w' = rw_done w @ us" "units (outstanding w) \<subseteq> set us \<union> units (outstanding w')"
    and "rw_phase w' = Exited \<Longrightarrow> outstanding w' = []"
  shows "recompute_ok c w'"
proof -
  have "n \<le> length (rw_done w') \<and> (u \<in> set (drop n (rw_done w')) \<or> u \<in> units (outstanding w'))"
    if "(n, u) \<in> set (rw_published w)" for n u
  proof -
    have "n \<le> length (rw_done w)" "u \<in> set (drop n (rw_done w)) \<or> u \<in> units (outstanding w)"
      using that assms(1) by (auto simp: recompute_ok_def)
    then show ?thesis using assms(6,7) by auto
  qed
  then show ?thesis using assms unfolding recompute_ok_def by auto
qed

lemma outstanding_ok: "recompute_ok c w \<Longrightarrow> set (outstanding w) \<subseteq> {r. request_ok c r}"
  by (auto simp: recompute_ok_def)

lemma unpend_days:
  assumes "pending = days_in (r # rest)" "days_once (r # rest)"
  shows "unpend r pending = days_in rest" "days_once rest"
  using assms by (cases r; auto simp: days_in_def days_once_def)+

lemma worker_turn_ok:
  assumes ok: "recompute_ok c w" and turn: "worker_turn c w = Some w'"
  shows "recompute_ok c w'"
proof -
  note days = ok [unfolded recompute_ok_def, THEN conjunct2, THEN conjunct1]
    ok [unfolded recompute_ok_def, THEN conjunct2, THEN conjunct2, THEN conjunct1]
  note out = outstanding_ok [OF ok]
  show ?thesis
  proof (cases "rw_phase w")
    case Top
    show ?thesis
    proof (cases "rw_ready w")
      case (Cons r rest)
      then have w': "w' = w\<lparr>rw_draining := rw_draining w \<or> rw_cancelled w, rw_ready := rest,
          rw_pending := unpend r (rw_pending w), rw_phase := Chunk r\<rparr>"
        using turn Top by (simp add: worker_turn_def)
      show ?thesis
        by (rule recompute_okI [OF ok, where us = "[]"])
          (use out days unpend_days [of "rw_pending w" r rest] in
            \<open>auto simp: w' outstanding_def Top Cons\<close>)
    next
      case Nil
      show ?thesis
      proof (cases "rw_draining w \<or> rw_cancelled w")
        case True
        define v where "v = drain_receiver receive_burst_limit (w\<lparr>rw_draining := True\<rparr>)"
        have w': "w' = v\<lparr>rw_phase := (if rw_ready v = [] then Exited else Top)\<rparr>"
          using turn Top Nil True by (simp add: worker_turn_def Let_def v_def)
        note v = drain_receiver_ok [OF _ v_def, simplified, OF days(1)]
        show ?thesis
          by (rule recompute_okI [OF ok, where us = "[]"])
            (use out days v in \<open>auto simp: w' outstanding_def Top Nil receive_burst_limit_def split: if_splits\<close>)
      next
        case False
        then obtain r rest where rx: "rw_rx w = r # rest"
          using turn Top Nil by (auto simp: worker_turn_def split: list.splits)
        obtain ready pending where e: "enqueue r ([], rw_pending w) = (ready, pending)" by (rule prod.exhaust)
        have w': "w' = w\<lparr>rw_rx := rest, rw_ready := ready, rw_pending := pending, rw_phase := Burst\<rparr>"
          using turn Top Nil False rx e by (simp add: worker_turn_def)
        note e' = enqueue_units [OF e]
        show ?thesis
          by (rule recompute_okI [OF ok, where us = "[]"])
            (use out days e' in \<open>auto simp: w' outstanding_def Top Nil rx\<close>)
      qed
    qed
  next
    case (Chunk r)
    obtain us k where p: "process_chunk c r = (us, k)" by (rule prod.exhaust)
    define v where "v = drain_receiver receive_burst_limit (w\<lparr>rw_done := rw_done w @ us\<rparr>)"
    have w': "w' = v\<lparr>rw_ready := rw_ready v @ (case k of None \<Rightarrow> [] | Some q \<Rightarrow> [q]), rw_phase := Top\<rparr>"
      using turn Chunk p by (simp add: worker_turn_def Let_def v_def)
    note v = drain_receiver_ok [OF _ v_def, simplified, OF days(1)]
    have "request_ok c r" using out by (simp add: outstanding_def Chunk)
    note pc = process_chunk_units [OF p this]
    show ?thesis
      by (rule recompute_okI [OF ok, where us = us])
        (use out days v pc in \<open>auto simp: w' outstanding_def Chunk days_once_def split: option.splits\<close>)
  next
    case Burst
    define v where "v = drain_receiver receive_burst_limit (w\<lparr>rw_draining := rw_draining w \<or> rw_cancelled w, rw_phase := Top\<rparr>)"
    have w': "w' = v" using turn Burst by (simp add: worker_turn_def v_def)
    note v = drain_receiver_ok [OF _ v_def, simplified, OF days(1)]
    show ?thesis
      by (rule recompute_okI [OF ok, where us = "[]"])
        (use out days v in \<open>auto simp: w' outstanding_def Burst\<close>)
  qed (use turn in \<open>simp add: worker_turn_def\<close>)
qed

lemma recompute_step_ok: "recompute_ok c w \<Longrightarrow> recompute_step c e w = Some w' \<Longrightarrow> recompute_ok c w'"
proof (cases e)
  case (Publish r)
  assume ok: "recompute_ok c w" and st: "recompute_step c e w = Some w'"
  then have w': "w' = w\<lparr>rw_rx := rw_rx w @ [r],
      rw_published := rw_published w @ map (Pair (length (rw_done w))) (units_of r)\<rparr>"
    and r: "request_ok c r" "rw_phase w \<noteq> Exited"
    by (auto simp: Publish split: if_splits)
  have "recompute_ok c (w\<lparr>rw_rx := rw_rx w @ [r]\<rparr>)"
    by (rule recompute_okI [OF ok, where us = "[]"])
      (use ok outstanding_ok [OF ok] r in \<open>auto simp: recompute_ok_def outstanding_def\<close>)
  then show ?thesis using r
    by (auto simp: recompute_ok_def w' outstanding_def)
next
  case Cancel
  then show "recompute_ok c w \<Longrightarrow> recompute_step c e w = Some w' \<Longrightarrow> recompute_ok c w'"
    by (auto simp: recompute_ok_def outstanding_def)
next
  case Work
  then show "recompute_ok c w \<Longrightarrow> recompute_step c e w = Some w' \<Longrightarrow> recompute_ok c w'"
    using worker_turn_ok by simp
next
  case Hangup
  then show "recompute_ok c w \<Longrightarrow> recompute_step c e w = Some w' \<Longrightarrow> recompute_ok c w'"
    by (auto simp: recompute_ok_def outstanding_def split: if_splits)
qed

interpretation recompute: stepper "recompute_step c" "recompute_ok c" for c
  by unfold_locales (rule recompute_step_ok)

lemma new_worker_ok: "recompute_ok c new_worker"
  by (simp add: recompute_ok_def new_worker_def outstanding_def days_once_def)

section \<open>The worker finishes\<close>

definition load :: "recompute_request list \<Rightarrow> nat" where
  "load rs = (\<Sum>r \<leftarrow> rs. length (units_of r))"

lemma load_simps [simp]:
  "load [] = 0" "load (r # rs) = length (units_of r) + load rs" "load (rs @ qs) = load rs + load qs"
  by (simp_all add: load_def)

lemma fold_enqueue_load: "fold enqueue rs (ready, pending) = (ready', pending') \<Longrightarrow> load ready' \<le> load ready + load rs"
proof (induction rs arbitrary: ready pending)
  case (Cons r rs)
  obtain ready1 pending1 where e: "enqueue r (ready, pending) = (ready1, pending1)" by (rule prod.exhaust)
  then have "load ready1 \<le> load ready + length (units_of r)" by (cases r) (auto split: if_splits)
  then show ?case using Cons.IH [of ready1 pending1] Cons.prems e by simp
qed simp

lemma drain_receiver_load:
  "load (rw_ready (drain_receiver n w)) + load (rw_rx (drain_receiver n w)) \<le> load (rw_ready w) + load (rw_rx w)"
proof -
  obtain ready pending where f: "fold enqueue (take n (rw_rx w)) (rw_ready w, rw_pending w) = (ready, pending)"
    by (rule prod.exhaust)
  have "load (take n (rw_rx w)) + load (drop n (rw_rx w)) = load (rw_rx w)"
    by (metis append_take_drop_id load_simps(3))
  then show ?thesis using fold_enqueue_load [OF f] by (simp add: drain_receiver_def f)
qed

definition phase_rank :: "recompute_worker \<Rightarrow> nat" where
  "phase_rank w = (case rw_phase w of Exited \<Rightarrow> 0 | Chunk r \<Rightarrow> 1 | Top \<Rightarrow> (if rw_ready w = [] then 3 else 2) | Burst \<Rightarrow> 4)"

definition remaining :: "recompute_worker \<Rightarrow> nat" where
  "remaining w = 5 * load (outstanding w) + phase_rank w"

lemma worker_turn_progress:
  assumes ok: "recompute_ok c w" and "rw_cancelled w" "rw_phase w \<noteq> Exited"
  shows "\<exists>w'. worker_turn c w = Some w' \<and> remaining w' < remaining w \<and> rw_cancelled w'"
proof (cases "rw_phase w")
  case Top
  show ?thesis
  proof (cases "rw_ready w")
    case (Cons r rest)
    then show ?thesis using Top assms(2)
      by (simp add: worker_turn_def remaining_def phase_rank_def outstanding_def)
  next
    case Nil
    define v where "v = drain_receiver receive_burst_limit (w\<lparr>rw_draining := True\<rparr>)"
    have "rw_phase v = Top" "rw_cancelled v"
      using Top assms(2) by (simp_all add: v_def drain_receiver_def split: prod.split)
    then show ?thesis using Top Nil assms(2) drain_receiver_load [of receive_burst_limit "w\<lparr>rw_draining := True\<rparr>"]
      by (simp add: worker_turn_def remaining_def phase_rank_def outstanding_def Let_def v_def [symmetric])
  qed
next
  case (Chunk r)
  obtain us k where p: "process_chunk c r = (us, k)" by (rule prod.exhaust)
  define v where "v = drain_receiver receive_burst_limit (w\<lparr>rw_done := rw_done w @ us\<rparr>)"
  have "request_ok c r" using outstanding_ok [OF ok] by (simp add: outstanding_def Chunk)
  note pc = process_chunk_units(1,2) [OF p this]
  have "length (units_of r) = length us + (case k of None \<Rightarrow> 0 | Some q \<Rightarrow> length (units_of q))"
    using pc by (auto split: option.splits)
  moreover obtain m where "length us = Suc m" using pc(2) by (cases us) auto
  moreover have "rw_cancelled v" using assms(2) by (simp add: v_def drain_receiver_def split: prod.split)
  ultimately show ?thesis
    using Chunk p drain_receiver_load [of receive_burst_limit "w\<lparr>rw_done := rw_done w @ us\<rparr>"]
    by (auto simp: worker_turn_def remaining_def phase_rank_def outstanding_def Let_def v_def [symmetric]
        split: option.splits)
next
  case Burst
  define v where "v = drain_receiver receive_burst_limit (w\<lparr>rw_draining := rw_draining w \<or> rw_cancelled w, rw_phase := Top\<rparr>)"
  have "rw_phase v = Top" "rw_cancelled v"
    using assms(2) by (simp_all add: v_def drain_receiver_def split: prod.split)
  then show ?thesis using Burst
      drain_receiver_load [of receive_burst_limit "w\<lparr>rw_draining := rw_draining w \<or> rw_cancelled w, rw_phase := Top\<rparr>"]
    by (simp add: worker_turn_def remaining_def phase_rank_def outstanding_def v_def [symmetric])
qed (use assms in simp)

lemma worker_runs_out:
  assumes "recompute_ok c w" "rw_cancelled w"
  shows "\<exists>k w'. k \<le> remaining w \<and> run_steps (recompute_step c) (replicate k Work) w = Some w' \<and> rw_phase w' = Exited
    \<and> rw_published w' = rw_published w"
  using assms
proof (induction "remaining w" arbitrary: w rule: less_induct)
  case less
  show ?case
  proof (cases "rw_phase w = Exited")
    case True
    then show ?thesis by (intro exI [of _ 0] exI [of _ w]) simp
  next
    case False
    then obtain v where v: "worker_turn c w = Some v" "remaining v < remaining w" "rw_cancelled v"
      using worker_turn_progress less.prems by blast
    obtain k w' where k: "k \<le> remaining v" "run_steps (recompute_step c) (replicate k Work) v = Some w'"
        "rw_phase w' = Exited" "rw_published w' = rw_published v"
      using less.hyps [OF v(2) worker_turn_ok [OF less.prems(1) v(1)] v(3)] by blast
    have "rw_published v = rw_published w" using v(1)
      by (auto simp: worker_turn_def Let_def drain_receiver_def split: worker_phase.splits list.splits if_splits prod.splits)
    then show ?thesis using k v by (intro exI [of _ "Suc k"] exI [of _ w']) simp
  qed
qed



text \<open>A leave of 37 days, a day inside it published while the range is being split, a repetition of that
  day, and the shutdown.\<close>

definition sample_events :: "recompute_event list" where
  "sample_events = [Publish (Range ''e1'' 20564 20600), Work, Work, Work, Publish (Day ''e1'' 20570), Work,
     Publish (Day ''e1'' 20570), Cancel]"

definition sample_worker :: recompute_worker where
  "sample_worker = the (run_steps (recompute_step gregorian) sample_events new_worker)"

lemma sample_worker_run: "run_steps (recompute_step gregorian) sample_events new_worker = Some sample_worker"
proof -
  have "run_steps (recompute_step gregorian) sample_events new_worker \<noteq> None"
    unfolding option.disc_eq_case(1) by code_simp
  then show ?thesis by (auto simp: sample_worker_def)
qed

lemma sample_worker_state:
  "(0, ''e1'', 20600) \<in> set (rw_published sample_worker)" "rw_cancelled sample_worker"
  "(''e1'', 20600) \<notin> set (rw_done sample_worker)" "rw_ready sample_worker = [Day ''e1'' 20570, Range ''e1'' 20596 20600]"
  by code_simp+



section \<open>Shutdown and the nightly timer\<close>

text \<open>
  \<open>shutdown_after_producers\<close>: flush, cancel the recompute worker and join it, close the
  queue, join its worker; nothing is skipped when a step fails, and the first error is
  the one reported.
\<close>

datatype shutdown_stage = FlushQueue | JoinRecompute | CloseQueue | JoinWriter

fun shutdown_after_producers ::
  "('e + unit) \<Rightarrow> ('e + unit) \<Rightarrow> ('e + unit) \<Rightarrow> ('e + unit) \<Rightarrow> (shutdown_stage \<times> 'e) + unit" where
  "shutdown_after_producers (Inl e) r c w = Inl (FlushQueue, e)"
| "shutdown_after_producers (Inr u) (Inl e) c w = Inl (JoinRecompute, e)"
| "shutdown_after_producers (Inr u) (Inr v) (Inl e) w = Inl (CloseQueue, e)"
| "shutdown_after_producers (Inr u) (Inr v) (Inr x) (Inl e) = Inl (JoinWriter, e)"
| "shutdown_after_producers (Inr u) (Inr v) (Inr x) (Inr y) = Inr ()"

lemma shutdown_ok_iff:
  "shutdown_after_producers f r c w = Inr () \<longleftrightarrow> f = Inr () \<and> r = Inr () \<and> c = Inr () \<and> w = Inr ()"
  by (cases "(f, r, c, w)" rule: shutdown_after_producers.cases) auto

text \<open>
  \<open>seconds_until_next_2am\<close>, with the clock in nanoseconds since the epoch; \<open>None\<close> is the
  panic of the \<open>expect\<close>.
\<close>

definition two_am :: "tzinfo \<Rightarrow> date \<Rightarrow> i64 option" where
  "two_am tz d = (case from_local tz (d * 86400 + 7200) of Single e \<Rightarrow> Some e | _ \<Rightarrow> None)"

definition seconds_until_next_2am :: "tzinfo \<Rightarrow> int \<Rightarrow> i64 option" where
  "seconds_until_next_2am tz now_ns = do {
     let today = local_date tz (now_ns div 1000000000);
     target \<leftarrow> (case two_am tz today of
         Some dt \<Rightarrow> if dt * 1000000000 > now_ns then Some dt else two_am tz (today + 1)
       | None \<Rightarrow> two_am tz (today + 1));
     Some (max ((target * 1000000000 - now_ns) sdiv 1000000000) 1)
   }"

lemma fixed_zone_2am:
  "two_am (fixed_zone off) d = Some (d * 86400 + 7200 - off)" "local_date (fixed_zone off) e = (e + off) div 86400"
  by (simp_all add: two_am_def fixed_zone_def)

lemma seconds_until_fixed:
  assumes "0 \<le> f" "f < 1000000000"
  shows "\<exists>k. seconds_until_next_2am (fixed_zone off) (t * 1000000000 + f) = Some (max ((k * 1000000000 - f) sdiv 1000000000) 1)
    \<and> 0 < k \<and> k \<le> 86400 \<and> (t + k + off) mod 86400 = 7200"
proof -
  define D where "D = (t + off) div 86400"
  define r where "r = (t + off) mod 86400"
  have t: "t = D * 86400 + r - off" "0 \<le> r" "r < 86400" by (auto simp: D_def r_def)
  have now: "(t * 1000000000 + f) div 1000000000 = t" using assms by simp
  define k where "k = (if r < 7200 then 7200 - r else 93600 - r)"
  have late: "(D * 86400 + 7200 - off) * 1000000000 > t * 1000000000 + f \<longleftrightarrow> r < 7200"
    using assms t by (auto simp: algebra_simps)
  have target: "(case two_am (fixed_zone off) D of
      Some dt \<Rightarrow> if dt * 1000000000 > t * 1000000000 + f then Some dt else two_am (fixed_zone off) (D + 1)
    | None \<Rightarrow> two_am (fixed_zone off) (D + 1)) = Some (t + k)"
    unfolding fixed_zone_2am option.case late k_def using t(1) by (simp add: algebra_simps)
  have "seconds_until_next_2am (fixed_zone off) (t * 1000000000 + f) =
    Some (max (((t + k) * 1000000000 - (t * 1000000000 + f)) sdiv 1000000000) 1)"
    unfolding seconds_until_next_2am_def Let_def fixed_zone_2am(2) now D_def [symmetric] target by simp
  then have "seconds_until_next_2am (fixed_zone off) (t * 1000000000 + f) =
    Some (max ((k * 1000000000 - f) sdiv 1000000000) 1)"
    by (simp add: algebra_simps)
  moreover have "0 < k" "k \<le> 86400" using t by (auto simp: k_def)
  moreover have "(t + k + off) mod 86400 = 7200"
  proof -
    have "t + k + off = 7200 + (if r < 7200 then D else D + 1) * 86400" using t by (simp add: k_def)
    then show ?thesis by (simp only: mod_mult_self1) simp
  qed
  ultimately show ?thesis by blast
qed

text \<open>In a zone without changes of offset the timer waits at most a day, and when it is set on a
  whole second it wakes up at 02:00 exactly.\<close>

lemma next_2am_whole_second:
  "\<exists>s. seconds_until_next_2am (fixed_zone off) (t * 1000000000) = Some s \<and> 1 \<le> s \<and> s \<le> 86400 \<and>
     (t + s + off) mod 86400 = 7200"
proof -
  obtain k where k: "seconds_until_next_2am (fixed_zone off) (t * 1000000000) = Some (max ((k * 1000000000) sdiv 1000000000) 1)"
    "0 < k" "k \<le> 86400" "(t + k + off) mod 86400 = 7200"
    using seconds_until_fixed [of 0 off t] by auto
  have "(k * 1000000000) sdiv 1000000000 = k" using k(2) by (simp add: sdiv_nonneg_eq_div)
  then show ?thesis using k by simp
qed

text \<open>Set within a second it wakes up before 02:00, by less than a second, and then waits one second
  and wakes up again: the pass runs twice in that night.\<close>

lemma day_clock:
  fixes x j :: int
  shows "x mod 86400 = 7200 \<Longrightarrow> (x - 1) mod 86400 = 7199"
    and "x mod 86400 = 7199 \<Longrightarrow> 0 < j \<Longrightarrow> j \<le> 86400 \<Longrightarrow> (x + j) mod 86400 = 7200 \<Longrightarrow> j = 1"
proof -
  show "x mod 86400 = 7200 \<Longrightarrow> (x - 1) mod 86400 = 7199" by (subst mod_diff_eq [symmetric]) simp
  assume a: "x mod 86400 = 7199" "0 < j" "j \<le> 86400" "(x + j) mod 86400 = 7200"
  have "(x + j - x) mod 86400 = 1" by (subst mod_diff_eq [symmetric]) (simp only: a, simp)
  then have "j mod 86400 = 1" by simp
  then show "j = 1" using a(2,3) by (cases "j = 86400") simp_all
qed

lemma nightly_runs_twice:
  assumes "0 < f" "f < 1000000000" "(t + off) mod 86400 \<noteq> 7199"
  shows "\<exists>s. seconds_until_next_2am (fixed_zone off) (t * 1000000000 + f) = Some s \<and>
    (t + s + off) mod 86400 = 7199 \<and>
    seconds_until_next_2am (fixed_zone off) ((t + s) * 1000000000 + f) = Some 1 \<and>
    (t + s + 1 + off) mod 86400 = 7200"
proof -
  have early: "(k * 1000000000 - f) sdiv 1000000000 = k - 1" if "0 < k" for k
  proof -
    have "k * 1000000000 - f = (1000000000 - f) + (k - 1) * 1000000000" by simp
    then have "(k * 1000000000 - f) div 1000000000 = k - 1" using assms by simp
    moreover have "0 \<le> k * 1000000000 - f" using assms that by simp
    ultimately show ?thesis by (simp add: sdiv_nonneg_eq_div)
  qed
  obtain k where k: "seconds_until_next_2am (fixed_zone off) (t * 1000000000 + f) = Some (max (k - 1) 1)"
    "0 < k" "k \<le> 86400" "(t + k + off) mod 86400 = 7200"
    using seconds_until_fixed [of f off t] assms early by auto
  have m: "(t + (k - 1) + off) mod 86400 = 7199"
    using day_clock(1) [OF k(4)] by (simp add: algebra_simps)
  then have "k \<noteq> 1" using assms(3) by auto
  then have s: "max (k - 1) 1 = k - 1" using k(2) by simp
  obtain j where j: "seconds_until_next_2am (fixed_zone off) ((t + (k - 1)) * 1000000000 + f) = Some (max (j - 1) 1)"
    "0 < j" "j \<le> 86400" "(t + (k - 1) + j + off) mod 86400 = 7200"
    using seconds_until_fixed [of f off "t + (k - 1)"] assms early by auto
  have "(t + (k - 1) + off + j) mod 86400 = 7200" using j(4) by (simp add: algebra_simps)
  then have "j = 1" using day_clock(2) [OF m j(2,3)] by simp
  then show ?thesis using k m j s by (intro exI [of _ "k - 1"]) simp
qed

end
