(* ===== verification/Leaves.thy ===== *)
theory Leaves
  imports Schema Date_Text Recompute Auth Calc_Models
begin

text \<open>
  Leaves (leaves/service.rs, handlers.rs, models.rs): creation with its overlap check,
  cancellation, the reads and the overlay query of the engine.  A write is one transaction
  of the queue, so its outcome is the \<open>write_outcome\<close> of the call; what it does after the
  commit (keep the evidence file, publish a recompute request) is returned beside the
  table.
\<close>

section \<open>Requests and responses\<close>

record create_leave_request =
  rq_employee_id :: string
  rq_from_date :: string
  rq_to_date :: string
  rq_leave_type :: string
  rq_justification :: string

record leave_response =
  lr_id :: string
  lr_employee_id :: string
  lr_from_date :: string
  lr_to_date :: string
  lr_leave_type :: string
  lr_justification :: string
  lr_evidence_path :: "string option"
  lr_created_by :: string
  lr_cancelled_by :: "string option"
  lr_status :: string
  lr_deleted_at :: "string option"
  lr_version :: i64
  lr_created_at :: string
  lr_updated_at :: string

record leave_list_query =
  lq_limit :: "i64 option"
  lq_offset :: "i64 option"
  lq_employee_id :: "string option"
  lq_leave_type :: "string option"
  lq_status :: "string option"
  lq_from_date :: "string option"
  lq_to_date :: "string option"

definition row_to_leave :: "auth_libs \<Rightarrow> leave_table_row \<Rightarrow> leave_response" where
  "row_to_leave L r = \<lparr>lr_id = le_id r, lr_employee_id = le_employee_id r, lr_from_date = le_from_date r,
     lr_to_date = le_to_date r, lr_leave_type = le_type r, lr_justification = le_justification r,
     lr_evidence_path = le_evidence_path r, lr_created_by = le_created_by r,
     lr_cancelled_by = le_cancelled_by r, lr_status = le_status r,
     lr_deleted_at = map_option (epoch_to_iso L) (le_deleted_at r), lr_version = le_version r,
     lr_created_at = epoch_to_iso L (le_created_at r), lr_updated_at = epoch_to_iso L (le_updated_at r)\<rparr>"

section \<open>Creation\<close>

definition validation_error :: "string \<Rightarrow> app_error" where
  "validation_error m = Validation ''VALIDATION_ERROR'' m"

definition max_leave_days :: i64 where
  "max_leave_days = 366"

definition leave_types :: "string list" where
  "leave_types = [''medical'', ''vacation'', ''unpaid'', ''manual'']"

text \<open>The checks before the transaction, with the parsed dates.\<close>

definition validate_leave ::
  "chrono \<Rightarrow> create_leave_request \<Rightarrow> string option \<Rightarrow> (date \<times> date) result" where
  "validate_leave c req evidence_relpath =
     (if rq_leave_type req \<notin> set leave_types then
        Inl (validation_error ''leave_type must be one of: medical, vacation, unpaid, manual'')
      else if rq_leave_type req = ''medical'' \<and> evidence_relpath = None then
        Inl (validation_error ''Medical leave requires evidence file upload'')
      else case parse_date c (rq_from_date req) of
        None \<Rightarrow> Inl (validation_error ''from_date must be YYYY-MM-DD'')
      | Some from \<Rightarrow> (case parse_date c (rq_to_date req) of
          None \<Rightarrow> Inl (validation_error ''to_date must be YYYY-MM-DD'')
        | Some to \<Rightarrow>
            if from > to then Inl (validation_error ''from_date must be <= to_date'')
            else if to - from + 1 > max_leave_days then
              Inl (validation_error ''Leave range cannot exceed 366 days'')
            else Inr (from, to)))"

text \<open>The overlap query compares TEXT dates.\<close>

definition leave_overlaps :: "string \<Rightarrow> string \<Rightarrow> string \<Rightarrow> leave_table_row \<Rightarrow> bool" where
  "leave_overlaps employee_id to_text from_text r \<longleftrightarrow>
     le_employee_id r = employee_id \<and> le_status r = ''active'' \<and> le_deleted_at r = None \<and>
     le_from_date r \<le> to_text \<and> from_text \<le> le_to_date r"

definition overlap_error :: "create_leave_request \<Rightarrow> app_error" where
  "overlap_error req = LeaveConflict ''LEAVE_OVERLAP''
     (''Employee '' @ rq_employee_id req @ '' has an overlapping active leave in range ''
      @ rq_from_date req @ '' to '' @ rq_to_date req)"

definition new_leave :: "create_leave_request \<Rightarrow> string \<Rightarrow> string option \<Rightarrow> string \<Rightarrow> i64 \<Rightarrow> leave_table_row" where
  "new_leave req i evidence_relpath actor_id now =
     \<lparr>le_id = i, le_employee_id = rq_employee_id req, le_from_date = rq_from_date req,
      le_to_date = rq_to_date req, le_type = rq_leave_type req, le_status = ''active'',
      le_deleted_at = None, le_justification = rq_justification req,
      le_evidence_path = evidence_relpath, le_created_by = actor_id, le_cancelled_by = None,
      le_version = 1, le_created_at = now, le_updated_at = now\<rparr>"

text \<open>The constraints of the insert: the primary key and the foreign keys (the writer's connection
  enforces them).\<close>

definition leave_violates :: "string list \<Rightarrow> string list \<Rightarrow> leave_table_row \<Rightarrow> leave_table_row list \<Rightarrow> string option" where
  "leave_violates employees users r t =
     (if le_id r \<in> set (map le_id t) then Some ''UNIQUE constraint failed: leaves.id''
      else if le_employee_id r \<notin> set employees \<or> le_created_by r \<notin> set users
      then Some ''FOREIGN KEY constraint failed'' else None)"

record leave_effect =
  ef_evidence_kept :: bool
  ef_published :: "recompute_request list"

definition no_effect :: leave_effect where
  "no_effect = \<lparr>ef_evidence_kept = False, ef_published = []\<rparr>"

definition create_leave ::
  "chrono \<Rightarrow> auth_libs \<Rightarrow> write_outcome \<Rightarrow> i64 \<Rightarrow> string \<Rightarrow> string list \<Rightarrow> string list \<Rightarrow> leave_table_row list
    \<Rightarrow> string \<Rightarrow> create_leave_request \<Rightarrow> string option
    \<Rightarrow> leave_table_row list \<times> leave_effect \<times> leave_response result" where
  "create_leave c L wo now i employees users leaves actor_id req evidence_relpath =
     (case validate_leave c req evidence_relpath of
        Inl e \<Rightarrow> (leaves, no_effect, Inl e)
      | Inr (from, to) \<Rightarrow>
        (case wo of
           NotRun e \<Rightarrow> (leaves, no_effect, Inl (from_db_write e))
         | Ran \<Rightarrow>
           if rows_affected (leave_overlaps (rq_employee_id req) (format_date c to) (format_date c from)) leaves > 0
           then (leaves, no_effect, Inl (overlap_error req))
           else (case run_insert Ran (leave_violates employees users (new_leave req i evidence_relpath actor_id now))
                   (new_leave req i evidence_relpath actor_id now) leaves of
               (leaves', Inl e) \<Rightarrow> (leaves', no_effect, Inl (from_db_write e))
             | (leaves', Inr n) \<Rightarrow>
                 (leaves', \<lparr>ef_evidence_kept = True, ef_published = [Range (rq_employee_id req) from to]\<rparr>,
                  Inr (row_to_leave L (new_leave req i evidence_relpath actor_id now))))))"

section \<open>Reads\<close>

definition leave_not_found :: "string \<Rightarrow> app_error" where
  "leave_not_found i = NotFound ''LEAVE_NOT_FOUND'' (''Leave '' @ quoted i @ '' not found'')"

definition get_leave_by_id :: "auth_libs \<Rightarrow> leave_table_row list \<Rightarrow> string \<Rightarrow> leave_response result" where
  "get_leave_by_id L leaves i =
     (case find (\<lambda>r. le_id r = i) leaves of
        None \<Rightarrow> Inl (leave_not_found i) | Some r \<Rightarrow> Inr (row_to_leave L r))"

text \<open>The \<open>LEFT JOIN\<close> on the employee: no row, or one row whose department may be NULL.\<close>

definition department_of_leave :: "employee_row list \<Rightarrow> leave_table_row list \<Rightarrow> string \<Rightarrow> string option" where
  "department_of_leave employees leaves i =
     (case find (\<lambda>r. le_id r = i) leaves of
        None \<Rightarrow> None
      | Some r \<Rightarrow> map_option em_department_id (find (\<lambda>e. em_id e = le_employee_id r) employees))"

definition in_department :: "employee_row list \<Rightarrow> string \<Rightarrow> string \<Rightarrow> bool" where
  "in_department employees dept i \<longleftrightarrow> (\<exists>e \<in> set employees. em_id e = i \<and> em_department_id e = dept)"

definition leave_matches :: "employee_row list \<Rightarrow> leave_list_query \<Rightarrow> actor_scope \<Rightarrow> leave_table_row \<Rightarrow> bool" where
  "leave_matches employees q scope r \<longleftrightarrow>
     le_status r = (case lq_status q of None \<Rightarrow> ''active'' | Some s \<Rightarrow> s) \<and>
     none_or (\<lambda>dept. in_department employees dept (le_employee_id r)) (scope_department_id scope) \<and>
     none_or (\<lambda>e. le_employee_id r = e) (lq_employee_id q) \<and>
     none_or (\<lambda>t. le_type r = t) (lq_leave_type q) \<and>
     none_or (\<lambda>from. le_to_date r \<ge> from) (lq_from_date q) \<and>
     none_or (\<lambda>to. le_from_date r \<le> to) (lq_to_date q)"

text \<open>\<open>ORDER BY from_date DESC, id ASC\<close>: by id, then stably by date from the last.\<close>

definition order_leaves :: "leave_table_row list \<Rightarrow> leave_table_row list" where
  "order_leaves rows = rev (sort_key le_from_date (rev (sort_key le_id rows)))"

definition list_leaves ::
  "auth_libs \<Rightarrow> employee_row list \<Rightarrow> leave_table_row list \<Rightarrow> leave_list_query \<Rightarrow> actor_scope
    \<Rightarrow> leave_response paginated_response" where
  "list_leaves L employees leaves q scope =
     (let limit = page_limit (lq_limit q); offset = page_offset (lq_offset q);
          rows = filter (leave_matches employees q scope) leaves
      in \<lparr>pr_data = map (row_to_leave L) (sql_page limit offset (order_leaves rows)),
          pr_total = int (length rows), pr_limit = limit, pr_offset = offset\<rparr>)"

text \<open>The handlers of the reads impose the scope; a leave outside it does not exist.\<close>

definition get_leave ::
  "auth_libs \<Rightarrow> claims \<Rightarrow> employee_row list \<Rightarrow> leave_table_row list \<Rightarrow> string \<Rightarrow> leave_response result" where
  "get_leave L claims employees leaves i =
     bind_result (get_leave_by_id L leaves i) (\<lambda>leave.
       let scope = scope_from_claims claims in
       if \<not> is_unscoped scope \<and> \<not> permits scope (department_of_leave employees leaves i)
       then Inl (leave_not_found i) else Inr leave)"

section \<open>Cancellation\<close>

definition leave_stale :: app_error where
  "leave_stale = Conflict ''VERSION_CONFLICT''
     ''Leave was modified by another request. Fetch the latest version and retry.''"

definition cancel_row :: "string \<Rightarrow> i64 \<Rightarrow> leave_table_row \<Rightarrow> leave_table_row" where
  "cancel_row actor_id now r = r\<lparr>le_status := ''cancelled'', le_cancelled_by := Some actor_id,
     le_deleted_at := Some now, le_updated_at := now, le_version := le_version r + 1\<rparr>"

definition cancel_leave ::
  "chrono \<Rightarrow> auth_libs \<Rightarrow> write_outcome \<Rightarrow> i64 \<Rightarrow> leave_table_row list \<Rightarrow> string \<Rightarrow> string \<Rightarrow> i64
    \<Rightarrow> leave_table_row list \<times> leave_effect \<times> leave_response result" where
  "cancel_leave c L wo now leaves actor_id i version =
     (case wo of
        NotRun e \<Rightarrow> (leaves, no_effect, Inl (from_db_write e))
      | Ran \<Rightarrow>
        (case find (\<lambda>r. le_id r = i) leaves of
           None \<Rightarrow> (leaves, no_effect, Inl (leave_not_found i))
         | Some r \<Rightarrow>
           (case (parse_date c (le_from_date r), parse_date c (le_to_date r)) of
              (Some from, Some to) \<Rightarrow>
                (let P = (\<lambda>q. le_id q = i \<and> le_status q = ''active'' \<and> le_version q = version) in
                 if rows_affected P leaves = 0 then (leaves, no_effect, Inl leave_stale)
                 else (update_where P (cancel_row actor_id now) leaves,
                   \<lparr>ef_evidence_kept = False, ef_published = [Range (le_employee_id r) from to]\<rparr>,
                   get_leave_by_id L (update_where P (cancel_row actor_id now) leaves) i))
            | _ \<Rightarrow> (leaves, no_effect,
                Inl (DbWrite (JobFailed (OtherError ''input contains invalid characters'')))))))"

section \<open>The overlay of the engine\<close>

definition bad_leave_date :: "string \<Rightarrow> app_error" where
  "bad_leave_date column = Internal (OtherError (''bad '' @ column @ '' in leaves''))"

definition covers_date :: "string \<Rightarrow> string \<Rightarrow> leave_table_row \<Rightarrow> bool" where
  "covers_date employee_id anchor_str r \<longleftrightarrow> le_employee_id r = employee_id \<and> le_from_date r \<le> anchor_str \<and>
     anchor_str \<le> le_to_date r \<and> le_status r = ''active'' \<and> le_deleted_at r = None"

definition fetch_active_leave_for_date ::
  "chrono \<Rightarrow> leave_table_row list \<Rightarrow> string \<Rightarrow> date \<Rightarrow> leave_row option result" where
  "fetch_active_leave_for_date c leaves employee_id anchor_date =
     (case find (covers_date employee_id (format_date c anchor_date)) leaves of
        None \<Rightarrow> Inr None
      | Some r \<Rightarrow>
        (case parse_date c (le_from_date r) of
           None \<Rightarrow> Inl (bad_leave_date ''from_date'')
         | Some from \<Rightarrow> (case parse_date c (le_to_date r) of
             None \<Rightarrow> Inl (bad_leave_date ''to_date'')
           | Some to \<Rightarrow> Inr (Some \<lparr>lv_id = le_id r, lv_employee_id = le_employee_id r,
               lv_from_date = from, lv_to_date = to, lv_type = le_type r\<rparr>))))"

section \<open>The table of leaves\<close>

definition active_leave :: "leave_table_row \<Rightarrow> bool" where
  "active_leave r \<longleftrightarrow> le_status r = ''active'' \<and> le_deleted_at r = None"

definition apart :: "leave_table_row \<Rightarrow> leave_table_row \<Rightarrow> bool" where
  "apart r q \<longleftrightarrow> le_employee_id r \<noteq> le_employee_id q \<or> \<not> active_leave r \<or> \<not> active_leave q
     \<or> le_to_date r < le_from_date q \<or> le_to_date q < le_from_date r"

definition leave_row_ok :: "chrono \<Rightarrow> (date \<Rightarrow> bool) \<Rightarrow> leave_table_row \<Rightarrow> bool" where
  "leave_row_ok c plain r \<longleftrightarrow> canonical_date c plain (le_from_date r) \<and>
     canonical_date c plain (le_to_date r) \<and> le_from_date r \<le> le_to_date r"

definition leaves_ok :: "chrono \<Rightarrow> (date \<Rightarrow> bool) \<Rightarrow> leave_table_row list \<Rightarrow> bool" where
  "leaves_ok c plain t \<longleftrightarrow> distinct (map le_id t) \<and> (\<forall>r \<in> set t. leave_row_ok c plain r) \<and>
     (\<forall>r \<in> set t. \<forall>q \<in> set t. le_id r \<noteq> le_id q \<longrightarrow> apart r q)"

datatype leave_op =
    CreateLeave write_outcome i64 string string create_leave_request "string option"
  | CancelLeave write_outcome i64 string string i64

text \<open>A request that writes its dates as \<open>YYYY-MM-DD\<close>.\<close>

definition plain_request :: "chrono \<Rightarrow> (date \<Rightarrow> bool) \<Rightarrow> create_leave_request \<Rightarrow> bool" where
  "plain_request c plain req \<longleftrightarrow>
     (\<forall>s \<in> {rq_from_date req, rq_to_date req}. parse_date c s = None \<or> canonical_date c plain s)"

fun leave_step ::
  "chrono \<Rightarrow> (date \<Rightarrow> bool) \<Rightarrow> auth_libs \<Rightarrow> string list \<Rightarrow> string list \<Rightarrow> leave_op \<Rightarrow> leave_table_row list
    \<Rightarrow> leave_table_row list option" where
  "leave_step c plain L employees users (CreateLeave wo now i actor req evidence) t =
     (if plain_request c plain req
      then Some (fst (create_leave c L wo now i employees users t actor req evidence)) else None)"
| "leave_step c plain L employees users (CancelLeave wo now actor i version) t =
     Some (fst (cancel_leave c L wo now t actor i version))"

text \<open>What the two writes do to the table.\<close>

lemma create_leave_cases:
  assumes "create_leave c L wo now i employees users t actor req evidence = (t', ef, res)"
  obtains (refused) e where "t' = t" "ef = no_effect" "res = Inl e"
  | (inserted) a b where "parse_date c (rq_from_date req) = Some a" "parse_date c (rq_to_date req) = Some b"
      "a \<le> b" "b - a < 366" "t' = t @ [new_leave req i evidence actor now]"
      "i \<notin> set (map le_id t)" "\<forall>r \<in> set t. \<not> leave_overlaps (rq_employee_id req) (format_date c b) (format_date c a) r"
      "ef = \<lparr>ef_evidence_kept = True, ef_published = [Range (rq_employee_id req) a b]\<rparr>"
      "res = Inr (row_to_leave L (new_leave req i evidence actor now))"
proof -
  consider (none) "t' = t \<and> ef = no_effect \<and> (\<exists>e. res = Inl e)"
    | (ins) a b where "validate_leave c req evidence = Inr (a, b)"
      "rows_affected (leave_overlaps (rq_employee_id req) (format_date c b) (format_date c a)) t = 0"
      "leave_violates employees users (new_leave req i evidence actor now) t = None"
      "t' = t @ [new_leave req i evidence actor now]"
      "ef = \<lparr>ef_evidence_kept = True, ef_published = [Range (rq_employee_id req) a b]\<rparr>"
      "res = Inr (row_to_leave L (new_leave req i evidence actor now))"
  proof (cases "validate_leave c req evidence")
    case (Inl e)
    then have "t' = t" "ef = no_effect" "res = Inl e" using assms by (simp_all add: create_leave_def)
    then show thesis using none by blast
  next
    case (Inr p)
    obtain a b where p: "p = (a, b)" by (cases p)
    show thesis
    proof (cases "wo = Ran \<and> rows_affected (leave_overlaps (rq_employee_id req) (format_date c b) (format_date c a)) t = 0
        \<and> leave_violates employees users (new_leave req i evidence actor now) t = None")
      case True
      then show thesis using assms ins [of a b] Inr p by (simp add: create_leave_def)
    next
      case False
      then show thesis using assms none Inr p
        by (cases wo) (auto simp: create_leave_def split: if_splits option.splits)
    qed
  qed
  then show thesis
  proof cases
    case none
    then show thesis using refused by blast
  next
    case ins
    have "parse_date c (rq_from_date req) = Some a \<and> parse_date c (rq_to_date req) = Some b \<and> a \<le> b \<and> b - a < 366"
      using ins(1) by (auto simp: validate_leave_def max_leave_days_def split: if_splits option.splits)
    moreover have "i \<notin> set (map le_id t)"
      using ins(3) by (auto simp: leave_violates_def new_leave_def split: if_splits)
    ultimately show thesis using ins(2,4-6) inserted by (simp add: rows_affected_0)
  qed
qed

lemma cancel_leave_cases:
  assumes "cancel_leave c L wo now t actor i version = (t', ef, res)"
  obtains (refused) e where "t' = t" "ef = no_effect" "res = Inl e"
  | (cancelled) r a b where "r \<in> set t" "le_id r = i" "parse_date c (le_from_date r) = Some a"
      "parse_date c (le_to_date r) = Some b"
      "t' = update_where (\<lambda>q. le_id q = i \<and> le_status q = ''active'' \<and> le_version q = version) (cancel_row actor now) t"
      "ef = \<lparr>ef_evidence_kept = False, ef_published = [Range (le_employee_id r) a b]\<rparr>"
      "res = get_leave_by_id L t' i"
proof (cases wo)
  case (NotRun e)
  then show thesis using assms refused [of "from_db_write e"] by (simp add: cancel_leave_def)
next
  case Ran
  show thesis
  proof (cases "find (\<lambda>r. le_id r = i) t")
    case None
    then show thesis using Ran assms refused [of "leave_not_found i"] by (simp add: cancel_leave_def)
  next
    case (Some r)
    note r = find_Some_in [OF Some]
    let ?P = "\<lambda>q. le_id q = i \<and> le_status q = ''active'' \<and> le_version q = version"
    show thesis
    proof (cases "parse_date c (le_from_date r) = None \<or> parse_date c (le_to_date r) = None \<or> rows_affected ?P t = 0")
      case True
      then have "t' = t \<and> ef = no_effect \<and> (\<exists>e. res = Inl e)"
        using Ran Some assms by (auto simp: cancel_leave_def Let_def split: option.splits)
      then show thesis using refused by blast
    next
      case False
      then obtain a b where ab: "parse_date c (le_from_date r) = Some a" "parse_date c (le_to_date r) = Some b"
        by auto
      then have "t' = update_where ?P (cancel_row actor now) t"
          "ef = \<lparr>ef_evidence_kept = False, ef_published = [Range (le_employee_id r) a b]\<rparr>"
          "res = get_leave_by_id L (update_where ?P (cancel_row actor now) t) i"
        using Ran Some assms False ab by (auto simp: cancel_leave_def Let_def)
      then show thesis using cancelled [of r a b] r ab by simp
    qed
  qed
qed

lemma cancel_row_simps [simp]:
  "le_id (cancel_row a n r) = le_id r" "leave_row_ok c plain (cancel_row a n r) = leave_row_ok c plain r"
  "apart r q \<Longrightarrow> apart (cancel_row a n r) q" "apart r q \<Longrightarrow> apart r (cancel_row a n q)"
  by (auto simp: apart_def active_leave_def cancel_row_def leave_row_ok_def)

lemma cancel_leaves_ok:
  assumes "leaves_ok c plain t" "cancel_leave c L wo now t actor i version = (t', ef, res)"
  shows "leaves_ok c plain t'"
  using assms(2)
proof (cases rule: cancel_leave_cases)
  case refused
  then show ?thesis using assms(1) by simp
next
  case (cancelled r a b)
  let ?P = "\<lambda>q. le_id q = i \<and> le_status q = ''active'' \<and> le_version q = version"
  have ids: "map le_id t' = map le_id t"
    unfolding cancelled(5) by (rule map_update_where) simp
  have rows: "\<exists>q \<in> set t. x = q \<or> x = cancel_row actor now q" if "x \<in> set t'" for x
    using that by (auto simp: cancelled(5) in_set_update_where)
  have "leave_row_ok c plain x" if "x \<in> set t'" for x
    using rows [OF that] assms(1) by (auto simp: leaves_ok_def)
  moreover have "apart x y" if "x \<in> set t'" "y \<in> set t'" "le_id x \<noteq> le_id y" for x y
    using rows [OF that(1)] rows [OF that(2)] that(3) assms(1) by (auto simp: leaves_ok_def)
  ultimately show ?thesis using assms(1) ids by (simp add: leaves_ok_def)
qed

context date_text begin

lemma create_leaves_ok:
  assumes "leaves_ok c plain t" "plain_request c plain req"
    and "create_leave c L wo now i employees users t actor req evidence = (t', ef, res)"
  shows "leaves_ok c plain t'"
  using assms(3)
proof (cases rule: create_leave_cases)
  case refused
  then show ?thesis using assms(1) by simp
next
  case (inserted a b)
  have f: "format_date c a = rq_from_date req" "format_date c b = rq_to_date req" "plain a" "plain b"
    using assms(2) inserted(1,2) by (auto simp: plain_request_def canonical_date_def)
  then have "leave_row_ok c plain (new_leave req i evidence actor now)"
    using inserted(1-3) format_le [of a b]
    by (simp add: leave_row_ok_def new_leave_def canonical_date_def)
  moreover have "apart r (new_leave req i evidence actor now) \<and> apart (new_leave req i evidence actor now) r"
    if "r \<in> set t" for r
    using inserted(7) that f
    by (auto simp: apart_def leave_overlaps_def new_leave_def active_leave_def not_le)
  ultimately show ?thesis using assms(1) inserted(6)
    by (auto simp: leaves_ok_def inserted(5)) (auto simp: new_leave_def)
qed

lemma leave_step_ok:
  assumes "leaves_ok c plain t" "leave_step c plain L employees users op t = Some t'"
  shows "leaves_ok c plain t'"
proof (cases op)
  case (CreateLeave wo now i actor req evidence)
  obtain u ef res where u: "create_leave c L wo now i employees users t actor req evidence = (u, ef, res)"
    by (rule prod_cases3)
  then show ?thesis using assms create_leaves_ok [OF assms(1) _ u] by (simp add: CreateLeave split: if_splits)
next
  case (CancelLeave wo now actor i version)
  obtain u ef res where u: "cancel_leave c L wo now t actor i version = (u, ef, res)"
    by (rule prod_cases3)
  then show ?thesis using assms cancel_leaves_ok [OF assms(1) u] by (simp add: CancelLeave)
qed

end


lemma leaves_ok_Nil: "leaves_ok c plain []"
  by (simp add: leaves_ok_def)

lemma leave_run_ok:
  assumes "date_text c plain" "run_steps (leave_step c plain L employees users) ops [] = Some t"
  shows "leaves_ok c plain t"
  by (rule stepper.run_inv [where inv = "leaves_ok c plain", OF _ leaves_ok_Nil assms(2)])
    (unfold_locales, rule date_text.leave_step_ok [OF assms(1)])

interpretation leave_table: stepper "leave_step gregorian year_4 L employees users" "leaves_ok gregorian year_4"
  for L employees users
  by unfold_locales (rule greg_text.leave_step_ok)

text \<open>C20. Active leaves never overlap: after any sequence of creations and cancellations whose requests
  write their dates as YYYY-MM-DD, two active leaves of one employee that share a calendar day
  are the same leave.\<close>

theorem active_leaves_never_overlap:
  assumes "date_text c plain" "run_steps (leave_step c plain L employees users) ops [] = Some t"
    and "r \<in> set t" "q \<in> set t" "active_leave r" "active_leave q" "le_employee_id r = le_employee_id q"
    and "parse_date c (le_from_date r) = Some a" "parse_date c (le_to_date r) = Some b"
    and "parse_date c (le_from_date q) = Some a'" "parse_date c (le_to_date q) = Some b'"
    and "a \<le> d" "d \<le> b" "a' \<le> d" "d \<le> b'"
  shows "r = q"
proof -
  have ok: "leaves_ok c plain t" by (rule leave_run_ok [OF assms(1,2)])
  have rows: "leave_row_ok c plain r" "leave_row_ok c plain q" using ok assms(3,4) by (auto simp: leaves_ok_def)
  have plain: "plain a" "plain b" "plain a'" "plain b'"
    "le_from_date r = format_date c a" "le_to_date r = format_date c b"
    "le_from_date q = format_date c a'" "le_to_date q = format_date c b'"
    using rows assms(8-11) by (auto simp: leave_row_ok_def canonical_date_def)
  have "\<not> apart r q"
    using plain assms(5-7,12-15) date_text.format_less [OF assms(1)] by (auto simp: apart_def)
  then have "le_id r = le_id q" using ok assms(3,4) by (auto simp: leaves_ok_def)
  then show ?thesis using ok assms(3,4) by (auto simp: leaves_ok_def distinct_map dest: inj_onD)
qed

lemma find_snoc: "find P (xs @ [x]) = (case find P xs of None \<Rightarrow> if P x then Some x else None | Some y \<Rightarrow> Some y)"
  by (induction xs) auto

lemma find_update_other:
  "\<forall>q \<in> set t. P q \<longrightarrow> \<not> C q \<and> \<not> C (f q) \<Longrightarrow> find C (update_where P f t) = find C t"
  by (induction t) (auto simp: table_simps)

context date_text begin

lemma covers_date_iff:
  assumes "leave_row_ok c plain r" "plain d"
    and "parse_date c (le_from_date r) = Some a" "parse_date c (le_to_date r) = Some b"
  shows "covers_date e (format_date c d) r \<longleftrightarrow> le_employee_id r = e \<and> active_leave r \<and> a \<le> d \<and> d \<le> b"
  using assms format_le [of a d] format_le [of d b]
  by (auto simp: covers_date_def leave_row_ok_def canonical_date_def active_leave_def)

lemma row_dates:
  assumes "leaves_ok c plain t" "r \<in> set t"
  obtains a b where "parse_date c (le_from_date r) = Some a" "parse_date c (le_to_date r) = Some b"
proof -
  have "canonical_date c plain (le_from_date r)" "canonical_date c plain (le_to_date r)"
    using assms by (auto simp: leaves_ok_def leave_row_ok_def)
  then show thesis using that by (metis canonical_dateE)
qed

lemma fetch_is_find:
  assumes "leaves_ok c plain t" "plain d"
  shows "fetch_active_leave_for_date c t e d = Inr (map_option (\<lambda>r.
      \<lparr>lv_id = le_id r, lv_employee_id = le_employee_id r, lv_from_date = the (parse_date c (le_from_date r)),
       lv_to_date = the (parse_date c (le_to_date r)), lv_type = le_type r\<rparr>)
      (find (covers_date e (format_date c d)) t))"
proof (cases "find (covers_date e (format_date c d)) t")
  case (Some r)
  then have "r \<in> set t" using find_Some_in by metis
  then show ?thesis using Some by (auto simp: fetch_active_leave_for_date_def elim: row_dates [OF assms(1)])
qed (simp add: fetch_active_leave_for_date_def)

end

text \<open>The engine's overlay is exact: after any such sequence the query for an employee and a day never
  fails, finds nothing only if no active leave covers the day, and what it finds is an active
  leave of that employee whose dates contain the day.\<close>

theorem leave_overlay_exact:
  assumes "date_text c plain" "run_steps (leave_step c plain L employees users) ops [] = Some t" "plain d"
  shows "\<exists>lv. fetch_active_leave_for_date c t e d = Inr lv \<and>
    (case lv of
       None \<Rightarrow> \<not> (\<exists>r \<in> set t. covers_date e (format_date c d) r)
     | Some v \<Rightarrow> lv_employee_id v = e \<and> lv_from_date v \<le> d \<and> d \<le> lv_to_date v \<and>
         (\<exists>r \<in> set t. lv_id v = le_id r \<and> lv_type v = le_type r \<and> active_leave r))"
proof -
  have ok: "leaves_ok c plain t" by (rule leave_run_ok [OF assms(1,2)])
  note fetch = date_text.fetch_is_find [OF assms(1) ok assms(3), of e]
  show ?thesis
  proof (cases "find (covers_date e (format_date c d)) t")
    case None
    moreover have "\<not> (\<exists>r \<in> set t. covers_date e (format_date c d) r)" using None by (auto simp: find_None_iff)
    ultimately show ?thesis using fetch by simp
  next
    case (Some r)
    have r: "r \<in> set t" "covers_date e (format_date c d) r" using find_Some_in [OF Some] by auto
    obtain a b where ab: "parse_date c (le_from_date r) = Some a" "parse_date c (le_to_date r) = Some b"
      by (rule date_text.row_dates [OF assms(1) ok r(1)])
    have "leave_row_ok c plain r" using ok r(1) by (simp add: leaves_ok_def)
    from date_text.covers_date_iff [OF assms(1) this assms(3) ab, of e] r
    show ?thesis using fetch Some ab by auto
  qed
qed

text \<open>Every change of the overlay is published: if creating or cancelling a leave changes what the
  engine would see on some day of some employee, the recompute request sent after the commit
  contains that day of that employee.\<close>

theorem leave_changes_are_published:
  assumes "date_text c plain" "leaves_ok c plain t" "plain d"
    and "create_leave c L wo now i employees users t actor req evidence = (t', ef, res) \<and> plain_request c plain req
      \<or> cancel_leave c L wo now t actor i version = (t', ef, res)"
    and "fetch_active_leave_for_date c t' e d \<noteq> fetch_active_leave_for_date c t e d"
  shows "(e, d) \<in> units (ef_published ef)"
  using assms(4)
proof
  assume create: "create_leave c L wo now i employees users t actor req evidence = (t', ef, res) \<and> plain_request c plain req"
  have ok': "leaves_ok c plain t'" using date_text.create_leaves_ok [OF assms(1,2)] create by blast
  from create [THEN conjunct1] show ?thesis
  proof (cases rule: create_leave_cases)
    case refused
    then show ?thesis using assms(5) by simp
  next
    case (inserted a b)
    let ?r = "new_leave req i evidence actor now"
    have "find (covers_date e (format_date c d)) t' \<noteq> find (covers_date e (format_date c d)) t"
      using assms(5) date_text.fetch_is_find [OF assms(1) assms(2,3)] date_text.fetch_is_find [OF assms(1) ok' assms(3)]
      by auto
    then have "covers_date e (format_date c d) ?r"
      by (auto simp: inserted(5) find_snoc split: option.splits if_splits)
    moreover have "leave_row_ok c plain ?r" using ok' by (simp add: leaves_ok_def inserted(5))
    ultimately show ?thesis
      using date_text.covers_date_iff [OF assms(1) _ assms(3), of ?r a b e] inserted(1,2,8)
      by (auto simp: new_leave_def)
  qed
next
  assume "cancel_leave c L wo now t actor i version = (t', ef, res)"
  then show ?thesis
  proof (cases rule: cancel_leave_cases)
    case refused
    then show ?thesis using assms(5) by simp
  next
    case (cancelled r a b)
    let ?P = "\<lambda>q. le_id q = i \<and> le_status q = ''active'' \<and> le_version q = version"
    let ?C = "covers_date e (format_date c d)"
    have ok': "leaves_ok c plain t'"
      using cancel_leaves_ok [OF assms(2)] \<open>cancel_leave c L wo now t actor i version = (t', ef, res)\<close> by blast
    have "find ?C t' \<noteq> find ?C t"
      using assms(5) date_text.fetch_is_find [OF assms(1) assms(2,3)] date_text.fetch_is_find [OF assms(1) ok' assms(3)]
      by auto
    then have "\<not> (\<forall>q \<in> set t. ?P q \<longrightarrow> \<not> ?C q \<and> \<not> ?C (cancel_row actor now q))"
      using find_update_other [of t ?P ?C "cancel_row actor now"] unfolding cancelled(5) by blast
    then obtain q where q: "q \<in> set t" "?P q" "?C q \<or> ?C (cancel_row actor now q)" by blast
    have "q = r" using q(1,2) cancelled(1,2) assms(2) by (auto simp: leaves_ok_def distinct_map dest: inj_onD)
    moreover have "\<not> ?C (cancel_row actor now q)" by (simp add: covers_date_def cancel_row_def)
    moreover have "leave_row_ok c plain r" using assms(2) cancelled(1) by (simp add: leaves_ok_def)
    ultimately show ?thesis
      using q(3) date_text.covers_date_iff [OF assms(1) _ assms(3) cancelled(3,4), of e] cancelled(6) by auto
  qed
qed

section \<open>A day in the life of the table\<close>

definition sample_leave :: "string \<Rightarrow> string \<Rightarrow> create_leave_request" where
  "sample_leave from to = \<lparr>rq_employee_id = ''e1'', rq_from_date = from, rq_to_date = to,
     rq_leave_type = ''vacation'', rq_justification = ''vacaciones''\<rparr>"

text \<open>The second creation overlaps the first, which is then cancelled, and the third replaces it.\<close>

definition sample_ops :: "leave_op list" where
  "sample_ops =
     [CreateLeave Ran 10 ''l1'' ''u1'' (sample_leave ''2026-04-20'' ''2026-04-24'') None,
      CreateLeave Ran 11 ''l2'' ''u1'' (sample_leave ''2026-04-24'' ''2026-04-30'') None,
      CancelLeave Ran 12 ''u1'' ''l1'' 1,
      CreateLeave Ran 13 ''l3'' ''u1'' (sample_leave ''2026-04-22'' ''2026-04-26'') None]"

definition first_leave :: leave_table_row where
  "first_leave = new_leave (sample_leave ''2026-04-20'' ''2026-04-24'') ''l1'' None ''u1'' 10"

definition third_leave :: leave_table_row where
  "third_leave = new_leave (sample_leave ''2026-04-22'' ''2026-04-26'') ''l3'' None ''u1'' 13"

abbreviation sample_step :: "leave_op \<Rightarrow> leave_table_row list \<Rightarrow> leave_table_row list option" where
  "sample_step \<equiv> leave_step gregorian year_4 toy_libs [''e1''] [''u1'']"

lemma sample_requests:
  "plain_request gregorian year_4 (sample_leave ''2026-04-24'' ''2026-04-30'')"
  "plain_request gregorian year_4 (sample_leave ''2026-04-22'' ''2026-04-26'')"
  "validate_leave gregorian (sample_leave ''2026-04-24'' ''2026-04-30'') None = Inr (20567, 20573)"
  "validate_leave gregorian (sample_leave ''2026-04-22'' ''2026-04-26'') None = Inr (20565, 20569)"
  "rows_affected (leave_overlaps ''e1'' (greg_format_date 20573) (greg_format_date 20567)) [first_leave] = 1"
  "rows_affected (leave_overlaps ''e1'' (greg_format_date 20569) (greg_format_date 20565)) [cancel_row ''u1'' 12 first_leave] = 0"
  "leave_violates [''e1''] [''u1''] third_leave [cancel_row ''u1'' 12 first_leave] = None"
  by code_simp+

lemma sample_steps:
  "sample_step (sample_ops ! 0) [] = Some [first_leave]"
  "sample_step (sample_ops ! 1) [first_leave] = Some [first_leave]"
  "sample_step (sample_ops ! 2) [first_leave] = Some [cancel_row ''u1'' 12 first_leave]"
  "sample_step (sample_ops ! 3) [cancel_row ''u1'' 12 first_leave] = Some [cancel_row ''u1'' 12 first_leave, third_leave]"
proof -
  have "rq_employee_id (sample_leave x y) = ''e1''" for x y by (simp add: sample_leave_def)
  then show "sample_step (sample_ops ! 1) [first_leave] = Some [first_leave]"
    "sample_step (sample_ops ! 3) [cancel_row ''u1'' 12 first_leave] = Some [cancel_row ''u1'' 12 first_leave, third_leave]"
    using sample_requests by (simp_all add: sample_ops_def create_leave_def third_leave_def)
qed code_simp+

lemma sample_leaves_run:
  "run_steps sample_step sample_ops [] = Some [cancel_row ''u1'' 12 first_leave, third_leave]"
proof -
  have ops: "sample_ops = [sample_ops ! 0, sample_ops ! 1, sample_ops ! 2, sample_ops ! 3]"
    by (simp add: sample_ops_def)
  have four: "run_steps f [a, b, c, d] s = Some s4"
    if "f a s = Some s1" "f b s1 = Some s2" "f c s2 = Some s3" "f d s3 = Some s4"
    for f :: "leave_op \<Rightarrow> leave_table_row list \<Rightarrow> leave_table_row list option" and a b c d s s1 s2 s3 s4
    using that by simp
  show ?thesis by (subst ops) (rule four [OF sample_steps])
qed

lemma third_leave_row:
  "parse_date gregorian (le_from_date third_leave) = Some 20565" "parse_date gregorian (le_to_date third_leave) = Some 20569"
  "active_leave third_leave" "year_4 20566"
  by code_simp+

theorem active_leaves_never_overlap_witness:
  "third_leave = third_leave \<and> active_leave third_leave"
  using active_leaves_never_overlap [OF greg_text.date_text_axioms sample_leaves_run, of third_leave third_leave 20565 20569 20565 20569 20566]
    third_leave_row by simp

theorem leave_overlay_exact_witness:
  "\<exists>v. fetch_active_leave_for_date gregorian [cancel_row ''u1'' 12 first_leave, third_leave] ''e1'' 20566 = Inr (Some v)
    \<and> lv_employee_id v = ''e1''"
proof -
  have "covers_date ''e1'' (format_date gregorian 20566) third_leave" by code_simp
  then show ?thesis
    using leave_overlay_exact [OF greg_text.date_text_axioms sample_leaves_run third_leave_row(4), of "''e1''"]
    by (auto split: option.splits)
qed

theorem leave_changes_are_published_witness:
  "(''e1'', 20566) \<in> units (ef_published (fst (snd (cancel_leave gregorian toy_libs Ran 14
      [cancel_row ''u1'' 12 first_leave, third_leave] ''u1'' ''l3'' 1))))"
proof -
  let ?t = "[cancel_row ''u1'' 12 first_leave, third_leave]"
  obtain t' ef res where c: "cancel_leave gregorian toy_libs Ran 14 ?t ''u1'' ''l3'' 1 = (t', ef, res)"
    by (rule prod_cases3)
  have "fetch_active_leave_for_date gregorian (fst (cancel_leave gregorian toy_libs Ran 14 ?t ''u1'' ''l3'' 1)) ''e1'' 20566
      \<noteq> fetch_active_leave_for_date gregorian ?t ''e1'' 20566"
    by code_simp
  then show ?thesis
    using leave_changes_are_published [OF greg_text.date_text_axioms leave_run_ok [OF greg_text.date_text_axioms sample_leaves_run]
        third_leave_row(4), where L = toy_libs and wo = Ran and now = 14 and actor = "''u1''" and i = "''l3''" and version = 1
        and e = "''e1''" and t' = t' and ef = ef and res = res] c by simp
qed

section \<open>Dates stored as they were received\<close>

text \<open>
  \<open>create_leave\<close> parses the dates of the request, compares their canonical form with the
  stored ones and stores the text of the request.  chrono parses \<open>2026-5-10\<close> with
  \<open>%Y-%m-%d\<close> (a number may have fewer digits than its width), the handler does not call
  the request's \<open>validate\<close>, and the text of such a date does not order like the calendar:
  a second leave over the same days is accepted, and the engine's query finds only one of
  them.
\<close>

definition lenient :: chrono where
  "lenient = gregorian\<lparr>parse_date := (\<lambda>s. greg_parse_date (if s = ''2026-5-10'' then ''2026-05-10'' else s))\<rparr>"

definition unpadded_leave :: leave_table_row where
  "unpadded_leave = new_leave (sample_leave ''2026-5-10'' ''2026-5-10'') ''l1'' None ''u1'' 10"

lemma unpadded_facts:
  "fst (create_leave lenient toy_libs Ran 10 ''l1'' [''e1''] [''u1''] [] ''u1''
     (sample_leave ''2026-5-10'' ''2026-5-10'') None) = [unpadded_leave]"
  "validate_leave lenient (sample_leave ''2026-5-10'' ''2026-5-10'') None = Inr (20583, 20583)"
  "validate_leave lenient (sample_leave ''2026-05-10'' ''2026-05-10'') None = Inr (20583, 20583)"
  "rows_affected (leave_overlaps ''e1'' (format_date lenient 20583) (format_date lenient 20583)) [unpadded_leave] = 0"
  "leave_violates [''e1''] [''u1''] (new_leave (sample_leave ''2026-05-10'' ''2026-05-10'') ''l2'' None ''u1'' 11) [unpadded_leave] = None"
  by code_simp+

lemma unpadded_dates_defeat_the_overlap_check:
  "\<exists>t r. t = fst (create_leave lenient toy_libs Ran 10 ''l1'' [''e1''] [''u1''] [] ''u1''
        (sample_leave ''2026-5-10'' ''2026-5-10'') None) \<and>
     map active_leave t = [True] \<and> map (parse_date lenient \<circ> le_from_date) t = [Some 20583] \<and>
     snd (snd (create_leave lenient toy_libs Ran 11 ''l2'' [''e1''] [''u1''] t ''u1''
       (sample_leave ''2026-05-10'' ''2026-05-10'') None)) = Inr r \<and>
     validate_leave lenient (sample_leave ''2026-05-10'' ''2026-05-10'') None = Inr (20583, 20583)"
proof -
  have e: "rq_employee_id (sample_leave x y) = ''e1''" for x y by (simp add: sample_leave_def)
  have row: "active_leave unpadded_leave" "parse_date lenient (le_from_date unpadded_leave) = Some 20583"
    by code_simp+
  have "snd (snd (create_leave lenient toy_libs Ran 11 ''l2'' [''e1''] [''u1''] [unpadded_leave] ''u1''
       (sample_leave ''2026-05-10'' ''2026-05-10'') None)) =
     Inr (row_to_leave toy_libs (new_leave (sample_leave ''2026-05-10'' ''2026-05-10'') ''l2'' None ''u1'' 11))"
    using unpadded_facts(3-5) by (simp add: create_leave_def e)
  then show ?thesis using row unpadded_facts(1,3) by auto
qed

end
