(* ===== verification/Overnight.thy ===== *)
theory Overnight
  imports Calc_Models
begin

text \<open>
  Construction of the shift window (calc/overnight.rs).  \<open>None\<close> is a panic: an
  unparsable shift time, or date arithmetic past the calendar's range.
\<close>

definition resolve_local_epoch :: "chrono \<Rightarrow> tzinfo \<Rightarrow> naive_dt \<Rightarrow> (i64 \<times> bool) option" where
  "resolve_local_epoch c tz ndt =
     (case from_local tz ndt of
        Single e \<Rightarrow> Some (e, False)
      | Ambiguous earliest latest \<Rightarrow> Some (earliest, True)
      | NoLocal \<Rightarrow>
          (case ndt_add c ndt 3600 of None \<Rightarrow> None | Some bump1 \<Rightarrow>
            (case from_local tz bump1 of
               Single e \<Rightarrow> Some (e, True)
             | Ambiguous e latest \<Rightarrow> Some (e, True)
             | NoLocal \<Rightarrow>
                 (case ndt_add c ndt 7200 of None \<Rightarrow> None | Some bump2 \<Rightarrow>
                   (case from_local tz bump2 of
                      Single e \<Rightarrow> Some (e, True)
                    | Ambiguous e latest \<Rightarrow> Some (e, True)
                    | NoLocal \<Rightarrow> Some (ndt, True))))))"

definition shift_end_date :: "chrono \<Rightarrow> date \<Rightarrow> department_config \<Rightarrow> date option" where
  "shift_end_date c anchor_date dept =
     (if is_overnight_shift dept then date_add c anchor_date 1 else Some anchor_date)"

definition shift_window_overnight_aware ::
  "chrono \<Rightarrow> date \<Rightarrow> department_config \<Rightarrow> global_rules_row \<Rightarrow> tzinfo
    \<Rightarrow> (i64 \<times> i64 \<times> i64 \<times> i64 \<times> bool) option" where
  "shift_window_overnight_aware c anchor_date dept rules tz = do {
     shift_start \<leftarrow> parse_hm c (shift_start_time dept);
     shift_end \<leftarrow> parse_hm c (shift_end_time dept);
     let start_local = anchor_date * 86400 + shift_start;
     end_date \<leftarrow> shift_end_date c anchor_date dept;
     let end_local = end_date * 86400 + shift_end;
     (nominal_start, amb1) \<leftarrow> resolve_local_epoch c tz start_local;
     (nominal_end, amb2) \<leftarrow> resolve_local_epoch c tz end_local;
     let tol_before_s = i64_mul (i64_add (late_arrival_tolerance_min rules) (bonus_minutes rules)) 60;
     let tol_after_s = i64_mul (i64_add (early_departure_tolerance_min rules) (bonus_minutes rules)) 60;
     let window_start = i64_sub nominal_start tol_before_s;
     let window_end = i64_add nominal_end tol_after_s;
     Some (window_start, window_end, nominal_start, nominal_end, amb1 \<or> amb2)
   }"

text \<open>
  A zone that resolves every local time to an instant within a day of its UTC reading
  (every real offset lies within 24 hours); what the window lemmas need of chrono-tz.
\<close>

definition tz_sane :: "tzinfo \<Rightarrow> bool" where
  "tz_sane tz \<longleftrightarrow> (\<forall>t. case from_local tz t of
      Single e \<Rightarrow> \<bar>e - t\<bar> \<le> 86400
    | Ambiguous e l \<Rightarrow> \<bar>e - t\<bar> \<le> 86400
    | NoLocal \<Rightarrow> True)"

lemma tz_sane_fixed_zone: "\<bar>off\<bar> \<le> 86400 \<Longrightarrow> tz_sane (fixed_zone off)"
  by (simp add: tz_sane_def fixed_zone_def)

lemma resolve_local_epoch_near:
  assumes sane: "tz_sane tz" and r: "resolve_local_epoch c tz t = Some (e, amb)"
  shows "\<bar>e - t\<bar> \<le> 93600"
proof -
  have near: "from_local tz u = Single x \<or> from_local tz u = Ambiguous x l \<Longrightarrow> \<bar>x - u\<bar> \<le> 86400"
    for u x l using sane by (auto simp: tz_sane_def dest: spec [of _ u])
  show ?thesis
    using r near [of t e] near [of "t + 3600" e] near [of "t + 7200" e]
    by (fastforce simp: resolve_local_epoch_def ndt_add_def split: local_result.splits if_splits)
qed

lemma resolve_local_epoch_unambiguous:
  "resolve_local_epoch c tz t = Some (e, False) \<longleftrightarrow> from_local tz t = Single e"
  by (auto simp: resolve_local_epoch_def split: local_result.splits option.splits)

lemma resolve_local_epoch_total:
  "date_ok c (t div 86400) \<Longrightarrow> date_ok c ((t + 7200) div 86400) \<Longrightarrow>
    \<exists>e amb. resolve_local_epoch c tz t = Some (e, amb)"
proof -
  assume a: "date_ok c (t div 86400)" "date_ok c ((t + 7200) div 86400)"
  have "t div 86400 \<le> (t + 3600) div 86400" "(t + 3600) div 86400 \<le> (t + 7200) div 86400"
    by (simp_all add: zdiv_mono1)
  with a have "date_ok c ((t + 3600) div 86400)" by (auto simp: date_ok_def)
  with a show ?thesis
    by (auto simp: resolve_local_epoch_def ndt_add_def split: local_result.splits)
qed

lemma resolve_local_epoch_fixed_zone [simp]:
  "resolve_local_epoch c (fixed_zone off) t = Some (t - off, False)"
  by (simp add: resolve_local_epoch_def fixed_zone_def)

lemma rules_ok_tol:
  assumes "rules_ok r"
  shows "i64_mul (i64_add (late_arrival_tolerance_min r) (bonus_minutes r)) 60
      = (late_arrival_tolerance_min r + bonus_minutes r) * 60"
    "i64_mul (i64_add (early_departure_tolerance_min r) (bonus_minutes r)) 60
      = (early_departure_tolerance_min r + bonus_minutes r) * 60"
  using assms
  by (simp_all add: rules_ok_def i64_add_exact i64_mul_exact in_i64_def i64_min_def i64_max_def)

text \<open>
  Shape of the window: the nominal bounds widened by exactly the tolerances.  With the
  rules in their admitted range and the calendar within its documented bounds no
  operation of the code wraps.
\<close>

definition epoch_ok :: "i64 \<Rightarrow> bool" where
  "epoch_ok e \<longleftrightarrow> \<bar>e\<bar> \<le> 1000000000000000"

lemma shift_window_shape:
  assumes w: "shift_window_overnight_aware c d dept rules tz = Some (ws, we, ns, ne, amb)"
    and r: "rules_ok rules" and ok: "epoch_ok ns" "epoch_ok ne"
  shows "ws = ns - (late_arrival_tolerance_min rules + bonus_minutes rules) * 60"
    and "we = ne + (early_departure_tolerance_min rules + bonus_minutes rules) * 60"
proof -
  define tb where "tb = (late_arrival_tolerance_min rules + bonus_minutes rules) * 60"
  define ta where "ta = (early_departure_tolerance_min rules + bonus_minutes rules) * 60"
  have b: "0 \<le> tb" "tb \<le> 7200" "0 \<le> ta" "ta \<le> 7200"
    using r by (auto simp: tb_def ta_def rules_ok_def)
  have "ws = i64_sub ns tb" "we = i64_add ne ta"
    using w by (auto simp: shift_window_overnight_aware_def rules_ok_tol [OF r] tb_def ta_def Let_def
      bind_eq_Some_conv split: prod.splits)
  moreover have "in_i64 (ns - tb)" "in_i64 (ne + ta)"
    using b ok by (auto simp: epoch_ok_def in_i64_def i64_min_def i64_max_def)
  ultimately show "ws = ns - tb" "we = ne + ta"
    by (simp_all add: i64_sub_exact i64_add_exact)
qed

lemma shift_window_fixed_zone:
  assumes "parse_hm c (shift_start_time dept) = Some s" "parse_hm c (shift_end_time dept) = Some e"
    and "shift_end_date c d dept = Some d'"
  shows "shift_window_overnight_aware c d dept rules (fixed_zone off) =
    (let ns = d * 86400 + s - off; ne = d' * 86400 + e - off in
     Some (i64_sub ns (i64_mul (i64_add (late_arrival_tolerance_min rules) (bonus_minutes rules)) 60),
       i64_add ne (i64_mul (i64_add (early_departure_tolerance_min rules) (bonus_minutes rules)) 60),
       ns, ne, False))"
  using assms by (simp add: shift_window_overnight_aware_def Let_def)

end
