(* ===== verification/Aggregation.thy ===== *)
theory Aggregation
  imports Overnight
begin

text \<open>
  Window filtering, punch pairing and the choice of the anchor dates of an instant
  (calc/aggregation.rs).  The loops of the code are the recursive functions
  \<open>bucket_events\<close> and \<open>pair_scan\<close>; the abstract contract of the pairing is the
  predicate \<open>inside_at\<close> (is the employee clocked in during a given second?).
\<close>

definition shift_window ::
  "chrono \<Rightarrow> date \<Rightarrow> department_config \<Rightarrow> global_rules_row \<Rightarrow> tzinfo \<Rightarrow> (i64 \<times> i64 \<times> i64 \<times> i64) option"
where
  "shift_window c anchor_date dept rules tz =
     map_option (\<lambda>(ws, we, ns, ne, amb). (ws, we, ns, ne))
       (shift_window_overnight_aware c anchor_date dept rules tz)"

definition shift_window_with_ambiguity ::
  "chrono \<Rightarrow> date \<Rightarrow> department_config \<Rightarrow> global_rules_row \<Rightarrow> tzinfo
    \<Rightarrow> (i64 \<times> i64 \<times> i64 \<times> i64 \<times> bool) option" where
  "shift_window_with_ambiguity c anchor_date dept rules tz =
     shift_window_overnight_aware c anchor_date dept rules tz"

definition anchor_dates_for_instant ::
  "chrono \<Rightarrow> i64 \<Rightarrow> date \<Rightarrow> department_config \<Rightarrow> global_rules_row \<Rightarrow> tzinfo \<Rightarrow> date list option" where
  "anchor_dates_for_instant c captured_at own_date dept rules tz =
     (if \<not> is_overnight_shift dept then Some [own_date]
      else case date_add c own_date (- 1) of
        None \<Rightarrow> Some [own_date]
      | Some yesterday \<Rightarrow> do {
          (y_start, y_end, _, _) \<leftarrow> shift_window c yesterday dept rules tz;
          (t_start, t_end, _, _) \<leftarrow> shift_window c own_date dept rules tz;
          let in_yesterday = (captured_at \<ge> y_start \<and> captured_at \<le> y_end);
          let in_today = (captured_at \<ge> t_start \<and> captured_at \<le> t_end);
          Some (case (in_yesterday, in_today) of
              (True, False) \<Rightarrow> [yesterday]
            | (True, True) \<Rightarrow> [yesterday, own_date]
            | (False, _) \<Rightarrow> [own_date])
        })"

record aggregated =
  canonical_entry :: "i64 option"
  canonical_exit :: "i64 option"
  unknown_in_window :: bool
  entries_in_window :: "attendance_event_row list"
  exits_in_window :: "attendance_event_row list"

fun bucket_events ::
  "i64 \<Rightarrow> i64 \<Rightarrow> attendance_event_row list \<Rightarrow> attendance_event_row list \<Rightarrow> attendance_event_row list
    \<Rightarrow> bool \<Rightarrow> attendance_event_row list \<times> attendance_event_row list \<times> bool" where
  "bucket_events ws we [] entries exits unk = (entries, exits, unk)"
| "bucket_events ws we (ev # events) entries exits unk =
     (if ev_captured_at ev < ws \<or> ev_captured_at ev > we then bucket_events ws we events entries exits unk
      else if ev_is_unknown ev then bucket_events ws we events entries exits True
      else if ev_direction ev = ''entry'' then bucket_events ws we events (entries @ [ev]) exits unk
      else if ev_direction ev = ''exit'' then bucket_events ws we events entries (exits @ [ev]) unk
      else bucket_events ws we events entries exits unk)"

definition aggregate_events :: "attendance_event_row list \<Rightarrow> i64 \<Rightarrow> i64 \<Rightarrow> aggregated" where
  "aggregate_events events window_start window_end =
     (case bucket_events window_start window_end events [] [] False of (entries0, exits0, unk) \<Rightarrow>
        let entries = sort_key ev_captured_at entries0;
            exits = sort_key ev_captured_at exits0
        in \<lparr>canonical_entry = (case entries of [] \<Rightarrow> None | e # _ \<Rightarrow> Some (ev_captured_at e)),
            canonical_exit = (if exits = [] then None else Some (ev_captured_at (last exits))),
            unknown_in_window = unk,
            entries_in_window = entries,
            exits_in_window = exits\<rparr>)"

datatype kind = Entry | Exit

fun pair_scan :: "(i64 \<times> kind) list \<Rightarrow> i64 option \<Rightarrow> (i64 \<times> i64) list \<Rightarrow> (i64 \<times> i64) list \<times> i64 option" where
  "pair_scan [] open_entry intervals = (intervals, open_entry)"
| "pair_scan ((ts, Entry) # timeline) open_entry intervals =
     (case open_entry of
        None \<Rightarrow> pair_scan timeline (Some ts) intervals
      | Some _ \<Rightarrow> pair_scan timeline open_entry intervals)"
| "pair_scan ((ts, Exit) # timeline) open_entry intervals =
     (case open_entry of
        Some start \<Rightarrow> pair_scan timeline None (intervals @ [(start, ts)])
      | None \<Rightarrow> pair_scan timeline None intervals)"

definition pair_work_intervals ::
  "attendance_event_row list \<Rightarrow> attendance_event_row list \<Rightarrow> (i64 \<times> i64) list \<times> bool" where
  "pair_work_intervals entries exits =
     (let timeline = sort_key fst
            (map (\<lambda>e. (ev_captured_at e, Entry)) entries @ map (\<lambda>e. (ev_captured_at e, Exit)) exits)
      in case pair_scan timeline None [] of
           (intervals, open_entry) \<Rightarrow> (intervals, open_entry \<noteq> None))"

section \<open>Filtering\<close>

definition in_window :: "i64 \<Rightarrow> i64 \<Rightarrow> attendance_event_row \<Rightarrow> bool" where
  "in_window ws we e \<longleftrightarrow> ws \<le> ev_captured_at e \<and> ev_captured_at e \<le> we"

definition window_entries :: "i64 \<Rightarrow> i64 \<Rightarrow> attendance_event_row list \<Rightarrow> attendance_event_row list" where
  "window_entries ws we = filter (\<lambda>e. in_window ws we e \<and> \<not> ev_is_unknown e \<and> ev_direction e = ''entry'')"

definition window_exits :: "i64 \<Rightarrow> i64 \<Rightarrow> attendance_event_row list \<Rightarrow> attendance_event_row list" where
  "window_exits ws we = filter (\<lambda>e. in_window ws we e \<and> \<not> ev_is_unknown e \<and> ev_direction e = ''exit'')"

lemma bucket_events_filter:
  "bucket_events ws we evs ens exs unk =
     (ens @ window_entries ws we evs, exs @ window_exits ws we evs,
      unk \<or> (\<exists>e \<in> set evs. in_window ws we e \<and> ev_is_unknown e))"
  by (induction ws we evs ens exs unk rule: bucket_events.induct)
    (auto simp: window_entries_def window_exits_def in_window_def)

lemma aggregate_events_simps [simp]:
  "entries_in_window (aggregate_events evs ws we) = sort_key ev_captured_at (window_entries ws we evs)"
  "exits_in_window (aggregate_events evs ws we) = sort_key ev_captured_at (window_exits ws we evs)"
  "unknown_in_window (aggregate_events evs ws we) \<longleftrightarrow>
     (\<exists>e \<in> set evs. in_window ws we e \<and> ev_is_unknown e)"
  by (simp_all add: aggregate_events_def bucket_events_filter Let_def)

lemma canonical_entry_eq:
  "canonical_entry (aggregate_events evs ws we) =
     (if window_entries ws we evs = [] then None
      else Some (Min (ev_captured_at ` set (window_entries ws we evs))))"
proof -
  let ?es = "sort_key ev_captured_at (window_entries ws we evs)"
  have s: "set ?es = set (window_entries ws we evs)" by simp
  show ?thesis
  proof (cases ?es)
    case Nil
    then have "window_entries ws we evs = []" by (metis set_empty s)
    then show ?thesis by (simp add: aggregate_events_def bucket_events_filter Let_def)
  next
    case (Cons e r)
    have so: "sorted (map ev_captured_at ?es)" by simp
    have "Min (ev_captured_at ` set ?es) = ev_captured_at e"
      by (rule Min_eqI) (use so in \<open>auto simp: Cons\<close>)
    then have "Min (ev_captured_at ` set (window_entries ws we evs)) = ev_captured_at e"
      by (simp only: s)
    moreover have "window_entries ws we evs \<noteq> []" using Cons s by force
    ultimately show ?thesis
      using Cons by (simp add: aggregate_events_def bucket_events_filter Let_def)
  qed
qed

lemma canonical_exit_eq:
  "canonical_exit (aggregate_events evs ws we) =
     (if window_exits ws we evs = [] then None
      else Some (Max (ev_captured_at ` set (window_exits ws we evs))))"
proof -
  let ?es = "sort_key ev_captured_at (window_exits ws we evs)"
  have s: "set ?es = set (window_exits ws we evs)" by simp
  show ?thesis
  proof (cases "?es = []")
    case True
    then have "window_exits ws we evs = []" by (metis set_empty s)
    then show ?thesis by (simp add: aggregate_events_def bucket_events_filter Let_def)
  next
    case False
    have so: "sorted (map ev_captured_at ?es)" by simp
    have "Max (ev_captured_at ` set ?es) = ev_captured_at (last ?es)"
    proof (rule Max_eqI)
      show "x \<le> ev_captured_at (last ?es)" if "x \<in> ev_captured_at ` set ?es" for x
        using that sorted_map_last [OF so] by blast
      show "ev_captured_at (last ?es) \<in> ev_captured_at ` set ?es"
        by (rule imageI, rule last_in_set) (rule False)
    qed simp
    then have "Max (ev_captured_at ` set (window_exits ws we evs)) = ev_captured_at (last ?es)"
      by (simp only: s)
    moreover have "window_exits ws we evs \<noteq> []" using False s by force
    ultimately show ?thesis
      using False by (simp add: aggregate_events_def bucket_events_filter Let_def)
  qed
qed

section \<open>Pairing\<close>

text \<open>
  The employee is inside during second \<open>t\<close> (the half-open \<open>[t, t+1)\<close>) when some
  entry at or before \<open>t\<close> is not followed by an exit up to \<open>t\<close>; an inside second
  counts as worked only when an exit later closes the interval.
\<close>

definition inside_at :: "int set \<Rightarrow> int set \<Rightarrow> int \<Rightarrow> bool" where
  "inside_at ens exs t \<longleftrightarrow> (\<exists>a \<in> ens. a \<le> t \<and> (\<forall>x \<in> exs. \<not> (a \<le> x \<and> x \<le> t)))"

definition worked_at :: "int set \<Rightarrow> int set \<Rightarrow> int \<Rightarrow> bool" where
  "worked_at ens exs t \<longleftrightarrow> inside_at ens exs t \<and> (\<exists>x \<in> exs. t < x)"

definition covered :: "(int \<times> int) list \<Rightarrow> int \<Rightarrow> bool" where
  "covered ivs t \<longleftrightarrow> (\<exists>(s, e) \<in> set ivs. s \<le> t \<and> t < e)"

text \<open>Time order, and at one instant the entries before the exits (the sort is stable).\<close>

definition tl_le :: "int \<times> kind \<Rightarrow> int \<times> kind \<Rightarrow> bool" where
  "tl_le p q \<longleftrightarrow> fst p < fst q \<or> (fst p = fst q \<and> (snd p = Exit \<longrightarrow> snd q = Exit))"

definition entry_times :: "(int \<times> kind) list \<Rightarrow> int set" where
  "entry_times tln = {t. (t, Entry) \<in> set tln}"

definition exit_times :: "(int \<times> kind) list \<Rightarrow> int set" where
  "exit_times tln = {t. (t, Exit) \<in> set tln}"

lemma times_simps [simp]:
  "entry_times [] = {}" "exit_times [] = {}"
  "entry_times ((t, Entry) # tln) = insert t (entry_times tln)"
  "entry_times ((t, Exit) # tln) = entry_times tln"
  "exit_times ((t, Exit) # tln) = insert t (exit_times tln)"
  "exit_times ((t, Entry) # tln) = exit_times tln"
  by (auto simp: entry_times_def exit_times_def)

lemma sort_key_tl_le:
  assumes "\<forall>p \<in> set xs. snd p = Entry" and "\<forall>p \<in> set ys. snd p = Exit"
  shows "sorted_wrt tl_le (sort_key fst (xs @ ys))"
proof -
  let ?l = "sort_key fst (xs @ ys)"
  have so: "sorted (map fst ?l)" by simp
  have st: "filter (\<lambda>p. fst p = k) ?l = filter (\<lambda>p. fst p = k) (xs @ ys)" for k
    by (rule stable_sort_key_sort_key [unfolded stable_sort_key_def, rule_format])
  show ?thesis
    unfolding sorted_wrt_iff_nth_less
  proof (intro allI impI)
    fix i j assume ij: "i < j" "j < length ?l"
    let ?p = "?l ! i" and ?q = "?l ! j"
    have le: "fst ?p \<le> fst ?q"
      using sorted_nth_mono [OF so, of i j] ij by simp
    have "snd ?q = Exit" if eq: "fst ?p = fst ?q" and ex: "snd ?p = Exit"
    proof (rule ccontr)
      assume "snd ?q \<noteq> Exit"
      then have qe: "snd ?q = Entry" by (cases "snd ?q") auto
      define k where "k = fst ?q"
      have "?l = take j ?l @ ?q # drop (Suc j) ?l"
        using ij(2) by (rule id_take_nth_drop)
      moreover have "?p \<in> set (take j ?l)"
        using ij by (auto simp: in_set_conv_nth intro!: exI [of _ i])
      ultimately obtain us vs where "?l = us @ ?q # vs" "?p \<in> set us" by blast
      then have "filter (\<lambda>p. fst p = k) ?l
          = filter (\<lambda>p. fst p = k) us @ ?q # filter (\<lambda>p. fst p = k) vs"
        by (metis (mono_tags, lifting) filter.simps(2) filter_append k_def)
      then have "filter (\<lambda>p. fst p = k) xs @ filter (\<lambda>p. fst p = k) ys
          = filter (\<lambda>p. fst p = k) us @ ?q # filter (\<lambda>p. fst p = k) vs"
        using st [of k] by simp
      then obtain as bs where "filter (\<lambda>p. fst p = k) xs @ filter (\<lambda>p. fst p = k) ys = as @ ?q # bs"
        and "?p \<in> set as"
        using \<open>?p \<in> set us\<close> eq by (simp add: k_def)
      then have "?p \<in> set (filter (\<lambda>p. fst p = k) xs) \<or> ?q \<in> set (filter (\<lambda>p. fst p = k) ys)"
        by (rule append_split_order)
      with assms ex qe show False by auto
    qed
    with le show "tl_le ?p ?q" by (auto simp: tl_le_def)
  qed
qed

text \<open>
  The scan, generalised over its state: \<open>open_entry\<close> stands for an entry before the rest
  of the timeline that no exit has closed.
\<close>

lemma pair_scan_acc:
  "pair_scan tln opn ivs = (ivs @ fst (pair_scan tln opn []), snd (pair_scan tln opn []))"
proof (induction tln arbitrary: opn ivs)
  case Nil
  then show ?case by simp
next
  case (Cons p tln)
  obtain ts k where p: "p = (ts, k)" by (cases p)
  have IH: "pair_scan tln None (jvs @ [q]) =
      (jvs @ [q] @ fst (pair_scan tln None []), snd (pair_scan tln None []))" for jvs q
    using Cons.IH [of None "jvs @ [q]"] by simp
  show ?case
    using Cons.IH [of None ivs] Cons.IH [of "Some ts" ivs] Cons.IH [of opn ivs] IH [of ivs] IH [of "[]"]
    by (cases k; cases opn) (simp_all add: p)
qed

lemma pair_scan_exit:
  "fst (pair_scan tln None [(s, ts)]) = (s, ts) # fst (pair_scan tln None [])"
  "snd (pair_scan tln None [(s, ts)]) = snd (pair_scan tln None [])"
  using pair_scan_acc [of tln None "[(s, ts)]"] by simp_all

lemma covered_simps [simp]:
  "covered [] t \<longleftrightarrow> False" "covered ((s, e) # ivs) t \<longleftrightarrow> (s \<le> t \<and> t < e) \<or> covered ivs t"
  by (auto simp: covered_def)

lemma tl_le_times:
  assumes "\<forall>q \<in> set tln. tl_le p q"
  shows "x \<in> entry_times tln \<Longrightarrow> fst p \<le> x" "x \<in> exit_times tln \<Longrightarrow> fst p \<le> x"
    "snd p = Exit \<Longrightarrow> x \<in> entry_times tln \<Longrightarrow> fst p < x"
  using assms by (auto simp: entry_times_def exit_times_def tl_le_def dest!: bspec)

lemma worked_at_dup:
  assumes "s \<le> ts" "\<forall>x \<in> X. ts \<le> x"
  shows "worked_at (insert ts (insert s E)) X t \<longleftrightarrow> worked_at (insert s E) X t"
proof -
  have "ts \<le> t \<and> (\<forall>x \<in> X. \<not> (ts \<le> x \<and> x \<le> t)) \<Longrightarrow> s \<le> t \<and> (\<forall>x \<in> X. \<not> (s \<le> x \<and> x \<le> t))"
    using assms by auto
  then show ?thesis unfolding worked_at_def inside_at_def by blast
qed

lemma worked_at_orphan:
  assumes "\<forall>a \<in> E. ts < a"
  shows "worked_at E (insert ts X) t \<longleftrightarrow> worked_at E X t"
proof -
  have "inside_at E (insert ts X) t \<longleftrightarrow> inside_at E X t"
    using assms unfolding inside_at_def by (metis insert_iff linorder_not_le)
  moreover have "inside_at E X t \<Longrightarrow> ts < t"
    using assms unfolding inside_at_def by force
  ultimately show ?thesis unfolding worked_at_def by auto
qed

lemma worked_at_close:
  assumes "s \<le> ts" "\<forall>a \<in> E. ts < a" "\<forall>x \<in> X. ts \<le> x"
  shows "worked_at (insert s E) (insert ts X) t \<longleftrightarrow> (s \<le> t \<and> t < ts) \<or> worked_at E X t"
proof (cases "t < ts")
  case True
  then have "\<not> inside_at E X t" using assms(2) unfolding inside_at_def by fastforce
  moreover have "inside_at (insert s E) (insert ts X) t \<longleftrightarrow> s \<le> t"
    using True assms unfolding inside_at_def by fastforce
  ultimately show ?thesis using True unfolding worked_at_def by auto
next
  case False
  then have "inside_at (insert s E) (insert ts X) t \<longleftrightarrow> inside_at E X t"
    using assms(1,2) unfolding inside_at_def by (metis insert_iff leI linorder_not_le)
  with False show ?thesis unfolding worked_at_def by auto
qed

lemma pair_scan_covered:
  assumes "sorted_wrt tl_le tln" and "\<forall>s. opn = Some s \<longrightarrow> (\<forall>q \<in> set tln. s \<le> fst q)"
  shows "covered (fst (pair_scan tln opn [])) t \<longleftrightarrow>
    worked_at (entry_times tln \<union> set_option opn) (exit_times tln) t"
  using assms
proof (induction tln arbitrary: opn)
  case Nil
  then show ?case by (simp add: worked_at_def)
next
  case (Cons p tln)
  obtain ts k where p: "p = (ts, k)" by (cases p)
  from Cons.prems have so: "sorted_wrt tl_le tln" and le: "\<forall>q \<in> set tln. tl_le (ts, k) q"
    by (auto simp: p)
  note tm = tl_le_times [OF le, simplified]
  have ge: "\<forall>q \<in> set tln. ts \<le> fst q" using le by (auto simp: tl_le_def)
  show ?case
  proof (cases k)
    case Entry
    show ?thesis
    proof (cases opn)
      case None
      have "covered (fst (pair_scan tln (Some ts) [])) t \<longleftrightarrow>
          worked_at (entry_times tln \<union> {ts}) (exit_times tln) t"
        using Cons.IH [OF so, of "Some ts"] ge by simp
      then show ?thesis by (simp add: p Entry None insert_commute)
    next
      case (Some s)
      have "covered (fst (pair_scan tln (Some s) [])) t \<longleftrightarrow>
          worked_at (entry_times tln \<union> {s}) (exit_times tln) t"
        using Cons.IH [OF so, of "Some s"] Cons.prems(2) Some by simp
      moreover have "s \<le> ts" using Cons.prems(2) Some p by simp
      then have "worked_at (insert ts (insert s (entry_times tln))) (exit_times tln) t
          \<longleftrightarrow> worked_at (insert s (entry_times tln)) (exit_times tln) t"
        using tm(2) by (intro worked_at_dup) auto
      ultimately show ?thesis by (simp add: p Entry Some insert_commute)
    qed
  next
    case Exit
    have nt: "x \<in> entry_times tln \<Longrightarrow> ts < x" for x using tm(3) Exit by simp
    have IH: "covered (fst (pair_scan tln None [])) t \<longleftrightarrow> worked_at (entry_times tln) (exit_times tln) t"
      using Cons.IH [OF so, of None] by simp
    show ?thesis
    proof (cases opn)
      case None
      have "worked_at (entry_times tln) (insert ts (exit_times tln)) t
          \<longleftrightarrow> worked_at (entry_times tln) (exit_times tln) t"
        using nt by (intro worked_at_orphan) auto
      with IH show ?thesis by (simp add: p Exit None)
    next
      case (Some s)
      have s: "s \<le> ts" using Cons.prems(2) Some p by simp
      have "worked_at (insert s (entry_times tln)) (insert ts (exit_times tln)) t
          \<longleftrightarrow> (s \<le> t \<and> t < ts) \<or> worked_at (entry_times tln) (exit_times tln) t"
        using s nt tm(2) by (intro worked_at_close) auto
      with IH show ?thesis by (simp add: p Exit Some pair_scan_exit)
    qed
  qed
qed

text \<open>
  The closed intervals are in time order and pairwise disjoint, each starts at an entry
  and ends at an exit, and an entry is left open exactly when some entry has no exit at
  or after it.
\<close>

definition chronological :: "(int \<times> int) list \<Rightarrow> bool" where
  "chronological ivs \<longleftrightarrow> sorted_wrt (\<lambda>p q. snd p < fst q) ivs \<and> (\<forall>p \<in> set ivs. fst p \<le> snd p)"

lemma chronological_simps [simp]:
  "chronological []"
  "chronological (p # ivs) \<longleftrightarrow> fst p \<le> snd p \<and> (\<forall>q \<in> set ivs. snd p < fst q) \<and> chronological ivs"
  by (auto simp: chronological_def)

lemma pair_scan_ends:
  "(s, e) \<in> set (fst (pair_scan tln opn [])) \<Longrightarrow>
    s \<in> entry_times tln \<union> set_option opn \<and> e \<in> exit_times tln"
proof (induction tln arbitrary: opn)
  case Nil
  then show ?case by simp
next
  case (Cons p tln)
  obtain ts k where p: "p = (ts, k)" by (cases p)
  show ?case
    using Cons.prems Cons.IH [of None] Cons.IH [of opn] Cons.IH [of "Some ts"]
    by (cases k; cases opn) (auto simp: p pair_scan_exit)
qed

lemma pair_scan_chronological:
  assumes "sorted_wrt tl_le tln" and "\<forall>s. opn = Some s \<longrightarrow> (\<forall>q \<in> set tln. s \<le> fst q)"
  shows "chronological (fst (pair_scan tln opn []))"
  using assms
proof (induction tln arbitrary: opn)
  case Nil
  then show ?case by simp
next
  case (Cons p tln)
  obtain ts k where p: "p = (ts, k)" by (cases p)
  from Cons.prems have so: "sorted_wrt tl_le tln" and le: "\<forall>q \<in> set tln. tl_le (ts, k) q"
    by (auto simp: p)
  have ge: "\<forall>q \<in> set tln. ts \<le> fst q" using le by (auto simp: tl_le_def)
  have IH0: "chronological (fst (pair_scan tln None []))" using Cons.IH [OF so, of None] by simp
  show ?case
  proof (cases k)
    case Entry
    have "chronological (fst (pair_scan tln (Some ts) []))"
      using Cons.IH [OF so, of "Some ts"] ge by simp
    moreover have "chronological (fst (pair_scan tln opn []))" if "opn = Some s" for s
      using Cons.IH [OF so, of opn] Cons.prems(2) that by simp
    ultimately show ?thesis by (cases opn) (simp_all add: p Entry)
  next
    case Exit
    have "ts < fst q" if "q \<in> set (fst (pair_scan tln None []))" for q
      using pair_scan_ends [of "fst q" "snd q" tln None] that tl_le_times(3) [OF le, of "fst q"] Exit
      by simp
    with IH0 Cons.prems(2) show ?thesis
      by (cases opn) (auto simp: p Exit pair_scan_exit)
  qed
qed

lemma pair_scan_open:
  assumes "sorted_wrt tl_le tln" and "\<forall>s. opn = Some s \<longrightarrow> (\<forall>q \<in> set tln. s \<le> fst q)"
  shows "snd (pair_scan tln opn []) \<noteq> None \<longleftrightarrow>
    (\<exists>a \<in> entry_times tln \<union> set_option opn. \<forall>x \<in> exit_times tln. x < a)"
  using assms
proof (induction tln arbitrary: opn)
  case Nil
  then show ?case by auto
next
  case (Cons p tln)
  obtain ts k where p: "p = (ts, k)" by (cases p)
  from Cons.prems have so: "sorted_wrt tl_le tln" and le: "\<forall>q \<in> set tln. tl_le (ts, k) q"
    by (auto simp: p)
  note tm = tl_le_times [OF le, simplified]
  have ge: "\<forall>q \<in> set tln. ts \<le> fst q" using le by (auto simp: tl_le_def)
  note IH0 = Cons.IH [OF so, of None, simplified]
  show ?case
  proof (cases k)
    case Entry
    have IH: "snd (pair_scan tln (Some ts) []) \<noteq> None \<longleftrightarrow>
        (\<exists>a \<in> insert ts (entry_times tln). \<forall>x \<in> exit_times tln. x < a)"
      using Cons.IH [OF so, of "Some ts"] ge by simp
    show ?thesis
    proof (cases opn)
      case None
      with IH show ?thesis by (simp add: p Entry)
    next
      case (Some s)
      have s: "s \<le> ts" using Cons.prems(2) Some p by simp
      have "snd (pair_scan tln (Some s) []) \<noteq> None \<longleftrightarrow>
          (\<exists>a \<in> insert s (entry_times tln). \<forall>x \<in> exit_times tln. x < a)"
        using Cons.IH [OF so, of "Some s"] Cons.prems(2) Some by simp
      also have "\<dots> \<longleftrightarrow> (\<exists>a \<in> insert s (insert ts (entry_times tln)). \<forall>x \<in> exit_times tln. x < a)"
        using s tm(2) by (auto simp: not_less dest: leD)
      finally show ?thesis by (simp add: p Entry Some insert_commute)
    qed
  next
    case Exit
    have nt: "x \<in> entry_times tln \<Longrightarrow> ts < x" for x using tm(3) Exit by simp
    have "s \<le> ts" if "opn = Some s" for s using Cons.prems(2) that p by simp
    with IH0 nt show ?thesis
      by (cases opn) (auto simp: p Exit pair_scan_exit dest: leD)
  qed
qed

lemma card_covered:
  "chronological ivs \<Longrightarrow>
    finite {t. covered ivs t} \<and> int (card {t. covered ivs t}) = (\<Sum>p\<leftarrow>ivs. snd p - fst p)"
proof (induction ivs)
  case Nil
  then show ?case by simp
next
  case (Cons p ivs)
  obtain s e where p: "p = (s, e)" by (cases p)
  have se: "s \<le> e" and ch: "chronological ivs" and gt: "\<forall>q \<in> set ivs. e < fst q"
    using Cons.prems by (auto simp: p)
  have eq: "{t. covered (p # ivs) t} = {s..<e} \<union> {t. covered ivs t}"
    by (auto simp: p)
  have "{s..<e} \<inter> {t. covered ivs t} = {}"
    using gt by (fastforce simp: covered_def)
  then have "card {t. covered (p # ivs) t} = card {s..<e} + card {t. covered ivs t}"
    unfolding eq using Cons.IH [OF ch] by (subst card_Un_disjoint) auto
  then show ?case
    using Cons.IH [OF ch] se by (simp add: eq p)
qed

section \<open>The pairing of two event lists\<close>

definition stamps :: "attendance_event_row list \<Rightarrow> int set" where
  "stamps es = ev_captured_at ` set es"

definition pair_timeline :: "attendance_event_row list \<Rightarrow> attendance_event_row list \<Rightarrow> (int \<times> kind) list" where
  "pair_timeline ens exs = sort_key fst
     (map (\<lambda>e. (ev_captured_at e, Entry)) ens @ map (\<lambda>e. (ev_captured_at e, Exit)) exs)"

lemma pair_timeline_sorted: "sorted_wrt tl_le (pair_timeline ens exs)"
  unfolding pair_timeline_def by (rule sort_key_tl_le) auto

lemma pair_timeline_times [simp]:
  "entry_times (pair_timeline ens exs) = stamps ens" "exit_times (pair_timeline ens exs) = stamps exs"
  by (auto simp: pair_timeline_def entry_times_def exit_times_def stamps_def)

lemma pair_work_intervals_eq:
  "pair_work_intervals ens exs =
     (fst (pair_scan (pair_timeline ens exs) None []), snd (pair_scan (pair_timeline ens exs) None []) \<noteq> None)"
  by (simp add: pair_work_intervals_def pair_timeline_def Let_def split: prod.split)

lemma pair_work_intervals_chronological: "chronological (fst (pair_work_intervals ens exs))"
  using pair_scan_chronological [OF pair_timeline_sorted, of None] by (simp add: pair_work_intervals_eq)

lemma pair_work_intervals_covered:
  "covered (fst (pair_work_intervals ens exs)) t \<longleftrightarrow> worked_at (stamps ens) (stamps exs) t"
  using pair_scan_covered [OF pair_timeline_sorted, of None] by (simp add: pair_work_intervals_eq)

lemma pair_work_intervals_open:
  "snd (pair_work_intervals ens exs) \<longleftrightarrow> (\<exists>a \<in> stamps ens. \<forall>x \<in> stamps exs. x < a)"
  using pair_scan_open [OF pair_timeline_sorted, of None] by (simp add: pair_work_intervals_eq)

lemma pair_work_intervals_ends:
  "(s, e) \<in> set (fst (pair_work_intervals ens exs)) \<Longrightarrow> s \<in> stamps ens \<and> e \<in> stamps exs"
  using pair_scan_ends [of s e "pair_timeline ens exs" None] by (simp add: pair_work_intervals_eq)

lemma finite_worked_at: "finite {t. worked_at (stamps ens) (stamps exs) t}"
  using card_covered [OF pair_work_intervals_chronological] by (simp add: pair_work_intervals_covered)

lemma sum_intervals_worked:
  "(\<Sum>p\<leftarrow>fst (pair_work_intervals ens exs). snd p - fst p) =
     int (card {t. worked_at (stamps ens) (stamps exs) t})"
  using card_covered [OF pair_work_intervals_chronological] by (simp add: pair_work_intervals_covered)

text \<open>The result depends only on the timestamps, not on the order rows are read in.\<close>

lemma pair_work_intervals_cong:
  assumes "mset (map ev_captured_at ens) = mset (map ev_captured_at ens')"
    and "mset (map ev_captured_at exs) = mset (map ev_captured_at exs')"
  shows "pair_work_intervals ens exs = pair_work_intervals ens' exs'"
proof -
  have "pair_timeline ens exs = pair_timeline ens' exs'"
  proof -
    define key where "key = (\<lambda>p::int \<times> kind. 2 * fst p + (if snd p = Exit then 1 else 0))"
    have inj: "inj key"
    proof (rule injI)
      fix p q assume eq: "key p = key q"
      obtain a k b l where pq: "p = (a, k)" "q = (b, l)" by (cases p; cases q)
      have "2 * a \<noteq> 2 * b + 1" "2 * a + 1 \<noteq> 2 * b" by presburger+
      with eq show "p = q" by (cases k; cases l) (simp_all add: pq key_def)
    qed
    have "sorted (map key (pair_timeline as bs))" for as bs
      using pair_timeline_sorted [of as bs]
      by (auto simp: sorted_wrt_map key_def tl_le_def elim!: sorted_wrt_mono_rel [rotated])
    moreover have "mset (map key (pair_timeline ens exs)) = mset (map key (pair_timeline ens' exs'))"
    proof -
      have tm: "mset (map key (pair_timeline as bs)) =
          image_mset (\<lambda>t. 2 * t) (mset (map ev_captured_at as)) +
          image_mset (\<lambda>t. 2 * t + 1) (mset (map ev_captured_at bs))" for as bs
        by (simp add: pair_timeline_def key_def image_mset.compositionality comp_def)
      show ?thesis unfolding tm assms ..
    qed
    ultimately have "map key (pair_timeline ens exs) = map key (pair_timeline ens' exs')"
      by (metis properties_for_sort)
    then show ?thesis using inj by (simp add: inj_map_eq_map)
  qed
  then show ?thesis by (simp add: pair_work_intervals_eq)
qed

section \<open>Anchor dates\<close>

lemma anchor_dates_day_shift:
  "\<not> is_overnight_shift dept \<Longrightarrow> anchor_dates_for_instant c t own dept rules tz = Some [own]"
  by (simp add: anchor_dates_for_instant_def)

lemma anchor_dates_subset:
  "anchor_dates_for_instant c t own dept rules tz = Some ds \<Longrightarrow>
    ds \<noteq> [] \<and> set ds \<subseteq> {own - 1, own} \<and> distinct ds"
  by (auto simp: anchor_dates_for_instant_def date_add_def bind_eq_Some_conv Let_def
    split: if_splits bool.splits prod.splits)

lemma anchor_dates_claimed:
  assumes "is_overnight_shift dept"
    and "anchor_dates_for_instant c t own dept rules tz = Some ds"
    and "d = own - 1 \<or> d = own" and "date_ok c (own - 1)"
    and "shift_window c d dept rules tz = Some (ws, we, ns, ne)" and "ws \<le> t" "t \<le> we"
  shows "d \<in> set ds"
  using assms
  by (auto simp: anchor_dates_for_instant_def date_add_def bind_eq_Some_conv Let_def
    split: if_splits bool.splits prod.splits)

text \<open>C11. Pairing is sound and complete: the closed intervals are in time order and disjoint,
  every interval runs from an entry to an exit, a second is covered exactly when the
  employee had clocked in, not yet clocked out, and later does clock out, and the open
  flag reports exactly an entry with no exit at or after it.\<close>

theorem pairing_sound_complete:
  "chronological (fst (pair_work_intervals ens exs)) \<and>
   (\<forall>p. p \<in> set (fst (pair_work_intervals ens exs)) \<longrightarrow> fst p \<in> stamps ens \<and> snd p \<in> stamps exs) \<and>
   (\<forall>t. covered (fst (pair_work_intervals ens exs)) t \<longleftrightarrow> worked_at (stamps ens) (stamps exs) t) \<and>
   (snd (pair_work_intervals ens exs) \<longleftrightarrow> (\<exists>a \<in> stamps ens. \<forall>x \<in> stamps exs. x < a))"
proof (intro conjI allI impI)
  fix p assume "p \<in> set (fst (pair_work_intervals ens exs))"
  then have "(fst p, snd p) \<in> set (fst (pair_work_intervals ens exs))" by simp
  note ends = pair_work_intervals_ends [OF this]
  show "fst p \<in> stamps ens" using ends ..
  show "snd p \<in> stamps exs" using ends ..
qed (rule pair_work_intervals_chronological pair_work_intervals_covered pair_work_intervals_open)+

definition punch :: "i64 \<Rightarrow> attendance_event_row" where
  "punch t = \<lparr>ev_id = ''p'', ev_employee_id = None, ev_device_id = ''d'', ev_direction = ''entry'',
     ev_captured_at = t, ev_is_unknown = False\<rparr>"

theorem pairing_sound_complete_witness:
  "(100, 400) \<in> set (fst (pair_work_intervals [punch 900, punch 100] [punch 400])) \<and>
   400 \<in> stamps [punch 400] \<and> snd (pair_work_intervals [punch 900, punch 100] [punch 400])"
proof -
  have "pair_work_intervals [punch 900, punch 100] [punch 400] = ([(100, 400)], True)" by code_simp
  then show ?thesis
    using pairing_sound_complete [of "[punch 900, punch 100]" "[punch 400]"] by simp
qed

text \<open>No anchor date that owns an instant is missed (H-02): the dates returned are distinct
  and among the instant's own local date and the day before, at least one is returned,
  and for an overnight department each of the two whose real window contains the instant
  is among them; a day-shift department always gets its own date alone.\<close>

theorem anchor_dates_complete:
  assumes "anchor_dates_for_instant c t own dept rules tz = Some ds" and "date_ok c (own - 1)"
  shows "ds \<noteq> [] \<and> distinct ds \<and> set ds \<subseteq> {own - 1, own} \<and>
    (if is_overnight_shift dept
     then \<forall>d ws we ns ne. d \<in> {own - 1, own} \<and>
       shift_window c d dept rules tz = Some (ws, we, ns, ne) \<and> ws \<le> t \<and> t \<le> we \<longrightarrow> d \<in> set ds
     else ds = [own])"
  using anchor_dates_subset [OF assms(1)] anchor_dates_claimed [OF _ assms(1) _ assms(2)]
    anchor_dates_day_shift [of dept c t own rules tz] assms(1)
  by (cases "is_overnight_shift dept") auto

definition night_dept :: department_config where
  "night_dept = \<lparr>dc_id = ''n'', shift_start_time = ''22:00'', shift_end_time = ''06:00'',
     dc_shift_type = ''night'', is_overnight_shift = True, ordinary_daily_minutes = 480,
     lunch_mode = ''fixed'', lunch_duration_min = Some 60\<rparr>"

definition night_rules :: global_rules_row where
  "night_rules = \<lparr>late_arrival_tolerance_min = 10, early_departure_tolerance_min = 10, bonus_minutes = 0\<rparr>"

theorem anchor_dates_complete_witness:
  "anchor_dates_for_instant gregorian 1776765900 20564 night_dept night_rules caracas = Some [20563] \<and>
   20563 \<in> {20564 - 1, 20564 :: int}"
proof -
  have a: "anchor_dates_for_instant gregorian 1776765900 20564 night_dept night_rules caracas = Some [20563]"
    by code_simp
  have b: "date_ok gregorian (20564 - 1)" by (simp add: year_begin_def)
  from a anchor_dates_complete [OF a b] show ?thesis by simp
qed

end
