(* ===== verification/Engine.thy ===== *)
theory Engine
  imports Aggregation Overtime
begin

text \<open>
  \<open>compute_daily_record\<close> (calc/engine.rs): the pure function from the events, the
  department, the rules and the leave overlay of one day to its daily record.  The \<open>match (entry_ts, exit_ts)\<close> and
  its arithmetic are definitions of their own (\<open>day_part\<close>, \<open>worked_day\<close>,
  \<open>grace_minutes\<close>); \<open>None\<close> is a panic in the window.
\<close>

definition sum_seconds :: "(i64 \<times> i64) list \<Rightarrow> i64" where
  "sum_seconds intervals = foldl (\<lambda>acc (s, e). i64_add acc (max (i64_sub e s) 0)) 0 intervals"

text \<open>The cliff rule: nothing inside the grace period, the full amount past it.\<close>

definition grace_minutes :: "i64 \<Rightarrow> i64 \<Rightarrow> i64 \<Rightarrow> i64" where
  "grace_minutes raw_s tolerance bonus =
     (let grace_s = i64_mul (i64_add tolerance bonus) 60 in
      if raw_s > grace_s then max (raw_s sdiv 60) 0 else 0)"

text \<open>Worked, late and early minutes and the anomalies of a day with an entry and an exit.\<close>

definition worked_day ::
  "engine_input \<Rightarrow> aggregated \<Rightarrow> i64 \<Rightarrow> i64 \<Rightarrow> i64 \<Rightarrow> i64 \<Rightarrow> i64 \<times> i64 \<times> i64 \<times> anomaly_code list" where
  "worked_day inp agg ent exi nominal_start nominal_end =
     (let (intervals, has_open_entry) = pair_work_intervals (entries_in_window agg) (exits_in_window agg);
          anoms = (if has_open_entry then [MissingExit] else []);
          raw_seconds = sum_seconds intervals;
          raw_minutes = max (raw_seconds sdiv 60) 0;
          had_mid_shift_break = length intervals > 1;
          (lunch_ded, lunch_anom) = compute_lunch_deduction raw_minutes had_mid_shift_break (in_dept inp);
          anoms = anoms @ (case lunch_anom of None \<Rightarrow> [] | Some a \<Rightarrow> [a]);
          work = max (i64_sub raw_minutes lunch_ded) 0;
          late = grace_minutes (max (i64_sub ent nominal_start) 0)
            (late_arrival_tolerance_min (in_rules inp)) (bonus_minutes (in_rules inp));
          early = grace_minutes (max (i64_sub nominal_end exi) 0)
            (early_departure_tolerance_min (in_rules inp)) (bonus_minutes (in_rules inp))
      in (work, late, early, anoms))"

text \<open>The \<open>match (entry_ts, exit_ts)\<close> of the engine.\<close>

definition day_part ::
  "engine_input \<Rightarrow> aggregated \<Rightarrow> i64 \<Rightarrow> i64 \<Rightarrow> i64 \<times> i64 \<times> i64 \<times> anomaly_code list" where
  "day_part inp agg nominal_start nominal_end =
     (case (canonical_entry agg, canonical_exit agg) of
        (None, _) \<Rightarrow> (0, 0, 0, [MissingEntry])
      | (_, None) \<Rightarrow> (0, 0, 0, [MissingExit])
      | (Some ent, Some exi) \<Rightarrow> worked_day inp agg ent exi nominal_start nominal_end)"

definition leave_day :: "engine_input \<Rightarrow> leave_row \<Rightarrow> daily_record_output" where
  "leave_day inp leave =
     \<lparr>work_minutes = 0, overtime_minutes = 0, late_minutes = 0, early_departure_minutes = 0,
      is_rest_day_worked = False, entry_at = None, exit_at = None,
      out_leave_id = Some (lv_id leave),
      out_anomalies = (if in_events inp \<noteq> [] then [EventsOnLeaveDay] else []) @
        (if prior_record_existed inp then [RecomputeAfterEdit] else [])\<rparr>"

definition compute_daily_record :: "chrono \<Rightarrow> engine_input \<Rightarrow> daily_record_output option" where
  "compute_daily_record c inp =
     (case in_leave inp of
        Some leave \<Rightarrow> Some (leave_day inp leave)
      | None \<Rightarrow> do {
          (window_start, window_end, nominal_start, nominal_end, ambiguous) \<leftarrow>
            shift_window_with_ambiguity c (in_anchor_date inp) (in_dept inp) (in_rules inp) (in_tz inp);
          let agg = aggregate_events (in_events inp) window_start window_end;
          let anoms0 = (if ambiguous then [OvernightInferenceAmbiguous] else []) @
            (if unknown_in_window agg then [UnknownFaceInWindow] else []);
          let (work, late, early, anoms1) = day_part inp agg nominal_start nominal_end;
          let overtime = max (i64_sub work (ordinary_daily_minutes (in_dept inp))) 0;
          let anoms2 = (if work > 0 then check_overtime_caps work overtime
              (weekly_ot_minutes_so_far inp) (annual_ot_minutes_so_far inp) else []);
          let rest_day = (is_weekend c (in_anchor_date inp) \<and> work > 0);
          Some \<lparr>work_minutes = work, overtime_minutes = overtime, late_minutes = late,
            early_departure_minutes = early, is_rest_day_worked = rest_day,
            entry_at = canonical_entry agg, exit_at = canonical_exit agg, out_leave_id = None,
            out_anomalies = anoms0 @ anoms1 @ anoms2 @
              (if prior_record_existed inp then [RecomputeAfterEdit] else [])\<rparr>
        })"

section \<open>Arithmetic of one day\<close>

lemma sum_seconds_exact:
  assumes "chronological ivs" and "\<forall>(s, e) \<in> set ivs. lo \<le> s \<and> e \<le> hi"
    and "- 1000000000000000000 \<le> lo" "hi \<le> 1000000000000000000"
  shows "sum_seconds ivs = (\<Sum>p\<leftarrow>ivs. snd p - fst p)"
proof -
  have "foldl (\<lambda>acc (s, e). i64_add acc (max (i64_sub e s) 0)) a ivs = a + (\<Sum>p\<leftarrow>ivs. snd p - fst p)"
    if "0 \<le> a" "a \<le> l - lo" "lo \<le> l" "chronological ivs" "\<forall>(s, e) \<in> set ivs. l \<le> s \<and> e \<le> hi" for a l ivs
    using that
  proof (induction ivs arbitrary: a l)
    case Nil
    then show ?case by simp
  next
    case (Cons p ivs)
    obtain s e where p: "p = (s, e)" by (cases p)
    have se: "l \<le> s" "s \<le> e" "e \<le> hi" using Cons.prems by (auto simp: p)
    have "in_i64 (e - s)" "in_i64 (a + (e - s))"
      using se Cons.prems(1,2,3) assms(3,4) by (auto simp: in_i64_def i64_min_def i64_max_def)
    then have step: "i64_add a (max (i64_sub e s) 0) = a + (e - s)"
      using se by (simp add: i64_sub_exact i64_add_exact max_absorb1)
    have "foldl (\<lambda>acc (s, e). i64_add acc (max (i64_sub e s) 0)) (a + (e - s)) ivs
        = (a + (e - s)) + (\<Sum>p\<leftarrow>ivs. snd p - fst p)"
      using Cons.prems se by (intro Cons.IH [where l = e]) (auto simp: p)
    then show ?case by (simp add: p step)
  qed
  from this [of 0 lo ivs] assms show ?thesis by (simp add: sum_seconds_def)
qed

lemma grace_minutes_cliff:
  assumes "0 \<le> raw" "0 \<le> tol" "tol \<le> 60" "0 \<le> bonus" "bonus \<le> 60"
  shows "grace_minutes raw tol bonus = (if raw \<le> (tol + bonus) * 60 then 0 else raw div 60)"
proof -
  have "i64_mul (i64_add tol bonus) 60 = (tol + bonus) * 60"
    using assms by (simp add: i64_add_exact i64_mul_exact in_i64_def i64_min_def i64_max_def)
  then show ?thesis
    using assms by (simp add: grace_minutes_def Let_def sdiv_nonneg_eq_div pos_imp_zdiv_nonneg_iff max_absorb1)
qed

lemma grace_minutes_nonneg: "0 \<le> grace_minutes raw tol bonus"
  by (simp add: grace_minutes_def Let_def)

section \<open>The record\<close>

definition engine_entries :: "engine_input \<Rightarrow> i64 \<Rightarrow> i64 \<Rightarrow> int set" where
  "engine_entries inp ws we = stamps (window_entries ws we (in_events inp))"

definition engine_exits :: "engine_input \<Rightarrow> i64 \<Rightarrow> i64 \<Rightarrow> int set" where
  "engine_exits inp ws we = stamps (window_exits ws we (in_events inp))"

lemma stamps_sort_key [simp]: "stamps (sort_key k es) = stamps es"
  by (simp add: stamps_def)

lemma stamps_window_range:
  "t \<in> stamps (window_entries ws we evs) \<Longrightarrow> ws \<le> t \<and> t \<le> we"
  "t \<in> stamps (window_exits ws we evs) \<Longrightarrow> ws \<le> t \<and> t \<le> we"
  by (auto simp: stamps_def window_entries_def window_exits_def in_window_def)

text \<open>The engine's raw minutes are the worked seconds of the window, in whole minutes.\<close>

definition worked_seconds :: "engine_input \<Rightarrow> i64 \<Rightarrow> i64 \<Rightarrow> int" where
  "worked_seconds inp ws we =
     int (card {t. worked_at (engine_entries inp ws we) (engine_exits inp ws we) t})"

lemma pair_sum_seconds:
  assumes "epoch_ok ws" "epoch_ok we"
  shows "sum_seconds (fst (pair_work_intervals (entries_in_window (aggregate_events (in_events inp) ws we))
      (exits_in_window (aggregate_events (in_events inp) ws we)))) = worked_seconds inp ws we"
proof -
  let ?agg = "aggregate_events (in_events inp) ws we"
  let ?ivs = "fst (pair_work_intervals (entries_in_window ?agg) (exits_in_window ?agg))"
  have "\<forall>(s, e) \<in> set ?ivs. ws \<le> s \<and> e \<le> we"
    using pair_work_intervals_ends [of _ _ "entries_in_window ?agg" "exits_in_window ?agg"]
      stamps_window_range [of _ ws we "in_events inp"] by auto
  then have "sum_seconds ?ivs = (\<Sum>p\<leftarrow>?ivs. snd p - fst p)"
    using assms by (intro sum_seconds_exact [where lo = ws and hi = we])
      (auto simp: epoch_ok_def intro: pair_work_intervals_chronological)
  then show ?thesis
    by (simp add: sum_intervals_worked worked_seconds_def engine_entries_def engine_exits_def)
qed

text \<open>
  \<open>normal_day\<close>: the inputs of a day without leave whose window is
  \<open>(ws, we, ns, ne, amb)\<close>, within the admitted ranges.
\<close>

definition normal_day :: "chrono \<Rightarrow> engine_input \<Rightarrow> i64 \<Rightarrow> i64 \<Rightarrow> i64 \<Rightarrow> i64 \<Rightarrow> bool \<Rightarrow> bool" where
  "normal_day c inp ws we ns ne amb \<longleftrightarrow>
     in_leave inp = None \<and> rules_ok (in_rules inp) \<and>
     shift_window_with_ambiguity c (in_anchor_date inp) (in_dept inp) (in_rules inp) (in_tz inp)
       = Some (ws, we, ns, ne, amb) \<and>
     epoch_ok ws \<and> epoch_ok we \<and> epoch_ok ns \<and> epoch_ok ne"

lemma compute_daily_record_normal:
  "normal_day c inp ws we ns ne amb \<Longrightarrow> \<exists>out. compute_daily_record c inp = Some out"
  by (simp add: normal_day_def compute_daily_record_def Let_def split: prod.split)

definition lunch_of :: "engine_input \<Rightarrow> i64 \<Rightarrow> i64 \<Rightarrow> i64" where
  "lunch_of inp ws we =
     fst (compute_lunch_deduction (worked_seconds inp ws we div 60)
       (length (fst (pair_work_intervals (window_entries ws we (in_events inp))
          (window_exits ws we (in_events inp)))) > 1) (in_dept inp))"

lemma pair_work_intervals_sort_key:
  "pair_work_intervals (sort_key ev_captured_at es) (sort_key ev_captured_at xs) = pair_work_intervals es xs"
  by (rule pair_work_intervals_cong) simp_all

lemma worked_day_eq:
  assumes "epoch_ok ws" "epoch_ok we"
  shows "worked_day inp (aggregate_events (in_events inp) ws we) ent exi ns ne =
    (max (i64_sub (worked_seconds inp ws we div 60) (lunch_of inp ws we)) 0,
     grace_minutes (max (i64_sub ent ns) 0) (late_arrival_tolerance_min (in_rules inp)) (bonus_minutes (in_rules inp)),
     grace_minutes (max (i64_sub ne exi) 0) (early_departure_tolerance_min (in_rules inp)) (bonus_minutes (in_rules inp)),
     (if snd (pair_work_intervals (window_entries ws we (in_events inp)) (window_exits ws we (in_events inp)))
      then [MissingExit] else []) @
     (case snd (compute_lunch_deduction (worked_seconds inp ws we div 60)
       (length (fst (pair_work_intervals (window_entries ws we (in_events inp))
          (window_exits ws we (in_events inp)))) > 1) (in_dept inp)) of None \<Rightarrow> [] | Some a \<Rightarrow> [a]))"
proof -
  have "0 \<le> worked_seconds inp ws we" by (simp add: worked_seconds_def)
  then have "max (worked_seconds inp ws we sdiv 60) 0 = worked_seconds inp ws we div 60"
    by (simp add: sdiv_nonneg_eq_div pos_imp_zdiv_nonneg_iff max_absorb1)
  then show ?thesis
    using pair_sum_seconds [OF assms, of inp]
    by (simp add: worked_day_def lunch_of_def Let_def pair_work_intervals_sort_key case_prod_beta)
qed

definition dept_ok :: "department_config \<Rightarrow> bool" where
  "dept_ok d \<longleftrightarrow> 0 \<le> ordinary_daily_minutes d \<and> in_i64 (ordinary_daily_minutes d) \<and>
     (case lunch_duration_min d of None \<Rightarrow> True | Some m \<Rightarrow> 0 \<le> m \<and> in_i64 m)"

lemma lunch_of_nonneg: "dept_ok (in_dept inp) \<Longrightarrow> 0 \<le> lunch_of inp ws we \<and> in_i64 (lunch_of inp ws we)"
  by (auto simp: lunch_of_def compute_lunch_deduction_def dept_ok_def Let_def in_i64_def i64_min_def i64_max_def
    split: option.splits)

lemma worked_seconds_bounds:
  assumes "epoch_ok ws" "epoch_ok we"
  shows "0 \<le> worked_seconds inp ws we" "worked_seconds inp ws we \<le> max 0 (we - ws)"
proof -
  show "0 \<le> worked_seconds inp ws we" by (simp add: worked_seconds_def)
  have "{t. worked_at (engine_entries inp ws we) (engine_exits inp ws we) t} \<subseteq> {ws..<we}"
    using stamps_window_range [of _ ws we "in_events inp"]
    by (fastforce simp: worked_at_def inside_at_def engine_entries_def engine_exits_def)
  then have "card {t. worked_at (engine_entries inp ws we) (engine_exits inp ws we) t} \<le> card {ws..<we}"
    by (intro card_mono) auto
  then show "worked_seconds inp ws we \<le> max 0 (we - ws)"
    by (simp add: worked_seconds_def)
qed

lemma work_subtraction_exact:
  assumes "epoch_ok ws" "epoch_ok we" "dept_ok (in_dept inp)"
  shows "i64_sub (worked_seconds inp ws we div 60) (lunch_of inp ws we)
      = worked_seconds inp ws we div 60 - lunch_of inp ws we"
proof (rule i64_sub_exact)
  have "worked_seconds inp ws we \<le> 2000000000000000" "0 \<le> worked_seconds inp ws we"
    using worked_seconds_bounds [OF assms(1,2), of inp] assms(1,2) by (auto simp: epoch_ok_def)
  then have "0 \<le> worked_seconds inp ws we div 60" "worked_seconds inp ws we div 60 \<le> 2000000000000000"
    using div60_bounds [of "worked_seconds inp ws we"] by auto
  then show "in_i64 (worked_seconds inp ws we div 60 - lunch_of inp ws we)"
    using lunch_of_nonneg [OF assms(3), of ws we] by (auto simp: in_i64_def i64_min_def i64_max_def)
qed

lemma no_work_without_pair:
  "engine_entries inp ws we = {} \<or> engine_exits inp ws we = {} \<Longrightarrow> worked_seconds inp ws we = 0"
  by (auto simp: worked_seconds_def worked_at_def inside_at_def)

lemma canonical_engine:
  "canonical_entry (aggregate_events (in_events inp) ws we) =
     (if engine_entries inp ws we = {} then None else Some (Min (engine_entries inp ws we)))"
  "canonical_exit (aggregate_events (in_events inp) ws we) =
     (if engine_exits inp ws we = {} then None else Some (Max (engine_exits inp ws we)))"
  by (simp_all add: canonical_entry_eq canonical_exit_eq engine_entries_def engine_exits_def stamps_def)

lemma engine_range:
  assumes "E = engine_entries inp ws we" "X = engine_exits inp ws we"
  shows "E \<noteq> {} \<Longrightarrow> ws \<le> Min E \<and> Min E \<le> we" "X \<noteq> {} \<Longrightarrow> ws \<le> Max X \<and> Max X \<le> we"
proof -
  have "finite E" "finite X" by (simp_all add: assms engine_entries_def engine_exits_def stamps_def)
  then have "E \<noteq> {} \<Longrightarrow> Min E \<in> E" "X \<noteq> {} \<Longrightarrow> Max X \<in> X" by simp_all
  then show "E \<noteq> {} \<Longrightarrow> ws \<le> Min E \<and> Min E \<le> we" "X \<noteq> {} \<Longrightarrow> ws \<le> Max X \<and> Max X \<le> we"
    using stamps_window_range [of _ ws we "in_events inp"]
    by (simp_all add: assms engine_entries_def engine_exits_def)
qed

text \<open>The record of a day without leave, with its match result named.\<close>

lemma compute_daily_record_fields:
  assumes n: "normal_day c inp ws we ns ne amb" and o: "compute_daily_record c inp = Some out"
    and q: "day_part inp (aggregate_events (in_events inp) ws we) ns ne = (work, late, early, anoms)"
  shows "work_minutes out = work" "late_minutes out = late" "early_departure_minutes out = early"
    "overtime_minutes out = max (i64_sub work (ordinary_daily_minutes (in_dept inp))) 0"
    "is_rest_day_worked out \<longleftrightarrow> is_weekend c (in_anchor_date inp) \<and> 0 < work"
    "entry_at out = canonical_entry (aggregate_events (in_events inp) ws we)"
    "exit_at out = canonical_exit (aggregate_events (in_events inp) ws we)"
    "out_leave_id out = None"
    "out_anomalies out = (if amb then [OvernightInferenceAmbiguous] else []) @
       (if \<exists>e \<in> set (in_events inp). in_window ws we e \<and> ev_is_unknown e then [UnknownFaceInWindow] else []) @
       anoms @
       (if work > 0 then check_overtime_caps work (overtime_minutes out)
          (weekly_ot_minutes_so_far inp) (annual_ot_minutes_so_far inp) else []) @
       (if prior_record_existed inp then [RecomputeAfterEdit] else [])"
  using o n [unfolded normal_day_def]
  unfolding compute_daily_record_def Let_def
  by (simp_all add: q) (auto simp: q)

lemma day_part_cases:
  assumes ep: "epoch_ok ws" "epoch_ok we"
  shows "engine_entries inp ws we = {} \<Longrightarrow>
      day_part inp (aggregate_events (in_events inp) ws we) ns ne = (0, 0, 0, [MissingEntry])"
    and "engine_entries inp ws we \<noteq> {} \<Longrightarrow> engine_exits inp ws we = {} \<Longrightarrow>
      day_part inp (aggregate_events (in_events inp) ws we) ns ne = (0, 0, 0, [MissingExit])"
    and "engine_entries inp ws we \<noteq> {} \<Longrightarrow> engine_exits inp ws we \<noteq> {} \<Longrightarrow>
      day_part inp (aggregate_events (in_events inp) ws we) ns ne =
        worked_day inp (aggregate_events (in_events inp) ws we)
          (Min (engine_entries inp ws we)) (Max (engine_exits inp ws we)) ns ne"
  by (simp_all add: day_part_def canonical_engine)

text \<open>
  The fields of the record of a normal day, in terms of the sets of entry and exit
  instants of the window.  The theorems below are read off these lemmas.
\<close>

lemma normal_day_work:
  assumes n: "normal_day c inp ws we ns ne amb" and d: "dept_ok (in_dept inp)"
    and o: "compute_daily_record c inp = Some out"
  shows "work_minutes out = max (worked_seconds inp ws we div 60 - lunch_of inp ws we) 0"
proof -
  have ep: "epoch_ok ws" "epoch_ok we" using n by (auto simp: normal_day_def)
  note dp = day_part_cases [OF ep, of inp ns ne]
  note f = compute_daily_record_fields [OF n o]
  show ?thesis
  proof (cases "engine_entries inp ws we = {} \<or> engine_exits inp ws we = {}")
    case True
    then have "work_minutes out = 0"
      using dp(1,2) f(1) by (cases "engine_entries inp ws we = {}") auto
    then show ?thesis
      using True no_work_without_pair [of inp ws we] lunch_of_nonneg [OF d, of ws we] by simp
  next
    case False
    then show ?thesis
      using f(1) [OF trans [OF dp(3) worked_day_eq [OF ep]]] work_subtraction_exact [OF ep d] by simp
  qed
qed

lemma normal_day_work_range:
  assumes "normal_day c inp ws we ns ne amb" "dept_ok (in_dept inp)" "compute_daily_record c inp = Some out"
  shows "0 \<le> work_minutes out" "work_minutes out \<le> 2000000000000000"
    "60 * work_minutes out \<le> max 0 (we - ws)"
proof -
  have ep: "epoch_ok ws" "epoch_ok we" using assms(1) by (auto simp: normal_day_def)
  note w = normal_day_work [OF assms] lunch_of_nonneg [OF assms(2), of ws we, THEN conjunct1]
    worked_seconds_bounds [OF ep, of inp]
  have "60 * (worked_seconds inp ws we div 60) \<le> worked_seconds inp ws we" by simp
  moreover have "work_minutes out \<le> worked_seconds inp ws we div 60"
    using w div60_bounds [of "worked_seconds inp ws we"] by auto
  ultimately show "60 * work_minutes out \<le> max 0 (we - ws)"
    using w(3,4) by linarith
  moreover show "0 \<le> work_minutes out" using w by simp
  ultimately show "work_minutes out \<le> 2000000000000000"
    using ep by (auto simp: epoch_ok_def)
qed

lemma normal_day_overtime:
  assumes "normal_day c inp ws we ns ne amb" "dept_ok (in_dept inp)" "compute_daily_record c inp = Some out"
  shows "overtime_minutes out = max (work_minutes out - ordinary_daily_minutes (in_dept inp)) 0"
proof -
  obtain w l e a where q: "day_part inp (aggregate_events (in_events inp) ws we) ns ne = (w, l, e, a)"
    by (cases "day_part inp (aggregate_events (in_events inp) ws we) ns ne") auto
  have "in_i64 (work_minutes out - ordinary_daily_minutes (in_dept inp))"
    using normal_day_work_range [OF assms] assms(2)
    by (auto simp: dept_ok_def in_i64_def i64_min_def i64_max_def)
  then show ?thesis
    using compute_daily_record_fields(1,4) [OF assms(1,3) q] by (simp add: i64_sub_exact)
qed

lemma normal_day_lateness:
  assumes n: "normal_day c inp ws we ns ne amb" and o: "compute_daily_record c inp = Some out"
    and E: "engine_entries inp ws we \<noteq> {}" and X: "engine_exits inp ws we \<noteq> {}"
  shows "late_minutes out = grace_minutes (max (Min (engine_entries inp ws we) - ns) 0)
        (late_arrival_tolerance_min (in_rules inp)) (bonus_minutes (in_rules inp))"
    and "early_departure_minutes out = grace_minutes (max (ne - Max (engine_exits inp ws we)) 0)
        (early_departure_tolerance_min (in_rules inp)) (bonus_minutes (in_rules inp))"
proof -
  have ep: "epoch_ok ws" "epoch_ok we" "epoch_ok ns" "epoch_ok ne" using n by (auto simp: normal_day_def)
  note f = compute_daily_record_fields [OF n o trans [OF day_part_cases(3) [OF ep(1,2) E X] worked_day_eq [OF ep(1,2)]]]
  have "i64_sub (Min (engine_entries inp ws we)) ns = Min (engine_entries inp ws we) - ns"
    "i64_sub ne (Max (engine_exits inp ws we)) = ne - Max (engine_exits inp ws we)"
    using engine_range [OF refl refl, where ws = ws and we = we and inp = inp] E X ep
    by (auto simp: epoch_ok_def in_i64_def i64_min_def i64_max_def intro!: i64_sub_exact)
  with f(2,3) show "late_minutes out = grace_minutes (max (Min (engine_entries inp ws we) - ns) 0)
        (late_arrival_tolerance_min (in_rules inp)) (bonus_minutes (in_rules inp))"
    "early_departure_minutes out = grace_minutes (max (ne - Max (engine_exits inp ws we)) 0)
        (early_departure_tolerance_min (in_rules inp)) (bonus_minutes (in_rules inp))"
    by simp_all
qed

section \<open>Properties\<close>

text \<open>
  A sample day for the witnesses: Monday 2026-04-20 in Caracas, shift 08:00-17:00 with a
  fixed lunch of an hour, tolerance 10 and bonus 5; the employee is in from 08:16 to
  12:00 and from 13:00 to 18:00 and a stranger is seen at 09:00.
\<close>

definition sample_dept :: department_config where
  "sample_dept = \<lparr>dc_id = ''d1'', shift_start_time = ''08:00'', shift_end_time = ''17:00'',
     dc_shift_type = ''day'', is_overnight_shift = False, ordinary_daily_minutes = 420,
     lunch_mode = ''fixed'', lunch_duration_min = Some 30\<rparr>"

definition sample_rules :: global_rules_row where
  "sample_rules = \<lparr>late_arrival_tolerance_min = 10, early_departure_tolerance_min = 60, bonus_minutes = 5\<rparr>"

definition sample_event :: "string \<Rightarrow> i64 \<Rightarrow> attendance_event_row" where
  "sample_event dir t = \<lparr>ev_id = dir, ev_employee_id = Some ''e1'', ev_device_id = ''dev'',
     ev_direction = dir, ev_captured_at = t, ev_is_unknown = False\<rparr>"

definition sample_events :: "attendance_event_row list" where
  "sample_events = [sample_event ''exit'' 1776715200, sample_event ''entry'' 1776687360,
     sample_event ''exit'' 1776700800, sample_event ''entry'' 1776704400,
     sample_event ''exit'' 1776722400,
     (sample_event ''entry'' 1776690000)\<lparr>ev_employee_id := None, ev_is_unknown := True\<rparr>]"

definition sample_day :: engine_input where
  "sample_day = \<lparr>in_events = sample_events, in_dept = sample_dept, in_rules = sample_rules,
     in_leave = None, in_anchor_date = 20563, in_tz = caracas,
     weekly_ot_minutes_so_far = 550, annual_ot_minutes_so_far = 0, prior_record_existed = True\<rparr>"

definition sample_record :: daily_record_output where
  "sample_record = \<lparr>work_minutes = 374, overtime_minutes = 0, late_minutes = 16,
     early_departure_minutes = 0, is_rest_day_worked = False,
     entry_at = Some 1776687360, exit_at = Some 1776722400, out_leave_id = None,
     out_anomalies = [UnknownFaceInWindow, RecomputeAfterEdit]\<rparr>"

lemma sample_day_record: "compute_daily_record gregorian sample_day = Some sample_record"
  by code_simp

lemma sample_day_normal:
  "normal_day gregorian sample_day 1776685500 1776722700 1776686400 1776718800 False"
  by code_simp

text \<open>C1. The worked minutes of a day without leave are the number of whole minutes among the
  seconds of the window during which the employee was clocked in and later clocked out,
  less the lunch deduction, and never negative: gaps between an exit and the next entry,
  duplicate punches and orphan exits contribute nothing.\<close>

theorem work_minutes_are_worked_seconds:
  assumes "normal_day c inp ws we ns ne amb" and "dept_ok (in_dept inp)"
    and "compute_daily_record c inp = Some out"
  shows "work_minutes out =
    max (int (card {t. worked_at (engine_entries inp ws we) (engine_exits inp ws we) t}) div 60
      - lunch_of inp ws we) 0"
  using normal_day_work [OF assms] by (simp add: worked_seconds_def)

theorem work_minutes_are_worked_seconds_witness:
  "int (card {t. worked_at (engine_entries sample_day 1776685500 1776722700)
      (engine_exits sample_day 1776685500 1776722700) t}) div 60 - 30 = 374"
proof -
  have d: "dept_ok (in_dept sample_day)" by code_simp
  have l: "lunch_of sample_day 1776685500 1776722700 = (if worked_seconds sample_day 1776685500 1776722700 div 60 > 30 then 30 else 0)"
    by (simp add: lunch_of_def compute_lunch_deduction_def sample_day_def sample_dept_def)
  show ?thesis
    using work_minutes_are_worked_seconds [OF sample_day_normal d sample_day_record] l
    by (simp add: sample_record_def worked_seconds_def split: if_splits)
qed

text \<open>Lateness and early departure follow the cliff rule: zero within the tolerance plus
  bonus, and past it the full number of minutes between the nominal boundary and the
  first entry (or last exit), not the excess over the grace.\<close>

theorem tolerance_cliff:
  assumes "normal_day c inp ws we ns ne amb" and "compute_daily_record c inp = Some out"
    and "entry_at out = Some ent" and "exit_at out = Some exi"
  shows "late_minutes out =
      (if ent - ns \<le> (late_arrival_tolerance_min (in_rules inp) + bonus_minutes (in_rules inp)) * 60
       then 0 else (ent - ns) div 60) \<and>
    early_departure_minutes out =
      (if ne - exi \<le> (early_departure_tolerance_min (in_rules inp) + bonus_minutes (in_rules inp)) * 60
       then 0 else (ne - exi) div 60)"
proof -
  obtain w l e a where q: "day_part inp (aggregate_events (in_events inp) ws we) ns ne = (w, l, e, a)"
    by (cases "day_part inp (aggregate_events (in_events inp) ws we) ns ne") auto
  have E: "engine_entries inp ws we \<noteq> {}" "ent = Min (engine_entries inp ws we)"
    and X: "engine_exits inp ws we \<noteq> {}" "exi = Max (engine_exits inp ws we)"
    using compute_daily_record_fields(6,7) [OF assms(1,2) q] assms(3,4)
    by (auto simp: canonical_engine split: if_splits)
  have r: "rules_ok (in_rules inp)" using assms(1) by (simp add: normal_day_def)
  note l = normal_day_lateness [OF assms(1,2) E(1) X(1)]
  show ?thesis
    using r by (auto simp: l E(2) X(2) rules_ok_def grace_minutes_cliff max_def)
qed

theorem tolerance_cliff_witness:
  "late_minutes sample_record = (1776687360 - 1776686400) div 60 \<and> early_departure_minutes sample_record = 0"
  using tolerance_cliff [OF sample_day_normal sample_day_record, of 1776687360 1776722400]
  by (simp add: sample_record_def sample_day_def sample_rules_def)

definition record_ok :: "chrono \<Rightarrow> engine_input \<Rightarrow> int \<Rightarrow> daily_record_output \<Rightarrow> bool" where
  "record_ok c inp len out \<longleftrightarrow>
     0 \<le> work_minutes out \<and> 60 * work_minutes out \<le> max 0 len \<and>
     overtime_minutes out = max (work_minutes out - ordinary_daily_minutes (in_dept inp)) 0 \<and>
     0 \<le> late_minutes out \<and> 0 \<le> early_departure_minutes out \<and>
     (is_rest_day_worked out \<longleftrightarrow> is_weekend c (in_anchor_date inp) \<and> 0 < work_minutes out) \<and>
     out_leave_id out = None \<and>
     (entry_at out = None \<or> exit_at out = None \<longrightarrow>
        work_minutes out = 0 \<and> late_minutes out = 0 \<and> early_departure_minutes out = 0)"



text \<open>The order in which the event rows are read does not matter (the query of the service
  has no ORDER BY): permuting the events leaves the record unchanged.\<close>

theorem event_order_irrelevant:
  assumes "mset evs = mset (in_events inp)"
  shows "compute_daily_record c (inp\<lparr>in_events := evs\<rparr>) = compute_daily_record c inp"
proof -
  have m: "mset (window_entries ws we evs) = mset (window_entries ws we (in_events inp))"
    "mset (window_exits ws we evs) = mset (window_exits ws we (in_events inp))" for ws we
    by (simp_all add: window_entries_def window_exits_def assms)
  have st: "set evs = set (in_events inp)" using assms by (rule mset_eq_setD)
  have ne: "evs = [] \<longleftrightarrow> in_events inp = []" using assms by auto
  have agg: "canonical_entry (aggregate_events evs ws we) = canonical_entry (aggregate_events (in_events inp) ws we)"
    "canonical_exit (aggregate_events evs ws we) = canonical_exit (aggregate_events (in_events inp) ws we)" for ws we
    by (simp_all add: canonical_entry_eq canonical_exit_eq window_entries_def window_exits_def st filter_empty_conv)
  have pw: "pair_work_intervals (entries_in_window (aggregate_events evs ws we))
      (exits_in_window (aggregate_events evs ws we)) =
    pair_work_intervals (entries_in_window (aggregate_events (in_events inp) ws we))
      (exits_in_window (aggregate_events (in_events inp) ws we))" for ws we
    by (rule pair_work_intervals_cong) (simp_all add: m)
  have sel: "in_dept (inp\<lparr>in_events := evs\<rparr>) = in_dept inp" "in_rules (inp\<lparr>in_events := evs\<rparr>) = in_rules inp"
    by simp_all
  have "day_part (inp\<lparr>in_events := evs\<rparr>) (aggregate_events evs ws we) ns ne =
      day_part inp (aggregate_events (in_events inp) ws we) ns ne" for ws we ns ne
    unfolding day_part_def agg worked_day_def pw sel ..
  then show ?thesis
    by (cases "in_leave inp"; cases "prior_record_existed inp";
        cases "shift_window_with_ambiguity c (in_anchor_date inp) (in_dept inp) (in_rules inp) (in_tz inp)")
      (simp_all add: compute_daily_record_def leave_day_def ne agg st Let_def case_prod_beta)
qed

theorem event_order_irrelevant_witness:
  "compute_daily_record gregorian (sample_day\<lparr>in_events := rev sample_events\<rparr>) = Some sample_record"
proof -
  have "mset (rev sample_events) = mset (in_events sample_day)"
    by (simp add: sample_day_def)
  from event_order_irrelevant [OF this, of gregorian] sample_day_record show ?thesis by simp
qed

fun anomaly_spec :: "engine_input \<Rightarrow> i64 \<Rightarrow> i64 \<Rightarrow> bool \<Rightarrow> daily_record_output \<Rightarrow> anomaly_code \<Rightarrow> bool" where
  "anomaly_spec inp ws we amb out MissingEntry \<longleftrightarrow> engine_entries inp ws we = {}"
| "anomaly_spec inp ws we amb out MissingExit \<longleftrightarrow>
     (\<exists>a \<in> engine_entries inp ws we. \<forall>x \<in> engine_exits inp ws we. x < a)"
| "anomaly_spec inp ws we amb out UnknownFaceInWindow \<longleftrightarrow>
     (\<exists>e \<in> set (in_events inp). in_window ws we e \<and> ev_is_unknown e)"
| "anomaly_spec inp ws we amb out LunchPunchMissing \<longleftrightarrow>
     entry_at out \<noteq> None \<and> exit_at out \<noteq> None \<and> lunch_mode (in_dept inp) = ''punch'' \<and>
     length (fst (pair_work_intervals (window_entries ws we (in_events inp))
       (window_exits ws we (in_events inp)))) \<le> 1"
| "anomaly_spec inp ws we amb out OtCapExceededDaily \<longleftrightarrow> work_minutes out > 600"
| "anomaly_spec inp ws we amb out OtCapExceededWeekly \<longleftrightarrow> work_minutes out > 0 \<and>
     i64_add (weekly_ot_minutes_so_far inp) (overtime_minutes out) > 600"
| "anomaly_spec inp ws we amb out OtCapExceededAnnual \<longleftrightarrow> work_minutes out > 0 \<and>
     i64_add (annual_ot_minutes_so_far inp) (overtime_minutes out) > 6000"
| "anomaly_spec inp ws we amb out EventsOnLeaveDay \<longleftrightarrow> False"
| "anomaly_spec inp ws we amb out RecomputeAfterEdit \<longleftrightarrow> prior_record_existed inp"
| "anomaly_spec inp ws we amb out OvernightInferenceAmbiguous \<longleftrightarrow> amb"

lemma day_part_anomalies:
  assumes ep: "epoch_ok ws" "epoch_ok we"
    and q: "day_part inp (aggregate_events (in_events inp) ws we) ns ne = (w, l, e, anoms)"
  shows "set anoms =
     (if engine_entries inp ws we = {} then {MissingEntry} else {}) \<union>
     (if \<exists>a \<in> engine_entries inp ws we. \<forall>x \<in> engine_exits inp ws we. x < a then {MissingExit} else {}) \<union>
     (if engine_entries inp ws we \<noteq> {} \<and> engine_exits inp ws we \<noteq> {} \<and> lunch_mode (in_dept inp) = ''punch'' \<and>
        length (fst (pair_work_intervals (window_entries ws we (in_events inp))
          (window_exits ws we (in_events inp)))) \<le> 1 then {LunchPunchMissing} else {})"
proof (cases "engine_entries inp ws we = {} \<or> engine_exits inp ws we = {}")
  case True
  then show ?thesis
    using q day_part_cases(1,2) [OF ep, of inp ns ne]
    by (cases "engine_entries inp ws we = {}") auto
next
  case False
  let ?p = "pair_work_intervals (window_entries ws we (in_events inp)) (window_exits ws we (in_events inp))"
  let ?l = "snd (compute_lunch_deduction (worked_seconds inp ws we div 60) (length (fst ?p) > 1) (in_dept inp))"
  have "anoms = (if snd ?p then [MissingExit] else []) @ (case ?l of None \<Rightarrow> [] | Some a \<Rightarrow> [a])"
    using q trans [OF day_part_cases(3) [OF ep] worked_day_eq [OF ep]] False by simp
  moreover have "snd ?p \<longleftrightarrow> (\<exists>a \<in> engine_entries inp ws we. \<forall>x \<in> engine_exits inp ws we. x < a)"
    by (simp add: pair_work_intervals_open engine_entries_def engine_exits_def)
  moreover have "set (case ?l of None \<Rightarrow> [] | Some a \<Rightarrow> [a]) =
      (if lunch_mode (in_dept inp) = ''punch'' \<and> length (fst ?p) \<le> 1 then {LunchPunchMissing} else {})"
    by (simp add: compute_lunch_deduction_def Let_def)
  ultimately have "set anoms =
     (if \<exists>a \<in> engine_entries inp ws we. \<forall>x \<in> engine_exits inp ws we. x < a then {MissingExit} else {}) \<union>
     (if lunch_mode (in_dept inp) = ''punch'' \<and> length (fst ?p) \<le> 1 then {LunchPunchMissing} else {})"
    by (simp only: set_append if_distrib [of set] list.set)
  then show ?thesis using False by simp
qed



text \<open>C10. The engine does not panic: with shift times that parse, an anchor date at least two
  days inside the calendar and any time zone, a record is returned.\<close>

theorem engine_never_panics:
  assumes "parse_hm c (shift_start_time (in_dept inp)) = Some s" and "0 \<le> s" and "s < 86400"
    and "parse_hm c (shift_end_time (in_dept inp)) = Some e" and "0 \<le> e" and "e < 86400"
    and "date_ok c (in_anchor_date inp)" and "date_ok c (in_anchor_date inp + 2)"
  shows "\<exists>out. compute_daily_record c inp = Some out"
proof (cases "in_leave inp")
  case (Some l)
  then show ?thesis by (simp add: compute_daily_record_def)
next
  case None
  define d where "d = in_anchor_date inp"
  have tot: "\<exists>x amb. resolve_local_epoch c (in_tz inp) ((d + k) * 86400 + t) = Some (x, amb)"
    if "0 \<le> k" "k \<le> 1" "0 \<le> t" "t < 86400" for k t
  proof (rule resolve_local_epoch_total)
    have "d + k = ((d + k) * 86400 + t) div 86400" using that by simp
    then show "date_ok c (((d + k) * 86400 + t) div 86400)"
      using that assms(7,8) by (auto simp: date_ok_def d_def)
    have "d \<le> ((d + k) * 86400 + t + 7200) div 86400" "((d + k) * 86400 + t + 7200) div 86400 \<le> d + 2"
      using that day_div [of "(d + k) * 86400 + t + 7200"] by auto
    then show "date_ok c (((d + k) * 86400 + t + 7200) div 86400)"
      using assms(7,8) by (auto simp: date_ok_def d_def)
  qed
  define k where "k = (if is_overnight_shift (in_dept inp) then 1 else 0 :: int)"
  have k: "0 \<le> k" "k \<le> 1" by (simp_all add: k_def)
  have "shift_end_date c d (in_dept inp) = Some (d + k)"
    using assms(7,8) by (auto simp: shift_end_date_def date_add_def k_def date_ok_def d_def)
  then have "\<exists>w. shift_window_overnight_aware c d (in_dept inp) (in_rules inp) (in_tz inp) = Some w"
    using tot [of 0 s] tot [OF k, of e] assms(1-6)
    by (auto simp: shift_window_overnight_aware_def Let_def)
  then obtain w where "shift_window_with_ambiguity c (in_anchor_date inp) (in_dept inp) (in_rules inp) (in_tz inp) = Some w"
    by (auto simp: shift_window_with_ambiguity_def d_def)
  then show ?thesis
    using None by (cases w) (simp add: compute_daily_record_def Let_def split: prod.split)
qed

definition gap_zone :: tzinfo where
  "gap_zone = \<lparr>from_local = (\<lambda>t. NoLocal), local_date = (\<lambda>t. t div 86400)\<rparr>"

theorem engine_never_panics_witness:
  "\<exists>out. compute_daily_record gregorian (sample_day\<lparr>in_tz := gap_zone\<rparr>) = Some out"
proof (rule engine_never_panics)
  show "parse_hm gregorian (shift_start_time (in_dept (sample_day\<lparr>in_tz := gap_zone\<rparr>))) = Some 28800"
    by code_simp
  show "parse_hm gregorian (shift_end_time (in_dept (sample_day\<lparr>in_tz := gap_zone\<rparr>))) = Some 61200"
    by code_simp
qed (simp_all add: sample_day_def year_begin_def)

end
