(* ===== verification/Daily_Records.thy ===== *)
theory Daily_Records
  imports Leaves Engine
begin

text \<open>
  The daily records (daily\_records/service.rs): \<open>recompute_for_day\<close> reads everything the
  engine needs, runs it, and sends one transaction that upserts the record and replaces its
  anomalies.  Other writes may run between the reads and the transaction, so the two halves
  are \<open>recompute_load\<close> and \<open>recompute_commit\<close>.  In the reads \<open>None\<close> is a panic (of the
  engine, of date arithmetic).  \<open>uuid\<close> is the supply of fresh identifiers of one call.
\<close>

section \<open>Reading\<close>

definition department_config_of :: "department_row \<Rightarrow> department_config" where
  "department_config_of d = \<lparr>dc_id = de_id d, shift_start_time = de_shift_start_time d,
     shift_end_time = de_shift_end_time d, dc_shift_type = de_shift_type d,
     is_overnight_shift = de_is_overnight_shift d, ordinary_daily_minutes = de_ordinary_daily_minutes d,
     lunch_mode = de_lunch_mode d, lunch_duration_min = de_lunch_duration_min d\<rparr>"

definition global_rules_of :: "i64 \<times> i64 \<times> i64 \<Rightarrow> global_rules_row" where
  "global_rules_of r = \<lparr>late_arrival_tolerance_min = fst r, early_departure_tolerance_min = fst (snd r),
     bonus_minutes = snd (snd r)\<rparr>"

definition find_employee :: "db \<Rightarrow> (employee_row \<Rightarrow> bool) \<Rightarrow> (employee_row \<times> department_row) option" where
  "find_employee s P =
     (case [(e, d). e \<leftarrow> t_employees s, P e, d \<leftarrow> t_departments s, de_id d = em_department_id e] of
        [] \<Rightarrow> None | x # xs \<Rightarrow> Some x)"

definition event_of :: "event_table_row \<Rightarrow> attendance_event_row" where
  "event_of r = \<lparr>ev_id = ae_id r, ev_employee_id = ae_employee_id r, ev_device_id = ae_device_id r,
     ev_direction = ae_direction r, ev_captured_at = ae_captured_at r, ev_is_unknown = ae_is_unknown r\<rparr>"

text \<open>The window query: the employee's own events, and the unknown faces at a device the employee
  used in the same window.\<close>

definition own_event :: "string \<Rightarrow> i64 \<Rightarrow> i64 \<Rightarrow> event_table_row \<Rightarrow> bool" where
  "own_event employee_id ws we r \<longleftrightarrow>
     ae_employee_id r = Some employee_id \<and> ws \<le> ae_captured_at r \<and> ae_captured_at r \<le> we"

definition window_events :: "event_table_row list \<Rightarrow> string \<Rightarrow> i64 \<Rightarrow> i64 \<Rightarrow> event_table_row list" where
  "window_events events employee_id ws we =
     filter (\<lambda>r. own_event employee_id ws we r \<or>
       ws \<le> ae_captured_at r \<and> ae_captured_at r \<le> we \<and> ae_employee_id r = None \<and> ae_is_unknown r \<and>
       (\<exists>q \<in> set events. own_event employee_id ws we q \<and> ae_device_id q = ae_device_id r)) events"

text \<open>\<open>COALESCE(SUM(overtime_minutes), 0)\<close> over \<open>[from, before)\<close>; SQLite reports an integer
  overflow of SUM as an error of the row.\<close>

definition overtime_so_far :: "daily_row list \<Rightarrow> string \<Rightarrow> string \<Rightarrow> string \<Rightarrow> i64 result" where
  "overtime_so_far rows employee_id from before =
     (let n = (\<Sum>r \<leftarrow> filter (\<lambda>r. dr_employee_id r = employee_id \<and> dr_anchor_date r \<ge> from
                 \<and> dr_anchor_date r < before) rows. dr_overtime_minutes r)
      in if in_i64 n then Inr n else Inl (Internal (OtherError ''integer overflow'')))"

record recompute_plan =
  pl_employee_id :: string
  pl_anchor_date :: string
  pl_department_id :: string
  pl_shift_type :: string
  pl_prior_row_id :: "string option"
  pl_output :: daily_record_output

definition same_record :: "string \<Rightarrow> string \<Rightarrow> daily_row \<Rightarrow> bool" where
  "same_record employee_id anchor_date r \<longleftrightarrow> dr_employee_id r = employee_id \<and> dr_anchor_date r = anchor_date"

text \<open>Steps 1 to 8.  \<open>Inr None\<close>: the employee is inactive or missing, and the day is skipped.\<close>

definition recompute_input ::
  "chrono \<Rightarrow> tzinfo \<Rightarrow> db \<Rightarrow> string \<Rightarrow> date \<Rightarrow> department_config \<Rightarrow> global_rules_row \<Rightarrow> i64 \<Rightarrow> i64
    \<Rightarrow> date \<Rightarrow> date \<Rightarrow> engine_input result" where
  "recompute_input c tz s employee_id anchor_date dept rules ws we monday year_start =
     (let anchor = format_date c anchor_date in
      bind_result (overtime_so_far (t_daily_records s) employee_id (format_date c monday) anchor) (\<lambda>weekly.
      bind_result (overtime_so_far (t_daily_records s) employee_id (format_date c year_start) anchor) (\<lambda>annual.
      bind_result (fetch_active_leave_for_date c (t_leaves s) employee_id anchor_date) (\<lambda>active_leave.
      Inr \<lparr>in_events = map event_of (window_events (t_events s) employee_id ws we), in_dept = dept,
        in_rules = rules, in_leave = active_leave, in_anchor_date = anchor_date, in_tz = tz,
        weekly_ot_minutes_so_far = weekly, annual_ot_minutes_so_far = annual,
        prior_record_existed = find (same_record employee_id anchor) (t_daily_records s) \<noteq> None\<rparr>))))"

definition recompute_load ::
  "chrono \<Rightarrow> tzinfo \<Rightarrow> db \<Rightarrow> string \<Rightarrow> date \<Rightarrow> recompute_plan option result option" where
  "recompute_load c tz s employee_id anchor_date =
     (case find_employee s (\<lambda>e. em_id e = employee_id \<and> em_status e = ''active'') of
        None \<Rightarrow> Some (Inr None)
      | Some (e, d) \<Rightarrow>
        (case t_global_rules s of
           None \<Rightarrow> Some (Inl (Internal (OtherError ''global_rules singleton missing'')))
         | Some r \<Rightarrow> do {
             let dept = department_config_of d;
             (ws, we, _, _) \<leftarrow> shift_window c anchor_date dept (global_rules_of r) tz;
             monday \<leftarrow> date_add c anchor_date (- int (weekday_mon c anchor_date));
             let (y, _, _) = ymd c anchor_date;
             year_start \<leftarrow> of_ymd c y 1 1;
             (case recompute_input c tz s employee_id anchor_date dept (global_rules_of r) ws we monday year_start of
                Inl e \<Rightarrow> Some (Inl e)
              | Inr inp \<Rightarrow> do {
                  out \<leftarrow> compute_daily_record c inp;
                  Some (Inr (Some \<lparr>pl_employee_id = employee_id, pl_anchor_date = format_date c anchor_date,
                    pl_department_id = dc_id dept, pl_shift_type = dc_shift_type dept,
                    pl_prior_row_id = map_option dr_id
                      (find (same_record employee_id (format_date c anchor_date)) (t_daily_records s)),
                    pl_output = out\<rparr>))
                })
           }))"

section \<open>Writing\<close>

definition bool_int :: "bool \<Rightarrow> i64" where
  "bool_int b = (if b then 1 else 0)"

text \<open>The \<open>VALUES\<close> of the insert and the \<open>DO UPDATE SET\<close>, which leaves the identifier, the
  department and the creation time.\<close>

definition new_daily_row :: "recompute_plan \<Rightarrow> string \<Rightarrow> i64 \<Rightarrow> daily_row" where
  "new_daily_row p i now = (let out = pl_output p in
     \<lparr>dr_id = i, dr_employee_id = pl_employee_id p, dr_department_id = pl_department_id p,
      dr_anchor_date = pl_anchor_date p, dr_shift_type = pl_shift_type p,
      dr_work_minutes = work_minutes out, dr_overtime_minutes = overtime_minutes out,
      dr_late_minutes = late_minutes out, dr_early_departure_minutes = early_departure_minutes out,
      dr_is_rest_day_worked = bool_int (is_rest_day_worked out), dr_entry_at = entry_at out,
      dr_exit_at = exit_at out, dr_leave_id = out_leave_id out, dr_computed_at = now,
      dr_created_at = now, dr_updated_at = now\<rparr>)"

definition set_excluded :: "daily_row \<Rightarrow> daily_row \<Rightarrow> daily_row" where
  "set_excluded x r = r\<lparr>dr_work_minutes := dr_work_minutes x, dr_overtime_minutes := dr_overtime_minutes x,
     dr_late_minutes := dr_late_minutes x, dr_early_departure_minutes := dr_early_departure_minutes x,
     dr_is_rest_day_worked := dr_is_rest_day_worked x, dr_entry_at := dr_entry_at x,
     dr_exit_at := dr_exit_at x, dr_leave_id := dr_leave_id x, dr_shift_type := dr_shift_type x,
     dr_computed_at := dr_computed_at x, dr_updated_at := dr_updated_at x\<rparr>"

definition shift_types :: "string list" where
  "shift_types = [''day'', ''night'', ''mixed'']"

text \<open>\<open>INSERT .. ON CONFLICT(employee_id, anchor_date) DO UPDATE\<close>, with the constraints of migration 007.\<close>

definition upsert_daily :: "db \<Rightarrow> daily_row \<Rightarrow> string + daily_row list" where
  "upsert_daily s x =
     (if dr_shift_type x \<notin> set shift_types then Inl ''CHECK constraint failed: shift_type''
      else if find (same_record (dr_employee_id x) (dr_anchor_date x)) (t_daily_records s) \<noteq> None then
        Inr (update_where (same_record (dr_employee_id x) (dr_anchor_date x)) (set_excluded x) (t_daily_records s))
      else if dr_id x \<in> set (map dr_id (t_daily_records s)) then
        Inl ''UNIQUE constraint failed: daily_records.id''
      else if dr_employee_id x \<notin> set (map em_id (t_employees s)) \<or> dr_department_id x \<notin> set (map de_id (t_departments s))
      then Inl ''FOREIGN KEY constraint failed''
      else Inr (t_daily_records s @ [x]))"

definition new_anomaly :: "(nat \<Rightarrow> string) \<Rightarrow> i64 \<Rightarrow> string \<Rightarrow> nat \<times> anomaly_code \<Rightarrow> anomaly_row" where
  "new_anomaly uuid now resolved_id = (\<lambda>(n, code).
     \<lparr>an_id = uuid (Suc n), an_daily_record_id = resolved_id, an_code = anomaly_as_str code, an_detail = None,
      an_created_at = now\<rparr>)"

definition replace_anomalies ::
  "(nat \<Rightarrow> string) \<Rightarrow> i64 \<Rightarrow> string \<Rightarrow> anomaly_code list \<Rightarrow> anomaly_row list \<Rightarrow> anomaly_row list" where
  "replace_anomalies uuid now resolved_id codes t =
     delete_where (\<lambda>a. an_daily_record_id a = resolved_id) t
     @ map (new_anomaly uuid now resolved_id) (List.enumerate 0 codes)"

text \<open>The body of the transaction: an error rolls everything back.\<close>

definition recompute_tx :: "(nat \<Rightarrow> string) \<Rightarrow> i64 \<Rightarrow> recompute_plan \<Rightarrow> db \<Rightarrow> string + db" where
  "recompute_tx uuid now p s =
     (let new_id = (case pl_prior_row_id p of None \<Rightarrow> uuid 0 | Some i \<Rightarrow> i) in
      case upsert_daily s (new_daily_row p new_id now) of
        Inl e \<Rightarrow> Inl e
      | Inr rows \<Rightarrow>
        (case find (same_record (pl_employee_id p) (pl_anchor_date p)) rows of
           None \<Rightarrow> Inl ''upserted row vanished''
         | Some row \<Rightarrow>
           (let anomalies = replace_anomalies uuid now (dr_id row) (out_anomalies (pl_output p)) (t_anomalies s)
            in if distinct (map an_id anomalies)
               then Inr (s\<lparr>t_daily_records := rows, t_anomalies := anomalies\<rparr>)
               else Inl ''UNIQUE constraint failed: daily_record_anomalies.id'')))"

definition recompute_commit ::
  "write_outcome \<Rightarrow> (nat \<Rightarrow> string) \<Rightarrow> i64 \<Rightarrow> recompute_plan \<Rightarrow> db \<Rightarrow> db \<times> unit result" where
  "recompute_commit wo uuid now p s =
     (case wo of
        NotRun e \<Rightarrow> (s, Inl (from_db_write e))
      | Ran \<Rightarrow> (case recompute_tx uuid now p s of
          Inl m \<Rightarrow> (s, Inl (DbWrite (JobFailed (OtherError m))))
        | Inr s' \<Rightarrow> (s', Inr ())))"

definition recompute_for_day ::
  "chrono \<Rightarrow> tzinfo \<Rightarrow> write_outcome \<Rightarrow> (nat \<Rightarrow> string) \<Rightarrow> i64 \<Rightarrow> db \<Rightarrow> string \<Rightarrow> date \<Rightarrow> (db \<times> unit result) option" where
  "recompute_for_day c tz wo uuid now s employee_id anchor_date =
     map_option (\<lambda>r. case r of
         Inl e \<Rightarrow> (s, Inl e)
       | Inr None \<Rightarrow> (s, Inr ())
       | Inr (Some p) \<Rightarrow> recompute_commit wo uuid now p s)
       (recompute_load c tz s employee_id anchor_date)"

section \<open>The nightly pass and the reads\<close>

text \<open>\<open>reconcile_prior_day\<close>: every active employee's previous day; a failure is logged and skipped.
  The environment of the n-th recomputation is \<open>env n\<close>.\<close>

fun reconcile_loop ::
  "chrono \<Rightarrow> tzinfo \<Rightarrow> (nat \<Rightarrow> write_outcome \<times> (nat \<Rightarrow> string) \<times> i64) \<Rightarrow> date \<Rightarrow> nat \<Rightarrow> string list \<Rightarrow> db \<Rightarrow> i64
    \<Rightarrow> (db \<times> i64) option" where
  "reconcile_loop c tz env yesterday n [] s done_count = Some (s, done_count)"
| "reconcile_loop c tz env yesterday n (emp_id # ids) s done_count =
     (case env n of (wo, uuid, now) \<Rightarrow>
        (case recompute_for_day c tz wo uuid now s emp_id yesterday of
           None \<Rightarrow> None
         | Some (s', Inl e) \<Rightarrow> reconcile_loop c tz env yesterday (Suc n) ids s' done_count
         | Some (s', Inr u) \<Rightarrow> reconcile_loop c tz env yesterday (Suc n) ids s' (i64_add done_count 1)))"

definition reconcile_prior_day ::
  "chrono \<Rightarrow> tzinfo \<Rightarrow> (nat \<Rightarrow> write_outcome \<times> (nat \<Rightarrow> string) \<times> i64) \<Rightarrow> i64 \<Rightarrow> db \<Rightarrow> (db \<times> i64) option" where
  "reconcile_prior_day c tz env now s =
     Option.bind (date_add c (local_date tz now) (- 1)) (\<lambda>yesterday.
       reconcile_loop c tz env yesterday 0 (map em_id (filter (\<lambda>e. em_status e = ''active'') (t_employees s))) s 0)"

section \<open>The table of daily records\<close>

definition record_key :: "daily_row \<Rightarrow> string \<times> string" where
  "record_key r = (dr_employee_id r, dr_anchor_date r)"

definition daily_ok :: "db \<Rightarrow> bool" where
  "daily_ok s \<longleftrightarrow> distinct (map dr_id (t_daily_records s)) \<and> distinct (map record_key (t_daily_records s)) \<and>
     distinct (map an_id (t_anomalies s)) \<and>
     an_daily_record_id ` set (t_anomalies s) \<subseteq> dr_id ` set (t_daily_records s)"

definition codes_of :: "db \<Rightarrow> string \<Rightarrow> string list" where
  "codes_of s i = map an_code (filter (\<lambda>a. an_daily_record_id a = i) (t_anomalies s))"

text \<open>The clock columns of a record, which every recomputation moves.\<close>

definition timeless :: "daily_row \<Rightarrow> daily_row" where
  "timeless r = r\<lparr>dr_computed_at := 0, dr_updated_at := 0\<rparr>"

lemma same_record_key: "same_record e a r \<longleftrightarrow> record_key r = (e, a)"
  by (auto simp: same_record_def record_key_def)

lemma set_excluded_simps [simp]:
  "dr_id (set_excluded x r) = dr_id r" "record_key (set_excluded x r) = record_key r"
  "same_record e a (set_excluded x r) = same_record e a r"
  by (simp_all add: set_excluded_def record_key_def same_record_def)

lemma upsert_daily_cases:
  assumes "upsert_daily s x = Inr rows"
  obtains (updated) r where "find (same_record (dr_employee_id x) (dr_anchor_date x)) (t_daily_records s) = Some r"
      "rows = update_where (same_record (dr_employee_id x) (dr_anchor_date x)) (set_excluded x) (t_daily_records s)"
  | (inserted) "find (same_record (dr_employee_id x) (dr_anchor_date x)) (t_daily_records s) = None"
      "rows = t_daily_records s @ [x]" "dr_id x \<notin> set (map dr_id (t_daily_records s))"
  using assms by (cases "find (same_record (dr_employee_id x) (dr_anchor_date x)) (t_daily_records s)")
    (auto simp: upsert_daily_def split: if_splits)

lemma find_key:
  assumes "distinct (map record_key rows)" "r \<in> set rows"
  shows "find (same_record e a) rows = Some r \<longleftrightarrow> record_key r = (e, a)"
proof
  show "find (same_record e a) rows = Some r \<Longrightarrow> record_key r = (e, a)"
    using find_Some_in by (metis same_record_key)
  assume "record_key r = (e, a)"
  then have "same_record e a = (\<lambda>q. record_key q = record_key r)" by (auto simp: same_record_key)
  then show "find (same_record e a) rows = Some r" using find_distinct [OF assms] by simp
qed

lemma recompute_tx_cases:
  assumes "recompute_tx uuid now p s = Inr s'"
  obtains rows row where
    "upsert_daily s (new_daily_row p (case pl_prior_row_id p of None \<Rightarrow> uuid 0 | Some i \<Rightarrow> i) now) = Inr rows"
    "find (same_record (pl_employee_id p) (pl_anchor_date p)) rows = Some row"
    "s' = s\<lparr>t_daily_records := rows, t_anomalies :=
        replace_anomalies uuid now (dr_id row) (out_anomalies (pl_output p)) (t_anomalies s)\<rparr>"
    "distinct (map an_id (t_anomalies s'))"
proof -
  let ?x = "new_daily_row p (case pl_prior_row_id p of None \<Rightarrow> uuid 0 | Some i \<Rightarrow> i) now"
  obtain rows where rows: "upsert_daily s ?x = Inr rows"
    using assms by (cases "upsert_daily s ?x") (simp_all add: recompute_tx_def Let_def)
  obtain row where row: "find (same_record (pl_employee_id p) (pl_anchor_date p)) rows = Some row"
    using assms rows by (cases "find (same_record (pl_employee_id p) (pl_anchor_date p)) rows")
      (simp_all add: recompute_tx_def Let_def)
  show thesis
    by (rule that [OF rows row]) (use assms rows row in \<open>auto simp: recompute_tx_def Let_def split: if_splits\<close>)
qed

lemma upsert_keys:
  assumes "upsert_daily s x = Inr rows" "daily_ok s"
  shows "distinct (map dr_id rows)" "distinct (map record_key rows)"
    "dr_id ` set (t_daily_records s) \<subseteq> dr_id ` set rows"
proof -
  have all: "distinct (map dr_id rows) \<and> distinct (map record_key rows) \<and>
    dr_id ` set (t_daily_records s) \<subseteq> dr_id ` set rows"
  using assms(1)
proof (cases rule: upsert_daily_cases)
  case (updated r)
  have m: "map dr_id rows = map dr_id (t_daily_records s)" "map record_key rows = map record_key (t_daily_records s)"
    unfolding updated(2) by (rule map_update_where, simp)+
  moreover have "dr_id ` set rows = dr_id ` set (t_daily_records s)" using m(1) by (metis list.set_map)
  ultimately show ?thesis using assms(2) by (simp add: daily_ok_def)
next
  case inserted
  then have "record_key x \<notin> record_key ` set (t_daily_records s)"
    by (auto simp: find_None_iff same_record_def record_key_def image_iff)
  then show ?thesis using assms(2) inserted by (auto simp: daily_ok_def)
qed
  then show "distinct (map dr_id rows)" "distinct (map record_key rows)"
    "dr_id ` set (t_daily_records s) \<subseteq> dr_id ` set rows" by simp_all
qed

lemma recompute_tx_ok:
  assumes "daily_ok s" "recompute_tx uuid now p s = Inr s'"
  shows "daily_ok s'"
  using assms(2)
proof (cases rule: recompute_tx_cases)
  case (1 rows row)
  note k = upsert_keys [OF 1(1) assms(1)]
  have "row \<in> set rows" using find_Some_in [OF 1(2)] by simp
  moreover have "an_daily_record_id ` set (t_anomalies s) \<subseteq> dr_id ` set rows"
    using assms(1) k(3) by (metis daily_ok_def order_trans)
  ultimately show ?thesis using k 1(3,4)
    by (auto simp: daily_ok_def replace_anomalies_def delete_where_def new_anomaly_def)
qed

lemma recompute_commit_ok: "daily_ok s \<Longrightarrow> recompute_commit wo uuid now p s = (s', r) \<Longrightarrow> daily_ok s'"
  by (auto simp: recompute_commit_def split: write_outcome.splits sum.splits intro: recompute_tx_ok)

text \<open>What a committed recomputation leaves.\<close>

lemma recompute_tx_row:
  assumes "daily_ok s" "recompute_tx uuid now p s = Inr s'"
  shows "\<exists>row. find (same_record (pl_employee_id p) (pl_anchor_date p)) (t_daily_records s') = Some row \<and>
    timeless row = timeless (row\<lparr>dr_shift_type := pl_shift_type p, dr_work_minutes := work_minutes (pl_output p),
      dr_overtime_minutes := overtime_minutes (pl_output p), dr_late_minutes := late_minutes (pl_output p),
      dr_early_departure_minutes := early_departure_minutes (pl_output p),
      dr_is_rest_day_worked := bool_int (is_rest_day_worked (pl_output p)),
      dr_entry_at := entry_at (pl_output p), dr_exit_at := exit_at (pl_output p),
      dr_leave_id := out_leave_id (pl_output p)\<rparr>) \<and>
    codes_of s' (dr_id row) = map anomaly_as_str (out_anomalies (pl_output p)) \<and>
    filter (\<lambda>r. \<not> same_record (pl_employee_id p) (pl_anchor_date p) r) (t_daily_records s') =
      filter (\<lambda>r. \<not> same_record (pl_employee_id p) (pl_anchor_date p) r) (t_daily_records s) \<and>
    (\<forall>i. i \<noteq> dr_id row \<longrightarrow> codes_of s' i = codes_of s i) \<and>
    s' = s\<lparr>t_daily_records := t_daily_records s', t_anomalies := t_anomalies s'\<rparr>"
  using assms(2)
proof (cases rule: recompute_tx_cases)
  case (1 rows row)
  let ?x = "new_daily_row p (case pl_prior_row_id p of None \<Rightarrow> uuid 0 | Some i \<Rightarrow> i) now"
  let ?K = "same_record (pl_employee_id p) (pl_anchor_date p)"
  have key: "dr_employee_id ?x = pl_employee_id p" "dr_anchor_date ?x = pl_anchor_date p"
    by (simp_all add: new_daily_row_def Let_def)
  have row: "row \<in> set rows" "?K row" using find_Some_in [OF 1(2)] by auto
  have kept: "filter (\<lambda>r. \<not> ?K r) rows = filter (\<lambda>r. \<not> ?K r) (t_daily_records s)"
    and content: "row = ?x \<or> (\<exists>r. row = set_excluded ?x r)"
    using 1(1)
  proof (induct rule: upsert_daily_cases)
    case (updated r)
    have "filter (\<lambda>r. \<not> ?K r) (update_where ?K (set_excluded ?x) t) = filter (\<lambda>r. \<not> ?K r) t" for t
      by (induction t) (auto simp: table_simps)
    then show "filter (\<lambda>r. \<not> ?K r) rows = filter (\<lambda>r. \<not> ?K r) (t_daily_records s)"
      using updated(2) by (simp add: key)
    obtain q where "row = (if ?K q then set_excluded ?x q else q)"
      using row(1) unfolding updated(2) key in_set_update_where by blast
    then show "row = ?x \<or> (\<exists>r. row = set_excluded ?x r)" using row(2) by (metis (full_types))
  next
    case inserted
    then show "filter (\<lambda>r. \<not> ?K r) rows = filter (\<lambda>r. \<not> ?K r) (t_daily_records s)"
      by (simp add: same_record_def key)
    show "row = ?x \<or> (\<exists>r. row = set_excluded ?x r)" using row inserted
      by (auto simp: key find_None_iff)
  qed
  have codes: "map an_code (map (new_anomaly uuid now i) (List.enumerate n cs)) = map anomaly_as_str cs" for i n cs
    by (induction cs arbitrary: n) (auto simp: new_anomaly_def)
  have mine: "codes_of s' (dr_id row) = map anomaly_as_str (out_anomalies (pl_output p))"
    using codes [of "dr_id row" 0 "out_anomalies (pl_output p)"]
    by (simp add: codes_of_def 1(3) replace_anomalies_def delete_where_def new_anomaly_def case_prod_beta)
  have others: "codes_of s' i = codes_of s i" if "i \<noteq> dr_id row" for i
    using that by (simp add: codes_of_def 1(3) replace_anomalies_def delete_where_def new_anomaly_def case_prod_beta conj_commute cong: conj_cong)
  show ?thesis
    by (rule exI [of _ row])
      (use 1(2) kept content mine others in \<open>auto simp: 1(3) timeless_def set_excluded_def new_daily_row_def Let_def\<close>)
qed

lemma recompute_commit_Inr:
  "recompute_commit wo uuid now p s = (s', Inr u) \<Longrightarrow> wo = Ran \<and> recompute_tx uuid now p s = Inr s'"
  by (auto simp: recompute_commit_def split: write_outcome.splits sum.splits)

text \<open>Commits of plans, however they were interleaved with their reads, and writes to the other tables.\<close>

datatype record_event =
    Commit write_outcome "nat \<Rightarrow> string" i64 recompute_plan
  | Elsewhere db

fun record_step :: "record_event \<Rightarrow> db \<Rightarrow> db option" where
  "record_step (Commit wo uuid now p) s = Some (fst (recompute_commit wo uuid now p s))"
| "record_step (Elsewhere s') s =
     Some (s'\<lparr>t_daily_records := t_daily_records s, t_anomalies := t_anomalies s\<rparr>)"

lemma record_step_ok: "daily_ok s \<Longrightarrow> record_step e s = Some s' \<Longrightarrow> daily_ok s'"
proof (cases e)
  case (Commit wo uuid now p)
  then show "daily_ok s \<Longrightarrow> record_step e s = Some s' \<Longrightarrow> daily_ok s'"
    using recompute_commit_ok [of s wo uuid now p] by (cases "recompute_commit wo uuid now p s") auto
next
  case (Elsewhere x)
  have "daily_ok (x\<lparr>t_daily_records := t_daily_records s, t_anomalies := t_anomalies s\<rparr>) = daily_ok s"
    by (simp add: daily_ok_def)
  then show "daily_ok s \<Longrightarrow> record_step e s = Some s' \<Longrightarrow> daily_ok s'" using Elsewhere by auto
qed

interpretation records: stepper record_step daily_ok
  by unfold_locales (rule record_step_ok)

text \<open>C21. One record per employee and day, whatever the interleaving: after any sequence of recompute
  transactions, each planned from reads of any earlier moment, and of writes to the other tables,
  two daily records of one employee and date are the same row, and every anomaly belongs to a
  record.\<close>

theorem one_record_per_day:
  assumes "daily_ok s" "run_steps record_step es s = Some s'"
    and "r \<in> set (t_daily_records s')" "q \<in> set (t_daily_records s')"
    and "dr_employee_id r = dr_employee_id q" "dr_anchor_date r = dr_anchor_date q"
  shows "r = q \<and> (a \<in> set (t_anomalies s') \<longrightarrow> (\<exists>x \<in> set (t_daily_records s'). dr_id x = an_daily_record_id a))"
proof -
  have ok: "daily_ok s'" by (rule records.run_inv [OF assms(1,2)])
  have "record_key r = record_key q" using assms(5,6) by (simp add: record_key_def)
  then have "r = q" using ok assms(3,4) by (auto simp: daily_ok_def distinct_map dest: inj_onD)
  then show ?thesis using ok by (force simp: daily_ok_def)
qed


section \<open>Recomputing again\<close>

lemma find_update_where:
  "(\<And>r. K r \<Longrightarrow> K (f r)) \<Longrightarrow> find K (update_where K f t) = map_option f (find K t)"
  by (induction t) (auto simp: table_simps)

lemma overtime_so_far_cong:
  assumes "filter (\<lambda>r. \<not> same_record e before r) rows = filter (\<lambda>r. \<not> same_record e before r) rows'"
  shows "overtime_so_far rows e from before = overtime_so_far rows' e from before"
proof -
  let ?F = "\<lambda>r. dr_employee_id r = e \<and> from \<le> dr_anchor_date r \<and> dr_anchor_date r < before"
  have f: "filter ?F t = filter ?F (filter (\<lambda>r. \<not> same_record e before r) t)" for t
    by (induction t) (auto simp: same_record_def)
  have "filter ?F rows = filter ?F rows'" unfolding f [of rows] f [of rows'] assms ..
  then show ?thesis by (simp only: overtime_so_far_def)
qed

lemma recompute_loadE:
  assumes "recompute_load c tz s e d = Some (Inr (Some p))"
  obtains em dp r ws we ns ne monday year_start inp where
    "find_employee s (\<lambda>x. em_id x = e \<and> em_status x = ''active'') = Some (em, dp)"
    "t_global_rules s = Some r"
    "shift_window c d (department_config_of dp) (global_rules_of r) tz = Some (ws, we, ns, ne)"
    "recompute_input c tz s e d (department_config_of dp) (global_rules_of r) ws we monday year_start = Inr inp"
    "compute_daily_record c inp = Some (pl_output p)"
    "pl_employee_id p = e" "pl_anchor_date p = format_date c d"
    "pl_prior_row_id p = map_option dr_id (find (same_record e (format_date c d)) (t_daily_records s))"
proof -
  obtain em dp where 1: "find_employee s (\<lambda>x. em_id x = e \<and> em_status x = ''active'') = Some (em, dp)"
    using assms by (cases "find_employee s (\<lambda>x. em_id x = e \<and> em_status x = ''active'')")
      (auto simp: recompute_load_def)
  obtain r where 2: "t_global_rules s = Some r"
    using assms by (cases "t_global_rules s") (auto simp: recompute_load_def 1)
  obtain ws we ns ne where 3: "shift_window c d (department_config_of dp) (global_rules_of r) tz = Some (ws, we, ns, ne)"
    using assms by (cases "shift_window c d (department_config_of dp) (global_rules_of r) tz")
      (auto simp: recompute_load_def 1 2 Let_def)
  obtain monday where 4: "date_add c d (- int (weekday_mon c d)) = Some monday"
    using assms by (cases "date_add c d (- int (weekday_mon c d))") (auto simp: recompute_load_def 1 2 3 Let_def)
  obtain y m k where 5: "ymd c d = (y, m, k)" by (rule prod_cases3)
  obtain year_start where 6: "of_ymd c y 1 1 = Some year_start"
    using assms by (cases "of_ymd c y 1 1") (auto simp: recompute_load_def 1 2 3 4 5 Let_def)
  obtain inp where 7: "recompute_input c tz s e d (department_config_of dp) (global_rules_of r) ws we monday year_start = Inr inp"
    using assms by (cases "recompute_input c tz s e d (department_config_of dp) (global_rules_of r) ws we monday year_start")
      (use 6 in \<open>auto simp: recompute_load_def 1 2 3 4 5 Let_def\<close>)
  obtain out where 8: "compute_daily_record c inp = Some out"
    using assms by (cases "compute_daily_record c inp") (use 6 in \<open>auto simp: recompute_load_def 1 2 3 4 5 7 Let_def\<close>)
  have "p = \<lparr>pl_employee_id = e, pl_anchor_date = format_date c d, pl_department_id = dc_id (department_config_of dp),
      pl_shift_type = dc_shift_type (department_config_of dp),
      pl_prior_row_id = map_option dr_id (find (same_record e (format_date c d)) (t_daily_records s)), pl_output = out\<rparr>"
    using assms 6 by (auto simp: recompute_load_def 1 2 3 4 5 7 8 Let_def)
  then show thesis using that [OF 1 2 3 7] 8 by simp
qed

text \<open>A recomputation of a day that has a record reads what the one before read.\<close>

lemma recompute_load_stable:
  assumes "daily_ok s" "recompute_load c tz s e d = Some (Inr (Some p))" "pl_prior_row_id p = Some i"
    and "recompute_tx uuid now p s = Inr s'"
  shows "recompute_load c tz s' e d = recompute_load c tz s e d"
proof -
  have p: "pl_employee_id p = e" "pl_anchor_date p = format_date c d"
    "pl_prior_row_id p = map_option dr_id (find (same_record e (format_date c d)) (t_daily_records s))"
    using assms(2) by (rule recompute_loadE; simp)+
  obtain row where row: "filter (\<lambda>r. \<not> same_record e (format_date c d) r) (t_daily_records s') =
      filter (\<lambda>r. \<not> same_record e (format_date c d) r) (t_daily_records s)"
    "s' = s\<lparr>t_daily_records := t_daily_records s', t_anomalies := t_anomalies s'\<rparr>"
    using recompute_tx_row [OF assms(1,4)] p by metis
  have same: "t_employees s' = t_employees s" "t_departments s' = t_departments s" "t_global_rules s' = t_global_rules s"
    "t_events s' = t_events s" "t_leaves s' = t_leaves s"
    by (subst row(2), simp)+
  have prior: "map_option dr_id (find (same_record e (format_date c d)) (t_daily_records s')) =
      map_option dr_id (find (same_record e (format_date c d)) (t_daily_records s))"
    using assms(4)
  proof (cases rule: recompute_tx_cases)
    case (1 rows row)
    from 1(1) show ?thesis
    proof (cases rule: upsert_daily_cases)
      case (updated r)
      have "same_record e (format_date c d) (set_excluded x q)" if "same_record e (format_date c d) q" for x q
        using that by simp
      then show ?thesis
        using updated(2) 1(3) p(1,2) by (simp add: new_daily_row_def Let_def find_update_where option.map_comp comp_def)
    next
      case inserted
      then show ?thesis using p assms(3) by (simp add: new_daily_row_def Let_def)
    qed
  qed
  then have ex: "find (same_record e (format_date c d)) (t_daily_records s') \<noteq> None \<longleftrightarrow>
      find (same_record e (format_date c d)) (t_daily_records s) \<noteq> None"
    by (metis option.map_disc_iff)
  have ot: "overtime_so_far (t_daily_records s') e from (format_date c d) = overtime_so_far (t_daily_records s) e from (format_date c d)" for "from"
    by (rule overtime_so_far_cong) (rule row(1))
  have inp: "recompute_input c tz s' e d dept rules ws we m y = recompute_input c tz s e d dept rules ws we m y" for dept rules ws we m y
    unfolding recompute_input_def Let_def ot same ex ..
  show ?thesis
    unfolding recompute_load_def find_employee_def same inp prior ..
qed

lemma load_cases:
  obtains "x = None" | y where "x = Some (Inl y)" | "x = Some (Inr None)" | z where "x = Some (Inr (Some z))"
  by (metis not_Some_eq sum.exhaust_sel)

lemma recompute_done:
  assumes "recompute_for_day c tz wo uuid now s e d = Some (s', Inr ())"
  obtains (skipped) "recompute_load c tz s e d = Some (Inr None)" "s' = s"
  | (written) p where "recompute_load c tz s e d = Some (Inr (Some p))" "recompute_tx uuid now p s = Inr s'"
proof (cases "recompute_load c tz s e d" rule: load_cases)
  case (4 p)
  then have "recompute_commit wo uuid now p s = (s', Inr ())"
    using assms by (simp add: recompute_for_day_def)
  then show thesis using written [OF 4] recompute_commit_Inr by blast
qed (use assms in \<open>simp_all add: recompute_for_day_def skipped\<close>)

lemma recompute_tx_again:
  assumes ok: "daily_ok s" and tx: "recompute_tx uuid now p s = Inr s1" and again: "recompute_tx uuid' now' q s1 = Inr s2"
    and q: "q = p\<lparr>pl_prior_row_id := j\<rparr>" and found: "find (same_record (pl_employee_id p) (pl_anchor_date p)) (t_daily_records s) \<noteq> None"
  shows "map timeless (t_daily_records s2) = map timeless (t_daily_records s1)" "codes_of s2 i = codes_of s1 i"
proof -
  let ?K = "same_record (pl_employee_id p) (pl_anchor_date p)"
  have key: "dr_employee_id (new_daily_row p i n) = pl_employee_id p" "dr_anchor_date (new_daily_row p i n) = pl_anchor_date p"
    "new_daily_row (p\<lparr>pl_prior_row_id := k\<rparr>) i n = new_daily_row p i n" for i n k
    by (simp_all add: new_daily_row_def Let_def)
  obtain x where x: "t_daily_records s1 = update_where ?K (set_excluded (new_daily_row p x now)) (t_daily_records s)"
    using tx
  proof (cases rule: recompute_tx_cases)
    case (1 rows row)
    from 1(1) show thesis
      by (cases rule: upsert_daily_cases) (use found 1(3) that in \<open>auto simp: key\<close>)
  qed
  then have found1: "find ?K (t_daily_records s1) \<noteq> None" using found by (simp add: find_update_where)
  obtain y where y: "t_daily_records s2 = update_where ?K (set_excluded (new_daily_row p y now')) (t_daily_records s1)"
    using again
  proof (cases rule: recompute_tx_cases)
    case (1 rows row)
    from 1(1) show thesis
      by (cases rule: upsert_daily_cases) (use found1 1(3) that in \<open>auto simp: key q\<close>)
  qed
  have "timeless (set_excluded (new_daily_row p y now') (set_excluded (new_daily_row p x now) r)) =
      timeless (set_excluded (new_daily_row p x now) r)" for r
    by (simp add: timeless_def set_excluded_def new_daily_row_def Let_def)
  then show "map timeless (t_daily_records s2) = map timeless (t_daily_records s1)"
    by (simp add: x y update_where_def)
  have ok1: "daily_ok s1" by (rule recompute_tx_ok [OF ok tx])
  obtain row where row: "find ?K (t_daily_records s1) = Some row"
    "codes_of s1 (dr_id row) = map anomaly_as_str (out_anomalies (pl_output p))"
    using recompute_tx_row [OF ok tx] by blast
  obtain row' where row': "find ?K (t_daily_records s2) = Some row'"
    "codes_of s2 (dr_id row') = map anomaly_as_str (out_anomalies (pl_output p))"
    "\<forall>i. i \<noteq> dr_id row' \<longrightarrow> codes_of s2 i = codes_of s1 i"
    using recompute_tx_row [OF ok1 again] by (auto simp: q)
  have "dr_id row' = dr_id row" using row(1) row'(1) by (auto simp: y find_update_where)
  then show "codes_of s2 i = codes_of s1 i" using row(2) row'(2,3) by metis
qed

text \<open>Recomputing settles: when nothing else changes, the second and the third recomputation of a day
  leave the same records, apart from the clock columns, and the same anomaly codes (the first may
  still differ from the second, which sees that a record existed).\<close>

theorem recompute_settles:
  assumes "daily_ok s"
    and "recompute_for_day c tz w1 u1 n1 s e d = Some (s1, Inr ())"
    and "recompute_for_day c tz w2 u2 n2 s1 e d = Some (s2, Inr ())"
    and "recompute_for_day c tz w3 u3 n3 s2 e d = Some (s3, Inr ())"
  shows "map timeless (t_daily_records s3) = map timeless (t_daily_records s2) \<and> codes_of s3 i = codes_of s2 i"
  using assms(4)
proof (cases rule: recompute_done)
  case skipped
  then show ?thesis by simp
next
  case (written p3)
  from assms(3) show ?thesis
  proof (cases rule: recompute_done)
    case skipped
    then show ?thesis using written(1) by simp
  next
    case w2: (written p2)
    let ?a = "format_date c d"
    have p2: "pl_employee_id p2 = e" "pl_anchor_date p2 = ?a"
      "pl_prior_row_id p2 = map_option dr_id (find (same_record e ?a) (t_daily_records s1))"
      by (rule recompute_loadE [OF w2(1)], simp)+
    have ok1: "daily_ok s1 \<and> find (same_record e ?a) (t_daily_records s1) \<noteq> None"
      using assms(2)
    proof (cases rule: recompute_done)
      case skipped
      then show ?thesis using w2(1) by simp
    next
      case w1: (written p1)
      have "pl_employee_id p1 = e" "pl_anchor_date p1 = ?a" by (rule recompute_loadE [OF w1(1)], simp)+
      then show ?thesis using recompute_tx_row [OF assms(1) w1(2)] recompute_tx_ok [OF assms(1) w1(2)] by auto
    qed
    then obtain j where "pl_prior_row_id p2 = Some j" using p2(3) by auto
    from recompute_load_stable [OF _ w2(1) this w2(2)] ok1 have "p3 = p2"
      using written(1) w2(1) by simp
    then have "p3 = p2\<lparr>pl_prior_row_id := pl_prior_row_id p2\<rparr>" by simp
    from recompute_tx_again [OF _ w2(2) written(2) this] ok1 p2 show ?thesis by simp
  qed
qed

lemma unknown_anomaly:
  assumes "compute_daily_record c inp = Some out" "UnknownFaceInWindow \<in> set (out_anomalies out)"
  obtains ws we ns ne amb where "shift_window_with_ambiguity c (in_anchor_date inp) (in_dept inp) (in_rules inp) (in_tz inp) = Some (ws, we, ns, ne, amb)"
    "\<exists>e \<in> set (in_events inp). in_window ws we e \<and> ev_is_unknown e"
proof (cases "in_leave inp")
  case (Some l)
  then show thesis using assms by (auto simp: compute_daily_record_def leave_day_def split: if_splits)
next
  case None
  obtain ws we ns ne amb where w: "shift_window_with_ambiguity c (in_anchor_date inp) (in_dept inp) (in_rules inp) (in_tz inp) = Some (ws, we, ns, ne, amb)"
    using assms(1) None by (auto simp: compute_daily_record_def bind_eq_Some_conv)
  let ?agg = "aggregate_events (in_events inp) ws we"
  obtain wk l er an where q: "day_part inp ?agg ns ne = (wk, l, er, an)" by (rule prod_cases4)
  have "UnknownFaceInWindow \<notin> set an"
    using q by (auto simp: day_part_def worked_day_def Let_def compute_lunch_deduction_def
        split: option.splits prod.splits if_splits)
  then have "unknown_in_window ?agg"
    using assms None w q by (auto simp: compute_daily_record_def Let_def check_overtime_caps_def split: if_splits)
  then show thesis using that [OF w] by simp
qed

text \<open>An unknown face is reported only to those who used the device: the plan of a day carries
  UNKNOWN_FACE_IN_WINDOW only if, inside the window of that day for the employee's department,
  there are an unknown-face event and an event of the employee at one device.\<close>

theorem unknown_faces_need_a_shared_device:
  assumes "recompute_load c tz s e d = Some (Inr (Some p))" "UnknownFaceInWindow \<in> set (out_anomalies (pl_output p))"
  shows "\<exists>em dp r ws we ns ne x q. find_employee s (\<lambda>x. em_id x = e \<and> em_status x = ''active'') = Some (em, dp)
    \<and> t_global_rules s = Some r \<and> shift_window c d (department_config_of dp) (global_rules_of r) tz = Some (ws, we, ns, ne)
    \<and> x \<in> set (t_events s) \<and> ae_is_unknown x \<and> ae_captured_at x \<in> {ws..we}
    \<and> q \<in> set (t_events s) \<and> ae_employee_id q = Some e \<and> ae_captured_at q \<in> {ws..we}
    \<and> ae_device_id q = ae_device_id x"
  using assms(1)
proof (rule recompute_loadE)
  fix em dp r ws we ns ne monday year_start inp
  assume found: "find_employee s (\<lambda>x. em_id x = e \<and> em_status x = ''active'') = Some (em, dp)"
    "t_global_rules s = Some r" "shift_window c d (department_config_of dp) (global_rules_of r) tz = Some (ws, we, ns, ne)"
  assume inp: "recompute_input c tz s e d (department_config_of dp) (global_rules_of r) ws we monday year_start = Inr inp"
    "compute_daily_record c inp = Some (pl_output p)"
  have ev: "in_events inp = map event_of (window_events (t_events s) e ws we)"
    using inp(1) by (auto simp: recompute_input_def Let_def bind_result_eq_Inr)
  obtain x where "x \<in> set (in_events inp)" "ev_is_unknown x"
    using unknown_anomaly [OF inp(2) assms(2)] by metis
  then obtain y where y: "y \<in> set (window_events (t_events s) e ws we)" "ae_is_unknown y"
    by (auto simp: ev event_of_def)
  then obtain q where q: "q \<in> set (t_events s)" "own_event e ws we q" "ae_device_id q = ae_device_id y"
    by (auto simp: window_events_def)
  have "y \<in> set (t_events s)" "ae_captured_at y \<in> {ws..we}"
    using y(1) by (auto simp: window_events_def own_event_def)
  then show ?thesis using found y(2) q by (auto simp: own_event_def)
qed

section \<open>A day\<close>

text \<open>A Monday with an entry, an exit and an unknown face at the same device.\<close>

definition day_event :: "string \<Rightarrow> string option \<Rightarrow> string \<Rightarrow> i64 \<Rightarrow> event_table_row" where
  "day_event i emp dir hour = \<lparr>ae_id = i, ae_employee_id = emp, ae_device_id = ''dv1'', ae_direction = dir,
     ae_captured_at = 20563 * 86400 + hour * 3600 + 14400, ae_bucket_30s = 0, ae_is_unknown = (emp = None),
     ae_face_id = None, ae_employee_no = None, ae_raw_payload = [], ae_photo_path = None, ae_created_at = 0\<rparr>"

definition day_db :: db where
  "day_db = \<lparr>
     t_employees = [\<lparr>em_id = ''e1'', em_code = ''001'', em_name = ''Ana'', em_department_id = ''d1'',
       em_status = ''active'', em_position = [], em_hire_date = None, em_base_salary_cents = 30000,
       em_salary_kind = None, em_terminated_on = None, em_face_id = None, em_deleted_at = None,
       em_version = 1, em_created_at = 0, em_updated_at = 0\<rparr>],
     t_departments = [\<lparr>de_id = ''d1'', de_name = ''Planta'', de_base_salary_cents = 0,
       de_shift_start_time = ''08:00'', de_shift_end_time = ''17:00'', de_lunch_mode = ''fixed'',
       de_lunch_duration_min = Some 60, de_status = ''active'', de_deleted_at = None, de_version = 1,
       de_shift_type = ''day'', de_is_overnight_shift = False, de_ordinary_daily_minutes = 480,
       de_created_at = 0, de_updated_at = 0\<rparr>],
     t_daily_records = [], t_anomalies = [], t_overrides = [], t_leaves = [],
     t_events = [day_event ''a'' (Some ''e1'') ''entry'' 8, day_event ''b'' None ''entry'' 9,
       day_event ''c'' (Some ''e1'') ''exit'' 17],
     t_global_rules = Some (10, 10, 0), t_tenant_info = None\<rparr>"

definition day_uuid :: "nat \<Rightarrow> string" where
  "day_uuid n = replicate n (CHR ''x'') @ ''0''"

definition day_plan :: "string option \<Rightarrow> anomaly_code list \<Rightarrow> recompute_plan" where
  "day_plan prior codes = \<lparr>pl_employee_id = ''e1'', pl_anchor_date = ''2026-04-20'', pl_department_id = ''d1'',
     pl_shift_type = ''day'', pl_prior_row_id = prior,
     pl_output = \<lparr>work_minutes = 480, overtime_minutes = 0, late_minutes = 0, early_departure_minutes = 0,
       is_rest_day_worked = False, entry_at = Some (20563 * 86400 + 43200), exit_at = Some (20563 * 86400 + 75600),
       out_leave_id = None, out_anomalies = codes\<rparr>\<rparr>"

definition day_after :: "recompute_plan \<Rightarrow> i64 \<Rightarrow> db" where
  "day_after p now = day_db\<lparr>t_daily_records := [new_daily_row p ''0'' 1\<lparr>dr_computed_at := now, dr_updated_at := now\<rparr>],
     t_anomalies := map (new_anomaly day_uuid now ''0'') (List.enumerate 0 (out_anomalies (pl_output p)))\<rparr>"

definition first_plan :: recompute_plan where "first_plan = day_plan None [UnknownFaceInWindow]"
definition next_plan :: recompute_plan where "next_plan = day_plan (Some ''0'') [UnknownFaceInWindow, RecomputeAfterEdit]"

lemma day_loads:
  "recompute_load gregorian caracas day_db ''e1'' 20563 = Some (Inr (Some first_plan))"
  "recompute_load gregorian caracas (day_after first_plan 1) ''e1'' 20563 = Some (Inr (Some next_plan))"
  "recompute_load gregorian caracas (day_after next_plan 2) ''e1'' 20563 = Some (Inr (Some next_plan))"
  by code_simp+

lemma day_txs:
  "recompute_tx day_uuid 1 first_plan day_db = Inr (day_after first_plan 1)"
  "recompute_tx day_uuid 2 next_plan (day_after first_plan 1) = Inr (day_after next_plan 2)"
  "recompute_tx day_uuid 3 next_plan (day_after next_plan 2) = Inr (day_after next_plan 3)"
  by code_simp+

lemma day_db_ok: "daily_ok day_db"
  by (simp add: daily_ok_def day_db_def)

lemma day_runs:
  "recompute_for_day gregorian caracas Ran day_uuid 1 day_db ''e1'' 20563 = Some (day_after first_plan 1, Inr ())"
  "recompute_for_day gregorian caracas Ran day_uuid 2 (day_after first_plan 1) ''e1'' 20563 = Some (day_after next_plan 2, Inr ())"
  "recompute_for_day gregorian caracas Ran day_uuid 3 (day_after next_plan 2) ''e1'' 20563 = Some (day_after next_plan 3, Inr ())"
  by (simp_all add: recompute_for_day_def recompute_commit_def day_loads day_txs)

theorem one_record_per_day_witness:
  "\<exists>r. t_daily_records (day_after first_plan 1) = [r] \<and>
     (\<exists>x \<in> set (t_daily_records (day_after first_plan 1)). dr_id x = ''0'')"
proof -
  have run: "run_steps record_step [Commit Ran day_uuid 1 first_plan, Elsewhere (day_after first_plan 1)] day_db =
      Some (day_after first_plan 1)"
    by (simp add: recompute_commit_def day_txs)
  obtain r a where r: "t_daily_records (day_after first_plan 1) = [r]"
    "a \<in> set (t_anomalies (day_after first_plan 1))" "an_daily_record_id a = ''0''"
    by (simp add: day_after_def first_plan_def day_plan_def new_anomaly_def)
  then show ?thesis using one_record_per_day [OF day_db_ok run, of r r a] by auto
qed


theorem recompute_settles_witness:
  "map timeless (t_daily_records (day_after next_plan 3)) = map timeless (t_daily_records (day_after next_plan 2)) \<and>
   codes_of (day_after next_plan 3) ''0'' = codes_of (day_after next_plan 2) ''0''"
  by (rule recompute_settles [OF day_db_ok day_runs])

theorem unknown_faces_need_a_shared_device_witness:
  "\<exists>x \<in> set (t_events day_db). \<exists>q \<in> set (t_events day_db). ae_is_unknown x \<and> ae_employee_id q = Some ''e1'' \<and>
    ae_device_id q = ae_device_id x"
  using unknown_faces_need_a_shared_device [OF day_loads(1)] by (auto simp: first_plan_def day_plan_def)

end
