(* ===== verification/Storage.thy ===== *)
theory Storage
  imports Prelude
begin

text \<open>
  Files that belong to a database mutation (storage/atomic\_file.rs): written and published
  before the transaction, removed again unless the transaction commits and the caller keeps
  them.  A file system is the map from the paths under one root to the identity (inode) and
  the content of the file there.  The system calls may fail: each call takes what they did
  as \<open>string + unit\<close>.  The renames through temporary and quarantine names are single steps.
\<close>

record file_system =
  fs_files :: "string \<rightharpoonup> nat \<times> string"
  fs_next :: nat

definition no_files :: file_system where
  "no_files = \<lparr>fs_files = Map.empty, fs_next = 0\<rparr>"

fun path_components :: "string \<Rightarrow> string list" where
  "path_components [] = [[]]"
| "path_components (ch # s) = (if ch = CHR ''/'' then [] # path_components s
     else (ch # hd (path_components s)) # tl (path_components s))"

text \<open>Only \<open>Normal\<close> components: not absolute, no \<open>..\<close>, and no \<open>.\<close> in front (elsewhere
  \<open>components()\<close> drops it).\<close>

definition traversal_free :: "string \<Rightarrow> bool" where
  "traversal_free p \<longleftrightarrow> p \<noteq> [] \<and> hd p \<noteq> CHR ''/'' \<and> ''..'' \<notin> set (path_components p)
     \<and> hd (path_components p) \<noteq> ''.''"

record atomic_file_guard =
  ag_final_path :: string
  ag_identity :: nat

definition guard_write ::
  "string + unit \<Rightarrow> string \<Rightarrow> string \<Rightarrow> file_system \<Rightarrow> string + atomic_file_guard \<times> file_system" where
  "guard_write io relative_path bytes fs =
     (if \<not> traversal_free relative_path then
        Inl ''atomic file path must be a traversal-free relative path''
      else case io of
        Inl e \<Rightarrow> Inl e
      | Inr u \<Rightarrow>
          if fs_files fs relative_path \<noteq> None then Inl (''destination already exists: '' @ relative_path)
          else Inr (\<lparr>ag_final_path = relative_path, ag_identity = fs_next fs\<rparr>,
                 fs\<lparr>fs_files := (fs_files fs)(relative_path \<mapsto> (fs_next fs, bytes)), fs_next := Suc (fs_next fs)\<rparr>))"

text \<open>A file of another identity at the path is preserved.\<close>

definition remove_if_owned :: "string \<Rightarrow> nat \<Rightarrow> file_system \<Rightarrow> file_system \<times> (string + unit)" where
  "remove_if_owned path identity fs =
     (case fs_files fs path of
        None \<Rightarrow> (fs, Inr ())
      | Some (i, bytes) \<Rightarrow>
          if i \<noteq> identity then (fs, Inl ''atomic cleanup identity mismatch; foreign entry preserved'')
          else (fs\<lparr>fs_files := (fs_files fs)(path := None)\<rparr>, Inr ()))"

text \<open>\<open>Drop\<close> of the guard, after \<open>keep\<close> or without.\<close>

definition guard_drop :: "bool \<Rightarrow> atomic_file_guard \<Rightarrow> file_system \<Rightarrow> file_system" where
  "guard_drop kept g fs = (if kept then fs else fst (remove_if_owned (ag_final_path g) (ag_identity g) fs))"

section \<open>Files of a known identity\<close>

text \<open>A direct child of the directory with the extension \<open>jpg\<close>.\<close>

definition parent_of :: "string \<Rightarrow> string" where
  "parent_of p = rev (drop 1 (dropWhile (\<lambda>c. c \<noteq> CHR ''/'') (rev p)))"

definition file_name :: "string \<Rightarrow> string" where
  "file_name p = rev (takeWhile (\<lambda>c. c \<noteq> CHR ''/'') (rev p))"

definition validate_direct_child :: "string \<Rightarrow> string \<Rightarrow> string + unit" where
  "validate_direct_child dir p =
     (if parent_of p \<noteq> dir \<or> length (file_name p) \<le> 4 \<or> drop (length (file_name p) - 4) (file_name p) \<noteq> ''.jpg''
      then Inl ''owned file must be a direct JPEG child of its configured root'' else Inr ())"

definition inspect_owned_file :: "string + unit \<Rightarrow> string \<Rightarrow> string \<Rightarrow> file_system \<Rightarrow> string + nat" where
  "inspect_owned_file io dir p fs =
     (case validate_direct_child dir p of
        Inl m \<Rightarrow> Inl m
      | Inr u \<Rightarrow> (case io of
          Inl m \<Rightarrow> Inl m
        | Inr v \<Rightarrow> (case fs_files fs p of None \<Rightarrow> Inl ''No such file or directory'' | Some (i, bytes) \<Rightarrow> Inr i)))"

definition read_owned_file :: "string + unit \<Rightarrow> string \<Rightarrow> string \<Rightarrow> nat \<Rightarrow> file_system \<Rightarrow> string + string" where
  "read_owned_file io dir p expected_identity fs =
     (case inspect_owned_file io dir p fs of
        Inl m \<Rightarrow> Inl m
      | Inr i \<Rightarrow> if i \<noteq> expected_identity then Inl ''owned file identity mismatch''
          else (case fs_files fs p of None \<Rightarrow> Inl ''No such file or directory'' | Some (j, bytes) \<Rightarrow> Inr bytes))"

definition remove_owned_file :: "string \<Rightarrow> string \<Rightarrow> nat \<Rightarrow> file_system \<Rightarrow> file_system \<times> (string + unit)" where
  "remove_owned_file dir p expected_identity fs =
     (case validate_direct_child dir p of Inl m \<Rightarrow> (fs, Inl m) | Inr u \<Rightarrow> remove_if_owned p expected_identity fs)"

section \<open>Facts\<close>

lemma guard_write_ok:
  "guard_write io p bytes fs = Inr (g, fs') \<Longrightarrow>
    traversal_free p \<and> fs_files fs p = None \<and> ag_final_path g = p \<and>
    fs_files fs' = (fs_files fs)(p \<mapsto> (ag_identity g, bytes))"
  by (auto simp: guard_write_def split: if_splits sum.splits)

lemma guard_dropped:
  assumes "guard_write io p bytes fs = Inr (g, fs')"
  shows "fs_files (guard_drop False g fs') = fs_files fs"
  using guard_write_ok [OF assms] by (auto simp: guard_drop_def remove_if_owned_def)

lemma guard_drop_kept [simp]: "guard_drop True g fs = fs"
  by (simp add: guard_drop_def)

lemma path_components_not_Nil [simp]: "path_components s \<noteq> []"
  by (cases s) auto

text \<open>The directory and the file name of a path the server generates.\<close>

lemma path_components_append:
  "path_components (a @ CHR ''/'' # b) = path_components a @ path_components b"
proof (induction a)
  case (Cons ch a)
  then show ?case by (cases "path_components a") simp_all
qed simp

lemma path_components_plain: "CHR ''/'' \<notin> set s \<Longrightarrow> path_components s = [s]"
  by (induction s) auto

end
