(* ===== verification/Multipart.thy ===== *)
theory Multipart
  imports Byte_Strings
begin

text \<open>
  The tolerant multipart parser of the device payloads (isapi/parser.rs).  Indexing a slice
  out of order panics in Rust; a panic is \<open>None\<close> here.  Offsets into a buffer are kept where
  the code computes with them (\<open>split_headers\<close>); the scan of \<open>split_multipart\<close>, which only ever
  looks at what follows its cursor, runs on that suffix.
\<close>

section \<open>The parser\<close>

record part =
  pt_headers :: string
  pt_body :: string

definition jpeg_magic :: string where
  "jpeg_magic = [CHR 0xFF, CHR 0xD8, CHR 0xFF]"

definition is_jpeg :: "part \<Rightarrow> bool" where
  "is_jpeg p \<longleftrightarrow> str_contains (pt_headers p) ''image/jpeg'' \<or> prefix_of jpeg_magic (pt_body p)"

definition is_alert :: "part \<Rightarrow> bool" where
  "is_alert p \<longleftrightarrow> \<not> is_jpeg p \<and>
     (case find (\<lambda>b. \<not> is_ascii_whitespace b) (pt_body p) of
        None \<Rightarrow> False | Some b \<Rightarrow> b = CHR ''{'' \<or> b = CHR ''<'')"

definition alert_content_type :: "part \<Rightarrow> string" where
  "alert_content_type p =
     (if str_contains (pt_headers p) ''json'' then ''application/json''
      else if str_contains (pt_headers p) ''xml'' then ''application/xml''
      else if find (\<lambda>b. \<not> is_ascii_whitespace b) (pt_body p) = Some (CHR ''{'') then ''application/json''
      else ''application/xml'')"

text \<open>\<open>boundary_of\<close>; a header value is ASCII, so trimming white space is trimming ASCII white
  space.\<close>

definition boundary_of :: "string \<Rightarrow> string option" where
  "boundary_of content_type =
     (let lower = to_ascii_lowercase content_type in
      if \<not> prefix_of ''multipart/'' lower then None
      else (case find_subslice lower ''boundary='' of
          None \<Rightarrow> None
        | Some index \<Rightarrow>
            let value = trim_by (\<lambda>ch. ch = CHR 0x22) (trim_by is_whitespace
                  (takeWhile (\<lambda>ch. ch \<noteq> CHR '';'') (drop (index + 9) content_type)))
            in if value = [] then None else Some value))"

definition slice :: "string \<Rightarrow> nat \<Rightarrow> nat \<Rightarrow> string option" where
  "slice s a b = (if a \<le> b \<and> b \<le> length s then Some (take (b - a) (drop a s)) else None)"

definition is_header_line :: "string \<Rightarrow> bool" where
  "is_header_line line \<longleftrightarrow> CHR '':'' \<in> set line \<and>
     (let name = takeWhile (\<lambda>b. b \<noteq> CHR '':'') line
      in name \<noteq> [] \<and> (\<forall>b \<in> set name. is_ascii_alphanumeric b \<or> b = CHR ''-''))"

fun skip_crlf :: "string \<Rightarrow> nat" where
  "skip_crlf (a # b # s) = (if [a, b] = crlf then 2 + skip_crlf s else 0)"
| "skip_crlf s = 0"

definition utf8_or_default :: "string \<Rightarrow> string" where
  "utf8_or_default s = (if utf8_ok s then s else [])"

text \<open>The loop over the lines; \<open>scan - 2\<close> is the saturating subtraction of the code.\<close>

function header_scan :: "string \<Rightarrow> nat \<Rightarrow> nat \<Rightarrow> (string \<times> nat) option" where
  "header_scan segment cursor scan =
     (if length segment \<le> scan then Some ([], cursor)
      else case find_subslice (drop scan segment) crlf of
        None \<Rightarrow> Some ([], cursor)
      | Some relative \<Rightarrow>
          if \<not> is_header_line (take relative (drop scan segment))
          then map_option (\<lambda>hs. (utf8_or_default hs, scan)) (slice segment cursor (scan - 2))
          else header_scan segment cursor (scan + relative + 2))"
  by auto

termination by (relation "measure (\<lambda>(segment, _, scan). length segment - scan)") auto

declare header_scan.simps [simp del]

definition payload_start :: "char \<Rightarrow> bool" where
  "payload_start b \<longleftrightarrow> b = CHR ''{'' \<or> b = CHR ''<'' \<or> b = CHR 0xFF"

definition split_headers :: "string \<Rightarrow> (string \<times> nat) option" where
  "split_headers segment =
     (let cursor = skip_crlf segment in
      case drop cursor segment of
        [] \<Rightarrow> Some ([], length segment)
      | b # _ \<Rightarrow>
          if payload_start b then Some ([], cursor)
          else (case find_subslice (drop cursor segment) (crlf @ crlf) of
              Some index \<Rightarrow> Some (utf8_or_default (take index (drop cursor segment)), cursor + index + 4)
            | None \<Rightarrow> header_scan segment cursor cursor))"

text \<open>What is trimmed off the end of a part.\<close>

definition part_end :: "char \<Rightarrow> bool" where
  "part_end b \<longleftrightarrow> b = CHR 0x0D \<or> b = CHR 0x0A \<or> b = CHR ''-''"

function split_parts :: "string \<Rightarrow> string \<Rightarrow> part list option" where
  "split_parts delimiter body =
     (case find_subslice body delimiter of
        None \<Rightarrow> Some []
      | Some offset \<Rightarrow>
          (let rest = drop (offset + length delimiter) body;
               n = (case find_subslice rest delimiter of None \<Rightarrow> length rest | Some next \<Rightarrow> next);
               segment = take n rest
           in case split_headers segment of
                None \<Rightarrow> None
              | Some (headers, content_start) \<Rightarrow>
                  (let content = trim_end_by part_end (drop content_start segment)
                   in map_option (\<lambda>parts. if content = [] then parts
                          else \<lparr>pt_headers = to_ascii_lowercase headers, pt_body = content\<rparr> # parts)
                        (split_parts delimiter (drop n rest)))))"
  by auto

termination
  by (relation "measure (\<lambda>(delimiter, body). length body)")
    (auto simp: find_subslice_def find_sub_Some split: if_splits intro!: diff_less)

declare split_parts.simps [simp del]

definition split_multipart :: "string \<Rightarrow> string \<Rightarrow> part list option" where
  "split_multipart body boundary = split_parts (''--'' @ boundary) body"

record event_pair =
  ep_xml :: string
  ep_jpeg :: "string option"

text \<open>\<open>pair_events\<close>, with the alert still waiting for its image.\<close>

fun pair_loop :: "string option \<Rightarrow> part list \<Rightarrow> event_pair list" where
  "pair_loop pending [] = (case pending of None \<Rightarrow> [] | Some alert \<Rightarrow> [\<lparr>ep_xml = alert, ep_jpeg = None\<rparr>])"
| "pair_loop pending (p # parts) =
     (if is_jpeg p then
        (case pending of
           None \<Rightarrow> pair_loop None parts
         | Some alert \<Rightarrow> \<lparr>ep_xml = alert, ep_jpeg = Some (pt_body p)\<rparr> # pair_loop None parts)
      else if is_alert p then
        (case pending of None \<Rightarrow> [] | Some alert \<Rightarrow> [\<lparr>ep_xml = alert, ep_jpeg = None\<rparr>])
        @ pair_loop (Some (pt_body p)) parts
      else pair_loop pending parts)"

definition pair_events :: "part list \<Rightarrow> event_pair list" where
  "pair_events parts = pair_loop None parts"

definition parse_buffer :: "string \<Rightarrow> string \<Rightarrow> event_pair list option" where
  "parse_buffer body boundary = map_option pair_events (split_multipart body boundary)"

text \<open>The fallback without any framing.\<close>

definition alert_open :: string where "alert_open = ''<EventNotificationAlert''"
definition alert_close :: string where "alert_close = ''</EventNotificationAlert>''"

function line_scan :: "string \<Rightarrow> event_pair list" where
  "line_scan body =
     (case find_subslice body alert_open of
        None \<Rightarrow> []
      | Some p \<Rightarrow>
          (let from = drop p body in
           case find_subslice from alert_close of
             None \<Rightarrow> []
           | Some q \<Rightarrow>
               (let n = q + length alert_close; tail = drop n from;
                    tail_end = (case find_subslice tail alert_open of None \<Rightarrow> length tail | Some k \<Rightarrow> k);
                    between = take tail_end tail
                in \<lparr>ep_xml = take n from,
                    ep_jpeg = map_option (\<lambda>j. drop j between) (find_subslice between jpeg_magic)\<rparr>
                   # line_scan (drop tail_end tail))))"
  by auto

termination
  by (relation "measure length") (auto simp: find_subslice_def find_sub_Some alert_close_def split: if_splits)

definition parse_line_scan_fallback :: "string \<Rightarrow> event_pair list" where
  "parse_line_scan_fallback body = line_scan body"

section \<open>Where a part's headers end\<close>

lemma skip_crlf_le: "skip_crlf s \<le> length s"
  by (induction s rule: skip_crlf.induct) auto

lemma skip_crlf_pos: "skip_crlf s = 0 \<or> 2 \<le> skip_crlf s"
  by (cases s rule: skip_crlf.cases) auto

text \<open>Once the scan is past the first line, the slice of the headers is in order.\<close>

lemma header_scan_later:
  "cursor + 2 \<le> scan \<Longrightarrow> header_scan segment cursor scan \<noteq> None"
proof (induction segment cursor scan rule: header_scan.induct)
  case (1 segment cursor scan)
  then show ?case
    by (subst header_scan.simps) (auto simp: slice_def split: option.splits)
qed

text \<open>The parser panics on exactly these parts: a line break, then a first line that is neither a
  payload the parser recognises nor a header, and no blank line after it.\<close>

definition headerless :: "string \<Rightarrow> bool" where
  "headerless segment \<longleftrightarrow>
     (let body = drop (skip_crlf segment) segment in
      0 < skip_crlf segment \<and> body \<noteq> [] \<and> \<not> payload_start (hd body) \<and>
      find_subslice body (crlf @ crlf) = None \<and>
      (case find_subslice body crlf of None \<Rightarrow> False | Some k \<Rightarrow> \<not> is_header_line (take k body)))"

lemma split_headers_None: "split_headers segment = None \<longleftrightarrow> headerless segment"
proof -
  let ?c = "skip_crlf segment"
  have len: "?c \<le> length segment" by (rule skip_crlf_le)
  have pos: "?c = 0 \<or> 2 \<le> ?c" by (rule skip_crlf_pos)
  have scan: "header_scan segment ?c ?c = None \<longleftrightarrow> 0 < ?c \<and>
      (case find_subslice (drop ?c segment) crlf of None \<Rightarrow> False | Some k \<Rightarrow> \<not> is_header_line (take k (drop ?c segment)))"
    if "drop ?c segment \<noteq> []"
    using that len pos header_scan_later [of ?c "?c + _ + 2" segment]
    by (subst header_scan.simps) (auto simp: slice_def split: option.splits)
  show ?thesis
  proof (cases "drop ?c segment")
    case (Cons b r)
    then show ?thesis using scan by (auto simp: split_headers_def headerless_def Let_def split: option.splits)
  qed (simp add: split_headers_def headerless_def Let_def)
qed

section \<open>Round trip\<close>

text \<open>How the devices write a part: as RFC 7578 says, without the blank line before the body, or
  without any header.\<close>

datatype framing = Blank_Line | No_Blank_Line | No_Headers

record wire_part =
  wp_framing :: framing
  wp_lines :: "string list"
  wp_body :: string

fun join_lines :: "string list \<Rightarrow> string" where
  "join_lines [] = []"
| "join_lines [l] = l"
| "join_lines (l # k # ls) = l @ crlf @ join_lines (k # ls)"

definition wire_headers :: "wire_part \<Rightarrow> string" where
  "wire_headers p = (case wp_framing p of
     Blank_Line \<Rightarrow> join_lines (wp_lines p) @ crlf @ crlf
   | No_Blank_Line \<Rightarrow> join_lines (wp_lines p) @ crlf
   | No_Headers \<Rightarrow> [])"

definition wire_segment :: "wire_part \<Rightarrow> string" where
  "wire_segment p = crlf @ wire_headers p @ wp_body p @ crlf"

definition render :: "string \<Rightarrow> wire_part list \<Rightarrow> string" where
  "render boundary ps = concat (map (\<lambda>p. ''--'' @ boundary @ wire_segment p) ps) @ ''--'' @ boundary @ ''--'' @ crlf"

definition part_of :: "wire_part \<Rightarrow> part" where
  "part_of p = \<lparr>pt_headers = (if wp_framing p = No_Headers then [] else to_ascii_lowercase (join_lines (wp_lines p))),
     pt_body = wp_body p\<rparr>"

definition plain_line :: "string \<Rightarrow> bool" where
  "plain_line l \<longleftrightarrow> l \<noteq> [] \<and> CHR 0x0D \<notin> set l"

text \<open>What the writer owes: no delimiter inside the part, a body that does not end in the bytes
  the parser trims, and per framing what tells the headers from the body.\<close>

definition wire_ok :: "string \<Rightarrow> wire_part \<Rightarrow> bool" where
  "wire_ok boundary p \<longleftrightarrow>
     find_sub (wire_segment p @ ''--'' @ boundary) (''--'' @ boundary) = Some (length (wire_segment p)) \<and>
     wp_body p \<noteq> [] \<and> \<not> part_end (last (wp_body p)) \<and>
     (case wp_framing p of
        Blank_Line \<Rightarrow> wp_lines p \<noteq> [] \<and> list_all plain_line (wp_lines p) \<and>
          \<not> payload_start (hd (hd (wp_lines p))) \<and> utf8_ok (join_lines (wp_lines p))
      | No_Blank_Line \<Rightarrow> wp_lines p \<noteq> [] \<and> list_all plain_line (wp_lines p) \<and>
          list_all is_header_line (wp_lines p) \<and> utf8_ok (join_lines (wp_lines p)) \<and>
          (hd (wp_body p) = CHR ''{'' \<or> hd (wp_body p) = CHR ''<'') \<and>
          find_sub (join_lines (wp_lines p) @ crlf @ wp_body p @ crlf) (crlf @ crlf) = None
      | No_Headers \<Rightarrow> payload_start (hd (wp_body p)))"

lemma crlf_simps: "crlf @ s = CHR 0x0D # CHR 0x0A # s" "length crlf = 2" "crlf \<noteq> []"
  by (simp_all add: crlf_def)

text \<open>A line without carriage returns ends at the first CRLF.\<close>

lemma find_sub_line:
  "CHR 0x0D \<notin> set l \<Longrightarrow> find_sub (l @ crlf @ t) crlf = Some (length l)"
  by (induction l) (auto simp: crlf_def)

lemma find_sub_skip:
  assumes "CHR 0x0D \<notin> set l" "find_sub t (CHR 0x0D # x) = Some k"
  shows "find_sub (l @ t) (CHR 0x0D # x) = Some (length l + k)"
  using assms by (induction l) auto

lemma find_sub_lines:
  assumes "ls \<noteq> []" "list_all plain_line ls"
  shows "find_sub (join_lines ls @ crlf @ crlf @ t) (crlf @ crlf) = Some (length (join_lines ls))"
  using assms
proof (induction ls rule: join_lines.induct)
  case (2 l)
  then have "find_sub (l @ crlf @ crlf @ t) (CHR 0x0D # CHR 0x0A # crlf) = Some (length l + 0)"
    by (intro find_sub_skip) (simp_all add: plain_line_def crlf_def)
  then show ?case by (simp add: crlf_def)
next
  case (3 l k ls)
  let ?t = "join_lines (k # ls) @ crlf @ crlf @ t"
  have k: "k \<noteq> []" "CHR 0x0D \<notin> set k" using 3(3) by (auto simp: plain_line_def)
  then obtain b k' where b: "k = b # k'" "b \<noteq> CHR 0x0D" by (cases k) auto
  obtain r where r: "join_lines (k # ls) = b # r" using b by (cases ls) auto
  have "find_sub ?t (crlf @ crlf) = Some (length (join_lines (k # ls)))" using 3 by simp
  then have "find_sub (crlf @ ?t) (CHR 0x0D # CHR 0x0A # crlf) = Some (2 + length (join_lines (k # ls)))"
    using b(2) unfolding r crlf_def by simp
  then have "find_sub (l @ crlf @ ?t) (CHR 0x0D # CHR 0x0A # crlf) = Some (length l + (2 + length (join_lines (k # ls))))"
    using 3(3) by (intro find_sub_skip) (simp_all add: plain_line_def del: join_lines.simps)
  moreover have "CHR 0x0D # CHR 0x0A # crlf = crlf @ crlf" by (simp add: crlf_def)
  ultimately show ?case by (simp add: crlf_simps(2))
qed simp

text \<open>The scan of the lines stops at a payload.\<close>

lemma payload_bytes: "\<not> is_ascii_alphanumeric (CHR ''{'')" "\<not> is_ascii_alphanumeric (CHR ''<'')"
  by code_simp+

lemma payload_byte_ff: "\<not> is_ascii_alphanumeric (CHR 0xFF)"
  by code_simp

lemma header_line_payload: "hd s = CHR ''{'' \<or> hd s = CHR ''<'' \<Longrightarrow> \<not> is_header_line s"
proof (cases s)
  case (Cons a t)
  assume "hd s = CHR ''{'' \<or> hd s = CHR ''<''"
  then have "\<not> is_ascii_alphanumeric a \<and> a \<noteq> CHR '':'' \<and> a \<noteq> CHR ''-''"
    using Cons payload_bytes by auto
  then show ?thesis using Cons by (auto simp: is_header_line_def Let_def)
qed (simp add: is_header_line_def)

lemma header_scan_lines:
  assumes "ls \<noteq> []" "list_all plain_line ls" "list_all is_header_line ls"
    and "body \<noteq> []" "hd body = CHR ''{'' \<or> hd body = CHR ''<''"
    and "segment = pre @ join_lines ls @ crlf @ body @ crlf" "cursor \<le> length pre"
  shows "header_scan segment cursor (length pre) =
    Some (utf8_or_default (drop cursor (pre @ join_lines ls)), length pre + length (join_lines ls) + 2)"
  using assms
proof (induction ls arbitrary: pre rule: join_lines.induct)
  case (2 l)
  obtain k where k: "find_sub (body @ crlf) crlf = Some k"
  proof (cases "find_sub (body @ crlf) crlf")
    case None
    then have "\<not> prefix_of crlf (drop (length body) (body @ crlf))" by (simp only: find_sub_None crlf_simps not_False_eq_True)
    then show thesis using prefix_of_append [of crlf "[]"] by simp
  qed (rule that)
  obtain b body' where body: "body = b # body'" using 2 by (cases body) auto
  have "b \<noteq> CHR 0x0D" using 2(5) body by auto
  then have "0 < k" using k body by (auto simp: crlf_def split: if_splits)
  then have stop: "\<not> is_header_line (take k (body @ crlf))"
    using 2(5) body by (intro header_line_payload) (cases k; simp)
  let ?scan = "length pre + length l + 2"
  have "header_scan segment cursor (length pre) = header_scan segment cursor ?scan"
    using 2 find_sub_line [of l "body @ crlf"]
    by (subst header_scan.simps) (simp add: find_subslice_eq crlf_simps(2,3) plain_line_def)
  also have "\<dots> = Some (utf8_or_default (drop cursor (pre @ l)), ?scan)"
    using 2 k stop by (subst header_scan.simps) (simp add: find_subslice_eq crlf_simps(2,3) slice_def)
  finally show ?case by simp
next
  case (3 l k ls)
  let ?pre = "pre @ l @ crlf"
  have "header_scan segment cursor (length pre) = header_scan segment cursor (length ?pre)"
    using 3 find_sub_line [of l "join_lines (k # ls) @ crlf @ body @ crlf"]
    by (subst header_scan.simps) (simp add: find_subslice_eq crlf_simps(2,3) plain_line_def)
  also have "\<dots> = Some (utf8_or_default (drop cursor (?pre @ join_lines (k # ls))), length ?pre + length (join_lines (k # ls)) + 2)"
    by (rule 3(1)) (use 3 in simp_all)
  finally show ?case by (simp add: crlf_simps(2))
qed simp

lemma trim_end_body: "body \<noteq> [] \<Longrightarrow> \<not> part_end (last body) \<Longrightarrow> trim_end_by part_end (body @ crlf) = body"
  by (cases body rule: rev_cases) (simp_all add: trim_end_by_def crlf_def part_end_def)

lemma skip_crlf_segment: "s \<noteq> [] \<Longrightarrow> hd s \<noteq> CHR 0x0D \<Longrightarrow> skip_crlf (crlf @ s) = 2"
  by (cases s rule: skip_crlf.cases) (simp_all add: crlf_def)

text \<open>What the parser makes of one part, in each framing.\<close>

lemma split_headers_wire:
  assumes "wire_ok boundary p"
  obtains headers start where "split_headers (wire_segment p) = Some (headers, start)"
    "drop start (wire_segment p) = wp_body p @ crlf"
    "to_ascii_lowercase headers = pt_headers (part_of p)"
proof (cases "wp_framing p")
  case Blank_Line
  let ?hs = "join_lines (wp_lines p)"
  have ok: "wp_lines p \<noteq> []" "list_all plain_line (wp_lines p)" "\<not> payload_start (hd (hd (wp_lines p)))" "utf8_ok ?hs"
    using assms Blank_Line by (simp_all add: wire_ok_def)
  obtain l ls where ls: "wp_lines p = l # ls" using ok(1) by (cases "wp_lines p") auto
  obtain b l' where l: "l = b # l'" using ok(2) ls by (cases l) (auto simp: plain_line_def)
  obtain r where r: "?hs = b # r" using ls l by (cases ls) auto
  have b: "b \<noteq> CHR 0x0D" "\<not> payload_start b" using ok ls l by (auto simp: plain_line_def)
  have seg: "wire_segment p = crlf @ ?hs @ crlf @ crlf @ wp_body p @ crlf"
    by (simp add: wire_segment_def wire_headers_def Blank_Line)
  have skip: "skip_crlf (wire_segment p) = 2" unfolding seg by (rule skip_crlf_segment) (use r b in auto)
  have rest: "drop 2 (wire_segment p) = ?hs @ crlf @ crlf @ wp_body p @ crlf" by (simp add: seg crlf_def)
  have "find_subslice (drop 2 (wire_segment p)) (crlf @ crlf) = Some (length ?hs)"
    unfolding rest using find_sub_lines [OF ok(1,2)] by (simp add: find_subslice_eq crlf_simps)
  then have "split_headers (wire_segment p) = Some (?hs, 2 + length ?hs + 4)"
    using b(2) rest r ok(4) by (simp add: split_headers_def skip utf8_or_default_def)
  moreover have "drop (2 + length ?hs + 4) (wire_segment p) = wp_body p @ crlf"
    using append_eq_conv_conj [of "crlf @ ?hs @ crlf @ crlf" "wp_body p @ crlf" "wire_segment p"]
    by (simp add: seg crlf_simps(2) ac_simps)
  ultimately show thesis by (rule that) (simp add: part_of_def Blank_Line)
next
  case No_Blank_Line
  let ?hs = "join_lines (wp_lines p)"
  have ok: "wp_lines p \<noteq> []" "list_all plain_line (wp_lines p)" "list_all is_header_line (wp_lines p)" "utf8_ok ?hs"
    "hd (wp_body p) = CHR ''{'' \<or> hd (wp_body p) = CHR ''<''" "wp_body p \<noteq> []"
    "find_sub (?hs @ crlf @ wp_body p @ crlf) (crlf @ crlf) = None"
    using assms No_Blank_Line by (simp_all add: wire_ok_def)
  obtain l ls where ls: "wp_lines p = l # ls" using ok(1) by (cases "wp_lines p") auto
  obtain b l' where l: "l = b # l'" using ok(2) ls by (cases l) (auto simp: plain_line_def)
  obtain r where r: "?hs = b # r" using ls l by (cases ls) auto
  have b: "b \<noteq> CHR 0x0D" using ok ls l by (auto simp: plain_line_def)
  have "is_header_line l" using ok(3) ls by simp
  then have "is_ascii_alphanumeric b \<or> b = CHR ''-''"
    using l by (cases "b = CHR '':''") (auto simp: is_header_line_def Let_def)
  then have nb: "\<not> payload_start b" using payload_bytes payload_byte_ff by (auto simp: payload_start_def)
  have seg: "wire_segment p = crlf @ ?hs @ crlf @ wp_body p @ crlf"
    by (simp add: wire_segment_def wire_headers_def No_Blank_Line)
  have skip: "skip_crlf (wire_segment p) = 2" unfolding seg by (rule skip_crlf_segment) (use r b in auto)
  have rest: "drop 2 (wire_segment p) = ?hs @ crlf @ wp_body p @ crlf" by (simp add: seg crlf_def)
  have "split_headers (wire_segment p) = header_scan (wire_segment p) 2 2"
    using nb rest r ok(7) by (simp add: split_headers_def skip find_subslice_eq crlf_simps(3))
  also have "\<dots> = Some (utf8_or_default (drop 2 (crlf @ ?hs)), 2 + length ?hs + 2)"
    using header_scan_lines [OF ok(1,2,3,6,5) seg, of 2] by (simp add: crlf_simps(2))
  also have "\<dots> = Some (?hs, 2 + length ?hs + 2)" using ok(4) by (simp add: crlf_def utf8_or_default_def)
  finally show thesis by (rule that) (simp_all add: seg crlf_def part_of_def No_Blank_Line)
next
  case No_Headers
  have ok: "payload_start (hd (wp_body p))" "wp_body p \<noteq> []" using assms No_Headers by (simp_all add: wire_ok_def)
  then obtain b r where b: "wp_body p = b # r" "payload_start b" by (cases "wp_body p") auto
  have seg: "wire_segment p = crlf @ wp_body p @ crlf" by (simp add: wire_segment_def wire_headers_def No_Headers)
  have skip: "skip_crlf (wire_segment p) = 2"
    unfolding seg by (rule skip_crlf_segment) (use b in \<open>auto simp: payload_start_def\<close>)
  have "drop 2 (wire_segment p) = b # r @ crlf" using b by (simp add: seg crlf_def)
  then have "split_headers (wire_segment p) = Some ([], 2)"
    using b(2) by (simp add: split_headers_def skip)
  then show thesis by (rule that) (simp_all add: seg crlf_def part_of_def No_Headers to_ascii_lowercase_def)
qed

lemma split_parts_wire:
  assumes "wire_ok boundary p" "prefix_of (''--'' @ boundary) rest"
  shows "split_parts (''--'' @ boundary) (''--'' @ boundary @ wire_segment p @ rest) =
    map_option ((#) (part_of p)) (split_parts (''--'' @ boundary) rest)"
proof -
  let ?d = "''--'' @ boundary"
  obtain headers start where h: "split_headers (wire_segment p) = Some (headers, start)"
    "drop start (wire_segment p) = wp_body p @ crlf" "to_ascii_lowercase headers = pt_headers (part_of p)"
    by (rule split_headers_wire [OF assms(1)])
  have body: "wp_body p \<noteq> []" "\<not> part_end (last (wp_body p))" using assms(1) by (simp_all add: wire_ok_def)
  obtain more where more: "rest = ?d @ more" using assms(2) by (auto simp: prefix_of_eq)
  have first: "find_subslice (?d @ wire_segment p @ rest) ?d = Some 0"
    by (simp add: find_subslice_eq)
  have "find_sub (wire_segment p @ ?d) ?d = Some (length (wire_segment p))"
    using assms(1) by (simp add: wire_ok_def)
  from find_sub_append [OF this, of more]
  have second: "find_subslice (wire_segment p @ rest) ?d = Some (length (wire_segment p))"
    by (simp add: find_subslice_eq more)
  have "part_of p = \<lparr>pt_headers = to_ascii_lowercase headers, pt_body = wp_body p\<rparr>"
    by (simp add: h(3)) (simp add: part_of_def)
  moreover have "split_parts ?d (?d @ wire_segment p @ rest) =
      map_option (\<lambda>parts. \<lparr>pt_headers = to_ascii_lowercase headers, pt_body = wp_body p\<rparr> # parts) (split_parts ?d rest)"
    using first second h body trim_end_body [OF body]
    by (subst split_parts.simps) (simp del: append_assoc add: append_assoc [symmetric])
  ultimately show ?thesis by simp
qed

text \<open>Up to the closing delimiter nothing is left over.\<close>

lemma find_sub_first: "find_sub (pre @ d) d = Some (length pre) \<Longrightarrow> d \<noteq> [] \<Longrightarrow> find_subslice (pre @ d @ t) d = Some (length pre)"
  using find_sub_append [of "pre @ d" d "length pre" t] by (simp add: find_subslice_eq)

lemma split_parts_close:
  assumes "boundary \<noteq> []" "CHR 0x0D \<notin> set boundary"
  shows "split_parts (''--'' @ boundary) (''--'' @ boundary @ ''--'' @ crlf) = Some []"
proof -
  let ?d = "''--'' @ boundary"
  obtain b bs where b: "boundary = b # bs" "b \<noteq> CHR 0x0D" using assms by (cases boundary) auto
  have none: "find_subslice (''--'' @ crlf) ?d = None"
    using b by (simp add: find_subslice_eq crlf_def)
  have head: "split_headers (''--'' @ crlf) = Some ([], 0)" by code_simp
  have trim: "trim_end_by part_end (''--'' @ crlf) = []" by code_simp
  have first: "find_subslice (?d @ ''--'' @ crlf) ?d = Some 0" by (simp add: find_subslice_eq)
  have rest: "split_parts ?d [] = Some []" by (subst split_parts.simps) (simp add: find_subslice_def)
  show ?thesis
    using first none head trim rest
    by (subst split_parts.simps) (simp del: append_assoc add: append_assoc [symmetric])
qed

text \<open>The preamble is skipped.\<close>

lemma split_parts_preamble:
  assumes "find_sub (pre @ d) d = Some (length pre)" "d \<noteq> []"
  shows "split_parts d (pre @ d @ t) = split_parts d (d @ t)"
proof -
  have "find_subslice (d @ t) d = Some 0" using assms(2) by (cases d) (simp_all add: find_subslice_eq)
  then show ?thesis using find_sub_first [OF assms]
    by (subst (1 2) split_parts.simps) simp
qed

lemma split_render:
  assumes "boundary \<noteq> []" "CHR 0x0D \<notin> set boundary" "list_all (wire_ok boundary) ps"
  shows "split_parts (''--'' @ boundary) (render boundary ps) = Some (map part_of ps)"
  using assms(3)
proof (induction ps)
  case Nil
  then show ?case using split_parts_close [OF assms(1,2)] by (simp add: render_def)
next
  case (Cons p ps)
  have "prefix_of (''--'' @ boundary) (render boundary ps)"
    by (cases ps) (auto simp: render_def prefix_of_eq)
  from split_parts_wire [OF _ this, of p] Cons show ?case by (simp add: render_def)
qed

text \<open>C27. Round trip: a body written by a device in any of its three framings (with the blank line,
  without it, without headers), with or without a preamble, is split into exactly the parts
  that were written, headers and bodies byte for byte, in their order.\<close>

theorem multipart_roundtrip:
  assumes "boundary \<noteq> []" "CHR 0x0D \<notin> set boundary" "list_all (wire_ok boundary) ps"
    and "find_sub (preamble @ ''--'' @ boundary) (''--'' @ boundary) = Some (length preamble)"
  shows "split_multipart (preamble @ render boundary ps) boundary = Some (map part_of ps)"
proof -
  obtain t where t: "render boundary ps = (''--'' @ boundary) @ t"
    by (cases ps) (auto simp: render_def)
  show ?thesis
    using split_parts_preamble [OF assms(4), of t] split_render [OF assms(1-3)]
    by (simp add: split_multipart_def t del: append_assoc)
qed

section \<open>Pairing\<close>

text \<open>The reference: among the images and the alerts, each alert with the part right after it.\<close>

definition relevant :: "part list \<Rightarrow> part list" where
  "relevant parts = filter (\<lambda>p. is_jpeg p \<or> is_alert p) parts"

definition image_of :: "part option \<Rightarrow> string option" where
  "image_of next = (case next of None \<Rightarrow> None | Some q \<Rightarrow> if is_jpeg q then Some (pt_body q) else None)"

definition first_of :: "'a list \<Rightarrow> 'a option" where
  "first_of xs = (case xs of [] \<Rightarrow> None | x # _ \<Rightarrow> Some x)"

definition paired :: "part list \<Rightarrow> event_pair list" where
  "paired parts = [\<lparr>ep_xml = pt_body p, ep_jpeg = image_of next\<rparr>.
     (p, next) \<leftarrow> zip (relevant parts) (map Some (tl (relevant parts)) @ [None]), is_alert p]"

lemma paired_Nil: "paired [] = []"
  by (simp add: paired_def relevant_def)

lemma paired_Cons:
  "paired (p # parts) =
     (if is_alert p then [\<lparr>ep_xml = pt_body p, ep_jpeg = image_of (first_of (relevant parts))\<rparr>] else []) @ paired parts"
  by (cases "relevant parts") (auto simp: paired_def relevant_def first_of_def)

lemma pair_loop_paired:
  "pair_loop pending parts =
     (case pending of None \<Rightarrow> [] | Some a \<Rightarrow> [\<lparr>ep_xml = a, ep_jpeg = image_of (first_of (relevant parts))\<rparr>]) @ paired parts"
proof (induction pending parts rule: pair_loop.induct)
  case (1 pending)
  then show ?case by (simp add: paired_Nil relevant_def first_of_def image_of_def split: option.split)
next
  case (2 pending p parts)
  have rel: "relevant (p # parts) = (if is_jpeg p \<or> is_alert p then [p] else []) @ relevant parts"
    by (simp add: relevant_def)
  have excl: "is_jpeg p \<Longrightarrow> \<not> is_alert p" by (simp add: is_alert_def)
  show ?case using 2 excl
    by (cases pending) (auto simp: paired_Cons rel first_of_def image_of_def)
qed

lemma relevant_alerts: "filter is_alert (relevant parts) = filter is_alert parts"
  by (induction parts) (auto simp: relevant_def)

lemma paired_alerts: "map ep_xml (paired parts) = map pt_body (filter is_alert parts)"
  by (induction parts) (simp_all add: paired_Nil paired_Cons)

text \<open>Every alert is delivered, once and in order, with the image that belongs to it: leaving out
  the parts that are neither, an alert gets the part right after it if that is an image, and no
  image otherwise.\<close>

theorem alerts_keep_their_images:
  "pair_events parts = paired parts \<and> map ep_xml (pair_events parts) = map pt_body (filter is_alert parts)"
  by (simp add: pair_events_def pair_loop_paired paired_alerts)

section \<open>Panics\<close>

text \<open>The parser's panics: the headers of a part are split for every byte string, except exactly
  those that open with a line break and then a line that is neither a payload (by its first
  byte) nor a header, without any blank line after it; on those the slice of the headers ends
  before it starts.\<close>

theorem split_headers_panics_exactly:
  "split_headers segment = None \<longleftrightarrow> headerless segment"
  by (rule split_headers_None)

text \<open>Such a part panics the parser wherever it comes first in a body.\<close>

lemma headerless_part_panics:
  assumes "find_sub (segment @ ''--'' @ boundary) (''--'' @ boundary) = Some (length segment)" "headerless segment"
  shows "split_multipart (''--'' @ boundary @ segment @ ''--'' @ boundary @ rest) boundary = None"
proof -
  let ?d = "''--'' @ boundary"
  have "find_subslice (?d @ segment @ ?d @ rest) ?d = Some 0" by (simp add: find_subslice_eq)
  moreover have "find_subslice (segment @ ?d @ rest) ?d = Some (length segment)"
    using find_sub_first [OF assms(1)] by simp
  moreover have "split_headers segment = None" using assms(2) by (simp add: split_headers_None)
  ultimately show ?thesis unfolding split_multipart_def
    by (subst split_parts.simps) (simp del: append_assoc add: append_assoc [symmetric])
qed

section \<open>Examples\<close>

definition sample_alert :: wire_part where
  "sample_alert = \<lparr>wp_framing = No_Blank_Line, wp_lines = [''Content-Disposition: form-data''], wp_body = ''{1:2}''\<rparr>"

definition sample_image :: wire_part where
  "sample_image = \<lparr>wp_framing = Blank_Line, wp_lines = [''Content-Type: image/jpeg'', ''X-A: b''],
     wp_body = [CHR 0xFF, CHR 0xD8, CHR 0xFF, CHR 0x00, CHR 0xD9]\<rparr>"

definition sample_bare :: wire_part where
  "sample_bare = \<lparr>wp_framing = No_Headers, wp_lines = [], wp_body = ''<b/>''\<rparr>"

lemma samples_ok: "list_all (wire_ok ''B'') [sample_alert, sample_image, sample_bare]"
  by code_simp

theorem multipart_roundtrip_witness:
  "split_multipart (''junk'' @ render ''B'' [sample_alert, sample_image, sample_bare]) ''B'' =
     Some [part_of sample_alert, part_of sample_image, part_of sample_bare]"
proof -
  have "find_sub (''junk'' @ ''--'' @ ''B'') (''--'' @ ''B'') = Some (length ''junk'')" by code_simp
  from multipart_roundtrip [OF _ _ samples_ok this] show ?thesis by simp
qed

text \<open>A part with a plain text body, as a multipart writer may send it.\<close>

lemma plain_text_part_panics:
  "split_multipart (''--B'' @ crlf @ ''hello'' @ crlf @ ''--B--'' @ crlf) ''B'' = None"
proof -
  have "headerless (crlf @ ''hello'' @ crlf)"
    "find_sub ((crlf @ ''hello'' @ crlf) @ ''--'' @ ''B'') (''--'' @ ''B'') = Some (length (crlf @ ''hello'' @ crlf))"
    by code_simp+
  from headerless_part_panics [OF this(2,1), of "''--'' @ crlf"] show ?thesis by simp
qed

end
