(* ===== verification/Isapi_Alert.thy ===== *)
theory Isapi_Alert
  imports Multipart
begin

text \<open>
  The alert of a Hikvision reader and its meaning (isapi/events.rs).  The deserializers of
  serde\_json and quick\_xml and chrono's RFC 3339 parser are third-party: the fields of
  \<open>alert_libs\<close>.  Error texts of the standard library are left out of the messages.
\<close>

record access_controller_event =
  ace_device_name :: string
  ace_major_event_type :: "int option"
  ace_sub_event_type :: "int option"
  ace_employee_no_string :: string
  ace_name :: string
  ace_current_verify_mode :: string
  ace_attendance_status :: string
  ace_face_id :: string
  ace_picture_url :: string

record event_notification_alert =
  al_ip_address :: string
  al_date_time :: string
  al_event_type :: string
  al_event_state :: string
  al_event_description :: string
  al_access_controller_event :: "access_controller_event option"

record alert_libs =
  json_alert :: "string \<Rightarrow> string + event_notification_alert"
  xml_alert :: "string \<Rightarrow> string + event_notification_alert"
  parse_rfc3339 :: "string \<Rightarrow> int option"

definition direction_for_attendance_status :: "string \<Rightarrow> string" where
  "direction_for_attendance_status s =
     (let lowered = to_ascii_lowercase s in
      if lowered \<in> {''checkin'', ''breakin'', ''overtimein''} then ''entry''
      else if lowered \<in> {''checkout'', ''breakout'', ''overtimeout''} then ''exit''
      else ''entry'')"

definition reported_direction :: "access_controller_event \<Rightarrow> string option" where
  "reported_direction a =
     (if ace_attendance_status a \<in> {[], ''undefined'', ''invalid''} then None
      else Some (direction_for_attendance_status (ace_attendance_status a)))"

definition ace_has_identity :: "access_controller_event \<Rightarrow> bool" where
  "ace_has_identity a \<longleftrightarrow> ace_employee_no_string a \<noteq> [] \<or> ace_face_id a \<noteq> []"

definition is_heartbeat :: "event_notification_alert \<Rightarrow> bool" where
  "is_heartbeat al \<longleftrightarrow>
     eq_ignore_ascii_case (al_event_type al) ''videoloss'' \<and> eq_ignore_ascii_case (al_event_state al) ''inactive''
     \<or> eq_ignore_ascii_case (al_event_type al) ''heartbeat''"

definition captured_at_epoch :: "alert_libs \<Rightarrow> event_notification_alert \<Rightarrow> int option" where
  "captured_at_epoch A al = parse_rfc3339 A (al_date_time al)"

text \<open>\<open>strip_xmlns\<close>: the loop, with what it has put out.  At an attribute that is never closed the
  code stops after having pushed what precedes it, and then pushes everything from before.\<close>

definition xmlns_needle :: string where
  "xmlns_needle = ''xmlns='' @ [CHR 0x22]"

function strip_loop :: "string \<Rightarrow> string \<Rightarrow> string" where
  "strip_loop out rest =
     (case find_subslice rest xmlns_needle of
        None \<Rightarrow> out @ rest
      | Some i \<Rightarrow>
          (let out' = out @ take i rest; after = drop (i + length xmlns_needle) rest in
           case find_subslice after [CHR 0x22] of
             None \<Rightarrow> out' @ rest
           | Some j \<Rightarrow>
               (let rest' = drop (j + 1) after in
                strip_loop out' (case strip_prefix '' '' rest' of None \<Rightarrow> rest' | Some stripped \<Rightarrow> stripped))))"
  by auto

termination
  by (relation "measure (length \<circ> snd)")
    (auto simp: find_subslice_def find_sub_Some strip_prefix_def xmlns_needle_def split: if_splits option.splits)

declare strip_loop.simps [simp del]

definition strip_xmlns :: "string \<Rightarrow> string" where
  "strip_xmlns xml = strip_loop [] xml"

definition parse_alert :: "alert_libs \<Rightarrow> string \<Rightarrow> string \<Rightarrow> string + event_notification_alert" where
  "parse_alert A bytes content_type =
     (let looks_json = str_contains content_type ''json'' \<or>
            find (\<lambda>b. \<not> is_ascii_whitespace b) bytes = Some (CHR ''{'')
      in if looks_json then
           (case json_alert A bytes of Inl e \<Rightarrow> Inl (''JSON alert parse failed: '' @ e) | Inr al \<Rightarrow> Inr al)
         else if \<not> utf8_ok bytes then Inl ''XML alert is not valid UTF-8''
         else (case xml_alert A (strip_xmlns bytes) of
             Inl e \<Rightarrow> Inl (''XML alert parse failed: '' @ e) | Inr al \<Rightarrow> Inr al))"

section \<open>Facts\<close>

lemma direction_is_valid: "direction_for_attendance_status s \<in> {''entry'', ''exit''}"
  by (simp add: direction_for_attendance_status_def Let_def)

lemma reported_direction_valid: "reported_direction a = Some d \<Longrightarrow> d \<in> {''entry'', ''exit''}"
  using direction_is_valid by (auto simp: reported_direction_def split: if_splits)

lemma strip_xmlns_none: "find_subslice xml xmlns_needle = None \<Longrightarrow> strip_xmlns xml = xml"
  by (simp add: strip_xmlns_def strip_loop.simps)

text \<open>What precedes an unclosed attribute comes out twice.\<close>

lemma strip_xmlns_unclosed:
  assumes "find_subslice xml xmlns_needle = Some i" "find_subslice (drop (i + length xmlns_needle) xml) [CHR 0x22] = None"
  shows "strip_xmlns xml = take i xml @ xml"
  using assms by (simp add: strip_xmlns_def strip_loop.simps)

lemma strip_xmlns_duplicates:
  "strip_xmlns (''<a '' @ xmlns_needle @ ''x>'') = ''<a <a '' @ xmlns_needle @ ''x>''"
  by code_simp

end
