(* ===== verification/Events.thy ===== *)
theory Events
  imports Daily_Records Storage Isapi_Alert
begin

text \<open>
  Attendance events (events/service.rs, events/models.rs, events/handlers.rs) and the
  vendor-neutral ingestion of a marking (attendance/marking.rs, attendance/ingest.rs,
  isapi/ingest.rs).  One ingestion reads the database three times on connections of its own
  and writes once through the queue; the reads and the write may see different states, so
  each has its own argument: what a read saw (\<open>None\<close>: it failed), and the state the write
  changes.  A panic is \<open>None\<close>.
\<close>

section \<open>Data\<close>

record new_event =
  ne_id :: string
  ne_employee_id :: "string option"
  ne_device_id :: string
  ne_direction :: string
  ne_captured_at :: i64
  ne_is_unknown :: bool
  ne_face_id :: "string option"
  ne_employee_no_string :: "string option"
  ne_raw_payload :: string
  ne_photo_bytes :: "string option"

record event_response =
  er_id :: string
  er_employee_id :: "string option"
  er_device_id :: string
  er_direction :: string
  er_captured_at :: string
  er_is_unknown :: bool
  er_face_id :: "string option"
  er_employee_no_string :: "string option"
  er_photo_path :: "string option"
  er_created_at :: string

datatype persist_outcome = Inserted "string option" | Deduplicated

record event_list_query =
  eq_limit :: "i64 option"
  eq_offset :: "i64 option"
  eq_employee_id :: "string option"
  eq_device_id :: "string option"
  eq_from :: "i64 option"
  eq_to :: "i64 option"
  eq_include_unknown :: "bool option"

record sse_payload =
  sp_id :: string
  sp_employee_id :: "string option"
  sp_employee_name :: "string option"
  sp_department :: "string option"
  sp_department_id :: "string option"
  sp_captured_at :: string
  sp_direction :: string
  sp_has_photo :: bool

text \<open>What the ingestion reads and writes: the tables, the devices, the face mappings (device,
  face, employee) and the directory of the photos.\<close>

record face_mapping =
  fm_device_id :: string
  fm_face_id :: string
  fm_employee_id :: string

record ingest_state =
  is_db :: db
  is_devices :: "string list"
  is_mappings :: "face_mapping list"
  is_photos :: file_system

section \<open>Which days to recompute\<close>

definition fetch_shift_context :: "db \<Rightarrow> string \<Rightarrow> (department_config \<times> global_rules_row) option" where
  "fetch_shift_context s employee_id =
     (case (find_employee s (\<lambda>e. em_id e = employee_id), t_global_rules s) of
        (Some (e, d), Some r) \<Rightarrow> Some (department_config_of d, global_rules_of r)
      | _ \<Rightarrow> None)"

text \<open>An instant chrono cannot represent has no local date.\<close>

definition own_date_of :: "chrono \<Rightarrow> tzinfo \<Rightarrow> i64 \<Rightarrow> date option" where
  "own_date_of c tz t = (if date_ok c (t div 86400) then Some (local_date tz t) else None)"

definition resolve_recompute_requests ::
  "chrono \<Rightarrow> tzinfo \<Rightarrow> ingest_state option \<Rightarrow> new_event \<Rightarrow> recompute_request list option" where
  "resolve_recompute_requests c tz read event =
     (case ne_employee_id event of
        None \<Rightarrow> Some []
      | Some employee_id \<Rightarrow>
        (case own_date_of c tz (ne_captured_at event) of
           None \<Rightarrow> Some []
         | Some own_date \<Rightarrow>
             map_option (map (Day employee_id))
               (case read of
                  None \<Rightarrow> Some [own_date]
                | Some s \<Rightarrow>
                    (case fetch_shift_context (is_db s) employee_id of
                       None \<Rightarrow> Some [own_date]
                     | Some (dept, rules) \<Rightarrow>
                         anchor_dates_for_instant c (ne_captured_at event) own_date dept rules tz))))"

section \<open>Persistence\<close>

definition photo_path :: "chrono \<Rightarrow> new_event \<Rightarrow> string option" where
  "photo_path c event = map_option (\<lambda>_.
     (if date_ok c (ne_captured_at event div 86400) then format_date c (ne_captured_at event div 86400)
      else ''unknown-date'') @ ''/'' @ ne_id event @ ''.jpg'') (ne_photo_bytes event)"

definition event_row :: "new_event \<Rightarrow> string option \<Rightarrow> i64 \<Rightarrow> event_table_row" where
  "event_row event path now =
     \<lparr>ae_id = ne_id event, ae_employee_id = ne_employee_id event, ae_device_id = ne_device_id event,
      ae_direction = ne_direction event, ae_captured_at = ne_captured_at event,
      ae_bucket_30s = ne_captured_at event sdiv 30, ae_is_unknown = ne_is_unknown event,
      ae_face_id = ne_face_id event, ae_employee_no = ne_employee_no_string event,
      ae_raw_payload = ne_raw_payload event, ae_photo_path = path, ae_created_at = now\<rparr>"

text \<open>\<open>INSERT OR IGNORE\<close> skips a row that breaks the primary key, the unique index (in which a
  NULL employee differs from every other) or the CHECK of the direction; a foreign key that
  dangles is an error all the same.\<close>

definition same_bucket :: "event_table_row \<Rightarrow> event_table_row \<Rightarrow> bool" where
  "same_bucket r q \<longleftrightarrow> ae_employee_id r \<noteq> None \<and> ae_employee_id r = ae_employee_id q \<and>
     ae_device_id r = ae_device_id q \<and> ae_direction r = ae_direction q \<and> ae_bucket_30s r = ae_bucket_30s q"

definition event_ignored :: "event_table_row \<Rightarrow> event_table_row list \<Rightarrow> bool" where
  "event_ignored r t \<longleftrightarrow> ae_direction r \<notin> {''entry'', ''exit''} \<or>
     (\<exists>q \<in> set t. ae_id q = ae_id r \<or> same_bucket r q)"

definition event_dangling :: "event_table_row \<Rightarrow> ingest_state \<Rightarrow> bool" where
  "event_dangling r s \<longleftrightarrow> ae_device_id r \<notin> set (is_devices s) \<or>
     (case ae_employee_id r of None \<Rightarrow> False | Some e \<Rightarrow> e \<notin> set (map em_id (t_employees (is_db s))))"

definition insert_or_ignore :: "event_table_row \<Rightarrow> ingest_state \<Rightarrow> string + (nat \<times> ingest_state)" where
  "insert_or_ignore r s =
     (if event_ignored r (t_events (is_db s)) then Inr (0, s)
      else if event_dangling r s then Inl ''FOREIGN KEY constraint failed''
      else Inr (1, s\<lparr>is_db := (is_db s)\<lparr>t_events := t_events (is_db s) @ [r]\<rparr>\<rparr>))"

text \<open>\<open>persist_attendance_event_queued\<close>: the photo is written first; its guard is dropped at the
  end unless the row went in.  The days to recompute were resolved before the transaction.\<close>

definition write_photo ::
  "string + unit \<Rightarrow> string option \<Rightarrow> string option \<Rightarrow> file_system \<Rightarrow> string + (atomic_file_guard option \<times> file_system)" where
  "write_photo io bytes path fs =
     (case (bytes, path) of
        (Some b, Some p) \<Rightarrow>
          (case guard_write io p b fs of Inl e \<Rightarrow> Inl e | Inr (g, fs') \<Rightarrow> Inr (Some g, fs'))
      | _ \<Rightarrow> Inr (None, fs))"

definition drop_photo :: "bool \<Rightarrow> atomic_file_guard option \<Rightarrow> file_system \<Rightarrow> file_system" where
  "drop_photo kept guard fs = (case guard of None \<Rightarrow> fs | Some g \<Rightarrow> guard_drop kept g fs)"

definition persist_event ::
  "chrono \<Rightarrow> string + unit \<Rightarrow> write_outcome \<Rightarrow> i64 \<Rightarrow> recompute_request list \<Rightarrow> new_event \<Rightarrow> ingest_state
    \<Rightarrow> ingest_state \<times> recompute_request list \<times> persist_outcome result" where
  "persist_event c io wo now requests event s =
     (let path = photo_path c event in
      case write_photo io (ne_photo_bytes event) path (is_photos s) of
        Inl e \<Rightarrow> (s, [], Inl (Internal (OtherError e)))
      | Inr (guard, fs) \<Rightarrow>
          (let dropped = s\<lparr>is_photos := drop_photo False guard fs\<rparr> in
           case wo of
             NotRun e \<Rightarrow> (dropped, [], Inl (from_db_write e))
           | Ran \<Rightarrow>
               (case insert_or_ignore (event_row event path now) s of
                  Inl m \<Rightarrow> (dropped, [], Inl (from_db_write (JobFailed (OtherError m))))
                | Inr (n, s') \<Rightarrow>
                    if n > 0 then (s'\<lparr>is_photos := drop_photo True guard fs\<rparr>, requests, Inr (Inserted path))
                    else (dropped, [], Inr Deduplicated))))"

section \<open>Who it is\<close>

definition lookup_employee_for_event ::
  "ingest_state \<Rightarrow> string \<Rightarrow> string option \<Rightarrow> string option \<Rightarrow> string option" where
  "lookup_employee_for_event s device_id face_id employee_no_string =
     (let candidates = filter (\<lambda>x. x \<noteq> []) (List.map_filter id [face_id, employee_no_string]);
          mapping = (\<lambda>x. find (\<lambda>m. fm_device_id m = device_id \<and> fm_face_id m = x) (is_mappings s))
      in case find (\<lambda>x. mapping x \<noteq> None) candidates of
           Some x \<Rightarrow> map_option fm_employee_id (mapping x)
         | None \<Rightarrow>
             (case employee_no_string of
                None \<Rightarrow> None
              | Some ens \<Rightarrow>
                  if ens = [] then None
                  else map_option em_id (find (\<lambda>e. em_code e = ens \<and> em_status e = ''active'') (t_employees (is_db s)))))"

section \<open>The live feed\<close>

definition base_sse_payload :: "auth_libs \<Rightarrow> new_event \<Rightarrow> bool \<Rightarrow> sse_payload" where
  "base_sse_payload L event has_photo =
     \<lparr>sp_id = ne_id event, sp_employee_id = ne_employee_id event, sp_employee_name = None,
      sp_department = None, sp_department_id = None, sp_captured_at = epoch_to_iso L (ne_captured_at event),
      sp_direction = ne_direction event, sp_has_photo = has_photo\<rparr>"

definition build_sse_payload :: "auth_libs \<Rightarrow> db \<Rightarrow> new_event \<Rightarrow> bool \<Rightarrow> sse_payload" where
  "build_sse_payload L s event has_photo =
     (let payload = base_sse_payload L event has_photo in
      case Option.bind (ne_employee_id event) (\<lambda>i. find (\<lambda>e. em_id e = i) (t_employees s)) of
        None \<Rightarrow> payload
      | Some e \<Rightarrow> payload\<lparr>sp_employee_name := Some (em_name e),
          sp_department := map_option de_name (find (\<lambda>d. de_id d = em_department_id e) (t_departments s)),
          sp_department_id := Some (em_department_id e)\<rparr>)"

definition publish_sse_event :: "auth_libs \<Rightarrow> ingest_state option \<Rightarrow> new_event \<Rightarrow> string option \<Rightarrow> sse_payload" where
  "publish_sse_event L read event path =
     (case read of None \<Rightarrow> base_sse_payload L event (path \<noteq> None)
      | Some s \<Rightarrow> build_sse_payload L (is_db s) event (path \<noteq> None))"

text \<open>\<open>events_stream\<close>: what of the broadcast a subscriber receives.\<close>

definition events_stream :: "claims \<Rightarrow> sse_payload list \<Rightarrow> sse_payload list" where
  "events_stream claims broadcast = filter (\<lambda>p. permits (scope_from_claims claims) (sp_department_id p)) broadcast"

section \<open>Reads\<close>

definition row_to_event :: "auth_libs \<Rightarrow> event_table_row \<Rightarrow> event_response" where
  "row_to_event L r = \<lparr>er_id = ae_id r, er_employee_id = ae_employee_id r, er_device_id = ae_device_id r,
     er_direction = ae_direction r, er_captured_at = epoch_to_iso L (ae_captured_at r),
     er_is_unknown = ae_is_unknown r, er_face_id = ae_face_id r, er_employee_no_string = ae_employee_no r,
     er_photo_path = ae_photo_path r, er_created_at = epoch_to_iso L (ae_created_at r)\<rparr>"

definition event_matches :: "db \<Rightarrow> event_list_query \<Rightarrow> actor_scope \<Rightarrow> event_table_row \<Rightarrow> bool" where
  "event_matches s q scope r \<longleftrightarrow>
     none_or (\<lambda>dept. case ae_employee_id r of None \<Rightarrow> False | Some e \<Rightarrow> in_department (t_employees s) dept e)
       (scope_department_id scope) \<and>
     none_or (\<lambda>e. ae_employee_id r = Some e) (eq_employee_id q) \<and>
     none_or (\<lambda>d. ae_device_id r = d) (eq_device_id q) \<and>
     none_or (\<lambda>t. ae_captured_at r \<ge> t) (eq_from q) \<and>
     none_or (\<lambda>t. ae_captured_at r < t) (eq_to q) \<and>
     (eq_include_unknown q = Some False \<longrightarrow> \<not> ae_is_unknown r)"

text \<open>\<open>ORDER BY captured_at DESC, id ASC\<close>.\<close>

definition order_events :: "event_table_row list \<Rightarrow> event_table_row list" where
  "order_events rows = sort_key (\<lambda>r. - ae_captured_at r) (sort_key ae_id rows)"

definition list_events :: "auth_libs \<Rightarrow> db \<Rightarrow> event_list_query \<Rightarrow> actor_scope \<Rightarrow> event_response paginated_response" where
  "list_events L s q scope =
     (let limit = page_limit (eq_limit q); offset = page_offset (eq_offset q);
          rows = filter (event_matches s q scope) (t_events s)
      in \<lparr>pr_data = map (row_to_event L) (sql_page limit offset (order_events rows)),
          pr_total = int (length rows), pr_limit = limit, pr_offset = offset\<rparr>)"

definition event_not_found :: "string \<Rightarrow> app_error" where
  "event_not_found i = NotFound ''EVENT_NOT_FOUND'' (''Event '' @ quoted i @ '' not found'')"

definition get_event_by_id :: "auth_libs \<Rightarrow> db \<Rightarrow> string \<Rightarrow> event_response result" where
  "get_event_by_id L s i =
     (case find (\<lambda>r. ae_id r = i) (t_events s) of
        None \<Rightarrow> Inl (event_not_found i) | Some r \<Rightarrow> Inr (row_to_event L r))"

definition department_of_event :: "db \<Rightarrow> string \<Rightarrow> string option" where
  "department_of_event s i =
     (case find (\<lambda>r. ae_id r = i) (t_events s) of
        None \<Rightarrow> None
      | Some r \<Rightarrow> Option.bind (ae_employee_id r)
          (\<lambda>e. map_option em_department_id (find (\<lambda>x. em_id x = e) (t_employees s))))"

definition get_event :: "auth_libs \<Rightarrow> claims \<Rightarrow> db \<Rightarrow> string \<Rightarrow> event_response result" where
  "get_event L claims s i =
     bind_result (get_event_by_id L s i) (\<lambda>event.
       let scope = scope_from_claims claims in
       if \<not> is_unscoped scope \<and> \<not> permits scope (department_of_event s i)
       then Inl (event_not_found i) else Inr event)"

definition no_photo :: "string \<Rightarrow> app_error" where
  "no_photo m = NotFound ''EVENT_PHOTO_NOT_FOUND'' m"

definition get_photo_path :: "db \<Rightarrow> string \<Rightarrow> string result" where
  "get_photo_path s i =
     (case find (\<lambda>r. ae_id r = i) (t_events s) of
        None \<Rightarrow> Inl (event_not_found i)
      | Some r \<Rightarrow>
        (case ae_photo_path r of
           None \<Rightarrow> Inl (no_photo ''Photo not available for this event'')
         | Some p \<Rightarrow> Inr p))"

text \<open>\<open>get_event_photo\<close>.  There are no symbolic links under the root, so a path that exists is its
  own canonical form.\<close>

definition get_event_photo :: "claims \<Rightarrow> ingest_state \<Rightarrow> string \<Rightarrow> string result" where
  "get_event_photo claims s i =
     (let scope = scope_from_claims claims in
      if \<not> is_unscoped scope \<and> \<not> permits scope (department_of_event (is_db s) i)
      then Inl (no_photo ''Photo not available'')
      else bind_result (get_photo_path (is_db s) i) (\<lambda>relpath.
        if str_contains relpath ''..'' \<or> prefix_of ''/'' relpath then Inl (no_photo ''Photo not available'')
        else (case fs_files (is_photos s) relpath of
            None \<Rightarrow> Inl (no_photo ''Photo not found on disk'')
          | Some (n, bytes) \<Rightarrow> Inr bytes)))"

section \<open>Ingestion\<close>

record raw_marking =
  rm_external_person_id :: "string option"
  rm_face_id :: "string option"
  rm_occurred_at :: i64
  rm_direction :: "string option"
  rm_photo :: "string option"
  rm_raw_payload :: string

definition has_identity :: "raw_marking \<Rightarrow> bool" where
  "has_identity m \<longleftrightarrow> (case rm_external_person_id m of None \<Rightarrow> False | Some v \<Rightarrow> v \<noteq> [])
     \<or> (case rm_face_id m of None \<Rightarrow> False | Some v \<Rightarrow> v \<noteq> [])"

datatype ingest_outcome = Persisted | Duplicate | Skipped | Unparseable

text \<open>What surrounds one ingestion: what its three reads saw, what the file system and the queue
  did, the clock and the fresh identifier.\<close>

record ingest_env =
  ie_lookup :: "ingest_state option"
  ie_context :: "ingest_state option"
  ie_enrich :: "ingest_state option"
  ie_file :: "string + unit"
  ie_write :: write_outcome
  ie_now :: i64
  ie_uuid :: string

definition event_of_marking :: "string \<Rightarrow> string option \<Rightarrow> string \<Rightarrow> string \<Rightarrow> raw_marking \<Rightarrow> new_event" where
  "event_of_marking i employee_id device_id direction_default m =
     \<lparr>ne_id = i, ne_employee_id = employee_id, ne_device_id = device_id,
      ne_direction = (case rm_direction m of None \<Rightarrow> direction_default | Some d \<Rightarrow> d),
      ne_captured_at = rm_occurred_at m, ne_is_unknown = (employee_id = None),
      ne_face_id = rm_face_id m, ne_employee_no_string = rm_external_person_id m,
      ne_raw_payload = rm_raw_payload m, ne_photo_bytes = rm_photo m\<rparr>"

record ingest_effect =
  ig_published :: "recompute_request list"
  ig_broadcast :: "sse_payload list"

definition quiet :: ingest_effect where
  "quiet = \<lparr>ig_published = [], ig_broadcast = []\<rparr>"

definition ingest ::
  "chrono \<Rightarrow> tzinfo \<Rightarrow> auth_libs \<Rightarrow> ingest_env \<Rightarrow> string \<Rightarrow> string \<Rightarrow> raw_marking \<Rightarrow> ingest_state
    \<Rightarrow> (ingest_state \<times> ingest_effect \<times> (string + ingest_outcome)) option" where
  "ingest c tz L env device_id direction_default m s =
     (if \<not> has_identity m then Some (s, quiet, Inr Skipped)
      else case ie_lookup env of
        None \<Rightarrow> Some (s, quiet, Inl ''lookup_employee_for_event failed'')
      | Some r \<Rightarrow>
          (let employee_id = lookup_employee_for_event r device_id (rm_face_id m) (rm_external_person_id m);
               event = event_of_marking (ie_uuid env) employee_id device_id direction_default m
           in map_option (\<lambda>requests.
                case persist_event c (ie_file env) (ie_write env) (ie_now env) requests event s of
                  (s', published, Inr (Inserted path)) \<Rightarrow>
                    (s', \<lparr>ig_published = published,
                          ig_broadcast = [publish_sse_event L (ie_enrich env) event path]\<rparr>, Inr Persisted)
                | (s', published, Inr Deduplicated) \<Rightarrow> (s', quiet, Inr Duplicate)
                | (s', published, Inl e) \<Rightarrow> (s', quiet, Inl ''persist_attendance_event failed''))
              (resolve_recompute_requests c tz (ie_context env) event)))"

text \<open>\<open>ingest_alert\<close>: the wire format.\<close>

definition marking_of_alert ::
  "alert_libs \<Rightarrow> i64 \<Rightarrow> event_notification_alert \<Rightarrow> access_controller_event \<Rightarrow> string option \<Rightarrow> string \<Rightarrow> raw_marking" where
  "marking_of_alert A now al ace jpeg raw_payload =
     \<lparr>rm_external_person_id = (if ace_employee_no_string ace = [] then None else Some (ace_employee_no_string ace)),
      rm_face_id = (if ace_face_id ace = [] then None else Some (ace_face_id ace)),
      rm_occurred_at = (case captured_at_epoch A al of None \<Rightarrow> now | Some t \<Rightarrow> t),
      rm_direction = reported_direction ace, rm_photo = jpeg, rm_raw_payload = raw_payload\<rparr>"

definition ingest_alert ::
  "chrono \<Rightarrow> tzinfo \<Rightarrow> auth_libs \<Rightarrow> alert_libs \<Rightarrow> ingest_env \<Rightarrow> string \<Rightarrow> string \<Rightarrow> string \<Rightarrow> string \<Rightarrow> string
    \<Rightarrow> string option \<Rightarrow> ingest_state \<Rightarrow> (ingest_state \<times> ingest_effect \<times> (string + ingest_outcome)) option" where
  "ingest_alert c tz L A env device_id direction_default bytes content_type raw_payload jpeg s =
     (case parse_alert A bytes content_type of
        Inl e \<Rightarrow> Some (s, quiet, Inr Unparseable)
      | Inr al \<Rightarrow>
          if is_heartbeat al then Some (s, quiet, Inr Skipped)
          else (case al_access_controller_event al of
            None \<Rightarrow> Some (s, quiet, Inr Skipped)
          | Some ace \<Rightarrow>
              if \<not> ace_has_identity ace then Some (s, quiet, Inr Skipped)
              else ingest c tz L env device_id direction_default
                     (marking_of_alert A (ie_now env) al ace jpeg raw_payload) s))"

section \<open>The table of events and the photos\<close>

definition events_ok :: "ingest_state \<Rightarrow> bool" where
  "events_ok s \<longleftrightarrow> distinct (map ae_id (t_events (is_db s))) \<and>
     (\<forall>r \<in> set (t_events (is_db s)). ae_bucket_30s r = ae_captured_at r sdiv 30 \<and> ae_direction r \<in> {''entry'', ''exit''}) \<and>
     (\<forall>r \<in> set (t_events (is_db s)). \<forall>q \<in> set (t_events (is_db s)). same_bucket r q \<longrightarrow> r = q) \<and>
     (\<forall>p \<in> dom (fs_files (is_photos s)). \<exists>r \<in> set (t_events (is_db s)). ae_photo_path r = Some p)"

text \<open>What happens to the table and the directory: a persistence, planned from any reads; the
  retention sweep removing a photo; changes elsewhere.\<close>

datatype event_op =
    Persist "string + unit" write_outcome i64 "recompute_request list" new_event
  | Sweep_Photo string
  | Change_Elsewhere ingest_state

fun event_step :: "chrono \<Rightarrow> event_op \<Rightarrow> ingest_state \<Rightarrow> ingest_state option" where
  "event_step c (Persist io wo now requests event) s = Some (fst (persist_event c io wo now requests event s))"
| "event_step c (Sweep_Photo p) s =
     Some (s\<lparr>is_photos := (is_photos s)\<lparr>fs_files := (fs_files (is_photos s))(p := None)\<rparr>\<rparr>)"
| "event_step c (Change_Elsewhere s') s =
     (if t_events (is_db s') = t_events (is_db s) \<and> is_photos s' = is_photos s then Some s' else None)"

lemma write_photo_ok:
  assumes "write_photo io bytes path fs = Inr (g, fs')"
  shows "fs_files (drop_photo False g fs') = fs_files fs"
    and "dom (fs_files (drop_photo True g fs')) \<subseteq> dom (fs_files fs) \<union> (case path of None \<Rightarrow> {} | Some p \<Rightarrow> {p})"
proof -
  consider "g = None" "fs' = fs"
    | b p g' where "g = Some g'" "path = Some p" "guard_write io p b fs = Inr (g', fs')"
    using assms by (auto simp: write_photo_def split: option.splits sum.splits)
  then show "fs_files (drop_photo False g fs') = fs_files fs"
    and "dom (fs_files (drop_photo True g fs')) \<subseteq> dom (fs_files fs) \<union> (case path of None \<Rightarrow> {} | Some p \<Rightarrow> {p})"
    by (cases; auto simp: drop_photo_def guard_dropped dest: guard_write_ok)+
qed

text \<open>What a persistence does, by its answer.\<close>

lemma persist_event_cases:
  assumes "persist_event c io wo now requests event s = (s', published, res)"
  obtains (failed) e where "res = Inl e" "is_db s' = is_db s" "fs_files (is_photos s') = fs_files (is_photos s)" "published = []"
  | (ignored) "res = Inr Deduplicated" "is_db s' = is_db s" "fs_files (is_photos s') = fs_files (is_photos s)" "published = []"
      "event_ignored (event_row event (photo_path c event) now) (t_events (is_db s))"
  | (inserted) "res = Inr (Inserted (photo_path c event))" "published = requests" "wo = Ran"
      "is_db s' = (is_db s)\<lparr>t_events := t_events (is_db s) @ [event_row event (photo_path c event) now]\<rparr>"
      "\<not> event_ignored (event_row event (photo_path c event) now) (t_events (is_db s))"
      "dom (fs_files (is_photos s')) \<subseteq> dom (fs_files (is_photos s)) \<union>
        (case photo_path c event of None \<Rightarrow> {} | Some p \<Rightarrow> {p})"
      "is_devices s' = is_devices s" "is_mappings s' = is_mappings s"
proof (cases "write_photo io (ne_photo_bytes event) (photo_path c event) (is_photos s)")
  case (Inl e)
  then show thesis using assms failed [of "Internal (OtherError e)"] by (auto simp: persist_event_def)
next
  case (Inr gf)
  obtain g fs' where gf: "gf = (g, fs')" by fastforce
  note w = write_photo_ok [OF Inr [unfolded gf]]
  show thesis
  proof (cases wo)
    case (NotRun e)
    then show thesis using assms Inr gf w failed by (auto simp: persist_event_def Let_def)
  next
    case Ran
    then show thesis
      using assms Inr gf w failed ignored inserted
      by (auto simp: persist_event_def Let_def insert_or_ignore_def split: if_splits)
  qed
qed

lemma events_ok_photos:
  assumes "events_ok s" "is_db s' = is_db s" "dom (fs_files (is_photos s')) \<subseteq> dom (fs_files (is_photos s))"
  shows "events_ok s'"
  using assms(1,2) subsetD [OF assms(3)] by (simp add: events_ok_def)

lemma event_row_simps [simp]:
  "ae_id (event_row ev p n) = ne_id ev" "ae_employee_id (event_row ev p n) = ne_employee_id ev"
  "ae_device_id (event_row ev p n) = ne_device_id ev" "ae_direction (event_row ev p n) = ne_direction ev"
  "ae_captured_at (event_row ev p n) = ne_captured_at ev" "ae_bucket_30s (event_row ev p n) = ne_captured_at ev sdiv 30"
  "ae_photo_path (event_row ev p n) = p"
  by (simp_all add: event_row_def)

lemma same_bucket_sym: "same_bucket r q \<Longrightarrow> same_bucket q r"
  by (auto simp: same_bucket_def)

lemma persist_event_ok:
  assumes "events_ok s" "persist_event c io wo now requests event s = (s', published, res)"
  shows "events_ok s'"
  using assms(2)
proof (cases rule: persist_event_cases)
  case inserted
  let ?x = "event_row event (photo_path c event) now"
  have t: "t_events (is_db s') = t_events (is_db s) @ [?x]" by (simp add: inserted(4))
  have fresh: "\<forall>q \<in> set (t_events (is_db s)). ae_id q \<noteq> ne_id event \<and> \<not> same_bucket ?x q \<and> \<not> same_bucket q ?x"
    "ne_direction event \<in> {''entry'', ''exit''}"
    using inserted(5) same_bucket_sym by (auto simp: event_ignored_def)
  have "\<exists>r \<in> set (t_events (is_db s')). ae_photo_path r = Some p" if "p \<in> dom (fs_files (is_photos s'))" for p
  proof (cases "p \<in> dom (fs_files (is_photos s))")
    case True
    then show ?thesis using assms(1) t by (auto simp: events_ok_def)
  next
    case False
    then have "photo_path c event = Some p" using that inserted(6) by (auto split: option.splits)
    then show ?thesis using t by auto
  qed
  then show ?thesis using assms(1) fresh t by (auto simp: events_ok_def image_iff)
qed (use assms(1) in \<open>auto intro: events_ok_photos\<close>)

lemma event_step_ok: "events_ok s \<Longrightarrow> event_step c op s = Some s' \<Longrightarrow> events_ok s'"
proof (cases op)
  case (Persist io wo now requests event)
  assume "events_ok s" "event_step c op s = Some s'"
  then show "events_ok s'" using Persist persist_event_ok by (metis event_step.simps(1) option.inject prod.collapse)
next
  case (Sweep_Photo p)
  assume "events_ok s" "event_step c op s = Some s'"
  then show "events_ok s'" using Sweep_Photo by (auto intro!: events_ok_photos [of s] split: if_splits)
next
  case (Change_Elsewhere x)
  assume "events_ok s" "event_step c op s = Some s'"
  then show "events_ok s'" using Change_Elsewhere by (auto simp: events_ok_def split: if_splits)
qed

interpretation events: stepper "event_step c" events_ok for c
  by unfold_locales (rule event_step_ok)


text \<open>Stored events stay.\<close>

lemma event_step_rows:
  assumes "event_step c op s = Some s'"
  shows "set (t_events (is_db s)) \<subseteq> set (t_events (is_db s'))"
proof (cases op)
  case (Persist io wo now requests event)
  obtain x y z where p: "persist_event c io wo now requests event s = (x, y, z)" by (metis prod_cases3)
  then have "s' = x" using assms Persist by simp
  with p show ?thesis by (auto elim: persist_event_cases)
qed (use assms in \<open>auto split: if_splits\<close>)

text \<open>Replays are absorbed: once a marking of a known employee is stored, persisting it again at
  any later moment (the device replays it, the other transport sees it, the drain retries)
  stores nothing, keeps no file and publishes nothing, and is answered as a duplicate unless
  the photo or the write itself fails.\<close>

theorem replays_are_absorbed:
  assumes "events_ok s0" "persist_event c io wo now requests ev s0 = (s1, published, Inr (Inserted path))"
    and "run_steps (event_step c) ops s1 = Some s2"
    and "persist_event c io' wo' now' requests' ev' s2 = (s3, published', res)"
    and "ne_employee_id ev = Some e" "ne_employee_id ev' = Some e" "ne_device_id ev' = ne_device_id ev"
    and "ne_direction ev' = ne_direction ev" "ne_captured_at ev' sdiv 30 = ne_captured_at ev sdiv 30"
  shows "is_db s3 = is_db s2 \<and> fs_files (is_photos s3) = fs_files (is_photos s2) \<and> published' = []
    \<and> (res = Inr Deduplicated \<or> (\<exists>err. res = Inl err))"
proof -
  let ?x = "event_row ev (photo_path c ev) now" and ?y = "event_row ev' (photo_path c ev') now'"
  have "?x \<in> set (t_events (is_db s1))" using assms(2) by (cases rule: persist_event_cases) auto
  moreover have "set (t_events (is_db s1)) \<subseteq> set (t_events (is_db s2))"
    by (rule events.run_relation [where R = "\<lambda>a b. set (t_events (is_db a)) \<subseteq> set (t_events (is_db b))" and es = ops])
      (use assms(3) event_step_rows persist_event_ok [OF assms(1,2)] in auto)
  ultimately have "?x \<in> set (t_events (is_db s2))" by blast
  moreover have "same_bucket ?y ?x" using assms(5-9) by (simp add: same_bucket_def)
  ultimately have "event_ignored ?y (t_events (is_db s2))" by (auto simp: event_ignored_def)
  with assms(4) show ?thesis by (cases rule: persist_event_cases) auto
qed

section \<open>The days to recompute\<close>

lemma ingest_persisted:
  assumes "ingest c tz L env device_id direction_default m s = Some (s', ef, Inr Persisted)"
  obtains r requests where "ie_lookup env = Some r"
    "resolve_recompute_requests c tz (ie_context env)
       (event_of_marking (ie_uuid env) (lookup_employee_for_event r device_id (rm_face_id m) (rm_external_person_id m))
         device_id direction_default m) = Some requests"
    "ig_published ef = requests"
    "is_db s' = (is_db s)\<lparr>t_events := t_events (is_db s) @
       [event_row (event_of_marking (ie_uuid env) (lookup_employee_for_event r device_id (rm_face_id m) (rm_external_person_id m))
         device_id direction_default m) (photo_path c (event_of_marking (ie_uuid env) (lookup_employee_for_event r device_id
         (rm_face_id m) (rm_external_person_id m)) device_id direction_default m)) (ie_now env)]\<rparr>"
proof -
  obtain r where r: "ie_lookup env = Some r"
    using assms by (cases "ie_lookup env") (auto simp: ingest_def split: if_splits)
  let ?ev = "event_of_marking (ie_uuid env) (lookup_employee_for_event r device_id (rm_face_id m) (rm_external_person_id m))
         device_id direction_default m"
  obtain requests where q: "resolve_recompute_requests c tz (ie_context env) ?ev = Some requests"
    using assms r by (cases "resolve_recompute_requests c tz (ie_context env) ?ev")
      (auto simp: ingest_def Let_def split: if_splits)
  obtain x y z where p: "persist_event c (ie_file env) (ie_write env) (ie_now env) requests ?ev s = (x, y, z)"
    by (metis prod_cases3)
  have "\<exists>path. z = Inr (Inserted path)" "s' = x" "ig_published ef = y"
    using assms r q p by (auto simp: ingest_def Let_def split: if_splits sum.splits persist_outcome.splits)
  then show thesis using p that [OF r q] by (auto elim: persist_event_cases)
qed


section \<open>Scope\<close>

definition employee_in :: "db \<Rightarrow> string \<Rightarrow> string option \<Rightarrow> bool" where
  "employee_in s dept i \<longleftrightarrow> (\<exists>e \<in> set (t_employees s). i = Some (em_id e) \<and> em_department_id e = dept)"

lemma department_of_event_in:
  "department_of_event s i = Some dept \<Longrightarrow> find (\<lambda>r. ae_id r = i) (t_events s) = Some r \<Longrightarrow> employee_in s dept (ae_employee_id r)"
  by (auto simp: department_of_event_def employee_in_def bind_eq_Some_conv dest!: find_Some_in)

lemma set_sql_page: "set (sql_page limit offset rows) \<subseteq> set rows"
  by (auto simp: sql_page_def dest: in_set_takeD in_set_dropD)

text \<open>A scoped actor sees the events of the own department and no others: through the list, by
  identifier, in the live feed (payloads as they were enriched) and through the photo, which for
  anything else is answered like one that does not exist.\<close>

theorem events_confined_to_scope:
  assumes "scope_from_claims claims = Department dept"
  shows "(\<forall>x \<in> set (pr_data (list_events L s q (scope_from_claims claims))). employee_in s dept (er_employee_id x)) \<and>
    (\<forall>x. get_event L claims s i = Inr x \<longrightarrow> employee_in s dept (er_employee_id x)) \<and>
    (\<forall>p \<in> set (events_stream claims broadcast). sp_department_id p = Some dept) \<and>
    (\<forall>bytes. get_event_photo claims st i = Inr bytes \<longrightarrow>
       (\<exists>r \<in> set (t_events (is_db st)). ae_id r = i \<and> employee_in (is_db st) dept (ae_employee_id r)))"
proof (intro conjI ballI allI impI)
  fix x assume "x \<in> set (pr_data (list_events L s q (scope_from_claims claims)))"
  then obtain r where "event_matches s q (Department dept) r" "x = row_to_event L r"
    using set_sql_page by (fastforce simp: list_events_def Let_def order_events_def assms)
  then show "employee_in s dept (er_employee_id x)"
    by (auto simp: event_matches_def row_to_event_def employee_in_def in_department_def split: option.splits)
next
  fix x assume get: "get_event L claims s i = Inr x"
  then obtain r where r: "find (\<lambda>r. ae_id r = i) (t_events s) = Some r" "x = row_to_event L r"
    by (auto simp: get_event_def get_event_by_id_def bind_result_eq_Inr Let_def split: option.splits if_splits)
  have "department_of_event s i = Some dept"
    using get assms by (auto simp: get_event_def bind_result_eq_Inr Let_def split: if_splits)
  from department_of_event_in [OF this r(1)] r(2) show "employee_in s dept (er_employee_id x)"
    by (simp add: row_to_event_def)
next
  fix p assume "p \<in> set (events_stream claims broadcast)"
  then show "sp_department_id p = Some dept" by (simp add: events_stream_def assms)
next
  fix bytes assume get: "get_event_photo claims st i = Inr bytes"
  then have d: "department_of_event (is_db st) i = Some dept"
    by (auto simp: get_event_photo_def assms Let_def split: if_splits)
  then obtain r where r: "find (\<lambda>r. ae_id r = i) (t_events (is_db st)) = Some r"
    by (auto simp: department_of_event_def split: option.splits)
  from department_of_event_in [OF d r] find_Some_in [OF r]
  show "\<exists>r \<in> set (t_events (is_db st)). ae_id r = i \<and> employee_in (is_db st) dept (ae_employee_id r)" by auto
qed

section \<open>Examples\<close>

text \<open>An overnight department: an exit at 06:05 belongs to the shift of the day before.\<close>

definition night_db :: db where
  "night_db = day_db\<lparr>t_departments := map (\<lambda>d. d\<lparr>de_shift_start_time := ''22:00'', de_shift_end_time := ''06:00'',
     de_shift_type := ''night'', de_is_overnight_shift := True\<rparr>) (t_departments day_db), t_events := []\<rparr>"

definition night_state :: ingest_state where
  "night_state = \<lparr>is_db = night_db, is_devices = [''dv1''],
     is_mappings = [\<lparr>fm_device_id = ''dv1'', fm_face_id = ''f1'', fm_employee_id = ''e1''\<rparr>], is_photos = no_files\<rparr>"

definition night_marking :: raw_marking where
  "night_marking = \<lparr>rm_external_person_id = Some ''f1'', rm_face_id = None, rm_occurred_at = 1776765900,
     rm_direction = Some ''exit'', rm_photo = Some ''jpeg'', rm_raw_payload = ''{}''\<rparr>"

definition night_env :: ingest_env where
  "night_env = \<lparr>ie_lookup = Some night_state, ie_context = Some night_state, ie_enrich = None, ie_file = Inr (),
     ie_write = Ran, ie_now = 1776765901, ie_uuid = ''v1''\<rparr>"

definition night_event :: new_event where
  "night_event = event_of_marking ''v1'' (Some ''e1'') ''dv1'' ''entry'' night_marking"

definition night_after :: ingest_state where
  "night_after = night_state\<lparr>is_db := night_db\<lparr>t_events := [event_row night_event (Some ''2026-04-21/v1.jpg'') 1776765901]\<rparr>,
     is_photos := \<lparr>fs_files = [''2026-04-21/v1.jpg'' \<mapsto> (0, ''jpeg'')], fs_next = 1\<rparr>\<rparr>"

lemma night_lookup: "lookup_employee_for_event night_state ''dv1'' None (Some ''f1'') = Some ''e1''"
  by code_simp

lemma night_requests: "resolve_recompute_requests gregorian caracas (Some night_state) night_event = Some [Day ''e1'' 20563]"
  by code_simp

lemma night_path: "photo_path gregorian night_event = Some ''2026-04-21/v1.jpg''"
  by code_simp

lemma night_path_free: "traversal_free ''2026-04-21/v1.jpg''"
  by code_simp

lemma night_write:
  "write_photo (Inr ()) (ne_photo_bytes night_event) (Some ''2026-04-21/v1.jpg'') (is_photos night_state) =
     Inr (Some \<lparr>ag_final_path = ''2026-04-21/v1.jpg'', ag_identity = 0\<rparr>,
       \<lparr>fs_files = [''2026-04-21/v1.jpg'' \<mapsto> (0, ''jpeg'')], fs_next = 1\<rparr>)"
proof -
  have "ne_photo_bytes night_event = Some ''jpeg''" "is_photos night_state = no_files"
    by (simp_all add: night_event_def event_of_marking_def night_marking_def night_state_def)
  then show ?thesis using night_path_free by (simp add: write_photo_def guard_write_def no_files_def)
qed

lemma night_insert:
  "insert_or_ignore (event_row night_event (Some ''2026-04-21/v1.jpg'') 1776765901) night_state =
     Inr (1, night_state\<lparr>is_db := night_db\<lparr>t_events := [event_row night_event (Some ''2026-04-21/v1.jpg'') 1776765901]\<rparr>\<rparr>)"
proof -
  have "t_events night_db = []" "map em_id (t_employees night_db) = [''e1'']" "is_db night_state = night_db"
    "is_devices night_state = [''dv1'']"
    by (simp_all add: night_db_def day_db_def night_state_def)
  moreover have "ne_direction night_event = ''exit''" "ne_device_id night_event = ''dv1''" "ne_employee_id night_event = Some ''e1''"
    by (simp_all add: night_event_def event_of_marking_def night_marking_def)
  ultimately show ?thesis by (simp add: insert_or_ignore_def event_ignored_def event_dangling_def)
qed

lemma night_persist:
  "persist_event gregorian (Inr ()) Ran 1776765901 requests night_event night_state =
     (night_after, requests, Inr (Inserted (Some ''2026-04-21/v1.jpg'')))"
  by (simp add: persist_event_def night_path night_write night_insert drop_photo_def night_after_def Let_def)

lemma night_event_eq: "event_of_marking ''v1'' (Some ''e1'') ''dv1'' ''entry'' night_marking = night_event"
  by (simp add: night_event_def)

lemma night_marking_simps:
  "rm_face_id night_marking = None" "rm_external_person_id night_marking = Some ''f1''"
  "rm_occurred_at night_marking = 1776765900"
  by (simp_all add: night_marking_def)

lemma night_env_simps:
  "ie_lookup night_env = Some night_state" "ie_context night_env = Some night_state" "ie_enrich night_env = None"
  "ie_file night_env = Inr ()" "ie_write night_env = Ran" "ie_now night_env = 1776765901" "ie_uuid night_env = ''v1''"
  by (simp_all add: night_env_def)

lemma night_ingest:
  "\<exists>ef. ingest gregorian caracas toy_libs night_env ''dv1'' ''entry'' night_marking night_state = Some (night_after, ef, Inr Persisted)
     \<and> ig_published ef = [Day ''e1'' 20563]"
  by (simp add: ingest_def has_identity_def night_env_simps night_marking_simps night_lookup night_event_eq night_requests
      night_persist Let_def)

lemma night_state_ok: "events_ok night_state"
  by (simp add: events_ok_def night_state_def night_db_def no_files_def)

definition night_shift :: department_config where
  "night_shift = \<lparr>dc_id = ''d1'', shift_start_time = ''22:00'', shift_end_time = ''06:00'', dc_shift_type = ''night'',
     is_overnight_shift = True, ordinary_daily_minutes = 480, lunch_mode = ''fixed'', lunch_duration_min = Some 60\<rparr>"

lemma night_context:
  "fetch_shift_context (is_db night_state) ''e1'' = Some (night_shift, global_rules_of (10, 10, 0))"
  "own_date_of gregorian caracas 1776765900 = Some 20564"
  "shift_window gregorian 20563 night_shift (global_rules_of (10, 10, 0)) caracas = Some (1776736200, 1776766200, 1776736800, 1776765600)"
  by code_simp+



theorem replays_are_absorbed_witness:
  "fst (snd (persist_event gregorian (Inr ()) Ran 1776765903 [Day ''e1'' 1] (night_event\<lparr>ne_id := ''v2''\<rparr>) night_after)) = []"
proof -
  obtain s3 published res where p: "persist_event gregorian (Inr ()) Ran 1776765903 [Day ''e1'' 1] (night_event\<lparr>ne_id := ''v2''\<rparr>) night_after
      = (s3, published, res)" by (metis prod_cases3)
  have e: "ne_employee_id night_event = Some ''e1''" by (simp add: night_event_def event_of_marking_def)
  have run: "run_steps (event_step gregorian) [] night_after = Some night_after" by simp
  show ?thesis using replays_are_absorbed [OF night_state_ok night_persist run p] e p by simp
qed

definition scoped_claims :: claims where
  "scoped_claims = \<lparr>cl_sub = ''u1'', cl_role = Supervisor, cl_department_id = Some ''d1'', cl_exp = 0, cl_iat = 0,
     cl_jti = ''j'', cl_token_type = ''access''\<rparr>"

definition feed_payload :: "string \<Rightarrow> string option \<Rightarrow> sse_payload" where
  "feed_payload i dept = \<lparr>sp_id = i, sp_employee_id = Some ''e1'', sp_employee_name = None, sp_department = None,
     sp_department_id = dept, sp_captured_at = [], sp_direction = ''entry'', sp_has_photo = False\<rparr>"

theorem events_confined_to_scope_witness:
  "scope_from_claims scoped_claims = Department ''d1'' \<and>
   events_stream scoped_claims [feed_payload ''v1'' (Some ''d2''), feed_payload ''v2'' (Some ''d1''), feed_payload ''v3'' None]
     = [feed_payload ''v2'' (Some ''d1'')] \<and>
   list_all (\<lambda>p. sp_department_id p = Some ''d1'')
     (events_stream scoped_claims [feed_payload ''v1'' (Some ''d2''), feed_payload ''v2'' (Some ''d1'')])"
proof -
  have s: "scope_from_claims scoped_claims = Department ''d1''" by (simp add: scoped_claims_def scope_from_claims_def)
  moreover have "events_stream scoped_claims [feed_payload ''v1'' (Some ''d2''), feed_payload ''v2'' (Some ''d1''),
      feed_payload ''v3'' None] = [feed_payload ''v2'' (Some ''d1'')]"
    by (simp add: events_stream_def s feed_payload_def)
  moreover note events_confined_to_scope [OF s, where
      broadcast = "[feed_payload ''v1'' (Some ''d2''), feed_payload ''v2'' (Some ''d1'')]"]
  ultimately show ?thesis unfolding list_all_iff by blast
qed

section \<open>What the deduplication does not cover\<close>

text \<open>A NULL employee is never a duplicate: an unknown face that is ingested twice is stored twice.\<close>

lemma unknown_faces_are_stored_again:
  assumes "persist_event c (Inr ()) Ran now requests ev s = (s1, published, Inr (Inserted path))"
    and "ne_employee_id ev = None" "ne_photo_bytes ev = None" "i \<notin> set (map ae_id (t_events (is_db s1)))"
  shows "persist_event c (Inr ()) Ran now requests (ev\<lparr>ne_id := i\<rparr>) s1 =
    (s1\<lparr>is_db := (is_db s1)\<lparr>t_events := t_events (is_db s1) @ [event_row (ev\<lparr>ne_id := i\<rparr>) None now]\<rparr>\<rparr>, requests, Inr (Inserted None))"
proof -
  have "\<not> event_ignored (event_row ev (photo_path c ev) now) (t_events (is_db s))" "is_devices s1 = is_devices s"
    using assms(1) by (auto elim: persist_event_cases)
  then have dir: "ne_direction ev \<in> {''entry'', ''exit''}" by (simp add: event_ignored_def)
  have dev: "ne_device_id ev \<in> set (is_devices s1)"
    using assms(1) by (auto simp: persist_event_def Let_def write_photo_def assms(3) drop_photo_def insert_or_ignore_def
        event_dangling_def split: if_splits)
  have "photo_path c (ev\<lparr>ne_id := i\<rparr>) = None" by (simp add: photo_path_def assms(3))
  then show ?thesis using dir dev assms(2-4)
    by (auto simp: persist_event_def write_photo_def drop_photo_def insert_or_ignore_def event_ignored_def
        event_dangling_def same_bucket_def image_iff)
qed

text \<open>A day shift that ends close to midnight: an exit at 00:03 is inside the window of the day before,
  and only its own date is published.\<close>

definition late_shift :: department_config where
  "late_shift = night_shift\<lparr>shift_start_time := ''16:00'', shift_end_time := ''23:55'', dc_shift_type := ''day'',
     is_overnight_shift := False\<rparr>"

lemma late_day_shift_misses_the_day_before:
  "shift_window gregorian 20563 late_shift (global_rules_of (10, 10, 0)) caracas = Some (1776714600, 1776744300, 1776715200, 1776743700)"
  "1776714600 \<le> (1776744180::int) \<and> (1776744180::int) \<le> 1776744300" "local_date caracas 1776744180 = 20564"
  "anchor_dates_for_instant gregorian 1776744180 20564 late_shift (global_rules_of (10, 10, 0)) caracas = Some [20564]"
  by code_simp+

end
