(* ===== verification/Push_Inbox.thy ===== *)
theory Push_Inbox
  imports Events Devices "HOL-Library.Word"
begin

text \<open>
  The webhook of the readers that push (devices/push.rs) and the worker that drains its inbox
  (workers/push_drain.rs).  A push is stored before it is answered; the worker takes the pending
  rows oldest first, ingests their parts, and marks each row done, failed, or to be tried again.
  Requests arrive between any two rows of a pass.  A panic of the parser ends the worker, which
  nothing restarts but the next start of the process.
\<close>

unbundle bit_operations_syntax

section \<open>Receiving a push\<close>

record inbox_row =
  ib_id :: string
  ib_device_id :: string
  ib_content_type :: string
  ib_body :: string
  ib_body_sha256 :: string
  ib_received_at :: i64
  ib_status :: string
  ib_attempts :: i64
  ib_last_error :: "string option"
  ib_processed_at :: "i64 option"

record push_state =
  ps_db :: db
  ps_devices :: "device_row list"
  ps_mappings :: "face_mapping list"
  ps_photos :: file_system
  ps_inbox :: "inbox_row list"

definition constant_time_eq :: "string \<Rightarrow> string \<Rightarrow> bool" where
  "constant_time_eq a b =
     (if length a \<noteq> length b then False
      else foldl (\<lambda>acc (x, y). acc OR (x XOR y)) (0 :: 8 word) (zip (map of_char a) (map of_char b)) = 0)"

definition authorize :: "device_row list \<Rightarrow> string \<Rightarrow> string \<Rightarrow> bool" where
  "authorize t device_id token =
     (if token = [] then False
      else case find (\<lambda>r. dv_id r = device_id \<and> dv_status r = ''active'' \<and> dv_ingest_mode r = ''push'') t of
        None \<Rightarrow> False
      | Some r \<Rightarrow> (case dv_push_token r of None \<Rightarrow> False | Some expected \<Rightarrow> constant_time_eq expected token))"

record push_request =
  pq_device_id :: string
  pq_token :: string
  pq_content_type :: "string option"
  pq_body :: string

text \<open>What the queue answers to the three writes, the clock and the fresh id.\<close>

record push_env =
  pe_online :: write_outcome
  pe_seen :: write_outcome
  pe_store :: write_outcome
  pe_now :: i64
  pe_uuid :: string

definition inbox_violation :: "inbox_row list \<Rightarrow> string option" where
  "inbox_violation t =
     (if distinct (map ib_id t) then None else Some ''UNIQUE constraint failed: device_push_inbox.id'')"

definition new_inbox_row :: "auth_libs \<Rightarrow> push_env \<Rightarrow> push_request \<Rightarrow> inbox_row" where
  "new_inbox_row L E req =
     \<lparr>ib_id = pe_uuid E, ib_device_id = pq_device_id req,
      ib_content_type = (case pq_content_type req of None \<Rightarrow> [] | Some ct \<Rightarrow> ct), ib_body = pq_body req,
      ib_body_sha256 = sha256_hex L (pq_body req), ib_received_at = pe_now E, ib_status = ''pending'',
      ib_attempts = 0, ib_last_error = None, ib_processed_at = None\<rparr>"

text \<open>The status code of the answer: 401, 503 or 200.\<close>

definition receive_push :: "auth_libs \<Rightarrow> push_env \<Rightarrow> push_request \<Rightarrow> push_state \<Rightarrow> push_state \<times> nat" where
  "receive_push L E req s =
     (if \<not> authorize (ps_devices s) (pq_device_id req) (pq_token req) then (s, 401)
      else (let online = fst (update_connection_state (pe_online E) (pe_now E) (pq_device_id req) ''online'' (ps_devices s));
                seen = fst (touch_last_seen (pe_seen E) (pe_now E) (pq_device_id req) online);
                s1 = s\<lparr>ps_devices := seen\<rparr>
            in case checked_insert (pe_store E) inbox_violation (new_inbox_row L E req) (ps_inbox s1) of
                 (inbox, Inl e) \<Rightarrow> (s1\<lparr>ps_inbox := inbox\<rparr>, 503)
               | (inbox, Inr n) \<Rightarrow> (s1\<lparr>ps_inbox := inbox\<rparr>, 200)))"

definition split_payload :: "string \<Rightarrow> string \<Rightarrow> (string \<times> string \<times> string option) list option" where
  "split_payload content_type body =
     (case boundary_of content_type of
        None \<Rightarrow> Some [(content_type, body, None)]
      | Some boundary \<Rightarrow>
          map_option (\<lambda>parts.
            let alert_type = map_option alert_content_type (find is_alert parts)
            in map (\<lambda>p. (case alert_type of None \<Rightarrow> ''application/xml'' | Some t \<Rightarrow> t, ep_xml p, ep_jpeg p))
                 (pair_events parts))
            (split_multipart body boundary))"

section \<open>Draining the inbox\<close>

definition drain_batch_size :: nat where "drain_batch_size = 50"
definition max_attempts :: i64 where "max_attempts = 10"
definition max_error_len :: nat where "max_error_len = 2000"

record pending_row =
  pw_id :: string
  pw_device_id :: string
  pw_content_type :: string
  pw_body :: string
  pw_attempts :: i64
  pw_direction_default :: "string option"

datatype row_outcome = Done | Permanent string | Transient string

definition pending_rows :: "inbox_row list \<Rightarrow> inbox_row list" where
  "pending_rows t = sort_key ib_received_at (filter (\<lambda>r. ib_status r = ''pending'') t)"

definition pending_row_of :: "device_row list \<Rightarrow> inbox_row \<Rightarrow> pending_row" where
  "pending_row_of devices r =
     \<lparr>pw_id = ib_id r, pw_device_id = ib_device_id r, pw_content_type = ib_content_type r, pw_body = ib_body r,
      pw_attempts = ib_attempts r,
      pw_direction_default = map_option dv_direction (find (\<lambda>d. dv_id d = ib_device_id r) devices)\<rparr>"

definition select_pending :: "nat \<Rightarrow> push_state \<Rightarrow> pending_row list" where
  "select_pending limit s = map (pending_row_of (ps_devices s)) (take limit (pending_rows (ps_inbox s)))"

text \<open>The state as the ingestion sees it.\<close>

definition ingest_view :: "push_state \<Rightarrow> ingest_state" where
  "ingest_view s = \<lparr>is_db = ps_db s, is_devices = map dv_id (ps_devices s), is_mappings = ps_mappings s,
     is_photos = ps_photos s\<rparr>"

definition with_ingest :: "push_state \<Rightarrow> ingest_state \<Rightarrow> push_state" where
  "with_ingest s i = s\<lparr>ps_db := is_db i, ps_photos := is_photos i\<rparr>"

text \<open>The parts of one body in order, each with what surrounds its ingestion; the first transient and
  the first permanent failure are kept.\<close>

fun ingest_parts ::
  "chrono \<Rightarrow> tzinfo \<Rightarrow> auth_libs \<Rightarrow> alert_libs \<Rightarrow> (nat \<Rightarrow> ingest_env) \<Rightarrow> string \<Rightarrow> string
    \<Rightarrow> nat \<Rightarrow> (string \<times> string \<times> string option) list \<Rightarrow> string option \<Rightarrow> string option \<Rightarrow> ingest_state
    \<Rightarrow> (ingest_state \<times> ingest_effect list \<times> string option \<times> string option) option" where
  "ingest_parts c tz L A envs device_id direction n [] transient permanent s = Some (s, [], transient, permanent)"
| "ingest_parts c tz L A envs device_id direction n ((content_type, alert, jpeg) # parts) transient permanent s =
     (case ingest_alert c tz L A (envs n) device_id direction alert content_type (utf8_lossy alert) jpeg s of
        None \<Rightarrow> None
      | Some (s', effect, outcome) \<Rightarrow>
          (let first = (\<lambda>kept m. case kept of None \<Rightarrow> Some m | Some k \<Rightarrow> Some k);
               permanent' = (if outcome = Inr Unparseable
                 then first permanent ''part could not be parsed as a Hikvision alert'' else permanent);
               transient' = (case outcome of Inl e \<Rightarrow> first transient e | Inr out \<Rightarrow> transient)
           in map_option (\<lambda>(s'', effects, t, p). (s'', effect # effects, t, p))
                (ingest_parts c tz L A envs device_id direction (Suc n) parts transient' permanent' s')))"

definition process_row ::
  "chrono \<Rightarrow> tzinfo \<Rightarrow> auth_libs \<Rightarrow> alert_libs \<Rightarrow> (nat \<Rightarrow> ingest_env) \<Rightarrow> pending_row \<Rightarrow> ingest_state
    \<Rightarrow> (ingest_state \<times> ingest_effect list \<times> row_outcome) option" where
  "process_row c tz L A envs row s =
     (case pw_direction_default row of
        None \<Rightarrow> Some (s, [], Permanent (''device '' @ pw_device_id row @
                  '' no longer exists; cannot resolve a direction default''))
      | Some direction \<Rightarrow>
          (case split_payload (pw_content_type row) (pw_body row) of
             None \<Rightarrow> None
           | Some parts \<Rightarrow>
               map_option (\<lambda>(s', effects, transient, permanent).
                 (s', effects, case transient of Some reason \<Rightarrow> Transient reason
                    | None \<Rightarrow> (case permanent of Some reason \<Rightarrow> Permanent reason | None \<Rightarrow> Done)))
                 (ingest_parts c tz L A envs (pw_device_id row) direction 0 parts None None s)))"

text \<open>The first \<open>n\<close> characters of a text; a byte that continues a character does not count.\<close>

fun take_chars :: "nat \<Rightarrow> string \<Rightarrow> string" where
  "take_chars n [] = []"
| "take_chars n (ch # s) =
     (if utf8_cont ch then ch # take_chars n s else if n = 0 then [] else ch # take_chars (n - 1) s)"

definition truncate_error :: "string \<Rightarrow> string" where
  "truncate_error reason =
     (if length (filter (\<lambda>ch. \<not> utf8_cont ch) reason) \<le> max_error_len then reason
      else take_chars max_error_len reason @ [CHR 0xE2, CHR 0x80, CHR 0xA6] @ '' [truncated]'')"

definition mark_done :: "write_outcome \<Rightarrow> i64 \<Rightarrow> string \<Rightarrow> inbox_row list \<Rightarrow> inbox_row list" where
  "mark_done wo now i t = fst (run_update wo (\<lambda>r. ib_id r = i)
     (\<lambda>r. r\<lparr>ib_status := ''done'', ib_processed_at := Some now\<rparr>) t)"

definition mark_failed :: "write_outcome \<Rightarrow> i64 \<Rightarrow> string \<Rightarrow> i64 \<Rightarrow> string \<Rightarrow> inbox_row list \<Rightarrow> inbox_row list" where
  "mark_failed wo now i attempts reason t = fst (run_update wo (\<lambda>r. ib_id r = i)
     (\<lambda>r. r\<lparr>ib_status := ''failed'', ib_attempts := attempts, ib_last_error := Some (truncate_error reason),
             ib_processed_at := Some now\<rparr>) t)"

definition mark_retry :: "write_outcome \<Rightarrow> string \<Rightarrow> i64 \<Rightarrow> string \<Rightarrow> inbox_row list \<Rightarrow> inbox_row list" where
  "mark_retry wo i attempts reason t = fst (run_update wo (\<lambda>r. ib_id r = i)
     (\<lambda>r. r\<lparr>ib_attempts := attempts, ib_last_error := Some (truncate_error reason)\<rparr>) t)"

record drain_stats =
  ds_selected :: nat
  ds_done :: nat
  ds_retried :: nat
  ds_failed :: nat

definition resolve ::
  "write_outcome \<Rightarrow> i64 \<Rightarrow> pending_row \<Rightarrow> row_outcome \<Rightarrow> drain_stats \<Rightarrow> inbox_row list \<Rightarrow> inbox_row list \<times> drain_stats" where
  "resolve wo now row out stats t =
     (case out of
        Done \<Rightarrow> (mark_done wo now (pw_id row) t, stats\<lparr>ds_done := ds_done stats + 1\<rparr>)
      | Permanent reason \<Rightarrow>
          (mark_failed wo now (pw_id row) (pw_attempts row) reason t, stats\<lparr>ds_failed := ds_failed stats + 1\<rparr>)
      | Transient reason \<Rightarrow>
          (let attempts = pw_attempts row + 1
           in if attempts \<ge> max_attempts
              then (mark_failed wo now (pw_id row) attempts
                      (''giving up after '' @ show_int attempts @ '' attempts: '' @ reason) t,
                    stats\<lparr>ds_failed := ds_failed stats + 1\<rparr>)
              else (mark_retry wo (pw_id row) attempts reason t, stats\<lparr>ds_retried := ds_retried stats + 1\<rparr>)))"

text \<open>What surrounds the processing of one row: its ingestions, the outcome of the status write, the
  clock.\<close>

record row_env =
  re_parts :: "nat \<Rightarrow> ingest_env"
  re_write :: write_outcome
  re_now :: i64

definition drain_row ::
  "chrono \<Rightarrow> tzinfo \<Rightarrow> auth_libs \<Rightarrow> alert_libs \<Rightarrow> row_env \<Rightarrow> pending_row \<Rightarrow> push_state \<Rightarrow> drain_stats
    \<Rightarrow> (push_state \<times> drain_stats \<times> ingest_effect list \<times> row_outcome) option" where
  "drain_row c tz L A W row s stats =
     (case process_row c tz L A (re_parts W) row (ingest_view s) of
        None \<Rightarrow> None
      | Some (i, effects, out) \<Rightarrow>
          (case resolve (re_write W) (re_now W) row out (stats\<lparr>ds_selected := ds_selected stats + 1\<rparr>) (ps_inbox s) of
             (inbox, stats') \<Rightarrow> Some ((with_ingest s i)\<lparr>ps_inbox := inbox\<rparr>, stats', effects, out)))"

fun drain_rows ::
  "chrono \<Rightarrow> tzinfo \<Rightarrow> auth_libs \<Rightarrow> alert_libs \<Rightarrow> (pending_row \<Rightarrow> row_env) \<Rightarrow> pending_row list \<Rightarrow> push_state \<Rightarrow> drain_stats
    \<Rightarrow> (push_state \<times> drain_stats) option" where
  "drain_rows c tz L A W [] s stats = Some (s, stats)"
| "drain_rows c tz L A W (row # rows) s stats =
     (case drain_row c tz L A (W row) row s stats of
        None \<Rightarrow> None
      | Some (s', stats', effects, out) \<Rightarrow> drain_rows c tz L A W rows s' stats')"

definition no_stats :: drain_stats where
  "no_stats = \<lparr>ds_selected = 0, ds_done = 0, ds_retried = 0, ds_failed = 0\<rparr>"

definition drain_once ::
  "chrono \<Rightarrow> tzinfo \<Rightarrow> auth_libs \<Rightarrow> alert_libs \<Rightarrow> (pending_row \<Rightarrow> row_env) \<Rightarrow> push_state
    \<Rightarrow> (push_state \<times> drain_stats) option" where
  "drain_once c tz L A W s = drain_rows c tz L A W (select_pending drain_batch_size s) s no_stats"

section \<open>The worker among the requests\<close>

text \<open>The rows of the pass still to come, whether the worker lives, and the outcomes it has written so
  far, oldest first.\<close>

record inbox_worker =
  iw_state :: push_state
  iw_batch :: "pending_row list"
  iw_alive :: bool
  iw_log :: "(string \<times> row_outcome) list"

text \<open>A push arrives; a pass begins (a failed selection ends the worker, for \<open>run\<close> returns the error);
  the next row of the pass is processed; the process starts again; anything but the inbox changes.\<close>

datatype inbox_event =
    Push push_env push_request
  | Begin_Pass bool
  | Next_Row row_env
  | Start_Worker
  | Other_Change push_state

fun inbox_step ::
  "chrono \<Rightarrow> tzinfo \<Rightarrow> auth_libs \<Rightarrow> alert_libs \<Rightarrow> inbox_event \<Rightarrow> inbox_worker \<Rightarrow> inbox_worker option" where
  "inbox_step c tz L A (Push E req) w = Some (w\<lparr>iw_state := fst (receive_push L E req (iw_state w))\<rparr>)"
| "inbox_step c tz L A (Begin_Pass selected) w =
     (if \<not> iw_alive w \<or> iw_batch w \<noteq> [] then None
      else if selected then Some (w\<lparr>iw_batch := select_pending drain_batch_size (iw_state w)\<rparr>)
      else Some (w\<lparr>iw_alive := False\<rparr>))"
| "inbox_step c tz L A (Next_Row W) w =
     (if \<not> iw_alive w then None
      else case iw_batch w of
        [] \<Rightarrow> None
      | row # rows \<Rightarrow>
          (case drain_row c tz L A W row (iw_state w) no_stats of
             None \<Rightarrow> Some (w\<lparr>iw_alive := False, iw_batch := []\<rparr>)
           | Some (s, stats, effects, out) \<Rightarrow>
               Some (w\<lparr>iw_state := s, iw_batch := rows,
                       iw_log := (if re_write W = Ran then iw_log w @ [(pw_id row, out)] else iw_log w)\<rparr>)))"
| "inbox_step c tz L A Start_Worker w = Some (w\<lparr>iw_batch := [], iw_alive := True\<rparr>)"
| "inbox_step c tz L A (Other_Change s) w =
     (if ps_inbox s = ps_inbox (iw_state w) then Some (w\<lparr>iw_state := s\<rparr>) else None)"

text \<open>The outcomes written for a row, and what they make of it: transient ones, each counted as an
  attempt, until one is done, one is permanent, or the tenth attempt has failed.\<close>

definition outcomes :: "string \<Rightarrow> (string \<times> row_outcome) list \<Rightarrow> row_outcome list" where
  "outcomes i log = map snd (filter (\<lambda>(j, out). j = i) log)"

definition is_transient :: "row_outcome \<Rightarrow> bool" where
  "is_transient out = (case out of Transient m \<Rightarrow> True | _ \<Rightarrow> False)"

definition row_history :: "inbox_row \<Rightarrow> row_outcome list \<Rightarrow> bool" where
  "row_history r outs \<longleftrightarrow> (\<exists>ts end. outs = ts @ end \<and> list_all is_transient ts \<and> ib_attempts r = int (length ts) \<and>
     (ib_status r = ''pending'' \<and> end = [] \<and> length ts < 10 \<or>
      ib_status r = ''done'' \<and> end = [Done] \<and> length ts < 10 \<or>
      ib_status r = ''failed'' \<and> ib_last_error r \<noteq> None \<and>
        ((\<exists>m. end = [Permanent m] \<and> length ts < 10) \<or> end = [] \<and> length ts = 10)))"

definition same_row :: "pending_row \<Rightarrow> inbox_row \<Rightarrow> bool" where
  "same_row w r \<longleftrightarrow> ib_id r = pw_id w \<and> ib_status r = ''pending'' \<and> ib_attempts r = pw_attempts w"

definition inbox_ok :: "inbox_worker \<Rightarrow> bool" where
  "inbox_ok w \<longleftrightarrow> distinct (map ib_id (ps_inbox (iw_state w))) \<and>
     (\<forall>r \<in> set (ps_inbox (iw_state w)). row_history r (outcomes (ib_id r) (iw_log w))) \<and>
     fst ` set (iw_log w) \<subseteq> ib_id ` set (ps_inbox (iw_state w)) \<and>
     distinct (map pw_id (iw_batch w)) \<and>
     (\<forall>p \<in> set (iw_batch w). \<exists>r \<in> set (ps_inbox (iw_state w)). same_row p r)"

lemma outcomes_simps [simp]: "outcomes i [] = []" "outcomes i (log @ log') = outcomes i log @ outcomes i log'"
  "outcomes i [(j, out)] = (if j = i then [out] else [])"
  by (auto simp: outcomes_def)

text \<open>How a status write leaves the row it is about.\<close>

definition resolved_row :: "i64 \<Rightarrow> pending_row \<Rightarrow> row_outcome \<Rightarrow> inbox_row \<Rightarrow> inbox_row" where
  "resolved_row now row out r =
     (case out of
        Done \<Rightarrow> r\<lparr>ib_status := ''done'', ib_processed_at := Some now\<rparr>
      | Permanent reason \<Rightarrow> r\<lparr>ib_status := ''failed'', ib_attempts := pw_attempts row,
          ib_last_error := Some (truncate_error reason), ib_processed_at := Some now\<rparr>
      | Transient reason \<Rightarrow>
          if pw_attempts row + 1 \<ge> max_attempts
          then r\<lparr>ib_status := ''failed'', ib_attempts := pw_attempts row + 1,
            ib_last_error := Some (truncate_error (''giving up after '' @ show_int (pw_attempts row + 1) @ '' attempts: '' @ reason)),
            ib_processed_at := Some now\<rparr>
          else r\<lparr>ib_attempts := pw_attempts row + 1, ib_last_error := Some (truncate_error reason)\<rparr>)"

lemma resolve_inbox:
  "fst (resolve wo now row out stats t) =
     (case wo of Ran \<Rightarrow> update_where (\<lambda>r. ib_id r = pw_id row) (resolved_row now row out) t | NotRun e \<Rightarrow> t)"
  by (cases wo; cases out)
    (auto simp: resolve_def mark_done_def mark_failed_def mark_retry_def resolved_row_def Let_def update_where_def
      intro!: map_cong)

lemma resolved_row_content [simp]:
  "ib_id (resolved_row now row out r) = ib_id r" "ib_body (resolved_row now row out r) = ib_body r"
  "ib_device_id (resolved_row now row out r) = ib_device_id r"
  "ib_content_type (resolved_row now row out r) = ib_content_type r"
  "ib_received_at (resolved_row now row out r) = ib_received_at r"
  by (auto simp: resolved_row_def split: row_outcome.splits)

lemma resolved_history:
  assumes "row_history r outs" "same_row row r"
  shows "row_history (resolved_row now row out r) (outs @ [out])"
proof -
  have p: "ib_status r = ''pending''" "ib_attempts r = pw_attempts row" using assms(2) by (auto simp: same_row_def)
  then have ts: "list_all is_transient outs" "pw_attempts row = int (length outs)" "length outs < 10"
    using assms(1) by (auto simp: row_history_def)
  show ?thesis
  proof (cases out)
    case Done
    then show ?thesis unfolding row_history_def using ts p
      by (intro exI [of _ outs] exI [of _ "[Done]"]) (auto simp: resolved_row_def)
  next
    case (Permanent m)
    then show ?thesis unfolding row_history_def using ts p
      by (intro exI [of _ outs] exI [of _ "[Permanent m]"]) (auto simp: resolved_row_def)
  next
    case (Transient m)
    then show ?thesis unfolding row_history_def using ts p
      by (intro exI [of _ "outs @ [Transient m]"] exI [of _ "[]"])
        (auto simp: resolved_row_def max_attempts_def is_transient_def)
  qed
qed


lemma outcomes_Nil: "i \<notin> fst ` set log \<Longrightarrow> outcomes i log = []"
  by (force simp: outcomes_def filter_empty_conv)

lemma receive_push_inbox:
  assumes "receive_push L E req s = (s', code)"
  obtains (kept) "ps_inbox s' = ps_inbox s" "code \<in> {401, 503}"
  | (stored) "ps_inbox s' = ps_inbox s @ [new_inbox_row L E req]" "code = 200" "distinct (map ib_id (ps_inbox s'))"
proof (cases "authorize (ps_devices s) (pq_device_id req) (pq_token req)")
  case False
  then show thesis using assms kept by (auto simp: receive_push_def)
next
  case True
  obtain inbox x where w: "checked_insert (pe_store E) inbox_violation (new_inbox_row L E req) (ps_inbox s) = (inbox, x)"
    by fastforce
  from w show thesis
    by (cases rule: checked_insert_cases)
      (use assms True w kept stored in \<open>auto simp: receive_push_def Let_def inbox_violation_def split: if_splits\<close>)
qed

lemma pending_rows_set [simp]: "set (pending_rows t) = {r \<in> set t. ib_status r = ''pending''}"
  by (simp add: pending_rows_def)

lemma pending_rows_distinct: "distinct (map ib_id t) \<Longrightarrow> distinct (map ib_id (pending_rows t))"
  by (auto simp: pending_rows_def distinct_map intro: inj_on_subset)

lemma select_pending_ok:
  assumes "distinct (map ib_id (ps_inbox s))"
  shows "distinct (map pw_id (select_pending n s))"
    and "p \<in> set (select_pending n s) \<Longrightarrow> \<exists>r \<in> set (ps_inbox s). same_row p r"
proof -
  have "map pw_id (select_pending n s) = take n (map ib_id (pending_rows (ps_inbox s)))"
    by (simp add: select_pending_def pending_row_of_def comp_def take_map)
  then show "distinct (map pw_id (select_pending n s))" using pending_rows_distinct [OF assms] by simp
  assume "p \<in> set (select_pending n s)"
  then show "\<exists>r \<in> set (ps_inbox s). same_row p r"
    by (auto simp: select_pending_def pending_row_of_def same_row_def dest!: in_set_takeD)
qed

lemma drain_row_inbox:
  assumes "drain_row c tz L A W row s stats = Some (s', stats', effects, out)"
  shows "ps_inbox s' = (case re_write W of
      Ran \<Rightarrow> update_where (\<lambda>r. ib_id r = pw_id row) (resolved_row (re_now W) row out) (ps_inbox s)
    | NotRun e \<Rightarrow> ps_inbox s)" and "ps_devices s' = ps_devices s"
proof -
  obtain i x where p: "process_row c tz L A (re_parts W) row (ingest_view s) = Some (i, effects, out)"
    "resolve (re_write W) (re_now W) row out (stats\<lparr>ds_selected := ds_selected stats + 1\<rparr>) (ps_inbox s) = (x, stats')"
    "s' = (with_ingest s i)\<lparr>ps_inbox := x\<rparr>"
    using assms by (auto simp: drain_row_def split: option.splits prod.splits)
  then have "x = fst (resolve (re_write W) (re_now W) row out (stats\<lparr>ds_selected := ds_selected stats + 1\<rparr>) (ps_inbox s))"
    by simp
  then show "ps_inbox s' = (case re_write W of
      Ran \<Rightarrow> update_where (\<lambda>r. ib_id r = pw_id row) (resolved_row (re_now W) row out) (ps_inbox s)
    | NotRun e \<Rightarrow> ps_inbox s)" by (simp add: resolve_inbox p(3))
  show "ps_devices s' = ps_devices s" by (simp add: p(3) with_ingest_def)
qed

lemma push_ok:
  assumes "inbox_ok w"
  shows "inbox_ok (w\<lparr>iw_state := fst (receive_push L E req (iw_state w))\<rparr>)"
proof (cases "receive_push L E req (iw_state w)")
  case (Pair s' code)
  then show ?thesis
  proof (cases rule: receive_push_inbox)
    case stored
    have id: "ib_id (new_inbox_row L E req) = pe_uuid E" by (simp add: new_inbox_row_def)
    have "pe_uuid E \<notin> ib_id ` set (ps_inbox (iw_state w))" using stored(1,3) id by auto
    then have "outcomes (pe_uuid E) (iw_log w) = []" using assms by (intro outcomes_Nil) (auto simp: inbox_ok_def image_subset_iff)
    then have "row_history (new_inbox_row L E req) (outcomes (pe_uuid E) (iw_log w))"
      by (simp add: row_history_def new_inbox_row_def)
    then show ?thesis using assms stored Pair id by (auto simp: inbox_ok_def image_subset_iff)
  qed (use assms Pair in \<open>auto simp: inbox_ok_def image_subset_iff\<close>)
qed

lemma next_row_ok:
  assumes "inbox_ok w" "iw_batch w = row # rows"
    and "drain_row c tz L A W row (iw_state w) stats = Some (s', stats', effects, out)"
  shows "inbox_ok (w\<lparr>iw_state := s', iw_batch := rows,
    iw_log := (if re_write W = Ran then iw_log w @ [(pw_id row, out)] else iw_log w)\<rparr>)"
proof -
  let ?t = "ps_inbox (iw_state w)"
  have d: "distinct (map ib_id ?t)" using assms(1) by (simp add: inbox_ok_def)
  have batch: "pw_id row \<notin> pw_id ` set rows" "distinct (map pw_id rows)"
    "\<And>p. p \<in> set rows \<Longrightarrow> \<exists>r \<in> set ?t. same_row p r"
    using assms(1,2) by (auto simp: inbox_ok_def image_subset_iff)
  obtain r where r: "r \<in> set ?t" "same_row row r" using assms(1,2) by (auto simp: inbox_ok_def image_subset_iff)
  then have id: "ib_id r = pw_id row" by (simp add: same_row_def)
  show ?thesis
  proof (cases "re_write W")
    case (NotRun e)
    then have "ps_inbox s' = ?t" using drain_row_inbox(1) [OF assms(3)] by simp
    then show ?thesis using assms(1) NotRun batch by (auto simp: inbox_ok_def image_subset_iff)
  next
    case Ran
    let ?f = "resolved_row (re_now W) row out"
    have t': "ps_inbox s' = update_where (\<lambda>r. ib_id r = pw_id row) ?f ?t"
      using drain_row_inbox(1) [OF assms(3)] Ran by simp
    have ids: "map ib_id (ps_inbox s') = map ib_id ?t" unfolding t' by (rule map_update_where) simp
    have hist: "row_history q (outcomes (ib_id q) (iw_log w @ [(pw_id row, out)]))" if q: "q \<in> set (ps_inbox s')" for q
    proof -
      obtain p where p: "p \<in> set ?t" "q = (if ib_id p = pw_id row then ?f p else p)"
        using q by (auto simp: t' in_set_update_where)
      have h: "row_history p (outcomes (ib_id p) (iw_log w))" using assms(1) p(1) by (simp add: inbox_ok_def)
      show ?thesis
      proof (cases "ib_id p = pw_id row")
        case True
        then have "p = r" using same_key [OF d p(1) r(1)] id by simp
        then show ?thesis using resolved_history [OF h] r(2) p(2) True by simp
      qed (use h p in auto)
    qed
    have keep: "\<exists>q \<in> set (ps_inbox s'). same_row p q" if p: "p \<in> set rows" for p
    proof -
      obtain q where q: "q \<in> set ?t" "same_row p q" using batch(3) p by blast
      then have "ib_id q \<noteq> pw_id row" using batch(1) p by (force simp: same_row_def)
      then have "q \<in> set (ps_inbox s')" using q(1) by (force simp: t' in_set_update_where)
      then show ?thesis using q(2) by blast
    qed
    have "fst ` set (iw_log w) \<subseteq> ib_id ` set ?t" using assms(1) by (simp add: inbox_ok_def)
    moreover have "ib_id ` set (ps_inbox s') = ib_id ` set ?t" using ids by (metis list.set_map)
    moreover have "pw_id row \<in> ib_id ` set ?t" using r(1) id by force
    ultimately show ?thesis using hist keep d ids batch(2) Ran by (simp add: inbox_ok_def)
  qed
qed

lemma inbox_step_ok: "inbox_ok w \<Longrightarrow> inbox_step c tz L A e w = Some w' \<Longrightarrow> inbox_ok w'"
proof (cases e)
  case (Push E req)
  assume "inbox_ok w" "inbox_step c tz L A e w = Some w'"
  then show "inbox_ok w'" using Push push_ok [of w L E req] by simp
next
  case (Begin_Pass selected)
  assume "inbox_ok w" "inbox_step c tz L A e w = Some w'"
  then show "inbox_ok w'" using Begin_Pass select_pending_ok [of "iw_state w"]
    by (fastforce simp: inbox_ok_def image_subset_iff split: if_splits)
next
  case (Next_Row W)
  assume ok: "inbox_ok w" and step: "inbox_step c tz L A e w = Some w'"
  then obtain row rows where b: "iw_alive w" "iw_batch w = row # rows"
    using Next_Row by (auto split: if_splits list.splits)
  show "inbox_ok w'"
  proof (cases "drain_row c tz L A W row (iw_state w) no_stats")
    case None
    then have "w' = w\<lparr>iw_alive := False, iw_batch := []\<rparr>" using step Next_Row b by simp
    then show ?thesis using ok by (simp add: inbox_ok_def)
  next
    case (Some x)
    obtain s stats effects out where x: "x = (s, stats, effects, out)" by (metis prod_cases4)
    then show ?thesis using next_row_ok [OF ok b(2) Some [unfolded x]] step Next_Row b Some by simp
  qed
qed (fastforce simp: inbox_ok_def image_subset_iff split: if_splits)+

interpretation inbox: stepper "inbox_step c tz L A" inbox_ok for c tz L A
  by unfold_locales (rule inbox_step_ok)

section \<open>What an accepted push can count on\<close>

definition content_of :: "inbox_row \<Rightarrow> string \<times> string \<times> string \<times> string" where
  "content_of r = (ib_id r, ib_device_id r, ib_content_type r, ib_body r)"

lemma inbox_step_content:
  assumes "inbox_step c tz L A e w = Some w'"
  shows "content_of ` set (ps_inbox (iw_state w)) \<subseteq> content_of ` set (ps_inbox (iw_state w'))"
proof (cases e)
  case (Push E req)
  obtain s' code where p: "receive_push L E req (iw_state w) = (s', code)" by fastforce
  then have "set (ps_inbox (iw_state w)) \<subseteq> set (ps_inbox s')" by (cases rule: receive_push_inbox) auto
  then show ?thesis using assms Push p by auto
next
  case (Next_Row W)
  then obtain row rows where b: "iw_alive w" "iw_batch w = row # rows"
    using assms by (auto split: if_splits list.splits)
  show ?thesis
  proof (cases "drain_row c tz L A W row (iw_state w) no_stats")
    case (Some x)
    obtain s stats effects out where x: "x = (s, stats, effects, out)" by (metis prod_cases4)
    have "map content_of (ps_inbox s) = map content_of (ps_inbox (iw_state w))"
      using drain_row_inbox(1) [OF Some [unfolded x]]
      by (cases "re_write W") (auto simp: content_of_def intro!: map_update_where)
    then have "content_of ` set (ps_inbox s) = content_of ` set (ps_inbox (iw_state w))" by (metis list.set_map)
    then show ?thesis using assms Next_Row b Some x by auto
  qed (use assms Next_Row b in auto)
qed (use assms in \<open>auto split: if_splits\<close>)

text \<open>C29. An accepted push is never lost, and is given up only for a reason: once a push was answered
  with 200, its row with the device, the content type and the body as received is in the inbox
  for good, whatever the worker, other pushes, crashes and restarts do.  Of the outcomes the
  worker wrote for it, the transient ones are its attempts; it is pending as long as there are
  only those and fewer than ten; it is done exactly by a complete ingestion, failed exactly by a
  permanent failure or the tenth transient one; and after that it is not touched again.\<close>

theorem accepted_pushes_survive:
  assumes "inbox_ok w" "receive_push L E req (iw_state w) = (s, 200)"
    and "run_steps (inbox_step c tz L A) es (w\<lparr>iw_state := s\<rparr>) = Some w'"
  shows "\<exists>r \<in> set (ps_inbox (iw_state w')). ib_id r = pe_uuid E \<and> ib_device_id r = pq_device_id req \<and>
    ib_content_type r = (case pq_content_type req of None \<Rightarrow> [] | Some ct \<Rightarrow> ct) \<and> ib_body r = pq_body req \<and>
    row_history r (outcomes (pe_uuid E) (iw_log w'))"
proof -
  have ok: "inbox_ok (w\<lparr>iw_state := s\<rparr>)" using push_ok [OF assms(1), of L E req] assms(2) by simp
  have ok': "inbox_ok w'" by (rule inbox.run_inv [OF ok assms(3)])
  have "content_of (new_inbox_row L E req) \<in> content_of ` set (ps_inbox s)"
    using assms(2) by (cases rule: receive_push_inbox) auto
  moreover have "content_of ` set (ps_inbox (iw_state (w\<lparr>iw_state := s\<rparr>))) \<subseteq> content_of ` set (ps_inbox (iw_state w'))"
    by (rule inbox.run_relation [where R = "\<lambda>a b. content_of ` set (ps_inbox (iw_state a)) \<subseteq> content_of ` set (ps_inbox (iw_state b))",
          OF _ _ _ ok assms(3)]) (auto dest!: inbox_step_content)
  ultimately have "content_of (new_inbox_row L E req) \<in> content_of ` set (ps_inbox (iw_state w'))" by auto
  then obtain r where r: "r \<in> set (ps_inbox (iw_state w'))" "content_of r = content_of (new_inbox_row L E req)" by force
  have "row_history r (outcomes (ib_id r) (iw_log w'))" using ok' r(1) by (simp add: inbox_ok_def)
  with r show ?thesis by (intro bexI [of _ r]) (simp_all add: content_of_def new_inbox_row_def)
qed

section \<open>A body the parser panics on\<close>

lemma sort_key_snoc_first:
  "sort_key f xs = r # rs \<Longrightarrow> f r \<le> f x \<Longrightarrow> \<exists>ys. sort_key f (xs @ [x]) = r # ys"
proof (induction xs arbitrary: r rs)
  case (Cons a xs)
  show ?case
  proof (cases "sort_key f xs")
    case Nil
    then have "xs = []" by (metis length_0_conv length_sort)
    then show ?thesis using Cons.prems by auto
  next
    case (Cons r' rs')
    have le: "f r' \<le> f y" if "y \<in> set xs" for y
      using sorted_sort_key [of f xs] that by (metis Cons list.simps(9) set_ConsD set_sort sorted_simps(2) order_refl imageI list.set_map)
    show ?thesis
    proof (cases "f a \<le> f r'")
      case True
      then have "r = a" using Cons.prems(1) Cons by simp
      obtain y ys where y: "sort_key f (xs @ [x]) = y # ys"
        by (metis append_is_Nil_conv length_0_conv length_sort list.exhaust not_Cons_self2)
      then have "y \<in> set xs \<union> {x}" by (metis list.set_intros(1) set_sort set_append list.set(1,2))
      then have "f a \<le> f y" using le True Cons.prems(2) \<open>r = a\<close> by (auto intro: order_trans)
      then show ?thesis using y \<open>r = a\<close> by simp
    next
      case False
      then have "r = r'" using Cons.prems(1) Cons by simp
      then obtain ys where "sort_key f (xs @ [x]) = r # ys" using Cons.IH [OF Cons] Cons.prems(2) by blast
      then show ?thesis using False \<open>r = r'\<close> by simp
    qed
  qed
qed simp

definition poisoned :: "inbox_row \<Rightarrow> inbox_worker \<Rightarrow> bool" where
  "poisoned r w \<longleftrightarrow> (\<exists>rs. pending_rows (ps_inbox (iw_state w)) = r # rs) \<and>
     split_payload (ib_content_type r) (ib_body r) = None \<and>
     ib_device_id r \<in> dv_id ` set (ps_devices (iw_state w)) \<and>
     (iw_batch w = [] \<or> (\<exists>p ps. iw_batch w = p # ps \<and> split_payload (pw_content_type p) (pw_body p) = None \<and>
        pw_direction_default p \<noteq> None))"

text \<open>What may happen around it: no push with an earlier clock, and no device leaves the register.\<close>

fun tolerable :: "inbox_row \<Rightarrow> inbox_event \<Rightarrow> bool" where
  "tolerable r (Push E req) \<longleftrightarrow> ib_received_at r \<le> pe_now E"
| "tolerable r (Other_Change s) \<longleftrightarrow> ib_device_id r \<in> dv_id ` set (ps_devices s)"
| "tolerable r e \<longleftrightarrow> True"

lemma receive_push_devices:
  "receive_push L E req s = (s', code) \<Longrightarrow> dv_id ` set (ps_devices s') = dv_id ` set (ps_devices s)"
proof -
  have up: "dv_id ` set (fst (checked_update wo v P f t)) = dv_id ` set t" if "\<And>r. dv_id (f r) = dv_id r"
    for wo v P f and t :: "device_row list"
  proof (cases "checked_update wo v P f t")
    case (Pair t1 x)
    then show ?thesis
    proof (cases rule: checked_update_cases)
      case ran
      have "map dv_id t1 = map dv_id t" unfolding ran(1) by (rule map_update_where) (rule that)
      then show ?thesis using Pair by (metis fst_conv list.set_map)
    qed (simp add: Pair)
  qed
  assume "receive_push L E req s = (s', code)"
  then have "ps_devices s' = ps_devices s \<or> ps_devices s' = fst (touch_last_seen (pe_seen E) (pe_now E) (pq_device_id req)
      (fst (update_connection_state (pe_online E) (pe_now E) (pq_device_id req) ''online'' (ps_devices s))))"
    by (auto simp: receive_push_def Let_def split: if_splits prod.splits sum.splits)
  then show "dv_id ` set (ps_devices s') = dv_id ` set (ps_devices s)"
    by (elim disjE) (simp_all add: update_connection_state_def touch_last_seen_def up)
qed

lemma poisoned_row: "split_payload (pw_content_type p) (pw_body p) = None \<Longrightarrow> pw_direction_default p \<noteq> None \<Longrightarrow>
    drain_row c tz L A W p s stats = None"
  by (auto simp: drain_row_def process_row_def)

lemma poisoned_step:
  assumes "poisoned r w" "tolerable r e" "inbox_step c tz L A e w = Some w'"
  shows "poisoned r w' \<and> iw_log w' = iw_log w \<and>
    set (pending_rows (ps_inbox (iw_state w))) \<subseteq> set (pending_rows (ps_inbox (iw_state w')))"
proof (cases e)
  case (Push E req)
  obtain s' code where p: "receive_push L E req (iw_state w) = (s', code)" by fastforce
  then have w': "w' = w\<lparr>iw_state := s'\<rparr>" using assms(3) Push by simp
  obtain rs where rs: "pending_rows (ps_inbox (iw_state w)) = r # rs" using assms(1) by (auto simp: poisoned_def)
  have le: "ib_received_at r \<le> pe_now E" using assms(2) Push by simp
  have d: "dv_id ` set (ps_devices s') = dv_id ` set (ps_devices (iw_state w))" by (rule receive_push_devices [OF p])
  from p have "\<exists>ys. pending_rows (ps_inbox s') = r # ys"
  proof (cases rule: receive_push_inbox)
    case stored
    have "pending_rows (ps_inbox s') =
        sort_key ib_received_at (filter (\<lambda>r. ib_status r = ''pending'') (ps_inbox (iw_state w)) @ [new_inbox_row L E req])"
      by (simp add: stored(1) pending_rows_def new_inbox_row_def)
    then show ?thesis
      using sort_key_snoc_first [of ib_received_at _ r rs "new_inbox_row L E req"] rs le
      by (simp add: pending_rows_def new_inbox_row_def)
  qed (use rs in simp)
  moreover from p have "set (ps_inbox (iw_state w)) \<subseteq> set (ps_inbox s')" by (cases rule: receive_push_inbox) auto
  ultimately show ?thesis using assms(1) w' d by (auto simp: poisoned_def)
next
  case (Begin_Pass selected)
  obtain rs where rs: "pending_rows (ps_inbox (iw_state w)) = r # rs" using assms(1) by (auto simp: poisoned_def)
  obtain d where "find (\<lambda>d. dv_id d = ib_device_id r) (ps_devices (iw_state w)) = Some d"
    using assms(1) by (cases "find (\<lambda>d. dv_id d = ib_device_id r) (ps_devices (iw_state w))")
      (auto simp: poisoned_def find_None_iff)
  then obtain ps where "select_pending drain_batch_size (iw_state w) = pending_row_of (ps_devices (iw_state w)) r # ps"
    "pw_direction_default (pending_row_of (ps_devices (iw_state w)) r) \<noteq> None"
    by (simp add: select_pending_def drain_batch_size_def rs take_Cons' pending_row_of_def)
  moreover have "split_payload (pw_content_type (pending_row_of t r)) (pw_body (pending_row_of t r)) =
      split_payload (ib_content_type r) (ib_body r)" for t
    by (simp add: pending_row_of_def)
  ultimately show ?thesis using assms(1,3) Begin_Pass by (cases selected) (auto simp: poisoned_def split: if_splits)
next
  case (Next_Row W)
  obtain p ps where p: "iw_batch w = p # ps" "iw_alive w" "drain_row c tz L A W p (iw_state w) no_stats = None"
    using assms(1,3) Next_Row by (auto simp: poisoned_def poisoned_row split: if_splits)
  then have "w' = w\<lparr>iw_alive := False, iw_batch := []\<rparr>" using assms(3) Next_Row by simp
  then show ?thesis using assms(1) by (simp add: poisoned_def)
qed (use assms in \<open>auto simp: poisoned_def split: if_splits\<close>)

text \<open>C31. A poisonous push blocks the inbox: while the oldest pending push has a body the parser panics
  on, the worker never writes an outcome again, for any push, however often it is started; every
  push that was pending stays pending.\<close>

theorem poison_push_blocks_the_inbox:
  assumes "pending_rows (ps_inbox (iw_state w)) = r # rs" "split_payload (ib_content_type r) (ib_body r) = None"
    and "ib_device_id r \<in> dv_id ` set (ps_devices (iw_state w))" "iw_batch w = []"
    and "run_steps (inbox_step c tz L A) es w = Some w'" "list_all (tolerable r) es"
  shows "iw_log w' = iw_log w \<and> set (r # rs) \<subseteq> set (pending_rows (ps_inbox (iw_state w')))"
proof -
  have "poisoned r w" using assms(1-4) by (simp add: poisoned_def)
  then have "iw_log w' = iw_log w \<and> set (pending_rows (ps_inbox (iw_state w))) \<subseteq> set (pending_rows (ps_inbox (iw_state w')))"
    using assms(5,6)
  proof (induction es arbitrary: w)
    case (Cons e es)
    then obtain m where "inbox_step c tz L A e w = Some m" "run_steps (inbox_step c tz L A) es m = Some w'"
      by (auto split: option.splits)
    then show ?case using Cons.IH [of m] Cons.prems poisoned_step [of r w e c tz L A m] by auto
  qed simp
  then show ?thesis using assms(1) by simp
qed


section \<open>The inbox drains\<close>

text \<open>How many outcomes a row can still take, and all of them.\<close>

definition weight :: "inbox_row \<Rightarrow> nat" where
  "weight r = (if ib_status r = ''pending'' then nat (10 - ib_attempts r) else 0)"

definition backlog :: "push_state \<Rightarrow> nat" where
  "backlog s = sum_list (map weight (ps_inbox s))"

text \<open>Between two passes nothing is pending but rows with attempts left.\<close>

definition between_passes :: "push_state \<Rightarrow> bool" where
  "between_passes s \<longleftrightarrow> distinct (map ib_id (ps_inbox s)) \<and>
     (\<forall>r \<in> set (ps_inbox s). ib_status r = ''pending'' \<longrightarrow> 0 \<le> ib_attempts r \<and> ib_attempts r < 10)"

definition never_panics ::
  "chrono \<Rightarrow> tzinfo \<Rightarrow> auth_libs \<Rightarrow> alert_libs \<Rightarrow> (pending_row \<Rightarrow> row_env) \<Rightarrow> push_state \<Rightarrow> bool" where
  "never_panics c tz L A W s \<longleftrightarrow> (\<forall>r \<in> set (ps_inbox s). \<forall>p i. pw_content_type p = ib_content_type r \<and>
     pw_body p = ib_body r \<longrightarrow> process_row c tz L A (re_parts (W p)) p i \<noteq> None)"

fun drain_passes ::
  "chrono \<Rightarrow> tzinfo \<Rightarrow> auth_libs \<Rightarrow> alert_libs \<Rightarrow> (pending_row \<Rightarrow> row_env) list \<Rightarrow> push_state \<Rightarrow> push_state option" where
  "drain_passes c tz L A [] s = Some s"
| "drain_passes c tz L A (W # Ws) s =
     (case drain_once c tz L A W s of None \<Rightarrow> None | Some (s', stats) \<Rightarrow> drain_passes c tz L A Ws s')"

lemma sum_update_less:
  assumes "distinct (map k t)" "r \<in> set t" "k r = i" "g (f r) < (g r :: nat)"
  shows "sum_list (map g (update_where (\<lambda>x. k x = i) f t)) < sum_list (map g t)"
  using assms
proof (induction t)
  case (Cons a t)
  show ?case
  proof (cases "k a = i")
    case True
    then have "r = a" using Cons.prems by (auto simp: image_iff)
    moreover have "update_where (\<lambda>x. k x = i) f t = t"
      using Cons.prems True by (intro update_where_none) (auto simp: image_iff)
    ultimately show ?thesis using Cons.prems(4) True by (simp add: table_simps)
  qed (use Cons in \<open>auto simp: table_simps\<close>)
qed simp

lemma resolved_row_lighter:
  "ib_status r = ''pending'' \<Longrightarrow> ib_attempts r = pw_attempts row \<Longrightarrow> 0 \<le> pw_attempts row \<Longrightarrow> pw_attempts row < 10 \<Longrightarrow>
   weight (resolved_row now row out r) < weight r \<and>
   (ib_status (resolved_row now row out r) = ''pending'' \<longrightarrow>
      0 \<le> ib_attempts (resolved_row now row out r) \<and> ib_attempts (resolved_row now row out r) < 10)"
  by (auto simp: weight_def resolved_row_def max_attempts_def split: row_outcome.splits)

lemma drain_row_progress:
  assumes "between_passes s" "r \<in> set (ps_inbox s)" "same_row p r" "re_write W = Ran"
    and "drain_row c tz L A W p s stats = Some (s', stats', effects, out)"
  shows "between_passes s' \<and> backlog s' < backlog s \<and> map content_of (ps_inbox s') = map content_of (ps_inbox s) \<and>
    (\<forall>q \<in> set (ps_inbox s). ib_id q \<noteq> pw_id p \<longrightarrow> q \<in> set (ps_inbox s'))"
proof -
  let ?f = "resolved_row (re_now W) p out"
  have d: "distinct (map ib_id (ps_inbox s))" using assms(1) by (simp add: between_passes_def)
  have t': "ps_inbox s' = update_where (\<lambda>q. ib_id q = pw_id p) ?f (ps_inbox s)"
    using drain_row_inbox(1) [OF assms(5)] assms(4) by simp
  have r: "ib_id r = pw_id p" "ib_status r = ''pending''" "ib_attempts r = pw_attempts p" using assms(3) by (auto simp: same_row_def)
  have a: "0 \<le> pw_attempts p" "pw_attempts p < 10" using assms(1,2) r by (auto simp: between_passes_def)
  note light = resolved_row_lighter [OF r(2,3) a, of "re_now W" out]
  have one: "q = r" if "q \<in> set (ps_inbox s)" "ib_id q = pw_id p" for q
    using same_key [OF d that(1) assms(2)] that(2) r(1) by simp
  have "distinct (map ib_id (ps_inbox s'))" unfolding t' using d by (simp add: map_update_where)
  moreover have "\<forall>q \<in> set (ps_inbox s'). ib_status q = ''pending'' \<longrightarrow> 0 \<le> ib_attempts q \<and> ib_attempts q < 10"
    using one light assms(1) by (auto simp: t' in_set_update_where between_passes_def split: if_splits)
  moreover have "backlog s' < backlog s"
    unfolding backlog_def t' by (rule sum_update_less [OF d assms(2) r(1)]) (use light in simp)
  moreover have "map content_of (ps_inbox s') = map content_of (ps_inbox s)"
    unfolding t' by (rule map_update_where) (simp add: content_of_def)
  moreover have "\<forall>q \<in> set (ps_inbox s). ib_id q \<noteq> pw_id p \<longrightarrow> q \<in> set (ps_inbox s')"
    by (force simp: t' in_set_update_where)
  ultimately show ?thesis by (simp add: between_passes_def)
qed

lemma never_panics_content:
  "map content_of (ps_inbox s') = map content_of (ps_inbox s) \<Longrightarrow> never_panics c tz L A W s \<Longrightarrow> never_panics c tz L A W s'"
proof -
  assume eq: "map content_of (ps_inbox s') = map content_of (ps_inbox s)" and n: "never_panics c tz L A W s"
  have "\<exists>q \<in> set (ps_inbox s). content_of q = content_of r" if "r \<in> set (ps_inbox s')" for r
  proof -
    have "content_of ` set (ps_inbox s') = content_of ` set (ps_inbox s)" using eq by (metis list.set_map)
    then have "content_of r \<in> content_of ` set (ps_inbox s)" using that by blast
    then show ?thesis by force
  qed
  then show ?thesis using n by (fastforce simp: never_panics_def content_of_def)
qed

lemma drain_rows_progress:
  assumes "between_passes s" "never_panics c tz L A W s" "\<And>p. re_write (W p) = Ran" "distinct (map pw_id rows)"
    and "\<And>p. p \<in> set rows \<Longrightarrow> \<exists>r \<in> set (ps_inbox s). same_row p r \<and> pw_content_type p = ib_content_type r \<and> pw_body p = ib_body r"
  shows "\<exists>s' stats'. drain_rows c tz L A W rows s stats = Some (s', stats') \<and> between_passes s' \<and>
    backlog s' + length rows \<le> backlog s \<and> map content_of (ps_inbox s') = map content_of (ps_inbox s)"
  using assms
proof (induction rows arbitrary: s stats)
  case (Cons p rows)
  obtain r where r: "r \<in> set (ps_inbox s)" "same_row p r" "pw_content_type p = ib_content_type r" "pw_body p = ib_body r"
    using Cons.prems(5) by force
  have "process_row c tz L A (re_parts (W p)) p (ingest_view s) \<noteq> None"
    using Cons.prems(2) r by (auto simp: never_panics_def)
  then obtain s1 stats1 effects out where one: "drain_row c tz L A (W p) p s stats = Some (s1, stats1, effects, out)"
    by (cases "resolve (re_write (W p)) (re_now (W p)) p (snd (snd (the (process_row c tz L A (re_parts (W p)) p (ingest_view s)))))
        (stats\<lparr>ds_selected := ds_selected stats + 1\<rparr>) (ps_inbox s)") (auto simp: drain_row_def)
  note prog = drain_row_progress [OF Cons.prems(1) r(1,2) Cons.prems(3) one]
  have rest: "\<exists>r \<in> set (ps_inbox s1). same_row q r \<and> pw_content_type q = ib_content_type r \<and> pw_body q = ib_body r"
    if q: "q \<in> set rows" for q
  proof -
    obtain x where x: "x \<in> set (ps_inbox s)" "same_row q x" "pw_content_type q = ib_content_type x" "pw_body q = ib_body x"
      using Cons.prems(5) q by force
    moreover have "ib_id x \<noteq> pw_id p" using Cons.prems(4) q x(2) by (auto simp: same_row_def image_iff)
    ultimately show ?thesis using prog by blast
  qed
  have "\<exists>s' stats'. drain_rows c tz L A W rows s1 stats1 = Some (s', stats') \<and> between_passes s' \<and>
      backlog s' + length rows \<le> backlog s1 \<and> map content_of (ps_inbox s') = map content_of (ps_inbox s1)"
    using prog never_panics_content Cons.prems rest by (intro Cons.IH) auto
  then show ?case using one prog by auto
qed simp

lemma pending_rows_Nil: "pending_rows t = [] \<longleftrightarrow> (\<forall>r \<in> set t. ib_status r \<noteq> ''pending'')"
proof -
  have "pending_rows t = [] \<longleftrightarrow> set (pending_rows t) = {}" by (rule set_empty [symmetric])
  also have "\<dots> \<longleftrightarrow> (\<forall>r \<in> set t. ib_status r \<noteq> ''pending'')" by (simp only: pending_rows_set) blast
  finally show ?thesis .
qed

lemma backlog_0:
  assumes "between_passes s" "backlog s = 0"
  shows "pending_rows (ps_inbox s) = []"
proof -
  have "\<forall>r \<in> set (ps_inbox s). weight r = 0" using assms(2) by (simp add: backlog_def sum_list_eq_0_iff)
  then show ?thesis using assms(1) by (fastforce simp: pending_rows_Nil weight_def between_passes_def)
qed

lemma drain_once_progress:
  assumes "between_passes s" "never_panics c tz L A W s" "\<And>p. re_write (W p) = Ran"
  shows "\<exists>s' stats. drain_once c tz L A W s = Some (s', stats) \<and> between_passes s' \<and>
    backlog s' \<le> backlog s - 1 \<and> map content_of (ps_inbox s') = map content_of (ps_inbox s)"
proof -
  let ?rows = "select_pending drain_batch_size s"
  have d: "distinct (map ib_id (ps_inbox s))" using assms(1) by (simp add: between_passes_def)
  have rows: "\<exists>r \<in> set (ps_inbox s). same_row p r \<and> pw_content_type p = ib_content_type r \<and> pw_body p = ib_body r"
    if "p \<in> set ?rows" for p
    using that by (auto simp: select_pending_def pending_row_of_def same_row_def dest!: in_set_takeD)
  obtain s' stats where s': "drain_once c tz L A W s = Some (s', stats)" "between_passes s'"
    "backlog s' + length ?rows \<le> backlog s" "map content_of (ps_inbox s') = map content_of (ps_inbox s)"
    using drain_rows_progress [OF assms select_pending_ok(1) [OF d] rows, of drain_batch_size no_stats]
    by (auto simp: drain_once_def)
  moreover have "0 < length ?rows \<or> backlog s = 0"
  proof (cases "pending_rows (ps_inbox s) = []")
    case True
    then have "\<forall>r \<in> set (ps_inbox s). weight r = 0" by (auto simp: pending_rows_Nil weight_def)
    then show ?thesis by (simp add: backlog_def sum_list_eq_0_iff)
  qed (auto simp: select_pending_def drain_batch_size_def)
  ultimately have "backlog s' \<le> backlog s - 1" by linarith
  then show ?thesis using s' by blast
qed

text \<open>C30. The inbox drains: if no body in it makes the parser panic and the status writes are carried
  out, every pass returns, and after as many passes as the pending rows have attempts left, at
  most ten for each, no row is pending, whatever the ingestions answer; no row is lost.\<close>

theorem inbox_drains:
  assumes "between_passes s" "\<forall>W \<in> set Ws. never_panics c tz L A W s \<and> (\<forall>p. re_write (W p) = Ran)"
  shows "\<exists>s'. drain_passes c tz L A Ws s = Some s' \<and> map content_of (ps_inbox s') = map content_of (ps_inbox s) \<and>
    (backlog s \<le> length Ws \<longrightarrow> pending_rows (ps_inbox s') = []) \<and> backlog s \<le> 10 * length (pending_rows (ps_inbox s))"
proof -
  have "\<exists>s'. drain_passes c tz L A Ws s = Some s' \<and> map content_of (ps_inbox s') = map content_of (ps_inbox s) \<and>
    (backlog s \<le> length Ws \<longrightarrow> pending_rows (ps_inbox s') = [])"
    using assms
  proof (induction Ws arbitrary: s)
    case Nil
    then show ?case using backlog_0 by auto
  next
    case (Cons W Ws)
    obtain s1 stats where s1: "drain_once c tz L A W s = Some (s1, stats)" "between_passes s1" "backlog s1 \<le> backlog s - 1"
      "map content_of (ps_inbox s1) = map content_of (ps_inbox s)"
      using drain_once_progress [OF Cons.prems(1), of c tz L A W] Cons.prems(2) by auto
    have "\<forall>W \<in> set Ws. never_panics c tz L A W s1 \<and> (\<forall>p. re_write (W p) = Ran)"
      using Cons.prems(2) never_panics_content [OF s1(4)] by auto
    from Cons.IH [OF s1(2) this] s1 show ?case by auto
  qed
  moreover have "sum_list (map weight t) \<le> 10 * length (filter (\<lambda>r. ib_status r = ''pending'') t)"
    if "\<forall>r \<in> set t. ib_status r = ''pending'' \<longrightarrow> 0 \<le> ib_attempts r" for t
    using that by (induction t) (auto simp: weight_def)
  then have "backlog s \<le> 10 * length (pending_rows (ps_inbox s))"
    using assms(1) by (simp add: backlog_def pending_rows_def between_passes_def)
  ultimately show ?thesis by blast
qed


section \<open>The secret of the webhook\<close>

lemma of_char_byte_inj: "(of_char x :: 8 word) = of_char y \<longleftrightarrow> x = y"
proof
  assume eq: "(of_char x :: 8 word) = of_char y"
  have "(of_char c :: nat) = unat (of_char c :: 8 word)" for c :: char
  proof -
    have "(of_char c :: 8 word) = of_nat (of_char c)" by (simp add: of_nat_of_char)
    moreover have "(of_char c :: nat) < 256" by (cases c) (simp add: split: if_splits)
    ultimately show ?thesis by (simp add: unat_of_nat)
  qed
  then have "(of_char x :: nat) = of_char y" using eq by simp
  then show "x = y" by simp
qed simp

lemma xor_zero: "(x :: 8 word) XOR y = 0 \<longleftrightarrow> x = y"
  by (auto simp: bit_eq_iff bit_simps)

lemma xor_fold_zero:
  "foldl (\<lambda>acc (x, y). acc OR (x XOR y)) (a :: 8 word) zs = 0 \<longleftrightarrow> a = 0 \<and> (\<forall>(x, y) \<in> set zs. x = y)"
  by (induction zs arbitrary: a) (auto simp: or_eq_0_iff xor_zero)

lemma constant_time_eq_iff: "constant_time_eq a b \<longleftrightarrow> a = b"
proof (cases "length a = length b")
  case True
  then show ?thesis
    by (induction a b rule: list_induct2) (auto simp: constant_time_eq_def xor_fold_zero xor_zero of_char_byte_inj)
qed (auto simp: constant_time_eq_def)

text \<open>C28. Only the reader itself pushes: a push is accepted only under the id of an active device in push
  mode and with exactly the token of that device, which is not empty; whatever is refused as
  unauthorized leaves the whole state as it was.\<close>

theorem pushes_are_authenticated:
  assumes "receive_push L E req s = (s', code)"
  shows "(code = 200 \<longrightarrow> (\<exists>d \<in> set (ps_devices s). dv_id d = pq_device_id req \<and> dv_status d = ''active'' \<and>
      dv_ingest_mode d = ''push'' \<and> dv_push_token d = Some (pq_token req) \<and> pq_token req \<noteq> [])) \<and>
    (code = 401 \<longrightarrow> s' = s) \<and>
    (code = 503 \<longrightarrow> ps_inbox s' = ps_inbox s)"
proof -
  have "\<exists>d \<in> set (ps_devices s). dv_id d = pq_device_id req \<and> dv_status d = ''active'' \<and>
      dv_ingest_mode d = ''push'' \<and> dv_push_token d = Some (pq_token req) \<and> pq_token req \<noteq> []" if "code = 200"
    using assms that
    by (fastforce simp: receive_push_def authorize_def Let_def constant_time_eq_iff dest: find_Some_in
        split: if_splits option.splits prod.splits sum.splits)
  moreover have "s' = s" if "code = 401"
    using assms that by (auto simp: receive_push_def Let_def split: if_splits prod.splits sum.splits)
  moreover have "ps_inbox s' = ps_inbox s" if "code = 503"
    using assms that by (cases rule: receive_push_inbox) auto
  ultimately show ?thesis by blast
qed


section \<open>Examples\<close>

definition toy_alerts :: alert_libs where
  "toy_alerts = \<lparr>json_alert = (\<lambda>s. Inl ''bad''), xml_alert = (\<lambda>s. Inl ''bad''), parse_rfc3339 = (\<lambda>s. None)\<rparr>"

definition push_reader :: device_row where
  "push_reader = sample_row\<lparr>dv_ingest_mode := ''push'', dv_push_token := Some ''tok''\<rparr>"

definition empty_inbox :: inbox_worker where
  "empty_inbox = \<lparr>iw_state = \<lparr>ps_db = night_db, ps_devices = [push_reader], ps_mappings = [], ps_photos = no_files,
     ps_inbox = []\<rparr>, iw_batch = [], iw_alive = True, iw_log = []\<rparr>"

definition push_at :: "i64 \<Rightarrow> string \<Rightarrow> push_env" where
  "push_at now i = \<lparr>pe_online = Ran, pe_seen = Ran, pe_store = Ran, pe_now = now, pe_uuid = i\<rparr>"

definition push_of :: "string \<Rightarrow> string \<Rightarrow> push_request" where
  "push_of ct body = \<lparr>pq_device_id = ''dv1'', pq_token = ''tok'', pq_content_type = Some ct, pq_body = body\<rparr>"

definition row_env_at :: "i64 \<Rightarrow> row_env" where
  "row_env_at now = \<lparr>re_parts = (\<lambda>n. night_env), re_write = Ran, re_now = now\<rparr>"

definition bad_push :: push_request where "bad_push = push_of ''application/json'' ''x''"

definition poison_push :: push_request where
  "poison_push = push_of ''multipart/form-data; boundary=B'' (''--B'' @ crlf @ ''hello'' @ crlf @ ''--B--'' @ crlf)"

definition first_pushed :: push_state where
  "first_pushed = fst (receive_push toy_libs (push_at 1000 ''p1'') bad_push (iw_state empty_inbox))"

lemma first_pushed_ok: "receive_push toy_libs (push_at 1000 ''p1'') bad_push (iw_state empty_inbox) = (first_pushed, 200)"
proof -
  have "snd (receive_push toy_libs (push_at 1000 ''p1'') bad_push (iw_state empty_inbox)) = 200" by code_simp
  then show ?thesis unfolding first_pushed_def by (metis prod.collapse)
qed

lemma empty_inbox_ok: "inbox_ok empty_inbox"
  by (simp add: inbox_ok_def empty_inbox_def)

theorem pushes_are_authenticated_witness:
  "(\<exists>d \<in> set (ps_devices (iw_state empty_inbox)). dv_id d = ''dv1'' \<and> dv_push_token d = Some ''tok'') \<and>
   snd (receive_push toy_libs (push_at 1000 ''p1'') (bad_push\<lparr>pq_token := ''tol''\<rparr>) (iw_state empty_inbox)) = 401"
proof
  from pushes_are_authenticated [OF first_pushed_ok]
  show "\<exists>d \<in> set (ps_devices (iw_state empty_inbox)). dv_id d = ''dv1'' \<and> dv_push_token d = Some ''tok''"
    by (auto simp: bad_push_def push_of_def)
  show "snd (receive_push toy_libs (push_at 1000 ''p1'') (bad_push\<lparr>pq_token := ''tol''\<rparr>) (iw_state empty_inbox)) = 401"
    by code_simp
qed

definition one_pass :: "inbox_event list" where
  "one_pass = [Begin_Pass True, Next_Row (row_env_at 1003)]"

lemma one_pass_runs:
  "\<exists>w'. run_steps (inbox_step gregorian caracas toy_libs toy_alerts) one_pass (empty_inbox\<lparr>iw_state := first_pushed\<rparr>) = Some w' \<and>
     map ib_status (ps_inbox (iw_state w')) = [''failed'']"
proof -
  have "map_option (\<lambda>w'. map ib_status (ps_inbox (iw_state w')))
      (run_steps (inbox_step gregorian caracas toy_libs toy_alerts) one_pass (empty_inbox\<lparr>iw_state := first_pushed\<rparr>))
    = Some [''failed'']" by code_simp
  then show ?thesis by auto
qed

theorem accepted_pushes_survive_witness:
  "\<exists>w' r. run_steps (inbox_step gregorian caracas toy_libs toy_alerts) one_pass (empty_inbox\<lparr>iw_state := first_pushed\<rparr>) = Some w' \<and>
     ps_inbox (iw_state w') = [r] \<and> ib_body r = ''x'' \<and> ib_status r = ''failed'' \<and>
     row_history r (outcomes ''p1'' (iw_log w'))"
proof -
  from one_pass_runs obtain w' where
    w': "run_steps (inbox_step gregorian caracas toy_libs toy_alerts) one_pass (empty_inbox\<lparr>iw_state := first_pushed\<rparr>) = Some w'"
    "map ib_status (ps_inbox (iw_state w')) = [''failed'']" by (elim exE conjE)
  have id: "pe_uuid (push_at 1000 ''p1'') = ''p1''" by (simp add: push_at_def)
  have body: "pq_body bad_push = ''x''" by (simp add: bad_push_def push_of_def)
  obtain r where r: "ps_inbox (iw_state w') = [r]" "ib_status r = ''failed''" using w'(2) by (auto simp: map_eq_Cons_conv)
  from accepted_pushes_survive [OF empty_inbox_ok first_pushed_ok w'(1)]
  have "ib_body r = ''x'' \<and> row_history r (outcomes ''p1'' (iw_log w'))" unfolding id body r(1) by simp
  with w'(1) r show ?thesis by blast
qed

definition poisoned_inbox :: inbox_worker where
  "poisoned_inbox = (empty_inbox\<lparr>iw_state := fst (receive_push toy_libs (push_at 1000 ''p1'') poison_push (iw_state empty_inbox))\<rparr>)"

definition poison_row :: inbox_row where
  "poison_row = new_inbox_row toy_libs (push_at 1000 ''p1'') poison_push"

definition second_push :: "inbox_event list" where
  "second_push = [Push (push_at 1001 ''p2'') bad_push, Begin_Pass True, Next_Row (row_env_at 1003), Start_Worker,
     Begin_Pass True, Next_Row (row_env_at 1006)]"

lemma poison_panics: "split_payload (ib_content_type poison_row) (ib_body poison_row) = None"
  "pending_rows (ps_inbox (iw_state poisoned_inbox)) = [poison_row]"
  "ib_device_id poison_row \<in> dv_id ` set (ps_devices (iw_state poisoned_inbox))"
  by code_simp+

theorem poison_push_blocks_the_inbox_witness:
  "\<exists>w'. run_steps (inbox_step gregorian caracas toy_libs toy_alerts) second_push poisoned_inbox = Some w' \<and>
     iw_log w' = [] \<and> poison_row \<in> set (pending_rows (ps_inbox (iw_state w'))) \<and>
     map ib_status (ps_inbox (iw_state w')) = [''pending'', ''pending'']"
proof -
  have "map_option (\<lambda>w'. map ib_status (ps_inbox (iw_state w')))
      (run_steps (inbox_step gregorian caracas toy_libs toy_alerts) second_push poisoned_inbox)
    = Some [''pending'', ''pending'']" by code_simp
  then obtain w' where w': "run_steps (inbox_step gregorian caracas toy_libs toy_alerts) second_push poisoned_inbox = Some w'"
    "map ib_status (ps_inbox (iw_state w')) = [''pending'', ''pending'']" by auto
  have b: "iw_batch poisoned_inbox = []" "iw_log poisoned_inbox = []" by (simp_all add: poisoned_inbox_def empty_inbox_def)
  have t: "list_all (tolerable poison_row) second_push" by code_simp
  from poison_push_blocks_the_inbox [OF poison_panics(2,1,3) b(1) w'(1) t] w' b(2) show ?thesis by auto
qed

theorem inbox_drains_witness:
  "\<exists>s'. drain_passes gregorian caracas toy_libs toy_alerts (replicate 10 (\<lambda>p. row_env_at 1003)) first_pushed = Some s' \<and>
     pending_rows (ps_inbox s') = [] \<and> map content_of (ps_inbox s') = map content_of (ps_inbox first_pushed)"
proof -
  have i: "ps_inbox first_pushed = [new_inbox_row toy_libs (push_at 1000 ''p1'') bad_push]" by code_simp
  have ok: "between_passes first_pushed" "backlog first_pushed \<le> 10"
    by (simp_all add: between_passes_def backlog_def weight_def i new_inbox_row_def)
  have ct: "boundary_of ''application/json'' = None" by code_simp
  have parse: "parse_alert toy_alerts ''x'' ''application/json'' = Inl ''JSON alert parse failed: bad''" by code_simp
  have "process_row gregorian caracas toy_libs toy_alerts parts p s \<noteq> None"
    if "pw_content_type p = ''application/json''" "pw_body p = ''x''" for parts p s
    using that by (cases "pw_direction_default p")
      (simp_all add: process_row_def split_payload_def ct ingest_alert_def parse Let_def)
  then have np: "never_panics gregorian caracas toy_libs toy_alerts (\<lambda>p. row_env_at 1003) first_pushed"
    by (auto simp: never_panics_def i new_inbox_row_def bad_push_def push_of_def)
  have w: "\<forall>W \<in> set (replicate 10 (\<lambda>p. row_env_at 1003)).
      never_panics gregorian caracas toy_libs toy_alerts W first_pushed \<and> (\<forall>p. re_write (W p) = Ran)"
    using np by (auto simp: row_env_at_def)
  from inbox_drains [OF ok(1) w] ok(2) show ?thesis by auto
qed

end
