(* ===== verification/Departments.thy ===== *)
theory Departments
  imports Devices Daily_Records
begin

text \<open>
  Departments (departments/service.rs, handlers.rs): creation with the lunch rule, the list, and
  updates under optimistic locking.  The table has more columns than the service writes (migration
  012); they keep their defaults.  The last section composes the service with the recomputation.
\<close>

section \<open>Data\<close>

record department_response =
  dq_id :: string
  dq_name :: string
  dq_base_salary_cents :: i64
  dq_shift_start_time :: string
  dq_shift_end_time :: string
  dq_lunch_mode :: string
  dq_lunch_duration_min :: "i64 option"
  dq_status :: string
  dq_deleted_at :: "string option"
  dq_version :: i64
  dq_created_at :: string
  dq_updated_at :: string

record create_department_request =
  cq_name :: string
  cq_base_salary_cents :: i64
  cq_shift_start_time :: string
  cq_shift_end_time :: string
  cq_lunch_mode :: string
  cq_lunch_duration_min :: "i64 option"

record update_department_request =
  uq_name :: "string option"
  uq_base_salary_cents :: "i64 option"
  uq_shift_start_time :: "string option"
  uq_shift_end_time :: "string option"
  uq_lunch_mode :: "string option"
  uq_lunch_duration_min :: "i64 option"
  uq_version :: i64

text \<open>The queue, the clock and the fresh identifier of one request.\<close>

record staff_env =
  sn_write :: write_outcome
  sn_now :: i64
  sn_uuid :: string

section \<open>Service\<close>

definition validate_lunch :: "string \<Rightarrow> i64 option \<Rightarrow> unit result" where
  "validate_lunch mode minutes =
     (if mode \<notin> {''fixed'', ''punch''}
      then Inl (Validation ''INVALID_LUNCH_MODE'' (''lunch_mode must be '' @ quoted ''fixed'' @ '' or '' @
        quoted ''punch'' @ '', got '' @ quoted mode))
      else if mode = ''fixed'' then
        (case minutes of
           None \<Rightarrow> Inl (Validation ''LUNCH_DURATION_REQUIRED''
             (''lunch_duration_min is required and must be > 0 when lunch_mode is '' @ quoted ''fixed''))
         | Some d \<Rightarrow>
             if d = 0 then Inl (Validation ''LUNCH_DURATION_REQUIRED''
               (''lunch_duration_min is required and must be > 0 when lunch_mode is '' @ quoted ''fixed''))
             else if d \<le> 0 then Inl (Validation ''LUNCH_DURATION_REQUIRED''
               (''lunch_duration_min must be > 0 when lunch_mode is '' @ quoted ''fixed''))
             else Inr ())
      else Inr ())"

definition row_to_department :: "auth_libs \<Rightarrow> department_row \<Rightarrow> department_response" where
  "row_to_department L r = \<lparr>dq_id = de_id r, dq_name = de_name r, dq_base_salary_cents = de_base_salary_cents r,
     dq_shift_start_time = de_shift_start_time r, dq_shift_end_time = de_shift_end_time r,
     dq_lunch_mode = de_lunch_mode r, dq_lunch_duration_min = de_lunch_duration_min r, dq_status = de_status r,
     dq_deleted_at = map_option (epoch_to_iso L) (de_deleted_at r), dq_version = de_version r,
     dq_created_at = epoch_to_iso L (de_created_at r), dq_updated_at = epoch_to_iso L (de_updated_at r)\<rparr>"

text \<open>The constraints of the table (migrations 001 and 012).\<close>

definition department_checks :: "department_row \<Rightarrow> bool" where
  "department_checks r \<longleftrightarrow> de_lunch_mode r \<in> {''fixed'', ''punch''} \<and> de_status r \<in> {''active'', ''inactive''} \<and>
     de_shift_type r \<in> {''day'', ''night'', ''mixed''}"

definition department_violation :: "department_row list \<Rightarrow> string option" where
  "department_violation t =
     (if \<not> list_all department_checks t then Some ''CHECK constraint failed: departments''
      else if \<not> distinct (map de_id t) then Some ''UNIQUE constraint failed: departments.id''
      else if \<not> distinct (map de_name t) then Some ''UNIQUE constraint failed: departments.name''
      else None)"

definition new_department :: "staff_env \<Rightarrow> create_department_request \<Rightarrow> department_row" where
  "new_department E req = \<lparr>de_id = sn_uuid E, de_name = cq_name req, de_base_salary_cents = cq_base_salary_cents req,
     de_shift_start_time = cq_shift_start_time req, de_shift_end_time = cq_shift_end_time req,
     de_lunch_mode = cq_lunch_mode req, de_lunch_duration_min = cq_lunch_duration_min req, de_status = ''active'',
     de_deleted_at = None, de_version = 1, de_shift_type = ''day'', de_is_overnight_shift = False,
     de_ordinary_daily_minutes = 480, de_created_at = sn_now E, de_updated_at = sn_now E\<rparr>"

definition department_not_found :: "string \<Rightarrow> app_error" where
  "department_not_found i = NotFound ''DEPARTMENT_NOT_FOUND'' (''Department '' @ quoted i @ '' not found'')"

definition get_department :: "auth_libs \<Rightarrow> department_row list \<Rightarrow> string \<Rightarrow> department_response result" where
  "get_department L t i =
     (case find (\<lambda>r. de_id r = i) t of
        None \<Rightarrow> Inl (department_not_found i) | Some r \<Rightarrow> Inr (row_to_department L r))"

definition create_department_queued ::
  "auth_libs \<Rightarrow> staff_env \<Rightarrow> create_department_request \<Rightarrow> department_row list
    \<Rightarrow> department_row list \<times> department_response result" where
  "create_department_queued L E req t =
     (case validate_lunch (cq_lunch_mode req) (cq_lunch_duration_min req) of
        Inl e \<Rightarrow> (t, Inl e)
      | Inr u \<Rightarrow>
          (case checked_insert (sn_write E) department_violation (new_department E req) t of
             (t', Inl e) \<Rightarrow>
               (t', Inl (if unique_violation ''name'' e
                  then Conflict ''DEPARTMENT_NAME_EXISTS'' (''Department name '' @ quoted (cq_name req) @ '' is already in use'')
                  else from_db_write e))
           | (t', Inr n) \<Rightarrow> (t', get_department L t' (sn_uuid E))))"

definition list_departments ::
  "auth_libs \<Rightarrow> department_row list \<Rightarrow> i64 option \<Rightarrow> i64 option \<Rightarrow> string option
    \<Rightarrow> department_response paginated_response" where
  "list_departments L t limit0 offset0 status0 =
     (let limit = page_limit limit0; offset = page_offset offset0;
          status = (case status0 of None \<Rightarrow> ''active'' | Some s \<Rightarrow> s);
          matching = filter (\<lambda>r. de_status r = status) t
      in \<lparr>pr_data = map (row_to_department L) (sql_page limit offset (sort_key de_name matching)),
          pr_total = int (length matching), pr_limit = limit, pr_offset = offset\<rparr>)"

definition department_sets_empty :: "update_department_request \<Rightarrow> bool" where
  "department_sets_empty req \<longleftrightarrow> uq_name req = None \<and> uq_base_salary_cents req = None \<and>
     uq_shift_start_time req = None \<and> uq_shift_end_time req = None \<and> uq_lunch_mode req = None \<and>
     uq_lunch_duration_min req = None"

definition department_sets :: "i64 \<Rightarrow> update_department_request \<Rightarrow> department_row \<Rightarrow> department_row" where
  "department_sets now req r =
     r\<lparr>de_name := or_keep (uq_name req) (de_name r),
       de_base_salary_cents := or_keep (uq_base_salary_cents req) (de_base_salary_cents r),
       de_shift_start_time := or_keep (uq_shift_start_time req) (de_shift_start_time r),
       de_shift_end_time := or_keep (uq_shift_end_time req) (de_shift_end_time r),
       de_lunch_mode := or_keep (uq_lunch_mode req) (de_lunch_mode r),
       de_lunch_duration_min := (case uq_lunch_duration_min req of None \<Rightarrow> de_lunch_duration_min r | Some d \<Rightarrow> Some d),
       de_updated_at := now, de_version := de_version r + 1\<rparr>"

definition department_stale :: "department_row list \<Rightarrow> string \<Rightarrow> app_error" where
  "department_stale t i =
     (if \<exists>r \<in> set t. de_id r = i
      then Conflict ''VERSION_CONFLICT''
        ''Department was modified by another request. Fetch the latest version and retry.''
      else department_not_found i)"

definition update_department_queued ::
  "auth_libs \<Rightarrow> staff_env \<Rightarrow> string \<Rightarrow> update_department_request \<Rightarrow> department_row list
    \<Rightarrow> department_row list \<times> department_response result" where
  "update_department_queued L E i req t =
     (case (case uq_lunch_mode req of None \<Rightarrow> Inr () | Some mode \<Rightarrow> validate_lunch mode (uq_lunch_duration_min req)) of
        Inl e \<Rightarrow> (t, Inl e)
      | Inr u \<Rightarrow>
          if department_sets_empty req then (t, get_department L t i)
          else (case checked_update (sn_write E) department_violation (\<lambda>r. de_id r = i \<and> de_version r = uq_version req)
                  (department_sets (sn_now E) req) t of
             (t', Inl e) \<Rightarrow> (t', Inl (from_db_write e))
           | (t', Inr n) \<Rightarrow> if n = 0 then (t', Inl (department_stale t' i)) else (t', get_department L t' i)))"

section \<open>Handlers\<close>

definition create_department_invalid :: "create_department_request \<Rightarrow> string list" where
  "create_department_invalid req =
     (if length_between 1 200 (cq_name req) then [] else [''Name is required (1-200 chars)''])"

definition update_department_invalid :: "update_department_request \<Rightarrow> string list" where
  "update_department_invalid req = (if none_or (length_between 1 200) (uq_name req) then [] else [''length''])"

definition create_department ::
  "auth_libs \<Rightarrow> staff_env \<Rightarrow> create_department_request \<Rightarrow> department_row list
    \<Rightarrow> department_row list \<times> department_response result" where
  "create_department L E body t =
     (if create_department_invalid body \<noteq> []
      then (t, Inl (Validation ''VALIDATION_ERROR'' (validator_text L (create_department_invalid body))))
      else create_department_queued L E body t)"

definition update_department ::
  "auth_libs \<Rightarrow> staff_env \<Rightarrow> string \<Rightarrow> update_department_request \<Rightarrow> department_row list
    \<Rightarrow> department_row list \<times> department_response result" where
  "update_department L E i body t =
     (if update_department_invalid body \<noteq> []
      then (t, Inl (Validation ''VALIDATION_ERROR'' (validator_text L (update_department_invalid body))))
      else update_department_queued L E i body t)"


section \<open>The table under any sequence of operations\<close>

datatype department_op =
    Create_Department staff_env create_department_request
  | Update_Department staff_env string update_department_request

fun department_run ::
  "auth_libs \<Rightarrow> department_op \<Rightarrow> department_row list \<Rightarrow> department_row list \<times> department_response result" where
  "department_run L (Create_Department E req) t = create_department L E req t"
| "department_run L (Update_Department E i req) t = update_department L E i req t"

definition department_target :: "department_op \<Rightarrow> (string \<times> i64) option" where
  "department_target op = (case op of
     Update_Department E i req \<Rightarrow> if department_sets_empty req then None else Some (i, uq_version req)
   | _ \<Rightarrow> None)"

lemma department_violation_None:
  "department_violation t = None \<longleftrightarrow>
     list_all department_checks t \<and> distinct (map de_id t) \<and> distinct (map de_name t)"
  by (simp add: department_violation_def)

lemma department_sets_simps [simp]:
  "de_id (department_sets now req r) = de_id r" "de_version (department_sets now req r) = de_version r + 1"
  "de_shift_start_time (department_sets now req r) = or_keep (uq_shift_start_time req) (de_shift_start_time r)"
  "de_shift_end_time (department_sets now req r) = or_keep (uq_shift_end_time req) (de_shift_end_time r)"
  "de_is_overnight_shift (department_sets now req r) = de_is_overnight_shift r"
  "de_ordinary_daily_minutes (department_sets now req r) = de_ordinary_daily_minutes r"
  by (simp_all add: department_sets_def)

lemma get_department_in: "i \<in> de_id ` set t \<Longrightarrow> \<exists>d. get_department L t i = Inr d"
  by (auto simp: get_department_def find_None_iff split: option.splits)

lemma create_department_cases:
  assumes "create_department L E req t = (t', x)"
  obtains (same) e where "t' = t" "x = Inl e"
  | (new) "t' = t @ [new_department E req]" "x = get_department L t' (sn_uuid E)" "department_violation t' = None"
      "length_between 1 200 (cq_name req)" "validate_lunch (cq_lunch_mode req) (cq_lunch_duration_min req) = Inr ()"
proof (cases "create_department_invalid req = [] \<and> validate_lunch (cq_lunch_mode req) (cq_lunch_duration_min req) = Inr ()")
  case True
  then have n: "length_between 1 200 (cq_name req)" by (auto simp: create_department_invalid_def split: if_splits)
  obtain t1 y where w: "checked_insert (sn_write E) department_violation (new_department E req) t = (t1, y)" by fastforce
  from w show thesis
    using assms True n w same new
    by (cases rule: checked_insert_cases) (auto simp: create_department_def create_department_queued_def)
next
  case False
  then obtain e where "t' = t" "x = Inl e"
    using assms by (cases "validate_lunch (cq_lunch_mode req) (cq_lunch_duration_min req)")
      (auto simp: create_department_def create_department_queued_def split: if_splits)
  then show thesis by (rule same)
qed

lemma update_department_cases:
  assumes "update_department L E i req t = (t', x)"
  obtains (same) "t' = t" "\<And>a. x = Inr a \<Longrightarrow> department_sets_empty req"
  | (set) "t' = update_where (\<lambda>r. de_id r = i \<and> de_version r = uq_version req) (department_sets (sn_now E) req) t"
      "\<not> department_sets_empty req" "department_violation t' = None" "x = get_department L t' i" "\<exists>d. x = Inr d"
      "\<exists>r \<in> set t. de_id r = i \<and> de_version r = uq_version req"
proof -
  let ?lunch = "case uq_lunch_mode req of None \<Rightarrow> Inr () | Some mode \<Rightarrow> validate_lunch mode (uq_lunch_duration_min req)"
  consider (stop) e where "t' = t" "x = Inl e" | (empty) "t' = t" "department_sets_empty req"
    | (go) "update_department_invalid req = []" "?lunch = Inr ()" "\<not> department_sets_empty req"
    using assms by (cases ?lunch) (auto simp: update_department_def update_department_queued_def split: if_splits)
  then show thesis
  proof cases
    case stop
    then show thesis using same by simp
  next
    case empty
    then show thesis using same by simp
  next
    case go
    obtain t1 y where w: "checked_update (sn_write E) department_violation
        (\<lambda>r. de_id r = i \<and> de_version r = uq_version req) (department_sets (sn_now E) req) t = (t1, y)" by fastforce
    have u: "(t', x) = (case (t1, y) of (t', Inl e) \<Rightarrow> (t', Inl (from_db_write e))
         | (t', Inr n) \<Rightarrow> if n = 0 then (t', Inl (department_stale t' i)) else (t', get_department L t' i))"
      using assms go w by (simp add: update_department_def update_department_queued_def)
    from w show thesis
    proof (cases rule: checked_update_cases)
      case ran
      show thesis
      proof (cases "rows_affected (\<lambda>r. de_id r = i \<and> de_version r = uq_version req) t = 0")
        case True
        then have "t1 = t" using ran(1) by (simp add: rows_affected_0 update_where_none)
        then show thesis using u ran(2) True by (intro same) auto
      next
        case hit: False
        then have r: "\<exists>r \<in> set t. de_id r = i \<and> de_version r = uq_version req" by (simp add: rows_affected_0)
        have "map de_id t1 = map de_id t" unfolding ran(1) by (rule map_update_where) simp
        then have "i \<in> de_id ` set t1" using r by (metis (mono_tags, lifting) image_eqI set_map)
        then have "\<exists>d. get_department L t1 i = Inr d" by (rule get_department_in)
        then show thesis using u ran hit go r by (intro set) auto
      qed
    qed (use u same in auto)
  qed
qed

lemma department_run_rows:
  "versioned_step de_id de_version (department_target op) t (fst (department_run L op t))"
proof (cases op)
  case (Create_Department E req)
  obtain t' x where c: "create_department L E req t = (t', x)" by (cases "create_department L E req t")
  then have "versioned_step de_id de_version None t t'"
    by (cases rule: create_department_cases)
      (auto simp: department_violation_None intro!: versioned_step_refl versioned_step_snoc)
  then show ?thesis using Create_Department c by (simp add: department_target_def)
next
  case (Update_Department E i req)
  obtain t' x where u: "update_department L E i req t = (t', x)" by (cases "update_department L E i req t")
  then have "versioned_step de_id de_version (department_target op) t t'"
    by (cases rule: update_department_cases)
      (auto simp: Update_Department department_target_def versioned_row_def
        intro!: versioned_step_refl versioned_step_update)
  then show ?thesis using Update_Department u by simp
qed

lemma department_run_hit:
  assumes "distinct (map de_id t)" "department_target op = Some (i, v)" "department_run L op t = (t', Inr a)"
  shows "\<exists>r \<in> set t. de_id r = i \<and> de_version r = v \<and> r \<notin> set t'"
proof -
  obtain E req where op: "op = Update_Department E i req" "\<not> department_sets_empty req" "v = uq_version req"
    using assms(2) by (auto simp: department_target_def split: department_op.splits if_splits)
  have "update_department L E i req t = (t', Inr a)" using assms(3) op(1) by simp
  then show ?thesis
  proof (cases rule: update_department_cases)
    case set
    then obtain r where r: "r \<in> set t" "de_id r = i" "de_version r = uq_version req" by blast
    moreover have "r \<notin> set t'"
      unfolding set(1) by (rule updated_row_gone [where version = de_version and key = de_id]) (use r assms(1) in auto)
    ultimately show ?thesis using op(3) by blast
  qed (use op(2) in auto)
qed

interpretation departments: versioned de_id de_version department_target "department_run L" for L
  by unfold_locales (rule department_run_rows, rule department_run_hit)

text \<open>No operation of the service writes the columns of migration 012: every department the service
  made is a day department of 480 ordinary minutes.\<close>

definition department_ok :: "department_row \<Rightarrow> bool" where
  "department_ok r \<longleftrightarrow> department_checks r \<and> de_status r = ''active'' \<and> de_deleted_at r = None \<and>
     \<not> de_is_overnight_shift r \<and> de_shift_type r = ''day'' \<and> de_ordinary_daily_minutes r = 480"

definition departments_ok :: "department_row list \<Rightarrow> bool" where
  "departments_ok t \<longleftrightarrow> department_violation t = None \<and> list_all department_ok t"

lemma department_ok_sets: "department_ok r \<Longrightarrow> department_checks (department_sets now req r) \<Longrightarrow> department_ok (department_sets now req r)"
  by (simp add: department_ok_def department_sets_def)

lemma departments_ok_update:
  assumes "departments_ok t" "department_violation (update_where P (department_sets now req) t) = None"
  shows "departments_ok (update_where P (department_sets now req) t)"
proof -
  have "department_ok q" if "q \<in> set (update_where P (department_sets now req) t)" for q
  proof -
    have "department_checks q" using assms(2) that by (simp add: department_violation_None list_all_iff)
    then show ?thesis
      using that assms(1) department_ok_sets by (auto simp: departments_ok_def list_all_iff in_set_update_where)
  qed
  then show ?thesis using assms(2) by (simp add: departments_ok_def list_all_iff)
qed

lemma department_run_ok: "departments_ok t \<Longrightarrow> departments_ok (fst (department_run L op t))"
proof (cases op)
  case (Create_Department E req)
  assume ok: "departments_ok t"
  obtain t' x where c: "create_department L E req t = (t', x)" by (cases "create_department L E req t")
  then have "departments_ok t'"
    by (cases rule: create_department_cases)
      (use ok in \<open>auto simp: departments_ok_def department_ok_def department_violation_None new_department_def\<close>)
  then show ?thesis using Create_Department c by simp
next
  case (Update_Department E i req)
  assume ok: "departments_ok t"
  obtain t' x where u: "update_department L E i req t = (t', x)" by (cases "update_department L E i req t")
  then have "departments_ok t'"
    by (cases rule: update_department_cases)
      (use ok departments_ok_update [OF ok] in auto)
  then show ?thesis using Update_Department u by simp
qed

lemma departments_ok_run: "departments_ok (run_all (department_run L) ops [])"
proof (rule run_all_inv [of departments_ok])
  show "departments_ok []" by (simp add: departments_ok_def department_violation_def)
qed (rule department_run_ok)


section \<open>What the calculation makes of them\<close>

lemma recompute_commit_keeps:
  assumes "recompute_commit wo uuid now p s = (s', x)"
  shows "t_employees s' = t_employees s \<and> t_departments s' = t_departments s \<and> t_global_rules s' = t_global_rules s"
proof (cases wo)
  case Ran
  show ?thesis
    by (cases "recompute_tx uuid now p s")
      (use assms Ran in \<open>auto simp: recompute_commit_def recompute_tx_def Let_def split: sum.splits option.splits if_splits\<close>)
qed (use assms in \<open>simp add: recompute_commit_def\<close>)

lemma recompute_for_day_keeps:
  assumes "recompute_for_day c tz wo uuid now s e d = Some (s', x)"
  shows "t_employees s' = t_employees s \<and> t_departments s' = t_departments s \<and> t_global_rules s' = t_global_rules s"
proof -
  obtain r where r: "recompute_load c tz s e d = Some r" using assms by (auto simp: recompute_for_day_def)
  show ?thesis
  proof (cases r)
    case (Inr p)
    then show ?thesis
      using assms r recompute_commit_keeps by (cases p) (auto simp: recompute_for_day_def)
  qed (use assms r in \<open>simp add: recompute_for_day_def\<close>)
qed

text \<open>The reads of a day fail before they look at any event when the shift has no window.\<close>

definition windowless :: "chrono \<Rightarrow> tzinfo \<Rightarrow> date \<Rightarrow> db \<Rightarrow> string \<Rightarrow> bool" where
  "windowless c tz d s e \<longleftrightarrow> (\<exists>em dp r. find_employee s (\<lambda>x. em_id x = e \<and> em_status x = ''active'') = Some (em, dp) \<and>
     t_global_rules s = Some r \<and> shift_window c d (department_config_of dp) (global_rules_of r) tz = None)"

lemma windowless_load: "windowless c tz d s e \<Longrightarrow> recompute_load c tz s e d = None"
  by (auto simp: windowless_def recompute_load_def Let_def)

lemma windowless_keeps:
  assumes "recompute_for_day c tz wo uuid now s e d = Some (s', x)"
  shows "windowless c tz d s' i \<longleftrightarrow> windowless c tz d s i"
proof -
  have "t_employees s' = t_employees s" "t_departments s' = t_departments s" "t_global_rules s' = t_global_rules s"
    using recompute_for_day_keeps [OF assms] by auto
  note same = this
  show ?thesis unfolding windowless_def find_employee_def same ..
qed

lemma reconcile_loop_windowless:
  "windowless c tz d s i \<Longrightarrow> i \<in> set ids \<Longrightarrow> reconcile_loop c tz env d n ids s k = None"
proof (induction ids arbitrary: n s k)
  case (Cons e ids)
  obtain wo uuid now where n: "env n = (wo, uuid, now)" by (rule prod_cases3)
  show ?case
  proof (cases "recompute_for_day c tz wo uuid now s e d")
    case (Some p)
    obtain s' x where p: "p = (s', x)" by (rule prod.exhaust)
    note run = Some [unfolded p]
    have "e \<noteq> i" using run windowless_load [OF Cons.prems(1)] by (auto simp: recompute_for_day_def)
    moreover have "windowless c tz d s' i" using windowless_keeps [OF run] Cons.prems(1) by simp
    ultimately have "reconcile_loop c tz env d m ids s' j = None" for m j
      using Cons.IH Cons.prems(2) by simp
    then show ?thesis using n run by (cases x) simp_all
  qed (simp add: n)
qed simp

lemma malformed_window:
  assumes "parse_hm c (shift_start_time dept) = None \<or> parse_hm c (shift_end_time dept) = None"
  shows "shift_window c d dept rules tz = None"
  using assms by (cases "parse_hm c (shift_start_time dept)")
    (auto simp: shift_window_def shift_window_overnight_aware_def)

lemma find_employee_distinct:
  assumes "distinct (map em_id (t_employees s))" "e \<in> set (t_employees s)" "P e" "\<And>x. P x \<Longrightarrow> em_id x = em_id e"
    and "distinct (map de_id (t_departments s))" "d \<in> set (t_departments s)" "de_id d = em_department_id e"
  shows "find_employee s P = Some (e, d)"
proof -
  define ps where "ps = [(a, b). a \<leftarrow> t_employees s, P a, b \<leftarrow> t_departments s, de_id b = em_department_id a]"
  have elem: "p \<in> set ps \<longleftrightarrow> fst p \<in> set (t_employees s) \<and> P (fst p) \<and> snd p \<in> set (t_departments s) \<and>
      de_id (snd p) = em_department_id (fst p)" for p
    by (cases p) (auto simp: ps_def)
  have "p = (e, d)" if "p \<in> set ps" for p
  proof -
    have "fst p = e" using same_key [OF assms(1) _ assms(2)] assms(4) that elem by blast
    moreover have "snd p = d" using same_key [OF assms(5) _ assms(6)] assms(7) that elem calculation by metis
    ultimately show ?thesis by (metis prod.collapse)
  qed
  moreover have d: "(e, d) \<in> set ps" using elem assms(2,3,6,7) by simp
  moreover have "ps \<noteq> []" using d by auto
  ultimately have "hd ps = (e, d)" "ps \<noteq> []" using hd_in_set by blast+
  then have "(case ps of [] \<Rightarrow> None | x # xs \<Rightarrow> Some x) = Some (e, d)" by (cases ps) auto
  then show ?thesis unfolding find_employee_def ps_def .
qed


lemma created_row:
  assumes "create_department L E req t = (t', Inr a)"
  shows "new_department E req \<in> set t'" "distinct (map de_id t')"
  using assms by (cases rule: create_department_cases; simp add: department_violation_None)+

text \<open>C40. One department with an unreadable shift stops the nightly pass for the whole company.  The
  service accepts any text as the shift of a department; once somebody active works in a
  department whose shift \<open>%H:%M\<close> does not read, the pass over the previous day panics, whatever
  the other employees, the queue and the clock do.\<close>

theorem malformed_shift_stops_the_night:
  assumes "create_department L E req t = (t', Inr a)"
    and "parse_hm c (cq_shift_start_time req) = None \<or> parse_hm c (cq_shift_end_time req) = None"
    and "t_departments s = t'" "t_global_rules s \<noteq> None" "distinct (map em_id (t_employees s))"
    and "e \<in> set (t_employees s)" "em_status e = ''active''" "em_department_id e = sn_uuid E"
  shows "reconcile_prior_day c tz env now s = None"
proof (cases "date_add c (local_date tz now) (- 1)")
  case (Some yesterday)
  let ?d = "new_department E req"
  obtain r where r: "t_global_rules s = Some r" using assms(4) by blast
  have "find_employee s (\<lambda>x. em_id x = em_id e \<and> em_status x = ''active'') = Some (e, ?d)"
    by (rule find_employee_distinct)
      (use assms created_row [OF assms(1)] in \<open>auto simp: new_department_def\<close>)
  moreover have "shift_window c yesterday (department_config_of ?d) (global_rules_of r) tz = None"
    using assms(2) by (intro malformed_window) (simp add: department_config_of_def new_department_def)
  ultimately have "windowless c tz yesterday s (em_id e)" using r by (simp add: windowless_def)
  then show ?thesis using assms(6,7) Some by (simp add: reconcile_prior_day_def reconcile_loop_windowless)
qed (simp add: reconcile_prior_day_def)

text \<open>A night shift entered through the service is empty.  The service never sets the
  flag that puts the end of a shift on the next day, so a department whose end time lies before its
  start, by more than the tolerances, has a window that no event can fall into: every shift of its
  staff is computed as one without punches.\<close>

theorem night_shifts_are_empty:
  assumes "d \<in> set (run_all (department_run L) ops [])" "rules_ok rules"
    and "parse_hm c (de_shift_start_time d) = Some start" "parse_hm c (de_shift_end_time d) = Some finish"
    and "finish + (late_arrival_tolerance_min rules + early_departure_tolerance_min rules + 2 * bonus_minutes rules) * 60 < start"
    and "shift_window c day (department_config_of d) rules (fixed_zone off) = Some (ws, we, ns, ne)"
    and "epoch_ok ns" "epoch_ok ne"
  shows "we < ws \<and> window_events events employee_id ws we = []"
proof -
  have "\<not> de_is_overnight_shift d"
    using departments_ok_run [of L ops] assms(1) by (auto simp: departments_ok_def department_ok_def list_all_iff)
  then have date: "shift_end_date c day (department_config_of d) = Some day"
    by (simp add: shift_end_date_def department_config_of_def)
  have hm: "parse_hm c (shift_start_time (department_config_of d)) = Some start"
    "parse_hm c (shift_end_time (department_config_of d)) = Some finish"
    using assms(3,4) by (simp_all add: department_config_of_def)
  obtain amb where w: "shift_window_overnight_aware c day (department_config_of d) rules (fixed_zone off) =
      Some (ws, we, ns, ne, amb)"
    using assms(6) by (auto simp: shift_window_def)
  have "ns = day * 86400 + start - off" "ne = day * 86400 + finish - off"
    using w unfolding shift_window_fixed_zone [OF hm date] by (simp_all add: Let_def)
  moreover note shift_window_shape [OF w assms(2,7,8)]
  ultimately have "we < ws" using assms(5) by (simp add: algebra_simps)
  then show ?thesis by (auto simp: window_events_def own_event_def filter_empty_conv)
qed

definition any_staff_env :: staff_env where
  "any_staff_env = \<lparr>sn_write = Ran, sn_now = 1700000000, sn_uuid = ''d1''\<rparr>"

definition shift_request :: "string \<Rightarrow> string \<Rightarrow> create_department_request" where
  "shift_request start finish = \<lparr>cq_name = ''Night watch'', cq_base_salary_cents = 0, cq_shift_start_time = start,
     cq_shift_end_time = finish, cq_lunch_mode = ''fixed'', cq_lunch_duration_min = Some 60\<rparr>"


definition created :: "create_department_request \<Rightarrow> department_row list" where
  "created req = [new_department any_staff_env req]"

lemma department_sample:
  "create_department toy_libs any_staff_env (shift_request start finish) [] =
     (created (shift_request start finish), Inr (row_to_department toy_libs (new_department any_staff_env (shift_request start finish))))"
  by (simp add: create_department_def create_department_invalid_def length_between_def create_department_queued_def
      validate_lunch_def checked_insert_def department_violation_def department_checks_def get_department_def
      created_def any_staff_env_def new_department_def shift_request_def)

theorem malformed_shift_stops_the_night_witness:
  "reconcile_prior_day gregorian caracas (\<lambda>n. (Ran, day_uuid, 0)) 1700000000
     (day_db\<lparr>t_departments := created (shift_request ''8am'' ''17:00'')\<rparr>) = None"
  by (rule malformed_shift_stops_the_night [OF department_sample, of gregorian "''8am''" "''17:00''" _ "hd (t_employees day_db)"])
    (code_simp, simp_all add: day_db_def any_staff_env_def)

theorem night_shifts_are_empty_witness:
  "let d = hd (created (shift_request ''22:00'' ''06:00''));
       w = the (shift_window gregorian 20563 (department_config_of d) (global_rules_of (10, 10, 0)) (fixed_zone (- 14400)))
   in fst (snd w) < fst w \<and> window_events (t_events day_db) ''e1'' (fst w) (fst (snd w)) = []"
proof -
  let ?req = "shift_request ''22:00'' ''06:00''"
  let ?d = "hd (created ?req)"
  have "?d \<in> set (run_all (department_run toy_libs) [Create_Department any_staff_env ?req] [])"
    using department_sample [of "''22:00''" "''06:00''"] by (simp add: created_def)
  moreover have "parse_hm gregorian (de_shift_start_time ?d) = Some 79200"
    "parse_hm gregorian (de_shift_end_time ?d) = Some 21600" by code_simp+
  moreover have "shift_window gregorian 20563 (department_config_of ?d) (global_rules_of (10, 10, 0)) (fixed_zone (- 14400)) =
      Some (1776736200, 1776679800, 1776736800, 1776679200)" by code_simp
  moreover have "rules_ok (global_rules_of (10, 10, 0))" by code_simp
  ultimately show ?thesis
    using night_shifts_are_empty [of ?d toy_libs "[Create_Department any_staff_env ?req]" "global_rules_of (10, 10, 0)" gregorian
        79200 21600 20563 "- 14400" 1776736200 1776679800 1776736800 1776679200 "t_events day_db" "''e1''"]
    by (simp add: Let_def global_rules_of_def epoch_ok_def)
qed


lemma find_in_update_where:
  assumes "distinct (map k t)" "d \<in> set t" "P d" "\<And>r. k (f r) = k r"
  shows "find (\<lambda>r. k r = k d) (update_where P f t) = Some (f d)"
proof -
  have "find (\<lambda>r. k r = k d) t = Some d" using find_distinct2 [OF assms(1,2), of "\<lambda>_. True"] by simp
  then show ?thesis using find_update_key [where k = k and f = f, OF assms(4), of "k d" P t] assms(3) by simp
qed

definition lunch_minutes_request :: "i64 \<Rightarrow> i64 \<Rightarrow> update_department_request" where
  "lunch_minutes_request version minutes = \<lparr>uq_name = None, uq_base_salary_cents = None, uq_shift_start_time = None,
     uq_shift_end_time = None, uq_lunch_mode = None, uq_lunch_duration_min = Some minutes, uq_version = version\<rparr>"

lemma lunch_minutes_sets:
  "department_sets now (lunch_minutes_request v m) r =
     r\<lparr>de_lunch_duration_min := Some m, de_updated_at := now, de_version := de_version r + 1\<rparr>"
  by (cases r) (simp add: department_sets_def lunch_minutes_request_def)

text \<open>The check of the lunch minutes is left out when only they are changed.  A department with
  a fixed lunch must be created with a positive lunch, but a PATCH that carries the minutes and not
  the mode stores any number; a negative one is then deducted from every day, and adds that many
  minutes of work to it.\<close>

theorem negative_lunch_adds_minutes:
  assumes "departments_ok t" "d \<in> set t" "de_lunch_mode d = ''fixed''" "minutes < 0" "0 \<le> raw" "sn_write E = Ran"
  shows "\<exists>t' a d'. update_department L E (de_id d) (lunch_minutes_request (de_version d) minutes) t = (t', Inr a) \<and>
    find (\<lambda>r. de_id r = de_id d) t' = Some d' \<and>
    compute_lunch_deduction raw had_break (department_config_of d') = (minutes, None) \<and>
    (\<forall>duration. validate_lunch (de_lunch_mode d') (Some duration) = Inr () \<longleftrightarrow> 0 < duration)"
proof -
  let ?req = "lunch_minutes_request (de_version d) minutes"
  let ?P = "\<lambda>r. de_id r = de_id d \<and> de_version r = uq_version ?req"
  let ?t = "update_where ?P (department_sets (sn_now E) ?req) t"
  let ?d = "department_sets (sn_now E) ?req d"
  have ok: "distinct (map de_id t)" "distinct (map de_name t)" "list_all department_checks t"
    using assms(1) by (simp_all add: departments_ok_def department_violation_None)
  have P: "?P d" by (simp add: lunch_minutes_request_def)
  have found: "find (\<lambda>r. de_id r = de_id d) ?t = Some ?d"
    by (rule find_in_update_where [where k = de_id and P = ?P]) (use ok(1) assms(2) P in auto)
  have "map de_name ?t = map de_name t" "map de_id ?t = map de_id t"
    by (rule map_update_where, simp add: lunch_minutes_sets)+
  moreover have "department_checks (department_sets (sn_now E) ?req r) \<longleftrightarrow> department_checks r" for r
    by (simp add: lunch_minutes_sets department_checks_def)
  then have "list_all department_checks ?t"
    using ok(3) by (auto simp: list_all_iff in_set_update_where)
  ultimately have "department_violation ?t = None" using ok by (simp add: department_violation_None)
  moreover have "rows_affected ?P t \<noteq> 0" using assms(2) P by (auto simp: rows_affected_0)
  moreover have "update_department_invalid ?req = []" "\<not> department_sets_empty ?req" "uq_lunch_mode ?req = None"
    by (simp_all add: update_department_invalid_def department_sets_empty_def lunch_minutes_request_def)
  ultimately have "update_department L E (de_id d) ?req t = (?t, Inr (row_to_department L ?d))"
    using assms(6) found
    by (simp add: update_department_def update_department_queued_def checked_update_def get_department_def)
  moreover have "compute_lunch_deduction raw had_break (department_config_of ?d) = (minutes, None)"
    "\<forall>duration. validate_lunch (de_lunch_mode ?d) (Some duration) = Inr () \<longleftrightarrow> 0 < duration"
    using assms(3-5) by (auto simp: lunch_minutes_sets compute_lunch_deduction_def department_config_of_def validate_lunch_def)
  ultimately show ?thesis using found by blast
qed

theorem negative_lunch_adds_minutes_witness:
  "\<exists>t' a d'. update_department toy_libs any_staff_env ''d1'' (lunch_minutes_request 1 (- 60))
       (created (shift_request ''08:00'' ''17:00'')) = (t', Inr a) \<and>
     find (\<lambda>r. de_id r = ''d1'') t' = Some d' \<and>
     compute_lunch_deduction 480 False (department_config_of d') = (- 60, None)"
proof -
  let ?t = "created (shift_request ''08:00'' ''17:00'')"
  have "departments_ok ?t" by code_simp
  moreover have "hd ?t \<in> set ?t" by (simp add: created_def)
  moreover have "de_lunch_mode (hd ?t) = ''fixed''" "de_id (hd ?t) = ''d1''" "de_version (hd ?t) = 1" by code_simp+
  moreover have "sn_write any_staff_env = Ran" by (simp add: any_staff_env_def)
  ultimately show ?thesis
    using negative_lunch_adds_minutes [of ?t "hd ?t" "- 60" 480 any_staff_env toy_libs False] by auto
qed

end
