(* ===== verification/Enrollments.thy ===== *)
theory Enrollments
  imports Complex_Main Devices Storage Money "HOL-Library.Option_ord" "HOL-Library.Product_Lexorder"
begin

text \<open>
  Enrolling a face (enrollments/service.rs, models.rs, image\_pipeline.rs, migrations 016 and
  019): the photo of an employee is stored, a push is recorded for every active reader, and each
  external call is guarded by a durable checkpoint.  This theory has the tables and every
  operation on them as a function; the tasks that call the readers are in Enrollment\_Push and
  Face\_Workers.  The time, the fresh identifiers and what the queue does with a command are the
  fields of \<open>job_env\<close>; the image codec, JSON and the construction of a reader's client are
  arguments.
\<close>

section \<open>Tables\<close>

record face_employee = employee_row +
  em_current_face_enrollment_id :: "string option"

record face_enrollment_row =
  fe_id :: string
  fe_employee_id :: string
  fe_captured_via :: string
  fe_source_device_id :: "string option"
  fe_photo_path :: string
  fe_face_quality_score :: "string option"
  fe_created_by :: string
  fe_created_at :: i64

record enrollment_row =
  er_id :: string
  er_employee_id :: string
  er_face_enrollment_id :: string
  er_status :: string
  er_started_by :: string
  er_started_at :: i64
  er_completed_at :: "i64 option"
  er_version :: i64

record push_row =
  pu_id :: string
  pu_enrollment_id :: string
  pu_device_id :: string
  pu_status :: string
  pu_error_message :: "string option"
  pu_started_at :: "i64 option"
  pu_completed_at :: "i64 option"

record checkpoint_row =
  ck_operation_key :: string
  ck_operation :: string
  ck_state :: string
  ck_updated_at :: i64

record mapping_row =
  mp_id :: string
  mp_device_id :: string
  mp_face_id :: string
  mp_employee_id :: string
  mp_state :: string
  mp_version :: i64
  mp_created_at :: i64
  mp_updated_at :: i64

record purge_audit_row =
  pa_id :: string
  pa_record_id :: string
  pa_purged_photo_paths :: "string list"
  pa_enrollment_rows_seen :: nat
  pa_created_at :: i64

record face_store =
  eb_employees :: "face_employee list"
  eb_users :: "string list"
  eb_devices :: "device_row list"
  eb_faces :: "face_enrollment_row list"
  eb_enrollments :: "enrollment_row list"
  eb_pushes :: "push_row list"
  eb_checkpoints :: "checkpoint_row list"
  eb_mappings :: "mapping_row list"
  eb_purge_audit :: "purge_audit_row list"

section \<open>Commands\<close>

record job_env =
  je_write :: write_outcome
  je_now :: i64
  je_uuid :: string

text \<open>A transaction of the queue: the job's error rolls everything back.\<close>

fun run_tx ::
  "write_outcome \<Rightarrow> ('d \<Rightarrow> any_error + 'a \<times> 'd) \<Rightarrow> 'd \<Rightarrow> 'd \<times> 'a result" where
  "run_tx Ran job d =
     (case job d of Inl e \<Rightarrow> (d, Inl (from_db_write (JobFailed e))) | Inr (a, d') \<Rightarrow> (d', Inr a))"
| "run_tx (NotRun e) job d = (d, Inl (from_db_write e))"

definition bail :: "string \<Rightarrow> any_error + 'a" where
  "bail m = Inl (OtherError m)"

definition changed :: "db_write_error + nat \<Rightarrow> unit result" where
  "changed x = (case x of Inl e \<Rightarrow> Inl (from_db_write e) | Inr n \<Rightarrow> Inr ())"

definition update_checkpoints ::
  "job_env \<Rightarrow> (checkpoint_row \<Rightarrow> bool) \<Rightarrow> (checkpoint_row \<Rightarrow> checkpoint_row) \<Rightarrow> face_store \<Rightarrow> face_store \<times> unit result" where
  "update_checkpoints W P f s =
     (case run_update (je_write W) P f (eb_checkpoints s) of (t, x) \<Rightarrow> (s\<lparr>eb_checkpoints := t\<rparr>, changed x))"

definition update_pushes ::
  "job_env \<Rightarrow> (push_row \<Rightarrow> bool) \<Rightarrow> (push_row \<Rightarrow> push_row) \<Rightarrow> face_store \<Rightarrow> face_store \<times> unit result" where
  "update_pushes W P f s =
     (case run_update (je_write W) P f (eb_pushes s) of (t, x) \<Rightarrow> (s\<lparr>eb_pushes := t\<rparr>, changed x))"

definition update_mappings ::
  "job_env \<Rightarrow> (mapping_row \<Rightarrow> bool) \<Rightarrow> (mapping_row \<Rightarrow> mapping_row) \<Rightarrow> face_store \<Rightarrow> face_store \<times> unit result" where
  "update_mappings W P f s =
     (case run_update (je_write W) P f (eb_mappings s) of (t, x) \<Rightarrow> (s\<lparr>eb_mappings := t\<rparr>, changed x))"

section \<open>Checkpoints\<close>

datatype device_operation_state = Prepared | Device_Applied | Manual

definition checkpoint_state :: "string \<Rightarrow> any_error + device_operation_state" where
  "checkpoint_state value =
     (if value = ''prepared'' then Inr Prepared
      else if value = ''device_applied'' then Inr Device_Applied
      else if value = ''manual'' then Inr Manual
      else bail ''invalid device operation checkpoint state'')"

fun operation_state_str :: "device_operation_state \<Rightarrow> string" where
  "operation_state_str Prepared = ''prepared''"
| "operation_state_str Device_Applied = ''device_applied''"
| "operation_state_str Manual = ''manual''"

definition enrollment_checkpoint_key :: "string \<Rightarrow> string" where
  "enrollment_checkpoint_key push_id = ''enrollment:'' @ push_id"

definition backfill_checkpoint_key :: "string \<Rightarrow> string \<Rightarrow> string" where
  "backfill_checkpoint_key device_id face_id = ''backfill:'' @ device_id @ '':'' @ face_id"

definition purge_checkpoint_key :: "string \<Rightarrow> string" where
  "purge_checkpoint_key mapping_id = ''purge:'' @ mapping_id"

record checkpoint_admission =
  ca_state :: device_operation_state
  ca_fresh :: bool

definition has_checkpoint :: "string \<Rightarrow> face_store \<Rightarrow> bool" where
  "has_checkpoint key s \<longleftrightarrow> key \<in> ck_operation_key ` set (eb_checkpoints s)"

definition prepared_row :: "job_env \<Rightarrow> string \<Rightarrow> string \<Rightarrow> checkpoint_row" where
  "prepared_row W key op =
     \<lparr>ck_operation_key = key, ck_operation = op, ck_state = ''prepared'', ck_updated_at = je_now W\<rparr>"

definition admit_device_operation ::
  "job_env \<Rightarrow> string \<Rightarrow> string \<Rightarrow> face_store \<Rightarrow> face_store \<times> checkpoint_admission result" where
  "admit_device_operation W key op s = run_tx (je_write W) (\<lambda>s.
     let inserted = (\<not> has_checkpoint key s);
         t = (if inserted then eb_checkpoints s @ [prepared_row W key op] else eb_checkpoints s)
     in case find (\<lambda>r. ck_operation_key r = key) t of
          None \<Rightarrow> bail ''checkpoint disappeared during admission''
        | Some r \<Rightarrow> (case checkpoint_state (ck_state r) of
              Inl e \<Rightarrow> Inl e
            | Inr st \<Rightarrow> Inr (\<lparr>ca_state = st, ca_fresh = inserted\<rparr>, s\<lparr>eb_checkpoints := t\<rparr>))) s"

definition mark_device_operation ::
  "job_env \<Rightarrow> string \<Rightarrow> device_operation_state \<Rightarrow> face_store \<Rightarrow> face_store \<times> unit result" where
  "mark_device_operation W key st = update_checkpoints W (\<lambda>r. ck_operation_key r = key)
     (\<lambda>r. r\<lparr>ck_state := operation_state_str st, ck_updated_at := je_now W\<rparr>)"

definition drop_checkpoint :: "string \<Rightarrow> face_store \<Rightarrow> face_store" where
  "drop_checkpoint key s = s\<lparr>eb_checkpoints := delete_where (\<lambda>r. ck_operation_key r = key) (eb_checkpoints s)\<rparr>"

definition clear_device_operation :: "job_env \<Rightarrow> string \<Rightarrow> face_store \<Rightarrow> face_store \<times> unit result" where
  "clear_device_operation W key s = run_tx (je_write W) (\<lambda>s. Inr ((), drop_checkpoint key s)) s"

section \<open>Mappings\<close>

text \<open>\<open>INSERT .. ON CONFLICT(device_id, face_id) DO UPDATE\<close>: a mapping keeps its id and changes
  its employee.\<close>

definition same_face :: "string \<Rightarrow> string \<Rightarrow> mapping_row \<Rightarrow> bool" where
  "same_face device_id face_id r \<longleftrightarrow> mp_device_id r = device_id \<and> mp_face_id r = face_id"

definition new_mapping :: "job_env \<Rightarrow> string \<Rightarrow> string \<Rightarrow> string \<Rightarrow> mapping_row" where
  "new_mapping W device_id face_id employee_id =
     \<lparr>mp_id = je_uuid W, mp_device_id = device_id, mp_face_id = face_id, mp_employee_id = employee_id,
      mp_state = ''active'', mp_version = 1, mp_created_at = je_now W, mp_updated_at = je_now W\<rparr>"

definition mapping_refused :: "string \<Rightarrow> string \<Rightarrow> face_store \<Rightarrow> bool" where
  "mapping_refused device_id employee_id s \<longleftrightarrow>
     device_id \<notin> dv_id ` set (eb_devices s) \<or> employee_id \<notin> em_id ` set (eb_employees s)"

definition upsert_mapping ::
  "job_env \<Rightarrow> string \<Rightarrow> string \<Rightarrow> string \<Rightarrow> face_store \<Rightarrow> any_error + face_store" where
  "upsert_mapping W device_id face_id employee_id s =
     (if mapping_refused device_id employee_id s then bail ''FOREIGN KEY constraint failed''
      else if \<exists>r \<in> set (eb_mappings s). same_face device_id face_id r
      then Inr (s\<lparr>eb_mappings := update_where (same_face device_id face_id)
             (\<lambda>r. r\<lparr>mp_employee_id := employee_id, mp_state := ''active'', mp_version := mp_version r + 1,
                   mp_updated_at := je_now W\<rparr>) (eb_mappings s)\<rparr>)
      else if je_uuid W \<in> mp_id ` set (eb_mappings s)
      then bail ''UNIQUE constraint failed: device_face_mappings.id''
      else Inr (s\<lparr>eb_mappings := eb_mappings s @ [new_mapping W device_id face_id employee_id]\<rparr>))"

text \<open>\<open>INSERT OR REPLACE\<close>: rows in conflict are deleted first.\<close>

definition upsert_device_face_mapping ::
  "job_env \<Rightarrow> string \<Rightarrow> string \<Rightarrow> string \<Rightarrow> face_store \<Rightarrow> face_store \<times> unit result" where
  "upsert_device_face_mapping W device_id face_id employee_id s = run_tx (je_write W) (\<lambda>s.
     if mapping_refused device_id employee_id s then bail ''FOREIGN KEY constraint failed''
     else Inr ((), s\<lparr>eb_mappings :=
            delete_where (\<lambda>r. same_face device_id face_id r \<or> mp_id r = je_uuid W) (eb_mappings s) @
            [new_mapping W device_id face_id employee_id]\<rparr>)) s"

definition mark_mapping_pending_delete :: "job_env \<Rightarrow> string \<Rightarrow> face_store \<Rightarrow> face_store \<times> unit result" where
  "mark_mapping_pending_delete W mapping_id = update_mappings W (\<lambda>r. mp_id r = mapping_id)
     (\<lambda>r. r\<lparr>mp_state := ''pending_delete'', mp_version := mp_version r + 1, mp_updated_at := je_now W\<rparr>)"

definition drop_mapping :: "string \<Rightarrow> face_store \<Rightarrow> face_store" where
  "drop_mapping mapping_id s = s\<lparr>eb_mappings := delete_where (\<lambda>r. mp_id r = mapping_id) (eb_mappings s)\<rparr>"

definition delete_mapping :: "job_env \<Rightarrow> string \<Rightarrow> face_store \<Rightarrow> face_store \<times> unit result" where
  "delete_mapping W mapping_id s = run_tx (je_write W) (\<lambda>s. Inr ((), drop_mapping mapping_id s)) s"

definition complete_purge_mapping ::
  "job_env \<Rightarrow> string \<Rightarrow> string \<Rightarrow> face_store \<Rightarrow> face_store \<times> unit result" where
  "complete_purge_mapping W key mapping_id s =
     run_tx (je_write W) (\<lambda>s. Inr ((), drop_checkpoint key (drop_mapping mapping_id s))) s"

definition complete_backfill_mapping ::
  "job_env \<Rightarrow> string \<Rightarrow> string \<Rightarrow> string \<Rightarrow> string \<Rightarrow> face_store \<Rightarrow> face_store \<times> unit result" where
  "complete_backfill_mapping W key device_id face_id employee_id s = run_tx (je_write W) (\<lambda>s.
     bind_result (upsert_mapping W device_id face_id employee_id s) (\<lambda>s. Inr ((), drop_checkpoint key s))) s"

section \<open>Pushes\<close>

definition push_of :: "string \<Rightarrow> push_row \<Rightarrow> bool" where
  "push_of push_id r \<longleftrightarrow> pu_id r = push_id"

definition push_succeeded :: "i64 \<Rightarrow> push_row \<Rightarrow> push_row" where
  "push_succeeded now r = r\<lparr>pu_status := ''success'', pu_error_message := None, pu_completed_at := Some now\<rparr>"

definition push_failed :: "i64 \<Rightarrow> string \<Rightarrow> push_row \<Rightarrow> push_row" where
  "push_failed now message r =
     r\<lparr>pu_status := ''failed'', pu_error_message := Some message, pu_completed_at := Some now\<rparr>"

definition unfinished :: "push_row \<Rightarrow> bool" where
  "unfinished r \<longleftrightarrow> pu_status r \<in> {''pending'', ''in_progress''}"

definition set_push :: "(push_row \<Rightarrow> bool) \<Rightarrow> (push_row \<Rightarrow> push_row) \<Rightarrow> face_store \<Rightarrow> face_store" where
  "set_push P f s = s\<lparr>eb_pushes := update_where P f (eb_pushes s)\<rparr>"

definition set_checkpoint ::
  "(checkpoint_row \<Rightarrow> bool) \<Rightarrow> i64 \<Rightarrow> string \<Rightarrow> face_store \<Rightarrow> face_store" where
  "set_checkpoint P now st s =
     s\<lparr>eb_checkpoints := update_where P (\<lambda>r. r\<lparr>ck_state := st, ck_updated_at := now\<rparr>) (eb_checkpoints s)\<rparr>"

definition update_push_status ::
  "job_env \<Rightarrow> string \<Rightarrow> string \<Rightarrow> string option \<Rightarrow> face_store \<Rightarrow> face_store \<times> unit result" where
  "update_push_status W push_id status error_message = update_pushes W (push_of push_id)
     (\<lambda>r. r\<lparr>pu_status := status, pu_error_message := error_message, pu_completed_at := Some (je_now W)\<rparr>)"

definition mark_push_in_progress :: "job_env \<Rightarrow> string \<Rightarrow> face_store \<Rightarrow> face_store \<times> unit result" where
  "mark_push_in_progress W push_id = update_pushes W (push_of push_id)
     (\<lambda>r. r\<lparr>pu_status := ''in_progress'', pu_started_at := Some (je_now W)\<rparr>)"

text \<open>A statement of a job that has to touch exactly one push.\<close>

definition one_push ::
  "string \<Rightarrow> (push_row \<Rightarrow> bool) \<Rightarrow> (push_row \<Rightarrow> push_row) \<Rightarrow> face_store \<Rightarrow> any_error + face_store" where
  "one_push message P f s = (if rows_affected P (eb_pushes s) \<noteq> 1 then bail message else Inr (set_push P f s))"

definition complete_push_success ::
  "job_env \<Rightarrow> string \<Rightarrow> string \<Rightarrow> string \<Rightarrow> string \<Rightarrow> face_store \<Rightarrow> face_store \<times> unit result" where
  "complete_push_success W push_id device_id face_id employee_id s = run_tx (je_write W) (\<lambda>s.
     bind_result (one_push ''push row not found during successful completion'' (push_of push_id)
        (push_succeeded (je_now W)) s) (\<lambda>s.
     bind_result (upsert_mapping W device_id face_id employee_id s) (\<lambda>s.
     Inr ((), drop_checkpoint (enrollment_checkpoint_key push_id) s)))) s"

definition complete_push_failure ::
  "job_env \<Rightarrow> string \<Rightarrow> string \<Rightarrow> face_store \<Rightarrow> face_store \<times> unit result" where
  "complete_push_failure W push_id message s = run_tx (je_write W) (\<lambda>s.
     bind_result (one_push ''push row not found during failed completion'' (push_of push_id)
        (push_failed (je_now W) message) s) (\<lambda>s.
     Inr ((), drop_checkpoint (enrollment_checkpoint_key push_id) s))) s"

definition record_push_recovery_failure ::
  "job_env \<Rightarrow> string \<Rightarrow> string \<Rightarrow> bool \<Rightarrow> face_store \<Rightarrow> face_store \<times> unit result" where
  "record_push_recovery_failure W push_id message manual s = run_tx (je_write W) (\<lambda>s.
     let s' = (if manual then set_checkpoint (\<lambda>r. ck_operation_key r = enrollment_checkpoint_key push_id)
                  (je_now W) ''manual'' s else s)
     in bind_result (one_push ''push row not found during recovery persistence'' (push_of push_id)
          (push_failed (je_now W) message) s') (\<lambda>s. Inr ((), s))) s"

definition terminalize_authorized_failure ::
  "job_env \<Rightarrow> string \<Rightarrow> string \<Rightarrow> face_store \<Rightarrow> face_store \<times> unit result" where
  "terminalize_authorized_failure W push_id message s = run_tx (je_write W) (\<lambda>s.
     Inr ((), set_push (\<lambda>r. pu_id r = push_id \<and> unfinished r) (push_failed (je_now W) message)
       (set_checkpoint (\<lambda>r. ck_operation_key r = enrollment_checkpoint_key push_id \<and> ck_state r = ''prepared'')
          (je_now W) ''manual'' s))) s"

definition fail_enrollment_dispatch ::
  "job_env \<Rightarrow> string \<Rightarrow> string \<Rightarrow> face_store \<Rightarrow> face_store \<times> unit result" where
  "fail_enrollment_dispatch W enrollment_id message s = run_tx (je_write W) (\<lambda>s.
     let s' = set_push (\<lambda>r. pu_enrollment_id r = enrollment_id \<and> unfinished r) (push_failed (je_now W) message) s
     in Inr ((), s'\<lparr>eb_enrollments := update_where (\<lambda>r. er_id r = enrollment_id \<and> er_status r = ''in_progress'')
          (\<lambda>r. r\<lparr>er_status := ''failed'', er_completed_at := Some (je_now W), er_version := er_version r + 1\<rparr>)
          (eb_enrollments s')\<rparr>)) s"

definition get_push_id :: "face_store \<Rightarrow> string \<Rightarrow> string \<Rightarrow> string result" where
  "get_push_id s enrollment_id device_id =
     (case find (\<lambda>r. pu_enrollment_id r = enrollment_id \<and> pu_device_id r = device_id) (eb_pushes s) of
        None \<Rightarrow> Inl (NotFound ''PUSH_NOT_FOUND''
          (''No push row for enrollment='' @ enrollment_id @ '' device='' @ device_id))
      | Some r \<Rightarrow> Inr (pu_id r))"

section \<open>The status of an enrollment\<close>

text \<open>The aggregate over the pushes of an enrollment: successes, failures, all, unfinished.\<close>

definition pushes_of :: "string \<Rightarrow> face_store \<Rightarrow> push_row list" where
  "pushes_of enrollment_id s = filter (\<lambda>r. pu_enrollment_id r = enrollment_id) (eb_pushes s)"

definition push_totals :: "string \<Rightarrow> face_store \<Rightarrow> nat \<times> nat \<times> nat \<times> nat" where
  "push_totals enrollment_id s =
     (let t = pushes_of enrollment_id s
      in (length (filter (\<lambda>r. pu_status r = ''success'') t), length (filter (\<lambda>r. pu_status r = ''failed'') t),
          length t, length (filter unfinished t)))"

definition final_status :: "nat \<Rightarrow> nat \<Rightarrow> nat \<Rightarrow> string" where
  "final_status success failed pushes =
     (if pushes = 0 \<or> success = 0 then ''failed'' else if failed = 0 then ''success'' else ''partial'')"

definition set_enrollment :: "string \<Rightarrow> i64 \<Rightarrow> string \<Rightarrow> face_store \<Rightarrow> face_store" where
  "set_enrollment enrollment_id now status s =
     s\<lparr>eb_enrollments := update_where (\<lambda>r. er_id r = enrollment_id)
        (\<lambda>r. r\<lparr>er_status := status, er_completed_at := Some now, er_version := er_version r + 1\<rparr>)
        (eb_enrollments s)\<rparr>"

definition settle_enrollment :: "string \<Rightarrow> i64 \<Rightarrow> string \<Rightarrow> face_store \<Rightarrow> any_error + face_store" where
  "settle_enrollment message now enrollment_id s =
     (case push_totals enrollment_id s of (success, failed, pushes, nonterminal) \<Rightarrow>
        if nonterminal \<noteq> 0 then Inr s
        else if rows_affected (\<lambda>r. er_id r = enrollment_id) (eb_enrollments s) \<noteq> 1 then bail message
        else Inr (set_enrollment enrollment_id now (final_status success failed pushes) s))"

definition finalize_enrollment :: "job_env \<Rightarrow> string \<Rightarrow> face_store \<Rightarrow> face_store \<times> unit result" where
  "finalize_enrollment W enrollment_id s = run_tx (je_write W) (\<lambda>s.
     bind_result (settle_enrollment ''enrollment not found during finalization'' (je_now W) enrollment_id s)
       (\<lambda>s. Inr ((), s))) s"

definition complete_recovered_push_success ::
  "job_env \<Rightarrow> string \<Rightarrow> string \<Rightarrow> string \<Rightarrow> string \<Rightarrow> string \<Rightarrow> face_store \<Rightarrow> face_store \<times> unit result" where
  "complete_recovered_push_success W enrollment_id push_id device_id face_id employee_id s = run_tx (je_write W) (\<lambda>s.
     bind_result (one_push ''push row not found during recovered completion''
        (\<lambda>r. pu_id r = push_id \<and> pu_enrollment_id r = enrollment_id) (push_succeeded (je_now W)) s) (\<lambda>s.
     bind_result (upsert_mapping W device_id face_id employee_id s) (\<lambda>s.
     bind_result (settle_enrollment ''enrollment row not found during recovered finalization'' (je_now W)
        enrollment_id s) (\<lambda>s.
     Inr ((), drop_checkpoint (enrollment_checkpoint_key push_id) s))))) s"

text \<open>The older finalizer reads first and writes in a command of its own; \<open>between\<close> is what other
  tasks do to the store in the meantime.\<close>

definition finalize_enrollment_status ::
  "job_env \<Rightarrow> (face_store \<Rightarrow> face_store) \<Rightarrow> string \<Rightarrow> face_store \<Rightarrow> face_store \<times> unit result" where
  "finalize_enrollment_status W between enrollment_id s =
     (case push_totals enrollment_id s of (success, failed, pushes, nonterminal) \<Rightarrow>
        if nonterminal \<noteq> 0 then (s, Inr ())
        else run_tx (je_write W) (\<lambda>s.
          Inr ((), set_enrollment enrollment_id (je_now W) (final_status success failed pushes) s)) (between s))"

section \<open>Reads\<close>

definition employee_of :: "face_store \<Rightarrow> string \<Rightarrow> face_employee option" where
  "employee_of s i = find (\<lambda>e. em_id e = i) (eb_employees s)"

definition get_current_photo_path :: "face_store \<Rightarrow> string \<Rightarrow> string option" where
  "get_current_photo_path s employee_id =
     (case find (\<lambda>e. em_id e = employee_id \<and> em_face_id e \<noteq> None \<and> em_current_face_enrollment_id e \<noteq> None)
         (eb_employees s) of
        None \<Rightarrow> None
      | Some e \<Rightarrow> map_option fe_photo_path
          (find (\<lambda>f. Some (fe_id f) = em_current_face_enrollment_id e) (eb_faces s)))"

definition list_employees_with_face :: "face_store \<Rightarrow> (string \<times> string \<times> string) list" where
  "list_employees_with_face s = List.map_filter
     (\<lambda>e. case (em_face_id e, em_current_face_enrollment_id e) of
         (Some f, Some c) \<Rightarrow> if em_status e = ''active'' then Some (em_id e, f, c) else None
       | _ \<Rightarrow> None) (eb_employees s)"

definition list_mappings_for_employee :: "face_store \<Rightarrow> string \<Rightarrow> (string \<times> string \<times> string) list" where
  "list_mappings_for_employee s employee_id = map (\<lambda>r. (mp_id r, mp_device_id r, mp_face_id r))
     (filter (\<lambda>r. mp_employee_id r = employee_id \<and> mp_state r \<in> {''active'', ''pending_delete''}) (eb_mappings s))"

definition get_employee_status :: "face_store \<Rightarrow> string \<Rightarrow> string result" where
  "get_employee_status s employee_id =
     (case employee_of s employee_id of
        None \<Rightarrow> Inl (NotFound ''EMPLOYEE_NOT_FOUND'' (''Employee '' @ quoted employee_id @ '' not found''))
      | Some e \<Rightarrow> Inr (em_status e))"

definition enrollment_not_found :: "string \<Rightarrow> app_error" where
  "enrollment_not_found i = NotFound ''ENROLLMENT_NOT_FOUND'' (''Enrollment '' @ quoted i @ '' not found'')"

text \<open>An enrollment with its employee (an inner join).\<close>

definition enrollment_of :: "face_store \<Rightarrow> string \<Rightarrow> (enrollment_row \<times> face_employee) option" where
  "enrollment_of s i =
     (case find (\<lambda>r. er_id r = i) (eb_enrollments s) of
        None \<Rightarrow> None | Some r \<Rightarrow> map_option (Pair r) (employee_of s (er_employee_id r)))"

definition get_enrollment_push_params :: "face_store \<Rightarrow> string \<Rightarrow> (string \<times> string \<times> string) result" where
  "get_enrollment_push_params s enrollment_id =
     (case enrollment_of s enrollment_id of
        None \<Rightarrow> Inl (enrollment_not_found enrollment_id)
      | Some (r, e) \<Rightarrow>
          (case em_face_id e of
             None \<Rightarrow> Inl (Internal (OtherError (''employee '' @ em_id e @ '' has no face_id'')))
           | Some face_id \<Rightarrow> Inr (em_id e, face_id, em_name e)))"

record push_response =
  up_id :: string
  up_device_id :: string
  up_device_name :: string
  up_status :: string
  up_error_message :: "string option"
  up_started_at :: "string option"
  up_completed_at :: "string option"

record enrollment_response =
  ur_id :: string
  ur_employee_id :: string
  ur_employee_name :: string
  ur_employee_code :: string
  ur_status :: string
  ur_started_at :: string
  ur_completed_at :: "string option"
  ur_version :: i64
  ur_device_pushes :: "push_response list"

text \<open>The device of a push is joined on the left; a NULL name cannot be read.\<close>

definition row_to_push :: "auth_libs \<Rightarrow> face_store \<Rightarrow> push_row \<Rightarrow> push_response result" where
  "row_to_push L s r =
     (case find (\<lambda>d. dv_id d = pu_device_id r) (eb_devices s) of
        None \<Rightarrow> Inl (Internal (OtherError ''unexpected NULL''))
      | Some d \<Rightarrow> Inr \<lparr>up_id = pu_id r, up_device_id = pu_device_id r, up_device_name = dv_name d,
          up_status = pu_status r, up_error_message = pu_error_message r,
          up_started_at = map_option (epoch_to_iso L) (pu_started_at r),
          up_completed_at = map_option (epoch_to_iso L) (pu_completed_at r)\<rparr>)"

fun collect :: "('a \<Rightarrow> 'b result) \<Rightarrow> 'a list \<Rightarrow> 'b list result" where
  "collect f [] = Inr []"
| "collect f (x # xs) = bind_result (f x) (\<lambda>y. bind_result (collect f xs) (\<lambda>ys. Inr (y # ys)))"

definition list_device_pushes :: "auth_libs \<Rightarrow> face_store \<Rightarrow> string \<Rightarrow> push_response list result" where
  "list_device_pushes L s enrollment_id =
     collect (row_to_push L s) (sort_key (\<lambda>r. (pu_started_at r, pu_id r)) (pushes_of enrollment_id s))"

definition row_to_enrollment :: "auth_libs \<Rightarrow> enrollment_row \<times> face_employee \<Rightarrow> enrollment_response" where
  "row_to_enrollment L re = (case re of (r, e) \<Rightarrow>
     \<lparr>ur_id = er_id r, ur_employee_id = er_employee_id r, ur_employee_name = em_name e,
      ur_employee_code = em_code e, ur_status = er_status r, ur_started_at = epoch_to_iso L (er_started_at r),
      ur_completed_at = map_option (epoch_to_iso L) (er_completed_at r), ur_version = er_version r,
      ur_device_pushes = []\<rparr>)"

definition with_pushes :: "auth_libs \<Rightarrow> face_store \<Rightarrow> enrollment_response \<Rightarrow> enrollment_response result" where
  "with_pushes L s u = bind_result (list_device_pushes L s (ur_id u)) (\<lambda>ps. Inr (u\<lparr>ur_device_pushes := ps\<rparr>))"

definition get_enrollment_with_pushes :: "auth_libs \<Rightarrow> face_store \<Rightarrow> string \<Rightarrow> enrollment_response result" where
  "get_enrollment_with_pushes L s i =
     (case enrollment_of s i of
        None \<Rightarrow> Inl (enrollment_not_found i) | Some re \<Rightarrow> with_pushes L s (row_to_enrollment L re))"

definition validate_enrollment_status :: "string \<Rightarrow> string + unit" where
  "validate_enrollment_status s =
     (if s \<in> {''in_progress'', ''success'', ''partial'', ''failed''} then Inr ()
      else Inl (''enrollment status must be '' @ quoted ''in_progress'' @ '', '' @ quoted ''success'' @ '', '' @
        quoted ''partial'' @ '', or '' @ quoted ''failed''))"

definition list_enrollments ::
  "auth_libs \<Rightarrow> face_store \<Rightarrow> string option \<Rightarrow> i64 option \<Rightarrow> i64 option
    \<Rightarrow> enrollment_response paginated_response result" where
  "list_enrollments L s status limit0 offset0 =
     (let limit = page_limit limit0; offset = page_offset offset0 in
      bind_result (check_field validate_enrollment_status status) (\<lambda>_.
        let matching = filter (\<lambda>r. case status of None \<Rightarrow> True | Some st \<Rightarrow> er_status r = st) (eb_enrollments s);
            rows = List.map_filter (\<lambda>r. map_option (Pair r) (employee_of s (er_employee_id r))) matching
        in bind_result (collect (with_pushes L s) (map (row_to_enrollment L)
               (sql_page limit offset (sort_key (\<lambda>(r, e). (- er_started_at r, er_id r)) rows)))) (\<lambda>page.
             Inr \<lparr>pr_data = page, pr_total = int (length matching), pr_limit = limit, pr_offset = offset\<rparr>)))"

section \<open>Starting an enrollment\<close>

text \<open>\<open>reader_for\<close> builds the client of a reader; it fails on an address it cannot use.\<close>

type_synonym reader_port = "string \<Rightarrow> string \<Rightarrow> string \<Rightarrow> bool \<Rightarrow> string + unit"

definition reader_of :: "reader_port \<Rightarrow> device_with_plaintext \<Rightarrow> string + unit" where
  "reader_of port d = port (dw_base_url d) (dw_username d) (dw_password d) (dw_allow_insecure_tls d)"

record dispatch_target =
  tg_push_id :: string
  tg_device :: device_with_plaintext

record authorized_dispatch_command =
  dc_enrollment_id :: string
  dc_face_id :: string
  dc_photo :: string
  dc_employee_id :: string
  dc_employee_name :: string
  dc_targets :: "dispatch_target list"

record start_env =
  se_write :: write_outcome
  se_now :: i64
  se_face_enrollment :: string
  se_enrollment :: string
  se_face :: string
  se_pushes :: "nat \<Rightarrow> string"
  se_io :: "string + unit"
  se_accepting :: bool

text \<open>The active readers with their passwords, in order; one that cannot be decrypted fails the job.\<close>

fun decrypt_devices ::
  "cipher_libs \<Rightarrow> string \<Rightarrow> device_row list \<Rightarrow> any_error + device_with_plaintext list" where
  "decrypt_devices C key [] = Inr []"
| "decrypt_devices C key (r # rs) =
     (case decrypt_password C key (dv_encrypted_password r) of
        Inl m \<Rightarrow> bail m
      | Inr password \<Rightarrow> bind_result (decrypt_devices C key rs) (\<lambda>ds. Inr (plaintext_device r password # ds)))"

definition active_devices :: "device_row list \<Rightarrow> device_row list" where
  "active_devices t = sort_key (\<lambda>r. (dv_created_at r, dv_id r))
     (filter (\<lambda>r. dv_status r = ''active'' \<and> dv_deleted_at r = None) t)"

definition pending_push :: "string \<Rightarrow> string \<Rightarrow> string \<Rightarrow> push_row" where
  "pending_push push_id enrollment_id device_id =
     \<lparr>pu_id = push_id, pu_enrollment_id = enrollment_id, pu_device_id = device_id, pu_status = ''pending'',
      pu_error_message = None, pu_started_at = None, pu_completed_at = None\<rparr>"

definition insert_push :: "push_row \<Rightarrow> face_store \<Rightarrow> any_error + face_store" where
  "insert_push r s =
     (if pu_id r \<in> pu_id ` set (eb_pushes s) then bail ''UNIQUE constraint failed: enrollment_device_pushes.id''
      else if \<exists>q \<in> set (eb_pushes s). pu_enrollment_id q = pu_enrollment_id r \<and> pu_device_id q = pu_device_id r
      then bail ''UNIQUE constraint failed: enrollment_device_pushes.enrollment_id, enrollment_device_pushes.device_id''
      else Inr (s\<lparr>eb_pushes := eb_pushes s @ [r]\<rparr>))"

definition insert_checkpoint :: "checkpoint_row \<Rightarrow> face_store \<Rightarrow> any_error + face_store" where
  "insert_checkpoint r s =
     (if has_checkpoint (ck_operation_key r) s
      then bail ''UNIQUE constraint failed: device_operation_checkpoints.operation_key''
      else Inr (s\<lparr>eb_checkpoints := eb_checkpoints s @ [r]\<rparr>))"

fun add_targets ::
  "reader_port \<Rightarrow> job_env \<Rightarrow> string \<Rightarrow> (nat \<Rightarrow> string) \<Rightarrow> nat \<Rightarrow> device_with_plaintext list \<Rightarrow> face_store
    \<Rightarrow> any_error + dispatch_target list \<times> face_store" where
  "add_targets port W enrollment_id ids n [] s = Inr ([], s)"
| "add_targets port W enrollment_id ids n (d # ds) s =
     (case reader_of port d of
        Inl m \<Rightarrow> bail (''invalid device connection: '' @ m)
      | Inr u \<Rightarrow>
          bind_result (insert_push (pending_push (ids n) enrollment_id (dw_id d)) s) (\<lambda>s.
          bind_result (insert_checkpoint (prepared_row W (enrollment_checkpoint_key (ids n)) ''enrollment_push'') s) (\<lambda>s.
          bind_result (add_targets port W enrollment_id ids (Suc n) ds s) (\<lambda>(ts, s).
          Inr (\<lparr>tg_push_id = ids n, tg_device = d\<rparr> # ts, s)))))"

definition insert_face :: "face_enrollment_row \<Rightarrow> face_store \<Rightarrow> any_error + face_store" where
  "insert_face r s =
     (if fe_id r \<in> fe_id ` set (eb_faces s) then bail ''UNIQUE constraint failed: face_enrollments.id''
      else if fe_employee_id r \<notin> em_id ` set (eb_employees s) \<or> fe_created_by r \<notin> set (eb_users s) \<or>
        (case fe_source_device_id r of None \<Rightarrow> False | Some d \<Rightarrow> d \<notin> dv_id ` set (eb_devices s))
      then bail ''FOREIGN KEY constraint failed''
      else if fe_captured_via r \<notin> {''device'', ''webcam'', ''upload''} then bail ''CHECK constraint failed: face_enrollments''
      else Inr (s\<lparr>eb_faces := eb_faces s @ [r]\<rparr>))"

definition insert_enrollment :: "enrollment_row \<Rightarrow> face_store \<Rightarrow> any_error + face_store" where
  "insert_enrollment r s =
     (if er_id r \<in> er_id ` set (eb_enrollments s) then bail ''UNIQUE constraint failed: enrollments.id''
      else Inr (s\<lparr>eb_enrollments := eb_enrollments s @ [r]\<rparr>))"

text \<open>The employee keeps a face id once it has one.\<close>

definition with_face :: "string \<Rightarrow> string \<Rightarrow> face_employee \<Rightarrow> face_employee" where
  "with_face new_face_id face_enrollment_id e =
     e\<lparr>em_face_id := Some (case em_face_id e of None \<Rightarrow> new_face_id | Some f \<Rightarrow> f),
       em_current_face_enrollment_id := Some face_enrollment_id\<rparr>"

definition set_face :: "string \<Rightarrow> string \<Rightarrow> string \<Rightarrow> face_store \<Rightarrow> any_error + face_store" where
  "set_face employee_id new_face_id face_enrollment_id s =
     (let t = update_where (\<lambda>e. em_id e = employee_id) (with_face new_face_id face_enrollment_id) (eb_employees s)
      in if rows_affected (\<lambda>e. em_id e = employee_id) (eb_employees s) \<noteq> 1
         then bail ''employee disappeared during enrollment''
         else if \<not> distinct (List.map_filter em_face_id t) then bail ''UNIQUE constraint failed: employees.face_id''
         else Inr (s\<lparr>eb_employees := t\<rparr>))"

definition start_job ::
  "cipher_libs \<Rightarrow> string \<Rightarrow> reader_port \<Rightarrow> start_env \<Rightarrow> string \<Rightarrow> string \<Rightarrow> string \<Rightarrow> string option \<Rightarrow> string option
    \<Rightarrow> string \<Rightarrow> string \<Rightarrow> face_store \<Rightarrow> any_error + authorized_dispatch_command \<times> face_store" where
  "start_job C key port E actor_id employee_id captured_via source_device_id quality photo_relpath bytes s =
     bind_result (insert_face \<lparr>fe_id = se_face_enrollment E, fe_employee_id = employee_id, fe_captured_via = captured_via,
        fe_source_device_id = source_device_id, fe_photo_path = photo_relpath, fe_face_quality_score = quality,
        fe_created_by = actor_id, fe_created_at = se_now E\<rparr> s) (\<lambda>s.
     bind_result (insert_enrollment \<lparr>er_id = se_enrollment E, er_employee_id = employee_id,
        er_face_enrollment_id = se_face_enrollment E, er_status = ''in_progress'', er_started_by = actor_id,
        er_started_at = se_now E, er_completed_at = None, er_version = 1\<rparr> s) (\<lambda>s.
     bind_result (set_face employee_id (se_face E) (se_face_enrollment E) s) (\<lambda>s.
     case employee_of s employee_id of
       None \<Rightarrow> bail ''employee disappeared during enrollment''
     | Some e \<Rightarrow> (case em_face_id e of
         None \<Rightarrow> bail ''unexpected NULL''
       | Some face_id \<Rightarrow>
           bind_result (decrypt_devices C key (active_devices (eb_devices s))) (\<lambda>devices.
           bind_result (add_targets port \<lparr>je_write = se_write E, je_now = se_now E, je_uuid = []\<rparr>
              (se_enrollment E) (se_pushes E) 0 devices s) (\<lambda>(targets, s).
           Inr (\<lparr>dc_enrollment_id = se_enrollment E, dc_face_id = face_id, dc_photo = bytes,
              dc_employee_id = employee_id, dc_employee_name = em_name e, dc_targets = targets\<rparr>, s)))))))"

definition photo_relpath_of :: "string \<Rightarrow> string \<Rightarrow> string" where
  "photo_relpath_of employee_id enrollment_id = employee_id @ ''/'' @ enrollment_id @ ''.jpg''"

text \<open>The file is published before the transaction and kept when it commits; the command is handed
  to the dispatcher in the same moment, unless it is closed.\<close>

definition start_enrollment ::
  "cipher_libs \<Rightarrow> string \<Rightarrow> reader_port \<Rightarrow> start_env \<Rightarrow> string \<Rightarrow> string \<Rightarrow> string \<Rightarrow> string option \<Rightarrow> string option
    \<Rightarrow> string \<Rightarrow> file_system \<times> face_store \<Rightarrow> (file_system \<times> face_store) \<times> authorized_dispatch_command option \<times> authorized_dispatch_command result" where
  "start_enrollment C key port E actor_id employee_id captured_via source_device_id quality bytes fss =
     (let photo_relpath = photo_relpath_of employee_id (se_enrollment E)
      in case guard_write (se_io E) photo_relpath bytes (fst fss) of
           Inl m \<Rightarrow> (fss, None, Inl (Internal (OtherError m)))
         | Inr (guard, fs) \<Rightarrow>
             (case run_tx (se_write E)
                 (start_job C key port E actor_id employee_id captured_via source_device_id quality photo_relpath bytes)
                 (snd fss) of
                (s, Inl e) \<Rightarrow> ((guard_drop False guard fs, s), None, Inl e)
              | (s, Inr command) \<Rightarrow>
                  ((guard_drop True guard fs, s),
                   if se_accepting E then (Some command, Inr command)
                   else (None, Inl (Internal (OtherError (''post-commit enrollment dispatch failed: '' @
                      ''enrollment dispatcher admission is closed'')))))))"

section \<open>Retrying a push\<close>

definition push_not_retryable :: "app_error" where
  "push_not_retryable = Conflict ''PUSH_NOT_RETRYABLE'' ''Only failed device pushes may be retried''"

definition back_to_pending :: "push_row \<Rightarrow> push_row" where
  "back_to_pending r = r\<lparr>pu_status := ''pending'', pu_error_message := None, pu_started_at := None, pu_completed_at := None\<rparr>"

definition failed_push :: "string \<Rightarrow> string \<Rightarrow> face_store \<Rightarrow> any_error + string" where
  "failed_push enrollment_id device_id s =
     (case find (\<lambda>r. pu_enrollment_id r = enrollment_id \<and> pu_device_id r = device_id) (eb_pushes s) of
        None \<Rightarrow> bail ''push row not found for retry''
      | Some r \<Rightarrow> if pu_status r \<noteq> ''failed'' then Inl (DomainError push_not_retryable) else Inr (pu_id r))"

definition reset_push_to_pending ::
  "job_env \<Rightarrow> string \<Rightarrow> string \<Rightarrow> face_store \<Rightarrow> face_store \<times> string result" where
  "reset_push_to_pending W enrollment_id device_id s = run_tx (je_write W) (\<lambda>s.
     bind_result (failed_push enrollment_id device_id s) (\<lambda>push_id.
     Inr (push_id, set_push (push_of push_id) back_to_pending s))) s"

definition retry_job :: "job_env \<Rightarrow> string \<Rightarrow> string \<Rightarrow> face_store \<Rightarrow> any_error + string \<times> face_store" where
  "retry_job W enrollment_id device_id s =
     bind_result (failed_push enrollment_id device_id s) (\<lambda>push_id.
     if has_checkpoint (enrollment_checkpoint_key push_id) s
     then Inl (DomainError (Conflict ''PUSH_RECONCILIATION_REQUIRED''
       ''Device operation requires manual reconciliation before retry''))
     else bind_result (insert_checkpoint (prepared_row W (enrollment_checkpoint_key push_id) ''enrollment_push'')
         (set_push (push_of push_id) back_to_pending s)) (\<lambda>s. Inr (push_id, s)))"

text \<open>What the retry reads before its transaction.\<close>

definition retry_setup ::
  "cipher_libs \<Rightarrow> string \<Rightarrow> reader_port \<Rightarrow> file_system \<Rightarrow> string \<Rightarrow> string \<Rightarrow> face_store
    \<Rightarrow> (string \<times> string \<times> string \<times> string \<times> device_with_plaintext) result" where
  "retry_setup C key port fs enrollment_id device_id s =
     bind_result (get_enrollment_push_params s enrollment_id) (\<lambda>(employee_id, face_id, employee_name).
     case get_current_photo_path s employee_id of
       None \<Rightarrow> Inl (NotFound ''PHOTO_NOT_FOUND'' ''Employee has no current face enrollment photo'')
     | Some path \<Rightarrow> (case fs_files fs path of
         None \<Rightarrow> Inl (Internal (OtherError ''read photo for retry: No such file or directory''))
       | Some (i, bytes) \<Rightarrow>
           bind_result (get_decrypted C key (eb_devices s) device_id) (\<lambda>device.
           bind_result (map_err (\<lambda>m. Internal (OtherError (''invalid device connection: '' @ m))) (reader_of port device))
             (\<lambda>_. Inr (employee_id, face_id, employee_name, bytes, device)))))"

definition retry_enrollment_push ::
  "cipher_libs \<Rightarrow> string \<Rightarrow> reader_port \<Rightarrow> job_env \<Rightarrow> bool \<Rightarrow> file_system \<Rightarrow> face_store \<Rightarrow> string \<Rightarrow> string \<Rightarrow> face_store
    \<Rightarrow> face_store \<times> authorized_dispatch_command option \<times> string result" where
  "retry_enrollment_push C key port W accepting fs read_store enrollment_id device_id s =
     (case retry_setup C key port fs enrollment_id device_id read_store of
        Inl e \<Rightarrow> (s, None, Inl e)
      | Inr (employee_id, face_id, employee_name, bytes, device) \<Rightarrow>
          (case run_tx (je_write W) (retry_job W enrollment_id device_id) s of
             (s', Inl e) \<Rightarrow> (s', None, Inl e)
           | (s', Inr push_id) \<Rightarrow>
               (s', if accepting
                  then (Some \<lparr>dc_enrollment_id = enrollment_id, dc_face_id = face_id, dc_photo = bytes,
                     dc_employee_id = employee_id, dc_employee_name = employee_name,
                     dc_targets = [\<lparr>tg_push_id = push_id, tg_device = device\<rparr>]\<rparr>, Inr ''pending'')
                  else (None, Inl (Internal (OtherError (''post-commit enrollment retry dispatch failed: '' @
                     ''enrollment dispatcher admission is closed'')))))))"

section \<open>Removing the photos of a former employee\<close>

fun remove_photos :: "(string \<Rightarrow> string + unit) \<Rightarrow> string list \<Rightarrow> file_system \<Rightarrow> file_system \<times> string list" where
  "remove_photos io [] fs = (fs, [])"
| "remove_photos io (rel # rels) fs =
     (case inspect_owned_file (io rel) (parent_of rel) rel fs of
        Inl m \<Rightarrow> remove_photos io rels fs
      | Inr identity \<Rightarrow>
          (case remove_owned_file (parent_of rel) rel identity fs of
             (fs', Inl m) \<Rightarrow> remove_photos io rels fs'
           | (fs', Inr u) \<Rightarrow> (case remove_photos io rels fs' of (fs'', removed) \<Rightarrow> (fs'', rel # removed))))"

definition purge_enrolled_faces ::
  "job_env \<Rightarrow> (string \<Rightarrow> string + unit) \<Rightarrow> string \<Rightarrow> file_system \<times> face_store
    \<Rightarrow> (file_system \<times> face_store) \<times> nat result" where
  "purge_enrolled_faces W io employee_id fss =
     (let paths = map fe_photo_path (filter (\<lambda>r. fe_employee_id r = employee_id) (eb_faces (snd fss)))
      in case remove_photos io paths (fst fss) of
           (fs, removed) \<Rightarrow>
             (case run_insert (je_write W) (\<lambda>t. if je_uuid W \<in> pa_id ` set t then Some ''UNIQUE constraint failed: audit_log.id'' else None)
                 \<lparr>pa_id = je_uuid W, pa_record_id = employee_id, pa_purged_photo_paths = removed,
                  pa_enrollment_rows_seen = length paths, pa_created_at = je_now W\<rparr> (eb_purge_audit (snd fss)) of
                (t, x) \<Rightarrow> ((fs, (snd fss)\<lparr>eb_purge_audit := t\<rparr>),
                   case x of Inl e \<Rightarrow> Inl (from_db_write e) | Inr n \<Rightarrow> Inr (length removed))))"

section \<open>The photo\<close>

text \<open>The image crate is an argument: decoding, resizing, and encoding at a quality.\<close>

record 'img image_codec =
  ic_decode :: "string \<Rightarrow> string + 'img"
  ic_resize :: "nat \<Rightarrow> 'img \<Rightarrow> 'img"
  ic_encode :: "nat \<Rightarrow> 'img \<Rightarrow> string + string"

definition max_face_bytes :: nat where
  "max_face_bytes = 200 * 1024"

definition target_dim_px :: nat where
  "target_dim_px = 480"

definition jpeg_start :: string where
  "jpeg_start = [CHR 0xFF, CHR 0xD8, CHR 0xFF]"

definition hex_upper :: "nat \<Rightarrow> char" where
  "hex_upper n = (if n < 10 then char_of (48 + n) else char_of (55 + n))"

definition debug_bytes :: "string \<Rightarrow> string" where
  "debug_bytes bs = ''['' @ concat (map (\<lambda>(i, b). (if i = (0 :: nat) then [] else '', '') @
     [hex_upper (of_char b div 16), hex_upper (of_char b mod 16)]) (enumerate 0 bs)) @ '']''"

definition reencode_jpeg :: "'img image_codec \<Rightarrow> 'img \<Rightarrow> nat \<Rightarrow> string + string" where
  "reencode_jpeg codec img quality =
     map_err (\<lambda>e. ''JPEG encode failed at quality '' @ show_nat quality @ '': '' @ e) (ic_encode codec quality img)"

definition normalisation_passes :: "(nat option \<times> nat) list" where
  "normalisation_passes = [(Some target_dim_px, 85), (Some target_dim_px, 70), (Some 320, 70), (Some 320, 55)]"

definition resized :: "'img image_codec \<Rightarrow> nat option \<Rightarrow> 'img \<Rightarrow> 'img" where
  "resized codec maybe_dim img = (case maybe_dim of None \<Rightarrow> img | Some d \<Rightarrow> ic_resize codec d img)"

fun run_passes :: "'img image_codec \<Rightarrow> (nat option \<times> nat) list \<Rightarrow> 'img \<Rightarrow> string + string" where
  "run_passes codec [] img =
     Inl (''image too large after 4 normalisation passes (final size '' @
       show_nat (case reencode_jpeg codec img 55 of Inl e \<Rightarrow> 0 | Inr b \<Rightarrow> length b) @ '' bytes; max '' @
       show_nat max_face_bytes @ '' bytes)'')"
| "run_passes codec ((maybe_dim, quality) # passes) img =
     (let img = resized codec maybe_dim img
      in bind_result (reencode_jpeg codec img quality) (\<lambda>encoded.
           if length encoded \<le> max_face_bytes then Inr encoded else run_passes codec passes img))"

definition normalize_face_jpeg :: "'img image_codec \<Rightarrow> string \<Rightarrow> string + string" where
  "normalize_face_jpeg codec bytes =
     (if take 3 bytes \<noteq> jpeg_start
      then Inl (''not a JPEG: magic bytes mismatch (got '' @ debug_bytes (take 3 bytes) @ '')'')
      else bind_result (map_err (\<lambda>e. ''failed to decode JPEG: '' @ e) (ic_decode codec bytes)) (\<lambda>img.
        if length bytes \<le> max_face_bytes then reencode_jpeg codec img 90
        else run_passes codec normalisation_passes img))"

section \<open>The quality evidence\<close>

text \<open>A finite \<open>f64\<close> is a rational number; NaN and the infinities are \<open>None\<close>.\<close>

type_synonym f64 = "rat option"

record face_quality_evidence =
  fq_face_detected :: bool
  fq_luminance_ok :: bool
  fq_size_ok :: bool
  fq_luminance :: f64
  fq_width :: f64
  fq_height :: f64

datatype face_quality_error = Invalid string | Unacceptable

definition in_interval :: "rat \<Rightarrow> rat \<Rightarrow> rat \<Rightarrow> bool" where
  "in_interval a b x \<longleftrightarrow> a \<le> x \<and> x \<le> b"

definition validate_quality :: "face_quality_evidence \<Rightarrow> face_quality_error + unit" where
  "validate_quality q =
     (case (fq_luminance q, fq_width q, fq_height q) of
        (Some luminance, Some width, Some height) \<Rightarrow>
          if \<not> in_interval 0 255 luminance \<or> \<not> in_interval 0 10000 width \<or> \<not> in_interval 0 10000 height
          then Inl (Invalid ''face quality numbers are out of range'')
          else if fq_luminance_ok q \<and> \<not> in_interval 80 200 luminance
          then Inl (Invalid ''luminanceOk contradicts luminance'')
          else if fq_size_ok q \<and> (width < 160 \<or> height < 160)
          then Inl (Invalid ''sizeOk contradicts face dimensions'')
          else if \<not> fq_face_detected q \<or> \<not> fq_luminance_ok q \<or> \<not> fq_size_ok q then Inl Unacceptable
          else Inr ()
      | _ \<Rightarrow> Inl (Invalid ''face quality numbers must be finite''))"

definition validate_captured_via :: "string \<Rightarrow> string + unit" where
  "validate_captured_via s =
     (if s \<in> {''device'', ''webcam'', ''upload''} then Inr ()
      else Inl (''captured_via must be '' @ quoted ''device'' @ '', '' @ quoted ''webcam'' @ '', or '' @ quoted ''upload''))"

definition validate_push_status :: "string \<Rightarrow> string + unit" where
  "validate_push_status s =
     (if s \<in> {''pending'', ''in_progress'', ''success'', ''failed''} then Inr ()
      else Inl (''push status must be '' @ quoted ''pending'' @ '', '' @ quoted ''in_progress'' @ '', '' @
        quoted ''success'' @ '', or '' @ quoted ''failed''))"

section \<open>The request\<close>

text \<open>A field of the multipart body as axum delivers it: its bytes, or its text; either may fail.  A
  body that ends malformed has an error after its fields.\<close>

record form_field =
  ff_name :: string
  ff_bytes :: "string + string"
  ff_text :: "string + string"

record enrollment_form =
  fo_employee_id :: "string option"
  fo_captured_via :: "string option"
  fo_source_device_id :: "string option"
  fo_quality :: "face_quality_evidence option"
  fo_photo :: "string option"

definition empty_form :: enrollment_form where
  "empty_form = \<lparr>fo_employee_id = None, fo_captured_via = None, fo_source_device_id = None, fo_quality = None, fo_photo = None\<rparr>"

record 'img enrollment_libs =
  el_parse_quality :: "string \<Rightarrow> face_quality_evidence option"
  el_quality_json :: "face_quality_evidence \<Rightarrow> string + string"
  el_codec :: "'img image_codec"

definition max_upload_bytes :: nat where
  "max_upload_bytes = 2 * 1024 * 1024"

definition field_text :: "form_field \<Rightarrow> string result" where
  "field_text f = map_err (Validation ''VALIDATION_ERROR'') (ff_text f)"

definition drain_photo :: "form_field \<Rightarrow> string result" where
  "drain_photo f =
     bind_result (map_err (\<lambda>e. Validation ''VALIDATION_ERROR'' (''failed to read photo field: '' @ e)) (ff_bytes f)) (\<lambda>bytes.
       if length bytes > max_upload_bytes
       then Inl (Validation ''PHOTO_TOO_LARGE'' (''photo exceeds '' @ show_nat max_upload_bytes @ '' bytes (received '' @
         show_nat (length bytes) @ '')''))
       else if take 3 bytes \<noteq> jpeg_start
       then Inl (Validation ''PHOTO_NOT_JPEG'' ''photo must be a valid JPEG (magic bytes 0xFF 0xD8 0xFF)'')
       else Inr bytes)"

definition drain_field :: "'img enrollment_libs \<Rightarrow> form_field \<Rightarrow> enrollment_form \<Rightarrow> enrollment_form result" where
  "drain_field J f form =
     (if ff_name f = ''employee_id'' then bind_result (field_text f) (\<lambda>v. Inr (form\<lparr>fo_employee_id := Some v\<rparr>))
      else if ff_name f = ''captured_via'' then bind_result (field_text f) (\<lambda>v. Inr (form\<lparr>fo_captured_via := Some v\<rparr>))
      else if ff_name f = ''source_device_id''
      then bind_result (field_text f) (\<lambda>v. Inr (if v = [] then form else form\<lparr>fo_source_device_id := Some v\<rparr>))
      else if ff_name f = ''face_quality_score''
      then bind_result (field_text f) (\<lambda>v. case el_parse_quality J v of
             None \<Rightarrow> Inl (Validation ''FACE_QUALITY_INVALID'' ''face quality must be valid JSON'')
           | Some q \<Rightarrow> Inr (form\<lparr>fo_quality := Some q\<rparr>))
      else if ff_name f = ''photo'' then bind_result (drain_photo f) (\<lambda>b. Inr (form\<lparr>fo_photo := Some b\<rparr>))
      else Inr form)"

fun drain_fields ::
  "'img enrollment_libs \<Rightarrow> form_field list \<Rightarrow> string option \<Rightarrow> enrollment_form \<Rightarrow> enrollment_form result" where
  "drain_fields J [] malformed form = (case malformed of None \<Rightarrow> Inr form
     | Some e \<Rightarrow> Inl (Validation ''VALIDATION_ERROR'' (''malformed multipart: '' @ e)))"
| "drain_fields J (f # fs) malformed form = bind_result (drain_field J f form) (drain_fields J fs malformed)"

definition required :: "string \<Rightarrow> string \<Rightarrow> 'a option \<Rightarrow> 'a result" where
  "required code message x = (case x of None \<Rightarrow> Inl (Validation code message) | Some v \<Rightarrow> Inr v)"

definition quality_error :: "face_quality_error \<Rightarrow> app_error" where
  "quality_error e = (case e of Invalid m \<Rightarrow> Validation ''FACE_QUALITY_INVALID'' m
     | Unacceptable \<Rightarrow> Validation ''FACE_QUALITY_UNACCEPTABLE'' ''face quality evidence is unacceptable'')"

text \<open>The checks of the handler, in order; what it passes on is the employee, the source, the
  evidence as JSON and the normalised photo.\<close>

definition check_form ::
  "'img enrollment_libs \<Rightarrow> enrollment_form \<Rightarrow> (string \<times> string \<times> string option \<times> string \<times> string) result" where
  "check_form J form =
     bind_result (required ''MISSING_FIELD'' ''employee_id is required'' (fo_employee_id form)) (\<lambda>employee_id.
     bind_result (required ''MISSING_FIELD'' ''captured_via is required'' (fo_captured_via form)) (\<lambda>captured_via.
     bind_result (required ''MISSING_FIELD'' ''photo is required'' (fo_photo form)) (\<lambda>photo.
     bind_result (map_err (Validation ''INVALID_CAPTURED_VIA'') (validate_captured_via captured_via)) (\<lambda>_.
     bind_result (required ''FACE_QUALITY_REQUIRED'' ''face_quality_score is required'' (fo_quality form)) (\<lambda>quality.
     bind_result (map_err quality_error (validate_quality quality)) (\<lambda>_.
     bind_result (map_err (\<lambda>m. Internal (OtherError m)) (el_quality_json J quality)) (\<lambda>json.
     bind_result (map_err (Validation ''PHOTO_INVALID'') (normalize_face_jpeg (el_codec J) photo)) (\<lambda>normalized.
     Inr (employee_id, captured_via, fo_source_device_id form, json, normalized)))))))))"

definition create_enrollment ::
  "cipher_libs \<Rightarrow> string \<Rightarrow> reader_port \<Rightarrow> 'img enrollment_libs \<Rightarrow> start_env \<Rightarrow> claims \<Rightarrow> form_field list \<Rightarrow> string option
    \<Rightarrow> file_system \<times> face_store \<Rightarrow> (file_system \<times> face_store) \<times> authorized_dispatch_command option \<times> authorized_dispatch_command result" where
  "create_enrollment C key port J E claims body malformed fss =
     (case bind_result (drain_fields J body malformed empty_form) (check_form J) of
        Inl e \<Rightarrow> (fss, None, Inl e)
      | Inr (employee_id, captured_via, source, json, normalized) \<Rightarrow>
          start_enrollment C key port E (cl_sub claims) employee_id captured_via source (Some json) normalized fss)"

section \<open>What the commands do to pushes and checkpoints\<close>

lemma run_tx_cases:
  assumes "run_tx w job d = (d', x)"
  obtains (ran) a where "w = Ran" "job d = Inr (a, d')" "x = Inr a" | (failed) e where "d' = d" "x = Inl e"
  using assms by (cases w) (auto split: sum.splits)

lemma upsert_mapping_rest:
  "upsert_mapping W d f e s = Inr s' \<Longrightarrow>
    eb_pushes s' = eb_pushes s \<and> eb_checkpoints s' = eb_checkpoints s \<and> eb_enrollments s' = eb_enrollments s"
  by (auto simp: upsert_mapping_def bail_def split: if_splits)

lemma settle_enrollment_rest:
  "settle_enrollment m now i s = Inr s' \<Longrightarrow> eb_pushes s' = eb_pushes s \<and> eb_checkpoints s' = eb_checkpoints s"
  by (auto simp: settle_enrollment_def set_enrollment_def bail_def split: if_splits prod.splits)

lemma one_push_eq:
  "one_push m P f s = Inr s' \<longleftrightarrow> rows_affected P (eb_pushes s) = 1 \<and> s' = set_push P f s"
  by (auto simp: one_push_def bail_def)

lemma checkpoints_simps [simp]:
  "eb_checkpoints (drop_checkpoint k s) = delete_where (\<lambda>r. ck_operation_key r = k) (eb_checkpoints s)"
  "eb_pushes (drop_checkpoint k s) = eb_pushes s"
  "eb_checkpoints (set_push P f s) = eb_checkpoints s" "eb_pushes (set_push P f s) = update_where P f (eb_pushes s)"
  "eb_pushes (set_checkpoint Q now st s) = eb_pushes s"
  "eb_checkpoints (set_checkpoint Q now st s) =
     update_where Q (\<lambda>r. r\<lparr>ck_state := st, ck_updated_at := now\<rparr>) (eb_checkpoints s)"
  by (simp_all add: drop_checkpoint_def set_push_def set_checkpoint_def)

lemma complete_push_success_cases:
  assumes "complete_push_success W p d f e s = (s', x)"
  obtains (ok) "x = Inr ()" "eb_pushes s' = update_where (push_of p) (push_succeeded (je_now W)) (eb_pushes s)"
      "eb_checkpoints s' = delete_where (\<lambda>r. ck_operation_key r = enrollment_checkpoint_key p) (eb_checkpoints s)"
  | (failed) m where "x = Inl m" "s' = s"
proof -
  from assms have "run_tx (je_write W) (\<lambda>s.
     bind_result (one_push ''push row not found during successful completion'' (push_of p) (push_succeeded (je_now W)) s) (\<lambda>s.
     bind_result (upsert_mapping W d f e s) (\<lambda>s. Inr ((), drop_checkpoint (enrollment_checkpoint_key p) s)))) s = (s', x)"
    by (simp add: complete_push_success_def)
  then show thesis
  proof (cases rule: run_tx_cases)
    case (ran a)
    then obtain t where "upsert_mapping W d f e (set_push (push_of p) (push_succeeded (je_now W)) s) = Inr t"
        "s' = drop_checkpoint (enrollment_checkpoint_key p) t"
      by (auto simp: bind_result_eq_Inr one_push_eq)
    then show ?thesis using ok ran(3) upsert_mapping_rest [of W d f e _ t] by simp
  qed (use failed in auto)
qed

lemma complete_push_failure_cases:
  assumes "complete_push_failure W p m s = (s', x)"
  obtains (ok) "x = Inr ()" "eb_pushes s' = update_where (push_of p) (push_failed (je_now W) m) (eb_pushes s)"
      "eb_checkpoints s' = delete_where (\<lambda>r. ck_operation_key r = enrollment_checkpoint_key p) (eb_checkpoints s)"
  | (failed) e where "x = Inl e" "s' = s"
proof -
  have "run_tx (je_write W) (\<lambda>s.
     bind_result (one_push ''push row not found during failed completion'' (push_of p) (push_failed (je_now W) m) s) (\<lambda>s.
     Inr ((), drop_checkpoint (enrollment_checkpoint_key p) s))) s = (s', x)"
    using assms by (simp add: complete_push_failure_def)
  then show thesis
    by (cases rule: run_tx_cases) (use ok failed in \<open>auto simp: bind_result_eq_Inr one_push_eq\<close>)
qed

lemma record_recovery_cases:
  assumes "record_push_recovery_failure W p m manual s = (s', x)"
  obtains (ok) "x = Inr ()" "eb_pushes s' = update_where (push_of p) (push_failed (je_now W) m) (eb_pushes s)"
      "eb_checkpoints s' = (if manual then update_where (\<lambda>r. ck_operation_key r = enrollment_checkpoint_key p)
         (\<lambda>r. r\<lparr>ck_state := ''manual'', ck_updated_at := je_now W\<rparr>) (eb_checkpoints s) else eb_checkpoints s)"
  | (failed) e where "x = Inl e" "s' = s"
proof -
  have "run_tx (je_write W) (\<lambda>s.
     let s' = (if manual then set_checkpoint (\<lambda>r. ck_operation_key r = enrollment_checkpoint_key p) (je_now W) ''manual'' s else s)
     in bind_result (one_push ''push row not found during recovery persistence'' (push_of p) (push_failed (je_now W) m) s')
       (\<lambda>s. Inr ((), s))) s = (s', x)"
    using assms by (simp add: record_push_recovery_failure_def)
  then show thesis
    by (cases rule: run_tx_cases)
      (use ok failed in \<open>auto simp: bind_result_eq_Inr one_push_eq Let_def split: if_splits\<close>)
qed

lemma terminalize_cases:
  assumes "terminalize_authorized_failure W p m s = (s', x)"
  obtains (ok) "x = Inr ()"
      "eb_pushes s' = update_where (\<lambda>r. pu_id r = p \<and> unfinished r) (push_failed (je_now W) m) (eb_pushes s)"
      "eb_checkpoints s' = update_where (\<lambda>r. ck_operation_key r = enrollment_checkpoint_key p \<and> ck_state r = ''prepared'')
         (\<lambda>r. r\<lparr>ck_state := ''manual'', ck_updated_at := je_now W\<rparr>) (eb_checkpoints s)"
  | (failed) e where "x = Inl e" "s' = s"
  using assms by (cases "je_write W") (auto simp: terminalize_authorized_failure_def)

lemma mark_in_progress_cases:
  assumes "mark_push_in_progress W p s = (s', x)"
  obtains (ok) "x = Inr ()" "eb_pushes s' = update_where (push_of p)
       (\<lambda>r. r\<lparr>pu_status := ''in_progress'', pu_started_at := Some (je_now W)\<rparr>) (eb_pushes s)"
      "eb_checkpoints s' = eb_checkpoints s"
  | (failed) e where "x = Inl e" "s' = s"
  using assms by (cases "je_write W") (auto simp: mark_push_in_progress_def update_pushes_def changed_def)

lemma mark_operation_cases:
  assumes "mark_device_operation W k st s = (s', x)"
  obtains (ok) "x = Inr ()" "eb_pushes s' = eb_pushes s" "eb_checkpoints s' = update_where (\<lambda>r. ck_operation_key r = k)
       (\<lambda>r. r\<lparr>ck_state := operation_state_str st, ck_updated_at := je_now W\<rparr>) (eb_checkpoints s)"
  | (failed) e where "x = Inl e" "s' = s"
  using assms by (cases "je_write W") (auto simp: mark_device_operation_def update_checkpoints_def changed_def)

lemma finalize_rest:
  assumes "finalize_enrollment W i s = (s', x)"
  shows "eb_pushes s' = eb_pushes s \<and> eb_checkpoints s' = eb_checkpoints s"
proof -
  have "run_tx (je_write W) (\<lambda>s. bind_result (settle_enrollment ''enrollment not found during finalization'' (je_now W) i s)
       (\<lambda>s. Inr ((), s))) s = (s', x)"
    using assms by (simp add: finalize_enrollment_def)
  then show ?thesis
    by (cases rule: run_tx_cases) (auto simp: bind_result_eq_Inr dest: settle_enrollment_rest)
qed

text \<open>A transaction that starts an enrollment adds pending pushes under fresh ids, each with a
  prepared checkpoint and a target; one that retries a push does so for a failed one without a
  checkpoint.\<close>

lemma add_targets_adds:
  assumes "add_targets port W i ids n ds s = Inr (ts, s')"
  shows "\<exists>new. eb_pushes s' = eb_pushes s @ new \<and> map pu_id new = map tg_push_id ts \<and>
    (\<forall>r \<in> set new. pu_status r = ''pending'') \<and>
    eb_checkpoints s' = eb_checkpoints s @ map (\<lambda>t. prepared_row W (enrollment_checkpoint_key (tg_push_id t)) ''enrollment_push'') ts \<and>
    distinct (map pu_id new) \<and> set (map pu_id new) \<inter> pu_id ` set (eb_pushes s) = {}"
  using assms
proof (induction ds arbitrary: n s ts)
  case (Cons d ds)
  let ?r = "pending_push (ids n) i (dw_id d)"
  let ?c = "prepared_row W (enrollment_checkpoint_key (ids n)) ''enrollment_push''"
  let ?s = "s\<lparr>eb_pushes := eb_pushes s @ [?r], eb_checkpoints := eb_checkpoints s @ [?c]\<rparr>"
  obtain ts' where ts: "ts = \<lparr>tg_push_id = ids n, tg_device = d\<rparr> # ts'" "pu_id ?r \<notin> pu_id ` set (eb_pushes s)"
    "add_targets port W i ids (Suc n) ds ?s = Inr (ts', s')"
    using Cons.prems
    by (auto simp: bind_result_eq_Inr insert_push_def insert_checkpoint_def bail_def split: sum.splits if_splits)
  obtain new where new: "eb_pushes s' = eb_pushes ?s @ new" "map pu_id new = map tg_push_id ts'"
    "\<forall>r \<in> set new. pu_status r = ''pending''"
    "eb_checkpoints s' = eb_checkpoints ?s @ map (\<lambda>t. prepared_row W (enrollment_checkpoint_key (tg_push_id t)) ''enrollment_push'') ts'"
    "distinct (map pu_id new)" "set (map pu_id new) \<inter> pu_id ` set (eb_pushes ?s) = {}"
    using Cons.IH [OF ts(3)] by blast
  show ?case
    by (rule exI [of _ "?r # new"])
      (use new ts in \<open>auto simp: pending_push_def simp del: list.set_map\<close>)
qed simp

lemma start_enrollment_adds:
  assumes "start_enrollment C key port E actor employee via source quality bytes (fs, s) = ((fs', s'), c, x)"
  shows "s' = s \<and> c = None \<or>
    (\<exists>command new. (c = Some command \<or> c = None) \<and>
       eb_pushes s' = eb_pushes s @ new \<and> map pu_id new = map tg_push_id (dc_targets command) \<and>
       (\<forall>r \<in> set new. pu_status r = ''pending'') \<and>
       eb_checkpoints s' = eb_checkpoints s @ map (\<lambda>t. prepared_row \<lparr>je_write = se_write E, je_now = se_now E, je_uuid = []\<rparr>
         (enrollment_checkpoint_key (tg_push_id t)) ''enrollment_push'') (dc_targets command) \<and>
       distinct (map pu_id new) \<and> set (map pu_id new) \<inter> pu_id ` set (eb_pushes s) = {})"
proof (cases "guard_write (se_io E) (photo_relpath_of employee (se_enrollment E)) bytes fs")
  case (Inr r)
  obtain g fs1 where r: "r = (g, fs1)" by (cases r)
  obtain t y where tx: "run_tx (se_write E) (start_job C key port E actor employee via source quality
      (photo_relpath_of employee (se_enrollment E)) bytes) s = (t, y)"
    by (metis prod.exhaust)
  from tx show ?thesis
  proof (cases rule: run_tx_cases)
    case (ran command)
    obtain s1 ts where ts: "add_targets port \<lparr>je_write = se_write E, je_now = se_now E, je_uuid = []\<rparr> (se_enrollment E)
        (se_pushes E) 0 ts s1 = Inr (dc_targets command, t)" "eb_pushes s1 = eb_pushes s" "eb_checkpoints s1 = eb_checkpoints s"
      using ran(2)
      by (force simp: start_job_def bind_result_eq_Inr insert_face_def insert_enrollment_def set_face_def bail_def Let_def
          split: if_splits option.splits)
    have "s' = t" "c = Some command \<or> c = None"
      using assms Inr r tx ran(3) by (auto simp: start_enrollment_def split: if_splits)
    then show ?thesis using add_targets_adds [OF ts(1)] ts(2,3) by metis
  next
    case (failed e)
    then show ?thesis using assms Inr r tx by (auto simp: start_enrollment_def)
  qed
qed (use assms in \<open>auto simp: start_enrollment_def\<close>)

lemma retry_prepares:
  assumes "retry_enrollment_push C key port W accepting fs earlier i d s = (s', c, x)"
  shows "s' = s \<and> c = None \<or>
    (\<exists>r command. r \<in> set (eb_pushes s) \<and> pu_status r = ''failed'' \<and>
       \<not> has_checkpoint (enrollment_checkpoint_key (pu_id r)) s \<and>
       eb_pushes s' = update_where (push_of (pu_id r)) back_to_pending (eb_pushes s) \<and>
       eb_checkpoints s' = eb_checkpoints s @ [prepared_row W (enrollment_checkpoint_key (pu_id r)) ''enrollment_push''] \<and>
       (c = Some command \<or> c = None) \<and> map tg_push_id (dc_targets command) = [pu_id r])"
proof (cases "retry_setup C key port fs i d earlier")
  case (Inr q)
  obtain employee face name bytes device where q: "q = (employee, face, name, bytes, device)" by (cases q)
  obtain t y where tx: "run_tx (je_write W) (retry_job W i d) s = (t, y)" by (metis prod.exhaust)
  from tx show ?thesis
  proof (cases rule: run_tx_cases)
    case (ran p)
    obtain r where r: "find (\<lambda>r. pu_enrollment_id r = i \<and> pu_device_id r = d) (eb_pushes s) = Some r" "p = pu_id r"
      "pu_status r = ''failed''" "\<not> has_checkpoint (enrollment_checkpoint_key (pu_id r)) s"
      "eb_pushes t = update_where (push_of (pu_id r)) back_to_pending (eb_pushes s)"
      "eb_checkpoints t = eb_checkpoints s @ [prepared_row W (enrollment_checkpoint_key (pu_id r)) ''enrollment_push'']"
      using ran(2) by (auto simp: retry_job_def failed_push_def insert_checkpoint_def bail_def bind_result_eq_Inr
          split: option.splits if_splits)
    have "s' = t" "c = (if accepting then Some \<lparr>dc_enrollment_id = i, dc_face_id = face, dc_photo = bytes,
         dc_employee_id = employee, dc_employee_name = name,
         dc_targets = [\<lparr>tg_push_id = p, tg_device = device\<rparr>]\<rparr> else None)"
      using assms Inr q tx ran(3) by (auto simp: retry_enrollment_push_def split: if_splits)
    then show ?thesis
      using r find_Some_in [OF r(1)]
      by (intro disjI2 exI [of _ r] exI [of _ "\<lparr>dc_enrollment_id = i, dc_face_id = face, dc_photo = bytes,
         dc_employee_id = employee, dc_employee_name = name,
         dc_targets = [\<lparr>tg_push_id = p, tg_device = device\<rparr>]\<rparr>"]) auto
  next
    case (failed e)
    then show ?thesis using assms Inr q tx by (auto simp: retry_enrollment_push_def)
  qed
qed (use assms in \<open>auto simp: retry_enrollment_push_def\<close>)

end
