(* ===== verification/Employees.thy ===== *)
theory Employees
  imports Departments Enrollments Report
begin

text \<open>
  Employees (employees/service.rs, handlers.rs, models.rs): hiring with a salary and its unit, the
  list with its filters, updates under optimistic locking, all within the department of the actor,
  and deactivation, which also removes the enrolled photos.  A row may have more columns than the
  service writes (the face of Enrollments); they are the extension of the record, and a new row has
  their defaults.
\<close>

section \<open>Data\<close>

record employee_response =
  ey_id :: string
  ey_employee_code :: string
  ey_name :: string
  ey_department_id :: string
  ey_status :: string
  ey_position :: string
  ey_hire_date :: "string option"
  ey_terminated_on :: "string option"
  ey_base_salary_cents :: i64
  ey_salary_kind :: "salary_kind option"
  ey_deleted_at :: "string option"
  ey_version :: i64
  ey_created_at :: string
  ey_updated_at :: string

record create_employee_request =
  cm_employee_code :: string
  cm_name :: string
  cm_department_id :: string
  cm_position :: "string option"
  cm_hire_date :: "string option"
  cm_base_salary_cents :: "i64 option"
  cm_salary_kind :: "salary_kind option"

record update_employee_request =
  um_name :: "string option"
  um_department_id :: "string option"
  um_position :: "string option"
  um_hire_date :: "string option"
  um_base_salary_cents :: "i64 option"
  um_salary_kind :: "salary_kind option"
  um_version :: i64

record employee_list_query =
  eq_limit :: "i64 option"
  eq_offset :: "i64 option"
  eq_name :: "string option"
  eq_department_id :: "string option"
  eq_status :: "string option"

section \<open>Dates and rows\<close>

definition epoch_to_iso_date_opt :: "chrono \<Rightarrow> i64 option \<Rightarrow> string option" where
  "epoch_to_iso_date_opt c epoch =
     Option.bind epoch (\<lambda>t. if date_ok c (t div 86400) then Some (format_date c (t div 86400)) else None)"

definition parse_hire_date :: "chrono \<Rightarrow> string option \<Rightarrow> i64 option result" where
  "parse_hire_date c input =
     (case input of
        Some s \<Rightarrow>
          if s \<noteq> [] then
            (case parse_date c s of
               None \<Rightarrow> Inl (Validation ''VALIDATION_ERROR'' ''hire_date must be YYYY-MM-DD'')
             | Some date \<Rightarrow> Inr (Some (date * 86400)))
          else Inr None
      | None \<Rightarrow> Inr None)"

definition row_to_employee :: "auth_libs \<Rightarrow> chrono \<Rightarrow> 'a employee_row_scheme \<Rightarrow> employee_response" where
  "row_to_employee L c r = \<lparr>ey_id = em_id r, ey_employee_code = em_code r, ey_name = em_name r,
     ey_department_id = em_department_id r, ey_status = em_status r, ey_position = em_position r,
     ey_hire_date = epoch_to_iso_date_opt c (em_hire_date r),
     ey_terminated_on = epoch_to_iso_date_opt c (em_terminated_on r),
     ey_base_salary_cents = em_base_salary_cents r, ey_salary_kind = Option.bind (em_salary_kind r) from_db_str,
     ey_deleted_at = map_option (epoch_to_iso L) (em_deleted_at r), ey_version = em_version r,
     ey_created_at = epoch_to_iso L (em_created_at r), ey_updated_at = epoch_to_iso L (em_updated_at r)\<rparr>"

text \<open>The constraints of the table (migrations 001, 016 and 024); a new or moved employee refers to
  a department.\<close>

definition employee_checks :: "'a employee_row_scheme \<Rightarrow> bool" where
  "employee_checks r \<longleftrightarrow> em_status r \<in> {''active'', ''inactive''} \<and>
     none_or (\<lambda>k. k \<in> {''hourly'', ''daily'', ''monthly''}) (em_salary_kind r)"

definition employee_violation :: "department_row list \<Rightarrow> 'a employee_row_scheme list \<Rightarrow> string option" where
  "employee_violation deps t =
     (if \<not> list_all employee_checks t then Some ''CHECK constraint failed: employees''
      else if \<not> distinct (map em_id t) then Some ''UNIQUE constraint failed: employees.id''
      else if \<not> distinct (map em_code t) then Some ''UNIQUE constraint failed: employees.employee_code''
      else if \<not> distinct (List.map_filter em_face_id t) then Some ''UNIQUE constraint failed: employees.face_id''
      else if \<not> list_all (\<lambda>r. em_department_id r \<in> de_id ` set deps) t then Some ''FOREIGN KEY constraint failed''
      else None)"

section \<open>Service\<close>

definition active_department :: "department_row list \<Rightarrow> string \<Rightarrow> bool" where
  "active_department deps i \<longleftrightarrow> find (\<lambda>d. de_id d = i \<and> de_status d = ''active'') deps \<noteq> None"

definition department_unavailable :: "string \<Rightarrow> app_error" where
  "department_unavailable i =
     NotFound ''DEPARTMENT_NOT_FOUND'' (''Department '' @ quoted i @ '' not found or is inactive'')"

definition salary_invalid :: app_error where
  "salary_invalid = Validation ''SALARY_INVALID'' ''base_salary_cents must be greater than zero''"

definition employee_not_found :: "string \<Rightarrow> app_error" where
  "employee_not_found i = NotFound ''EMPLOYEE_NOT_FOUND'' (''Employee '' @ quoted i @ '' not found'')"

definition get_employee_by_id ::
  "auth_libs \<Rightarrow> chrono \<Rightarrow> 'a employee_row_scheme list \<Rightarrow> string \<Rightarrow> employee_response result" where
  "get_employee_by_id L c t i =
     (case find (\<lambda>r. em_id r = i) t of
        None \<Rightarrow> Inl (employee_not_found i) | Some r \<Rightarrow> Inr (row_to_employee L c r))"

text \<open>What is checked before the insert, in the order of the code: the department, the date, the
  salary and its unit.\<close>

definition hiring_terms ::
  "chrono \<Rightarrow> department_row list \<Rightarrow> create_employee_request \<Rightarrow> (i64 option \<times> i64 \<times> salary_kind) result" where
  "hiring_terms c deps req =
     (if \<not> active_department deps (cm_department_id req) then Inl (department_unavailable (cm_department_id req))
      else bind_result (parse_hire_date c (cm_hire_date req)) (\<lambda>hire_date.
        case cm_base_salary_cents req of
          None \<Rightarrow> Inl (Validation ''SALARY_REQUIRED'' ''base_salary_cents is required and must be greater than zero'')
        | Some salary \<Rightarrow>
            if salary \<le> 0 then Inl salary_invalid
            else (case cm_salary_kind req of
                None \<Rightarrow> Inl (Validation ''SALARY_KIND_REQUIRED'' ''salary_kind is required: one of hourly, daily, monthly'')
              | Some kind \<Rightarrow> Inr (hire_date, salary, kind))))"

definition new_employee ::
  "staff_env \<Rightarrow> 'a \<Rightarrow> create_employee_request \<Rightarrow> i64 option \<Rightarrow> i64 \<Rightarrow> salary_kind \<Rightarrow> 'a employee_row_scheme" where
  "new_employee E defaults req hire_date salary kind = \<lparr>em_id = sn_uuid E, em_code = cm_employee_code req,
     em_name = cm_name req, em_department_id = cm_department_id req, em_status = ''active'',
     em_position = (case cm_position req of None \<Rightarrow> [] | Some p \<Rightarrow> p), em_hire_date = hire_date,
     em_base_salary_cents = salary, em_salary_kind = Some (as_db_str kind), em_terminated_on = None,
     em_face_id = None, em_deleted_at = None, em_version = 1, em_created_at = sn_now E, em_updated_at = sn_now E,
     \<dots> = defaults\<rparr>"

definition create_employee_queued ::
  "auth_libs \<Rightarrow> chrono \<Rightarrow> staff_env \<Rightarrow> 'a \<Rightarrow> department_row list \<Rightarrow> create_employee_request
    \<Rightarrow> 'a employee_row_scheme list \<Rightarrow> 'a employee_row_scheme list \<times> employee_response result" where
  "create_employee_queued L c E defaults deps req t =
     (case hiring_terms c deps req of
        Inl e \<Rightarrow> (t, Inl e)
      | Inr (hire_date, salary, kind) \<Rightarrow>
          (case checked_insert (sn_write E) (employee_violation deps) (new_employee E defaults req hire_date salary kind) t of
             (t', Inl e) \<Rightarrow>
               (t', Inl (if unique_violation ''employee_code'' e
                  then Conflict ''EMPLOYEE_CODE_EXISTS'' (''Employee code '' @ quoted (cm_employee_code req) @ '' is already in use'')
                  else from_db_write e))
           | (t', Inr n) \<Rightarrow> (t', get_employee_by_id L c t' (sn_uuid E))))"


section \<open>The list\<close>

text \<open>\<open>LIKE\<close>: \<open>%\<close> matches any text, \<open>_\<close> one character of UTF-8, and letters of ASCII match in
  either case.\<close>

definition continuation_byte :: "char \<Rightarrow> bool" where
  "continuation_byte ch \<longleftrightarrow> 128 \<le> byte ch \<and> byte ch < 192"

function sql_like :: "string \<Rightarrow> string \<Rightarrow> bool" where
  "sql_like [] s \<longleftrightarrow> s = []"
| "sql_like (p # ps) [] \<longleftrightarrow> p = CHR ''%'' \<and> sql_like ps []"
| "sql_like (p # ps) (ch # s) \<longleftrightarrow>
     (if p = CHR ''%'' then sql_like ps (ch # s) \<or> sql_like (p # ps) s
      else if p = CHR ''_'' then sql_like ps (dropWhile continuation_byte s)
      else ascii_lower p = ascii_lower ch \<and> sql_like ps s)"
  by pat_completeness auto
termination
  by (relation "measure (\<lambda>(p, s). length p + length s)") (auto simp: less_Suc_eq_le intro: le_trans [OF length_dropWhile_le])

definition listed_employees ::
  "employee_list_query \<Rightarrow> 'a employee_row_scheme list \<Rightarrow> 'a employee_row_scheme list" where
  "listed_employees query t =
     filter (\<lambda>r. em_status r = (case eq_status query of None \<Rightarrow> ''active'' | Some s \<Rightarrow> s) \<and>
       none_or (\<lambda>name. sql_like (''%'' @ name @ ''%'') (em_name r)) (eq_name query) \<and>
       none_or (\<lambda>dept_id. em_department_id r = dept_id) (eq_department_id query)) t"

definition list_employees_page ::
  "auth_libs \<Rightarrow> chrono \<Rightarrow> 'a employee_row_scheme list \<Rightarrow> employee_list_query
    \<Rightarrow> employee_response paginated_response" where
  "list_employees_page L c t query =
     (let limit = page_limit (eq_limit query); offset = page_offset (eq_offset query);
          matching = listed_employees query t
      in \<lparr>pr_data = map (row_to_employee L c) (sql_page limit offset (sort_key em_name matching)),
          pr_total = int (length matching), pr_limit = limit, pr_offset = offset\<rparr>)"

section \<open>Updates\<close>

definition employee_sets_empty :: "update_employee_request \<Rightarrow> bool" where
  "employee_sets_empty req \<longleftrightarrow> um_name req = None \<and> um_department_id req = None \<and> um_position req = None \<and>
     um_hire_date req = None \<and> um_base_salary_cents req = None \<and> um_salary_kind req = None"

text \<open>The new hire date: the outer option says whether the column is set, the inner one is NULL for
  the empty text.\<close>

definition hire_date_set :: "chrono \<Rightarrow> string option \<Rightarrow> i64 option option result" where
  "hire_date_set c given =
     (case given of
        None \<Rightarrow> Inr None
      | Some day \<Rightarrow>
          if day = [] then Inr (Some None)
          else bind_result (parse_hire_date c (Some day)) (\<lambda>epoch. case epoch of
              None \<Rightarrow> Inl (Validation ''VALIDATION_ERROR'' ''hire_date must be YYYY-MM-DD'')
            | Some t \<Rightarrow> Inr (Some (Some t))))"

definition employee_update_checks ::
  "chrono \<Rightarrow> department_row list \<Rightarrow> update_employee_request \<Rightarrow> i64 option option result" where
  "employee_update_checks c deps req =
     (if \<not> none_or (active_department deps) (um_department_id req)
      then Inl (department_unavailable (the (um_department_id req)))
      else bind_result (hire_date_set c (um_hire_date req)) (\<lambda>hire_date.
        if \<not> none_or (\<lambda>salary. salary > 0) (um_base_salary_cents req) then Inl salary_invalid else Inr hire_date))"

definition employee_sets ::
  "i64 \<Rightarrow> i64 option option \<Rightarrow> update_employee_request \<Rightarrow> 'a employee_row_scheme \<Rightarrow> 'a employee_row_scheme" where
  "employee_sets now hire_date req r =
     r\<lparr>em_name := or_keep (um_name req) (em_name r),
       em_department_id := or_keep (um_department_id req) (em_department_id r),
       em_position := or_keep (um_position req) (em_position r),
       em_hire_date := or_keep hire_date (em_hire_date r),
       em_base_salary_cents := or_keep (um_base_salary_cents req) (em_base_salary_cents r),
       em_salary_kind := or_keep (map_option (\<lambda>kind. Some (as_db_str kind)) (um_salary_kind req)) (em_salary_kind r),
       em_updated_at := now, em_version := em_version r + 1\<rparr>"

definition employee_stale :: "'a employee_row_scheme list \<Rightarrow> string \<Rightarrow> app_error" where
  "employee_stale t i =
     (if \<exists>r \<in> set t. em_id r = i
      then Conflict ''VERSION_CONFLICT''
        ''Employee was modified by another request. Fetch the latest version and retry.''
      else employee_not_found i)"

definition update_employee_queued ::
  "auth_libs \<Rightarrow> chrono \<Rightarrow> staff_env \<Rightarrow> department_row list \<Rightarrow> string \<Rightarrow> update_employee_request
    \<Rightarrow> 'a employee_row_scheme list \<Rightarrow> 'a employee_row_scheme list \<times> employee_response result" where
  "update_employee_queued L c E deps i req t =
     (case employee_update_checks c deps req of
        Inl e \<Rightarrow> (t, Inl e)
      | Inr hire_date \<Rightarrow>
          if employee_sets_empty req then (t, get_employee_by_id L c t i)
          else (case checked_update (sn_write E) (employee_violation deps)
                  (\<lambda>r. em_id r = i \<and> em_version r = um_version req) (employee_sets (sn_now E) hire_date req) t of
             (t', Inl e) \<Rightarrow> (t', Inl (from_db_write e))
           | (t', Inr n) \<Rightarrow> if n = 0 then (t', Inl (employee_stale t' i)) else (t', get_employee_by_id L c t' i)))"

definition deactivated :: "i64 \<Rightarrow> 'a employee_row_scheme \<Rightarrow> 'a employee_row_scheme" where
  "deactivated now r = r\<lparr>em_status := ''inactive'', em_deleted_at := Some now, em_terminated_on := Some now,
     em_updated_at := now, em_version := em_version r + 1\<rparr>"

definition deactivate_employee_queued ::
  "staff_env \<Rightarrow> department_row list \<Rightarrow> string \<Rightarrow> 'a employee_row_scheme list
    \<Rightarrow> 'a employee_row_scheme list \<times> unit result" where
  "deactivate_employee_queued E deps i t =
     (case checked_update (sn_write E) (employee_violation deps) (\<lambda>r. em_id r = i \<and> em_status r = ''active'')
         (deactivated (sn_now E)) t of
        (t', Inl e) \<Rightarrow> (t', Inl (from_db_write e))
      | (t', Inr n) \<Rightarrow> if n = 0
          then (t', Inl (NotFound ''EMPLOYEE_NOT_FOUND'' (''Employee '' @ quoted i @ '' not found or already inactive'')))
          else (t', Inr ()))"

section \<open>Handlers\<close>

definition create_employee_invalid :: "create_employee_request \<Rightarrow> string list" where
  "create_employee_invalid req =
     (if length_between 1 50 (cm_employee_code req) then [] else [''Employee code is required (1-50 chars)'']) @
     (if length_between 1 200 (cm_name req) then [] else [''Name is required (1-200 chars)'']) @
     (if 1 \<le> length (cm_department_id req) then [] else [''Department ID is required'']) @
     (if none_or (\<lambda>p. length p \<le> 100) (cm_position req) then [] else [''Position max 100 chars''])"

definition update_employee_invalid :: "update_employee_request \<Rightarrow> string list" where
  "update_employee_invalid req =
     (if none_or (length_between 1 200) (um_name req) then [] else [''length'']) @
     (if none_or (\<lambda>p. length p \<le> 100) (um_position req) then [] else [''Position max 100 chars''])"

definition create_employee ::
  "auth_libs \<Rightarrow> chrono \<Rightarrow> staff_env \<Rightarrow> 'a \<Rightarrow> department_row list \<Rightarrow> claims \<Rightarrow> create_employee_request
    \<Rightarrow> 'a employee_row_scheme list \<Rightarrow> 'a employee_row_scheme list \<times> employee_response result" where
  "create_employee L c E defaults deps actor body t =
     (if create_employee_invalid body \<noteq> []
      then (t, Inl (Validation ''VALIDATION_ERROR'' (validator_text L (create_employee_invalid body))))
      else if \<not> permits (scope_from_claims actor) (Some (cm_department_id body)) then (t, Inl Forbidden)
      else create_employee_queued L c E defaults deps body t)"

definition list_employees ::
  "auth_libs \<Rightarrow> chrono \<Rightarrow> claims \<Rightarrow> employee_list_query \<Rightarrow> 'a employee_row_scheme list
    \<Rightarrow> employee_response paginated_response" where
  "list_employees L c actor query t = list_employees_page L c t
     (case scope_department_id (scope_from_claims actor) of
        None \<Rightarrow> query | Some dept \<Rightarrow> query\<lparr>eq_department_id := Some dept\<rparr>)"

definition get_employee ::
  "auth_libs \<Rightarrow> chrono \<Rightarrow> claims \<Rightarrow> string \<Rightarrow> 'a employee_row_scheme list \<Rightarrow> employee_response result" where
  "get_employee L c actor i t =
     bind_result (get_employee_by_id L c t i) (\<lambda>employee.
       if permits (scope_from_claims actor) (Some (ey_department_id employee)) then Inr employee
       else Inl (employee_not_found i))"

definition update_employee ::
  "auth_libs \<Rightarrow> chrono \<Rightarrow> staff_env \<Rightarrow> department_row list \<Rightarrow> claims \<Rightarrow> string \<Rightarrow> update_employee_request
    \<Rightarrow> 'a employee_row_scheme list \<Rightarrow> 'a employee_row_scheme list \<times> employee_response result" where
  "update_employee L c E deps actor i body t =
     (if update_employee_invalid body \<noteq> []
      then (t, Inl (Validation ''VALIDATION_ERROR'' (validator_text L (update_employee_invalid body))))
      else (case get_employee_by_id L c t i of
          Inl e \<Rightarrow> (t, Inl e)
        | Inr existing \<Rightarrow>
            if \<not> permits (scope_from_claims actor) (Some (ey_department_id existing)) then (t, Inl (employee_not_found i))
            else if \<not> none_or (\<lambda>dept. permits (scope_from_claims actor) (Some dept)) (um_department_id body)
            then (t, Inl Forbidden)
            else update_employee_queued L c E deps i body t))"

text \<open>The handler of a deactivation: the photos are removed whatever the readers will answer, a
  failure of that is only logged, and the readers are told through a request to the worker.\<close>

definition deactivate_employee ::
  "staff_env \<Rightarrow> job_env \<Rightarrow> (string \<Rightarrow> string + unit) \<Rightarrow> department_row list \<Rightarrow> string \<Rightarrow> file_system \<times> face_store
    \<Rightarrow> (file_system \<times> face_store) \<times> string list \<times> unit result" where
  "deactivate_employee E W io deps i fss =
     (case deactivate_employee_queued E deps i (eb_employees (snd fss)) of
        (t, Inl e) \<Rightarrow> ((fst fss, (snd fss)\<lparr>eb_employees := t\<rparr>), [], Inl e)
      | (t, Inr u) \<Rightarrow>
          (case purge_enrolled_faces W io i (fst fss, (snd fss)\<lparr>eb_employees := t\<rparr>) of
             (fss', x) \<Rightarrow> (fss', [i], Inr ())))"

section \<open>The table under any sequence of operations\<close>

text \<open>Each operation comes with the departments of its moment.\<close>

datatype 'a employee_op =
    Create_Employee staff_env 'a "department_row list" claims create_employee_request
  | Update_Employee staff_env "department_row list" claims string update_employee_request
  | Deactivate_Employee staff_env "department_row list" string

fun employee_run ::
  "auth_libs \<Rightarrow> chrono \<Rightarrow> 'a employee_op \<Rightarrow> 'a employee_row_scheme list
    \<Rightarrow> 'a employee_row_scheme list \<times> unit result" where
  "employee_run L c (Create_Employee E x deps actor req) t = map_prod id forget (create_employee L c E x deps actor req t)"
| "employee_run L c (Update_Employee E deps actor i req) t = map_prod id forget (update_employee L c E deps actor i req t)"
| "employee_run L c (Deactivate_Employee E deps i) t = deactivate_employee_queued E deps i t"

definition employee_target :: "'a employee_op \<Rightarrow> (string \<times> i64) option" where
  "employee_target op = (case op of
     Update_Employee E deps actor i req \<Rightarrow> if employee_sets_empty req then None else Some (i, um_version req)
   | _ \<Rightarrow> None)"


lemma employee_violation_None:
  "employee_violation deps t = None \<longleftrightarrow>
     list_all employee_checks t \<and> distinct (map em_id t) \<and> distinct (map em_code t) \<and>
     distinct (List.map_filter em_face_id t) \<and> list_all (\<lambda>r. em_department_id r \<in> de_id ` set deps) t"
  by (simp add: employee_violation_def)

lemma employee_sets_simps [simp]:
  "em_id (employee_sets now hire_date req r) = em_id r" "em_version (employee_sets now hire_date req r) = em_version r + 1"
  "em_department_id (employee_sets now hire_date req r) = or_keep (um_department_id req) (em_department_id r)"
  "em_status (employee_sets now hire_date req r) = em_status r"
  "em_terminated_on (employee_sets now hire_date req r) = em_terminated_on r"
  "em_deleted_at (employee_sets now hire_date req r) = em_deleted_at r"
  "em_face_id (employee_sets now hire_date req r) = em_face_id r"
  by (simp_all add: employee_sets_def)

lemma deactivated_simps [simp]:
  "em_id (deactivated now r) = em_id r" "em_version (deactivated now r) = em_version r + 1"
  "em_department_id (deactivated now r) = em_department_id r" "em_status (deactivated now r) = ''inactive''"
  by (simp_all add: deactivated_def)

lemma row_to_employee_department [simp]: "ey_department_id (row_to_employee L c r) = em_department_id r"
  by (simp add: row_to_employee_def)

lemma get_employee_in: "i \<in> em_id ` set t \<Longrightarrow> \<exists>d. get_employee_by_id L c t i = Inr d"
  by (auto simp: get_employee_by_id_def find_None_iff split: option.splits)

text \<open>What each operation writes.\<close>

lemma create_employee_cases:
  assumes "create_employee L c E defaults deps actor req t = (t', x)"
  obtains (same) e where "t' = t" "x = Inl e"
  | (new) hire_date salary kind where "t' = t @ [new_employee E defaults req hire_date salary kind]"
      "x = get_employee_by_id L c t' (sn_uuid E)" "employee_violation deps t' = None"
      "hiring_terms c deps req = Inr (hire_date, salary, kind)" "create_employee_invalid req = []"
      "permits (scope_from_claims actor) (Some (cm_department_id req))"
proof (cases "create_employee_invalid req = [] \<and> permits (scope_from_claims actor) (Some (cm_department_id req))")
  case True
  show thesis
  proof (cases "hiring_terms c deps req")
    case (Inl e)
    then show thesis using assms True by (intro same) (auto simp: create_employee_def create_employee_queued_def)
  next
    case (Inr terms)
    obtain hire_date salary kind where terms: "terms = (hire_date, salary, kind)" by (rule prod_cases3)
    obtain t1 y where w: "checked_insert (sn_write E) (employee_violation deps)
        (new_employee E defaults req hire_date salary kind) t = (t1, y)" by fastforce
    from w show thesis
      using assms True Inr terms w same new
      by (cases rule: checked_insert_cases) (auto simp: create_employee_def create_employee_queued_def)
  qed
qed (use assms same in \<open>auto simp: create_employee_def split: if_splits\<close>)

lemma update_employee_cases:
  assumes "update_employee L c E deps actor i req t = (t', x)"
  obtains (same) "t' = t" "\<And>a. x = Inr a \<Longrightarrow> employee_sets_empty req"
  | (set) hire_date existing where
      "t' = update_where (\<lambda>r. em_id r = i \<and> em_version r = um_version req) (employee_sets (sn_now E) hire_date req) t"
      "\<not> employee_sets_empty req" "employee_violation deps t' = None" "x = get_employee_by_id L c t' i" "\<exists>d. x = Inr d"
      "\<exists>r \<in> set t. em_id r = i \<and> em_version r = um_version req"
      "employee_update_checks c deps req = Inr hire_date" "find (\<lambda>r. em_id r = i) t = Some existing"
      "permits (scope_from_claims actor) (Some (em_department_id existing))"
      "none_or (\<lambda>dept. permits (scope_from_claims actor) (Some dept)) (um_department_id req)"
proof -
  consider (stop) e where "t' = t" "x = Inl e"
    | (empty) "t' = t" "employee_sets_empty req"
    | (go) existing hire_date where "find (\<lambda>r. em_id r = i) t = Some existing"
        "permits (scope_from_claims actor) (Some (em_department_id existing))"
        "none_or (\<lambda>dept. permits (scope_from_claims actor) (Some dept)) (um_department_id req)"
        "employee_update_checks c deps req = Inr hire_date" "\<not> employee_sets_empty req"
        "update_employee_queued L c E deps i req t = (t', x)"
    using assms
    by (cases "employee_update_checks c deps req")
      (auto simp: update_employee_def update_employee_queued_def get_employee_by_id_def split: if_splits option.splits)
  then show thesis
  proof cases
    case stop
    then show thesis using same by simp
  next
    case empty
    then show thesis using same by simp
  next
    case go
    let ?P = "\<lambda>r. em_id r = i \<and> em_version r = um_version req"
    obtain t1 y where w: "checked_update (sn_write E) (employee_violation deps) ?P (employee_sets (sn_now E) hire_date req) t
        = (t1, y)" by fastforce
    have u: "(t', x) = (case (t1, y) of (t', Inl e) \<Rightarrow> (t', Inl (from_db_write e))
         | (t', Inr n) \<Rightarrow> if n = 0 then (t', Inl (employee_stale t' i)) else (t', get_employee_by_id L c t' i))"
      using go w by (simp add: update_employee_queued_def)
    from w show thesis
    proof (cases rule: checked_update_cases)
      case ran
      show thesis
      proof (cases "rows_affected ?P t = 0")
        case True
        then have "t1 = t" using ran(1) by (simp add: rows_affected_0 update_where_none)
        then show thesis using u ran(2) True by (intro same) auto
      next
        case hit: False
        then have r: "\<exists>r \<in> set t. ?P r" by (simp add: rows_affected_0)
        have "map em_id t1 = map em_id t" unfolding ran(1) by (rule map_update_where) simp
        then have "i \<in> em_id ` set t1" using r by (metis (mono_tags, lifting) image_eqI set_map)
        then have "\<exists>d. get_employee_by_id L c t1 i = Inr d" by (rule get_employee_in)
        then show thesis using u ran hit go r by (intro set) auto
      qed
    qed (use u same in auto)
  qed
qed

lemma deactivate_employee_queued_cases:
  assumes "deactivate_employee_queued E deps i t = (t', x)"
  obtains (same) e where "t' = t" "x = Inl e"
  | (gone) "t' = update_where (\<lambda>r. em_id r = i \<and> em_status r = ''active'') (deactivated (sn_now E)) t" "x = Inr ()"
      "employee_violation deps t' = None" "\<exists>r \<in> set t. em_id r = i \<and> em_status r = ''active''"
proof -
  let ?P = "\<lambda>r. em_id r = i \<and> em_status r = ''active''"
  obtain t1 y where w: "checked_update (sn_write E) (employee_violation deps) ?P (deactivated (sn_now E)) t = (t1, y)"
    by fastforce
  from w show thesis
  proof (cases rule: checked_update_cases)
    case ran
    show thesis
    proof (cases "rows_affected ?P t = 0")
      case True
      then have "t1 = t" using ran(1) by (simp add: rows_affected_0 update_where_none)
      then show thesis using assms w ran True same by (auto simp: deactivate_employee_queued_def)
    next
      case False
      then have "\<exists>r \<in> set t. ?P r" by (simp add: rows_affected_0)
      then show thesis using assms w ran False gone by (auto simp: deactivate_employee_queued_def)
    qed
  qed (use assms w same in \<open>auto simp: deactivate_employee_queued_def\<close>)
qed

lemma employee_run_rows:
  "versioned_step em_id em_version (employee_target op) t (fst (employee_run L c op t))"
proof (cases op)
  case (Create_Employee E defaults deps actor req)
  obtain t' x where r: "create_employee L c E defaults deps actor req t = (t', x)"
    by (cases "create_employee L c E defaults deps actor req t")
  then have "versioned_step em_id em_version None t t'"
    by (cases rule: create_employee_cases)
      (auto simp: employee_violation_None intro!: versioned_step_refl versioned_step_snoc)
  then show ?thesis using Create_Employee r by (simp add: employee_target_def)
next
  case (Update_Employee E deps actor i req)
  obtain t' x where u: "update_employee L c E deps actor i req t = (t', x)"
    by (cases "update_employee L c E deps actor i req t")
  then have "versioned_step em_id em_version (employee_target op) t t'"
    by (cases rule: update_employee_cases)
      (auto simp: Update_Employee employee_target_def versioned_row_def intro!: versioned_step_refl versioned_step_update)
  then show ?thesis using Update_Employee u by simp
next
  case (Deactivate_Employee E deps i)
  obtain t' x where d: "deactivate_employee_queued E deps i t = (t', x)"
    by (cases "deactivate_employee_queued E deps i t")
  then have "versioned_step em_id em_version None t t'"
    by (cases rule: deactivate_employee_queued_cases)
      (auto simp: versioned_row_def intro!: versioned_step_refl versioned_step_update)
  then show ?thesis using Deactivate_Employee d by (simp add: employee_target_def)
qed

lemma employee_run_hit:
  assumes "distinct (map em_id t)" "employee_target op = Some (i, v)" "employee_run L c op t = (t', Inr a)"
  shows "\<exists>r \<in> set t. em_id r = i \<and> em_version r = v \<and> r \<notin> set t'"
proof -
  obtain E deps actor req where op: "op = Update_Employee E deps actor i req" "\<not> employee_sets_empty req" "v = um_version req"
    using assms(2) by (auto simp: employee_target_def split: employee_op.splits if_splits)
  obtain x where "update_employee L c E deps actor i req t = (t', Inr x)"
    using assms(3) op(1) by (cases "update_employee L c E deps actor i req t") auto
  then show ?thesis
  proof (cases rule: update_employee_cases)
    case (set hire_date existing)
    then obtain r where r: "r \<in> set t" "em_id r = i" "em_version r = um_version req" by blast
    moreover have "r \<notin> set t'"
      unfolding set(1) by (rule updated_row_gone [where version = em_version and key = em_id]) (use r assms(1) in auto)
    ultimately show ?thesis using op(3) by blast
  qed (use op(2) in auto)
qed

interpretation employees: versioned em_id em_version employee_target "employee_run L c" for L c
  by unfold_locales (rule employee_run_rows, rule employee_run_hit)


section \<open>Pay terms\<close>

definition payable :: "'a employee_row_scheme \<Rightarrow> bool" where
  "payable r \<longleftrightarrow> 0 < em_base_salary_cents r \<and> require_salary_kind (em_salary_kind r) \<noteq> None"

lemma from_db_as_db [simp]: "from_db_str (as_db_str k) = Some k"
  by (cases k) (simp_all add: from_db_str_def)

lemma hiring_terms_salary: "hiring_terms c deps req = Inr (hire_date, salary, kind) \<Longrightarrow> 0 < salary"
  by (cases "cm_base_salary_cents req"; cases "cm_salary_kind req")
    (auto simp: hiring_terms_def bind_result_eq_Inr split: if_splits)

lemma payable_new: "hiring_terms c deps req = Inr (hire_date, salary, kind) \<Longrightarrow> payable (new_employee E x req hire_date salary kind)"
  by (simp add: payable_def new_employee_def require_salary_kind_def hiring_terms_salary)

lemma payable_sets:
  assumes "employee_update_checks c deps req = Inr hire_date" "payable r"
  shows "payable (employee_sets now h req r)"
proof -
  have "none_or (\<lambda>salary. salary > 0) (um_base_salary_cents req)"
    using assms(1) by (auto simp: employee_update_checks_def bind_result_eq_Inr split: if_splits)
  then show ?thesis
    using assms(2) by (cases "um_base_salary_cents req"; cases "um_salary_kind req")
      (auto simp: payable_def employee_sets_def require_salary_kind_def)
qed

lemma payable_deactivated [simp]: "payable (deactivated now r) = payable r"
  by (simp add: payable_def deactivated_def)

lemma employee_run_payable:
  assumes "list_all payable t"
  shows "list_all payable (fst (employee_run L c op t))"
proof (cases op)
  case (Create_Employee E x deps actor req)
  obtain t' y where r: "create_employee L c E x deps actor req t = (t', y)"
    by (cases "create_employee L c E x deps actor req t")
  then have "list_all payable t'"
    by (cases rule: create_employee_cases) (use assms payable_new in auto)
  then show ?thesis using Create_Employee r by simp
next
  case (Update_Employee E deps actor i req)
  obtain t' y where u: "update_employee L c E deps actor i req t = (t', y)"
    by (cases "update_employee L c E deps actor i req t")
  then have "list_all payable t'"
  proof (cases rule: update_employee_cases)
    case (set hire_date existing)
    show ?thesis using assms by (auto simp: set(1) list_all_iff in_set_update_where intro!: payable_sets [OF set(7)])
  qed (use assms in simp)
  then show ?thesis using Update_Employee u by simp
next
  case (Deactivate_Employee E deps i)
  obtain t' y where d: "deactivate_employee_queued E deps i t = (t', y)" by (cases "deactivate_employee_queued E deps i t")
  then have "list_all payable t'"
    by (cases rule: deactivate_employee_queued_cases) (use assms in \<open>auto simp: list_all_iff in_set_update_where\<close>)
  then show ?thesis using Deactivate_Employee d by simp
qed

lemma payable_run: "list_all payable (run_all (employee_run L c) ops [])"
  by (rule run_all_inv [of "list_all payable"]) (auto intro: employee_run_payable)

lemma report_row_terms:
  "r \<in> set (report_rows c s from to params) \<Longrightarrow>
    \<exists>e \<in> set (t_employees s). rr_base_salary_cents r = em_base_salary_cents e \<and> rr_salary_kind r = em_salary_kind e"
  by (auto simp: report_rows_def employee_rows_def Let_def split: option.splits if_splits) (rule bexI, auto)+

text \<open>Staff hired through the service is payable: after any sequence of hirings, updates and
  deactivations, every row a report reads has a positive salary and a unit for it, so no day is left
  unpaid for a missing unit.\<close>

theorem staff_is_payable:
  assumes "t_employees s = run_all (employee_run L c) ops []" "r \<in> set (report_rows c' s from to params)"
  shows "0 < rr_base_salary_cents r \<and> require_salary_kind (rr_salary_kind r) \<noteq> None \<and>
    row_effect c' r \<noteq> Some (Inr (Vacation day None)) \<and>
    row_effect c' r \<noteq> Some (Inr (WorkDay day shift effective overtime late None))"
proof -
  have "0 < rr_base_salary_cents r" "require_salary_kind (rr_salary_kind r) \<noteq> None"
    using report_row_terms [OF assms(2)] assms(1) payable_run [of L c ops] by (auto simp: list_all_iff payable_def)
  then show ?thesis
    by (auto simp: row_effect_def Let_def split: option.splits if_splits)
qed

section \<open>Scope\<close>

lemma foreign_rows_kept:
  assumes "\<And>r. r \<in> set t \<Longrightarrow> P r \<Longrightarrow> em_department_id r = dept \<and> em_department_id (f r) = dept"
  shows "filter (\<lambda>r. em_department_id r \<noteq> dept) (update_where P f t) = filter (\<lambda>r. em_department_id r \<noteq> dept) t"
  using assms by (induction t) (auto simp: table_simps)

text \<open>A supervisor of one department neither sees nor changes the staff of the others: the list
  and the single read answer employees of the department only, and hiring and updating leave the
  rows of every other department as they are, so nobody is moved in or out.\<close>

theorem staff_confined_to_scope:
  assumes "scope_from_claims actor = Department dept" "distinct (map em_id t)"
  shows "(\<forall>e \<in> set (pr_data (list_employees L c actor query t)). ey_department_id e = dept) \<and>
    (\<forall>e. get_employee L c actor i t = Inr e \<longrightarrow> ey_department_id e = dept) \<and>
    filter (\<lambda>r. em_department_id r \<noteq> dept) (fst (create_employee L c E defaults deps actor hire t)) =
      filter (\<lambda>r. em_department_id r \<noteq> dept) t \<and>
    filter (\<lambda>r. em_department_id r \<noteq> dept) (fst (update_employee L c E deps actor i change t)) =
      filter (\<lambda>r. em_department_id r \<noteq> dept) t"
proof (intro conjI)
  show "\<forall>e \<in> set (pr_data (list_employees L c actor query t)). ey_department_id e = dept"
    using assms(1) by (auto simp: list_employees_def list_employees_page_def Let_def sql_page_def listed_employees_def
        dest!: in_set_takeD in_set_dropD)
  show "\<forall>e. get_employee L c actor i t = Inr e \<longrightarrow> ey_department_id e = dept"
    using assms(1) by (auto simp: get_employee_def bind_result_eq_Inr split: if_splits)
  obtain t1 x where h: "create_employee L c E defaults deps actor hire t = (t1, x)"
    by (cases "create_employee L c E defaults deps actor hire t")
  then show "filter (\<lambda>r. em_department_id r \<noteq> dept) (fst (create_employee L c E defaults deps actor hire t)) =
      filter (\<lambda>r. em_department_id r \<noteq> dept) t"
    by (cases rule: create_employee_cases) (use assms(1) h in \<open>auto simp: new_employee_def\<close>)
  obtain t2 y where u: "update_employee L c E deps actor i change t = (t2, y)"
    by (cases "update_employee L c E deps actor i change t")
  then show "filter (\<lambda>r. em_department_id r \<noteq> dept) (fst (update_employee L c E deps actor i change t)) =
      filter (\<lambda>r. em_department_id r \<noteq> dept) t"
  proof (cases rule: update_employee_cases)
    case (set hire_date existing)
    have "r = existing" if "r \<in> set t" "em_id r = i" for r
      using same_key [OF assms(2) that(1)] find_Some_in [OF set(8)] that(2) by metis
    then have "em_department_id r = dept" if "r \<in> set t" "em_id r = i" for r
      using that set(9) assms(1) by auto
    then show ?thesis
      unfolding u fst_conv set(1) using set(10) assms(1)
      by (intro foreign_rows_kept) (cases "um_department_id change"; auto)
  qed (simp add: u)
qed


section \<open>Deactivation and the enrolled face\<close>

definition removable :: "(string \<Rightarrow> string + unit) \<Rightarrow> string \<Rightarrow> bool" where
  "removable io p \<longleftrightarrow> io p = Inr () \<and> validate_direct_child (parent_of p) p = Inr ()"

lemma removable_or:
  "(\<exists>m. inspect_owned_file (io p) (parent_of p) p fs = Inl m) \<or> removable io p"
  by (auto simp: inspect_owned_file_def removable_def split: sum.splits)

lemma remove_photos_files:
  "fs_files (fst (remove_photos io ps fs)) q = (if q \<in> set ps \<and> removable io q then None else fs_files fs q)"
proof (induction ps arbitrary: fs)
  case (Cons p ps)
  show ?case
  proof (cases "inspect_owned_file (io p) (parent_of p) p fs")
    case (Inl m)
    then have "fs_files fs p = None \<or> \<not> removable io p"
      by (auto simp: inspect_owned_file_def removable_def split: sum.splits option.splits)
    then show ?thesis using Cons.IH [of fs] Inl by auto
  next
    case (Inr identity)
    then obtain bytes where f: "fs_files fs p = Some (identity, bytes)" "removable io p"
      by (auto simp: inspect_owned_file_def removable_def split: sum.splits option.splits)
    then have r: "remove_owned_file (parent_of p) p identity fs = (fs\<lparr>fs_files := (fs_files fs)(p := None)\<rparr>, Inr ())"
      by (simp add: remove_owned_file_def remove_if_owned_def removable_def)
    show ?thesis
      using Cons.IH [of "fs\<lparr>fs_files := (fs_files fs)(p := None)\<rparr>"] Inr r f by (auto split: prod.split)
  qed
qed simp

lemma purge_files:
  assumes "purge_enrolled_faces W io i (fs, s) = ((fs', s'), x)"
  shows "fs_files fs' q =
      (if q \<in> fe_photo_path ` {r \<in> set (eb_faces s). fe_employee_id r = i} \<and> removable io q then None else fs_files fs q)"
    "eb_employees s' = eb_employees s" "eb_faces s' = eb_faces s"
proof -
  have "fs' = fst (remove_photos io (map fe_photo_path (filter (\<lambda>r. fe_employee_id r = i) (eb_faces s))) fs)"
    using assms by (auto simp: purge_enrolled_faces_def Let_def split: prod.splits)
  then show "fs_files fs' q =
      (if q \<in> fe_photo_path ` {r \<in> set (eb_faces s). fe_employee_id r = i} \<and> removable io q then None else fs_files fs q)"
    by (simp add: remove_photos_files)
qed (use assms in \<open>auto simp: purge_enrolled_faces_def Let_def split: prod.splits\<close>)


lemma set_face_status:
  "set_face i f g s = Inr s' \<Longrightarrow> map (\<lambda>e. (em_id e, em_status e)) (eb_employees s') = map (\<lambda>e. (em_id e, em_status e)) (eb_employees s)"
  by (auto simp: set_face_def Let_def bail_def with_face_def update_where_def split: if_splits)

lemma add_targets_employees: "add_targets port W i ids n ds s = Inr (ts, s') \<Longrightarrow> eb_employees s' = eb_employees s"
  by (induction ds arbitrary: n s ts)
    (force simp: bind_result_eq_Inr insert_push_def insert_checkpoint_def bail_def split: sum.splits if_splits)+

lemma start_job_status:
  assumes "start_job C key port E actor i via source quality p bytes s = Inr (command, s')"
  shows "map (\<lambda>e. (em_id e, em_status e)) (eb_employees s') = map (\<lambda>e. (em_id e, em_status e)) (eb_employees s)"
    "dc_employee_id command = i"
  using assms
  by (auto simp: start_job_def bind_result_eq_Inr insert_face_def insert_enrollment_def bail_def
      dest!: set_face_status add_targets_employees split: if_splits option.splits)

text \<open>C39. A face enrolled after the deactivation stays.  An enrollment does not look at the status of
  the employee: for a former employee it stores the photo and sends it to the readers like for any
  other, and no later deactivation removes it, because that of an inactive employee is refused
  before the purge.\<close>

theorem faces_outlive_deactivation:
  assumes "list_all (\<lambda>r. em_id r \<noteq> i \<or> em_status r = ''inactive'') (eb_employees s)"
    and "start_enrollment C key port E actor i via source quality bytes (fs, s) = ((fs', s'), c, Inr command)"
  shows "map_option snd (fs_files fs' (photo_relpath_of i (se_enrollment E))) = Some bytes \<and>
    c = Some command \<and> dc_employee_id command = i \<and>
    (\<exists>e. deactivate_employee E' W io deps i (fs', s') = ((fs', s'), [], Inl e))"
proof -
  let ?p = "photo_relpath_of i (se_enrollment E)"
  obtain g fs1 where g: "guard_write (se_io E) ?p bytes fs = Inr (g, fs1)"
    using assms(2) by (cases "guard_write (se_io E) ?p bytes fs") (auto simp: start_enrollment_def)
  obtain t y where tx: "run_tx (se_write E) (start_job C key port E actor i via source quality ?p bytes) s = (t, y)"
    by (metis prod.exhaust)
  from tx show ?thesis
  proof (cases rule: run_tx_cases)
    case (ran cmd)
    have r: "fs' = fs1" "s' = t" "c = Some command" "cmd = command"
      using assms(2) g tx ran(3) by (auto simp: start_enrollment_def split: if_splits)
    note st = start_job_status [OF ran(2)]
    have "(\<lambda>e. (em_id e, em_status e)) ` set (eb_employees s') = (\<lambda>e. (em_id e, em_status e)) ` set (eb_employees s)"
      using st(1) r(2) by (metis set_map)
    moreover have "em_status r = ''inactive''" if r: "r \<in> set (eb_employees s')" "em_id r = i" for r
    proof -
      have "(em_id r, em_status r) \<in> (\<lambda>e. (em_id e, em_status e)) ` set (eb_employees s)"
        using r(1) calculation by blast
      then obtain q where "q \<in> set (eb_employees s)" "em_id q = em_id r" "em_status q = em_status r" by auto
      then show ?thesis using assms(1) r(2) by (auto simp: list_all_iff)
    qed
    ultimately have none: "\<not> (\<exists>r \<in> set (eb_employees s'). em_id r = i \<and> em_status r = ''active'')" by auto
    obtain t2 x where d: "deactivate_employee_queued E' deps i (eb_employees s') = (t2, x)"
      by (cases "deactivate_employee_queued E' deps i (eb_employees s')")
    then have "\<exists>e. t2 = eb_employees s' \<and> x = Inl e"
      by (cases rule: deactivate_employee_queued_cases) (use none in auto)
    then have "\<exists>e. deactivate_employee E' W io deps i (fs', s') = ((fs', s'), [], Inl e)"
      using d by (auto simp: deactivate_employee_def)
    then show ?thesis using guard_write_ok [OF g] r st(2) by simp
  next
    case (failed e)
    then show ?thesis using assms(2) g tx by (simp add: start_enrollment_def)
  qed
qed


section \<open>Examples\<close>

definition hire_request :: create_employee_request where
  "hire_request = \<lparr>cm_employee_code = ''V-1'', cm_name = ''Ana'', cm_department_id = ''d1'', cm_position = None,
     cm_hire_date = Some ''2026-01-05'', cm_base_salary_cents = Some 30000, cm_salary_kind = Some Monthly\<rparr>"

definition office :: "department_row list" where
  "office = created (shift_request ''08:00'' ''17:00'')"

definition office_claims :: "string option \<Rightarrow> claims" where
  "office_claims dept = \<lparr>cl_sub = ''u'', cl_role = Supervisor, cl_department_id = dept, cl_exp = 0, cl_iat = 0,
     cl_jti = ''j'', cl_token_type = ''access''\<rparr>"

definition hiring :: "unit employee_op" where
  "hiring = Create_Employee (any_staff_env\<lparr>sn_uuid := ''e1''\<rparr>) () office (office_claims (Some ''d1'')) hire_request"

definition month :: report_params where
  "month = \<lparr>rp_from_date = ''2026-04-01'', rp_to_date = ''2026-04-30'', rp_period_type = ''custom'', rp_department_ids = None,
     rp_include_inactive = None, rp_employee_id = None, rp_shift_type = None\<rparr>"

definition staffed_db :: db where
  "staffed_db = day_db\<lparr>t_employees := run_all (employee_run toy_libs gregorian) [hiring] []\<rparr>"

theorem staff_is_payable_witness:
  "let rows = report_rows gregorian staffed_db 20544 20573 month
   in rows \<noteq> [] \<and> 0 < rr_base_salary_cents (hd rows) \<and> require_salary_kind (rr_salary_kind (hd rows)) \<noteq> None"
proof -
  let ?rows = "report_rows gregorian staffed_db 20544 20573 month"
  have "map rr_cedula ?rows = [''V-1'']" by code_simp
  then have ne: "?rows \<noteq> []" by auto
  then have row: "hd ?rows \<in> set ?rows" by simp
  have staff: "t_employees staffed_db = run_all (employee_run toy_libs gregorian) [hiring] []"
    by (simp add: staffed_db_def)
  show ?thesis unfolding Let_def using staff_is_payable [OF staff row] ne by blast
qed

definition colleague :: "string \<Rightarrow> string \<Rightarrow> employee_row" where
  "colleague i dept = \<lparr>em_id = i, em_code = i, em_name = i, em_department_id = dept, em_status = ''active'', em_position = [],
     em_hire_date = None, em_base_salary_cents = 1, em_salary_kind = Some ''daily'', em_terminated_on = None,
     em_face_id = None, em_deleted_at = None, em_version = 1, em_created_at = 0, em_updated_at = 0\<rparr>"

definition rename_request :: "string \<Rightarrow> update_employee_request" where
  "rename_request name = \<lparr>um_name = Some name, um_department_id = None, um_position = None, um_hire_date = None,
     um_base_salary_cents = None, um_salary_kind = None, um_version = 1\<rparr>"

definition offices :: "department_row list" where
  "offices = office @ [(hd office)\<lparr>de_id := ''d2'', de_name := ''Lab''\<rparr>]"

definition staff_of_both :: "employee_row list" where
  "staff_of_both = [colleague ''e8'' ''d1'', colleague ''e9'' ''d2'']"

theorem staff_confined_to_scope_witness:
  "let new = fst (create_employee toy_libs gregorian any_staff_env () offices (office_claims (Some ''d1'')) hire_request staff_of_both)
   in map em_id new = [''e8'', ''e9'', ''d1''] \<and>
      filter (\<lambda>r. em_department_id r \<noteq> ''d1'') new = filter (\<lambda>r. em_department_id r \<noteq> ''d1'') staff_of_both"
proof -
  have scope: "scope_from_claims (office_claims (Some ''d1'')) = Department ''d1''" by code_simp
  have ids: "distinct (map em_id staff_of_both)" by code_simp
  have "map em_id (fst (create_employee toy_libs gregorian any_staff_env () offices (office_claims (Some ''d1''))
      hire_request staff_of_both)) = [''e8'', ''e9'', ''d1'']" by code_simp
  then show ?thesis
    unfolding Let_def
    using staff_confined_to_scope [OF scope ids, of toy_libs gregorian _ _ any_staff_env "()" offices hire_request] by blast
qed

definition former :: "string \<Rightarrow> face_employee" where
  "former status = \<lparr>em_id = ''e1'', em_code = ''V-1'', em_name = ''Ana'', em_department_id = ''d1'', em_status = status,
     em_position = [], em_hire_date = None, em_base_salary_cents = 30000, em_salary_kind = Some ''monthly'',
     em_terminated_on = None, em_face_id = Some ''f1'', em_deleted_at = None, em_version = 1, em_created_at = 0,
     em_updated_at = 0, em_current_face_enrollment_id = Some ''fe1''\<rparr>"

definition enrolled :: "string \<Rightarrow> face_store" where
  "enrolled status = \<lparr>eb_employees = [former status], eb_users = [''u''], eb_devices = [],
     eb_faces = [\<lparr>fe_id = ''fe1'', fe_employee_id = ''e1'', fe_captured_via = ''upload'', fe_source_device_id = None,
       fe_photo_path = ''e1/en1.jpg'', fe_face_quality_score = None, fe_created_by = ''u'', fe_created_at = 5\<rparr>],
     eb_enrollments = [], eb_pushes = [], eb_checkpoints = [], eb_mappings = [], eb_purge_audit = []\<rparr>"

definition enrolled_disk :: file_system where
  "enrolled_disk = \<lparr>fs_files = [''e1/en1.jpg'' \<mapsto> (0, ''JPEG'')], fs_next = 1\<rparr>"

definition purge_job :: job_env where
  "purge_job = \<lparr>je_write = Ran, je_now = 7, je_uuid = ''m1''\<rparr>"

definition end_employment :: "string \<Rightarrow> (file_system \<times> face_store) \<times> string list \<times> unit result" where
  "end_employment status =
     deactivate_employee any_staff_env purge_job (\<lambda>p. Inr ()) office ''e1'' (enrolled_disk, enrolled status)"


definition late_start :: start_env where
  "late_start = \<lparr>se_write = Ran, se_now = 5, se_face_enrollment = ''fe2'', se_enrollment = ''en2'', se_face = ''f2'',
     se_pushes = (\<lambda>n. ''p1''), se_io = Inr (), se_accepting = True\<rparr>"

definition late_face :: "(file_system \<times> face_store) \<times> authorized_dispatch_command option \<times> authorized_dispatch_command result" where
  "late_face = start_enrollment toy_cipher [] (\<lambda>url user password insecure. Inr ()) late_start ''u'' ''e1'' ''upload'' None None ''FACE''
     (enrolled_disk, enrolled ''inactive'')"

theorem faces_outlive_deactivation_witness:
  "case late_face of ((fs', s'), c, x) \<Rightarrow> map_option snd (fs_files fs' ''e1/en2.jpg'') = Some ''FACE'' \<and>
     (\<exists>e. deactivate_employee any_staff_env purge_job (\<lambda>p. Inr ()) office ''e1'' (fs', s') = ((fs', s'), [], Inl e))"
proof -
  obtain fs' s' c x where r: "late_face = ((fs', s'), c, x)" by (metis prod.exhaust)
  have "case snd (snd late_face) of Inl e \<Rightarrow> False | Inr command \<Rightarrow> True" by code_simp
  then obtain command where x: "x = Inr command" by (cases x) (simp_all add: r)
  have inactive: "list_all (\<lambda>r. em_id r \<noteq> ''e1'' \<or> em_status r = ''inactive'') (eb_employees (enrolled ''inactive''))"
    by code_simp
  have "photo_relpath_of ''e1'' (se_enrollment late_start) = ''e1/en2.jpg''" by code_simp
  then show ?thesis
    unfolding r prod.case using faces_outlive_deactivation [OF inactive r [unfolded late_face_def x]] by simp
qed

end
