(* ===== verification/Enrollment_Push.thy ===== *)
theory Enrollment_Push
  imports Enrollments Transitions
begin

text \<open>
  The tasks that call the readers (enrollments/pusher.rs, dispatcher.rs).  A task is a program of
  atomic commands on the store and calls to a reader; between two of them any other task may run.
  \<open>push_step\<close> is the whole system: requests commit an enrollment or a retry and hand it to the
  dispatcher, its tasks run interleaved, the process may die at any moment, and the next start
  reconciles the checkpoints it finds.  \<open>sy_log\<close> is history: the calls sent and answered.
\<close>

section \<open>Programs\<close>

datatype device_call = Enroll device_with_plaintext string string string | Revoke device_with_plaintext string

text \<open>How a call ends: the reader accepted, it answered with an error status
  (\<open>DeviceResponseError\<close>), any other error, the deadline, a panic of the client.\<close>

datatype call_reply = Accepted | Refused string | Broken string | Timed_Out | Panicked

datatype 'a prog =
    Return 'a
  | Atomic string "job_env \<Rightarrow> face_store \<Rightarrow> face_store" "job_env \<Rightarrow> face_store \<Rightarrow> 'a prog"
  | Call string device_call "call_reply \<Rightarrow> 'a prog"

primrec bind_prog :: "'a prog \<Rightarrow> ('a \<Rightarrow> 'b prog) \<Rightarrow> 'b prog" where
  "bind_prog (Return x) f = f x"
| "bind_prog (Atomic l e k) f = Atomic l e (\<lambda>W s. bind_prog (k W s) f)"
| "bind_prog (Call key op k) f = Call key op (\<lambda>r. bind_prog (k r) f)"

text \<open>A command carries the name it has at the queue; a read has none.\<close>

definition command :: "string \<Rightarrow> (job_env \<Rightarrow> face_store \<Rightarrow> face_store \<times> 'r) \<Rightarrow> ('r \<Rightarrow> 'a prog) \<Rightarrow> 'a prog" where
  "command l op k = Atomic l (\<lambda>W s. fst (op W s)) (\<lambda>W s. k (snd (op W s)))"

definition read_store :: "(face_store \<Rightarrow> 'r) \<Rightarrow> ('r \<Rightarrow> 'a prog) \<Rightarrow> 'a prog" where
  "read_store q k = Atomic [] (\<lambda>W s. s) (\<lambda>W s. k (q s))"

lemma bind_command [simp]: "bind_prog (command l op k) f = command l op (\<lambda>r. bind_prog (k r) f)"
  by (simp add: command_def)

lemma bind_read [simp]: "bind_prog (read_store q k) f = read_store q (\<lambda>r. bind_prog (k r) f)"
  by (simp add: read_store_def)

text \<open>A program alone: the commands it gives are numbered, the calls are answered by \<open>answer\<close>.\<close>

primrec run_alone ::
  "'a prog \<Rightarrow> (nat \<Rightarrow> job_env) \<Rightarrow> (string \<Rightarrow> device_call \<Rightarrow> call_reply) \<Rightarrow> nat \<Rightarrow> face_store \<Rightarrow> face_store \<times> 'a" where
  "run_alone (Return x) Ws answer n s = (s, x)"
| "run_alone (Atomic l e k) Ws answer n s = run_alone (k (Ws n) s) Ws answer (Suc n) (e (Ws n) s)"
| "run_alone (Call key op k) Ws answer n s = run_alone (k (answer key op)) Ws answer n s"

lemma run_command [simp]:
  "run_alone (command l op k) Ws answer n s =
     (case op (Ws n) s of (s', r) \<Rightarrow> run_alone (k r) Ws answer (Suc n) s')"
  by (simp add: command_def split: prod.split)

lemma run_read [simp]: "run_alone (read_store q k) Ws answer n s = run_alone (k (q s)) Ws answer (Suc n) s"
  by (simp add: read_store_def)

section \<open>Error texts\<close>

text \<open>\<open>str::replace\<close>: the occurrences from left to right, each replaced once.\<close>

fun replace_at :: "string \<Rightarrow> string \<Rightarrow> nat \<Rightarrow> string \<Rightarrow> string" where
  "replace_at pat rep n [] = []"
| "replace_at pat rep (Suc n) (c # s) = replace_at pat rep n s"
| "replace_at pat rep 0 (c # s) =
     (if prefix_of pat (c # s) then rep @ replace_at pat rep (length pat - 1) s else c # replace_at pat rep 0 s)"

definition scrub_password :: "string \<Rightarrow> string \<Rightarrow> string" where
  "scrub_password txt password = (if password = [] then txt else replace_at password ''[redacted]'' 0 txt)"

section \<open>One push\<close>

record push_args =
  px_port :: reader_port
  px_enrollment_id :: string
  px_face_id :: string
  px_photo :: string
  px_employee_id :: string
  px_name :: string
  px_device :: device_with_plaintext

datatype task_result = Completed | Task_Error string | Task_Panic

definition or_error :: "string \<Rightarrow> 'a result \<Rightarrow> task_result prog \<Rightarrow> task_result prog" where
  "or_error pre r p = (case r of Inl e \<Rightarrow> Return (Task_Error (pre @ app_error_text e)) | Inr x \<Rightarrow> p)"

definition ambiguous :: string where
  "ambiguous = ''Device operation outcome is ambiguous; manual reconciliation required''"

definition push_commit :: "push_args \<Rightarrow> string \<Rightarrow> task_result prog" where
  "push_commit A push_id =
     command ''enrollments.complete-device-push'' (\<lambda>W. complete_push_success W push_id (dw_id (px_device A)) (px_face_id A) (px_employee_id A)) (\<lambda>r.
       case r of
         Inr u \<Rightarrow> Return Completed
       | Inl error \<Rightarrow>
           command ''enrollments.record-push-recovery'' (\<lambda>W. record_push_recovery_failure W push_id
               ''Device push succeeded but mapping persistence failed'' False) (\<lambda>_.
             Return (Task_Error (''commit successful device push: '' @ app_error_text error))))"

definition push_applied :: "push_args \<Rightarrow> string \<Rightarrow> task_result prog" where
  "push_applied A push_id =
     command ''enrollments.mark-device-operation'' (\<lambda>W. mark_device_operation W (enrollment_checkpoint_key push_id) Device_Applied) (\<lambda>r.
       case r of
         Inr u \<Rightarrow> push_commit A push_id
       | Inl error \<Rightarrow>
           command ''enrollments.record-push-recovery'' (\<lambda>W. record_push_recovery_failure W push_id
               ''Device accepted face but durable recovery checkpoint failed'' True) (\<lambda>r.
             or_error ''persist manual checkpoint recovery: '' r
               (Return (Task_Error (''checkpoint successful device push: '' @ app_error_text error)))))"

definition push_reply :: "push_args \<Rightarrow> string \<Rightarrow> call_reply \<Rightarrow> task_result prog" where
  "push_reply A push_id reply =
     (case reply of
        Accepted \<Rightarrow> push_applied A push_id
      | Refused m \<Rightarrow>
          (let scrubbed = scrub_password m (dw_password (px_device A))
           in command ''enrollments.fail-device-push'' (\<lambda>W. complete_push_failure W push_id scrubbed) (\<lambda>_.
                Return (Task_Error (''ISAPI push failed: '' @ scrubbed))))
      | Broken m \<Rightarrow>
          (let scrubbed = scrub_password m (dw_password (px_device A))
           in command ''enrollments.record-push-recovery'' (\<lambda>W. record_push_recovery_failure W push_id ambiguous True) (\<lambda>_.
                Return (Task_Error (''ISAPI push failed: '' @ scrubbed))))
      | Timed_Out \<Rightarrow>
          command ''enrollments.record-push-recovery'' (\<lambda>W. record_push_recovery_failure W push_id
              ''Device operation timed out; manual reconciliation required'' True) (\<lambda>_.
            Return (Task_Error ''Device did not respond within 30 seconds''))
      | Panicked \<Rightarrow> Return Task_Panic)"

definition push_call :: "push_args \<Rightarrow> string \<Rightarrow> task_result prog" where
  "push_call A push_id =
     Call (enrollment_checkpoint_key push_id) (Enroll (px_device A) (px_face_id A) (px_name A) (px_photo A))
       (push_reply A push_id)"

definition push_reader :: "push_args \<Rightarrow> string \<Rightarrow> task_result prog" where
  "push_reader A push_id =
     (case reader_of (px_port A) (px_device A) of
        Inr u \<Rightarrow> push_call A push_id
      | Inl error \<Rightarrow>
          (let scrubbed = scrub_password error (dw_password (px_device A))
           in command ''enrollments.fail-device-push'' (\<lambda>W. complete_push_failure W push_id scrubbed) (\<lambda>r.
                or_error ''persist invalid connection failure: '' r
                  (Return (Task_Error (''build ISAPI connection: '' @ scrubbed))))))"

definition push_admitted :: "push_args \<Rightarrow> string \<Rightarrow> task_result prog" where
  "push_admitted A push_id =
     command ''enrollments.start-device-push'' (\<lambda>W. mark_push_in_progress W push_id) (\<lambda>r.
       case r of
         Inr u \<Rightarrow> push_reader A push_id
       | Inl error \<Rightarrow>
           command ''enrollments.record-push-recovery'' (\<lambda>W. record_push_recovery_failure W push_id
               ''Device push state could not be admitted; manual reconciliation required'' True) (\<lambda>r.
             or_error ''persist device push admission failure: '' r
               (Return (Task_Error (''admit device push state: '' @ app_error_text error)))))"

definition push_unauthorized :: "push_args \<Rightarrow> task_result prog" where
  "push_unauthorized A =
     read_store (\<lambda>s. get_push_id s (px_enrollment_id A) (dw_id (px_device A))) (\<lambda>r.
       case r of
         Inl e \<Rightarrow> Return (Task_Error (''push row lookup failed: '' @ app_error_text e))
       | Inr push_id \<Rightarrow>
           command ''enrollments.admit-device-operation'' (\<lambda>W. admit_device_operation W (enrollment_checkpoint_key push_id) ''enrollment_push'') (\<lambda>r.
             case r of
               Inl error \<Rightarrow>
                 command ''enrollments.fail-device-push'' (\<lambda>W. complete_push_failure W push_id ''Device push checkpoint admission failed'') (\<lambda>r.
                   or_error ''persist checkpoint admission failure: '' r
                     (Return (Task_Error (''admit durable device checkpoint: '' @ app_error_text error))))
             | Inr checkpoint \<Rightarrow>
                 if ca_fresh checkpoint then push_admitted A push_id
                 else if ca_state checkpoint = Device_Applied
                 then command ''enrollments.complete-device-push'' (\<lambda>W. complete_push_success W push_id (dw_id (px_device A)) (px_face_id A)
                     (px_employee_id A)) (\<lambda>r.
                   or_error ''recover successful device push: '' r (Return Completed))
                 else command ''enrollments.record-push-recovery'' (\<lambda>W. record_push_recovery_failure W push_id ambiguous True) (\<lambda>r.
                   or_error ''persist manual reconciliation: '' r
                     (Return (Task_Error ''device operation requires manual reconciliation'')))))"

text \<open>\<open>committed\<close>: the transaction that recorded the push has admitted it already.\<close>

definition push_enrollment_device :: "push_args \<Rightarrow> string option \<Rightarrow> task_result prog" where
  "push_enrollment_device A committed =
     (case committed of Some push_id \<Rightarrow> push_admitted A push_id | None \<Rightarrow> push_unauthorized A)"

text \<open>The wrapper of a task: whatever failed is terminal in the store.\<close>

definition push_outcome :: "string \<Rightarrow> task_result \<Rightarrow> task_result prog" where
  "push_outcome push_id result =
     (case result of
        Completed \<Rightarrow> Return Completed
      | Task_Error error \<Rightarrow>
          command ''enrollments.terminalize-authorized-push'' (\<lambda>W. terminalize_authorized_failure W push_id
              ''Enrollment device operation failed; manual reconciliation required'') (\<lambda>r.
            or_error (error @ ''; terminalize authorized push '' @ push_id @ '': '') r (Return (Task_Error error)))
      | Task_Panic \<Rightarrow>
          command ''enrollments.terminalize-authorized-push'' (\<lambda>W. terminalize_authorized_failure W push_id
              ''Enrollment device operation panicked; manual reconciliation required'') (\<lambda>r.
            or_error (''terminalize panicked authorized push '' @ push_id @ '': '') r
              (Return (Task_Error ''authorized enrollment push panicked''))))"

definition authorized_push :: "push_args \<Rightarrow> string \<Rightarrow> task_result prog" where
  "authorized_push A push_id = bind_prog (push_enrollment_device A (Some push_id)) (push_outcome push_id)"

section \<open>Recovery at start\<close>

type_synonym recovery = "string + unit"

definition or_stop :: "'a result \<Rightarrow> recovery prog \<Rightarrow> recovery prog" where
  "or_stop r p = (case r of Inl e \<Rightarrow> Return (Inl (app_error_text e)) | Inr x \<Rightarrow> p)"

definition stop :: "string \<Rightarrow> recovery prog" where
  "stop m = Return (Inl m)"

definition push_target :: "face_store \<Rightarrow> string \<Rightarrow> (string \<times> string \<times> string option \<times> string) option" where
  "push_target s push_id =
     (case find (push_of push_id) (eb_pushes s) of
        None \<Rightarrow> None
      | Some p \<Rightarrow> map_option (\<lambda>(r, e). (pu_device_id p, er_employee_id r, em_face_id e, pu_enrollment_id p))
          (enrollment_of s (pu_enrollment_id p)))"

definition recover_push :: "string \<Rightarrow> device_operation_state \<Rightarrow> recovery prog" where
  "recover_push push_id st =
     read_store (\<lambda>s. push_target s push_id) (\<lambda>row.
       case row of
         None \<Rightarrow> stop ''checkpoint references missing enrollment push''
       | Some (device_id, employee_id, face, enrollment_id) \<Rightarrow>
           (case face of
              None \<Rightarrow> stop ''checkpoint enrollment employee has no face id''
            | Some face_id \<Rightarrow>
                if st = Device_Applied
                then command ''enrollments.recover-device-push'' (\<lambda>W. complete_recovered_push_success W enrollment_id push_id device_id face_id employee_id)
                  (\<lambda>r. or_stop r (Return (Inr ())))
                else command ''enrollments.record-push-recovery'' (\<lambda>W. record_push_recovery_failure W push_id
                    ''Restart found an ambiguous device operation; manual reconciliation required'' True) (\<lambda>r.
                  or_stop r (read_store (\<lambda>s. find (push_of push_id) (eb_pushes s)) (\<lambda>row.
                    case row of
                      None \<Rightarrow> stop ''push disappeared during recovery''
                    | Some p \<Rightarrow> command ''enrollments.finalize'' (\<lambda>W. finalize_enrollment W (pu_enrollment_id p)) (\<lambda>r.
                        or_stop r (Return (Inr ()))))))))"

definition recover_backfill :: "string \<Rightarrow> string \<Rightarrow> string \<Rightarrow> device_operation_state \<Rightarrow> recovery prog" where
  "recover_backfill key device_id face_id st =
     read_store (\<lambda>s. find (\<lambda>e. em_face_id e = Some face_id \<and> em_status e = ''active'') (eb_employees s)) (\<lambda>row.
       case row of
         None \<Rightarrow> stop ''backfill checkpoint has no active employee''
       | Some e \<Rightarrow>
           read_store (\<lambda>s. device_id \<in> dv_id ` set (eb_devices s)) (\<lambda>known.
             if \<not> known then stop ''backfill checkpoint references missing device''
             else if st = Device_Applied
             then command ''enrollments.complete-backfill'' (\<lambda>W. complete_backfill_mapping W key device_id face_id (em_id e)) (\<lambda>r. or_stop r (Return (Inr ())))
             else command ''enrollments.mark-device-operation'' (\<lambda>W. mark_device_operation W key Manual) (\<lambda>r. or_stop r (Return (Inr ())))))"

definition recover_purge :: "string \<Rightarrow> string \<Rightarrow> device_operation_state \<Rightarrow> recovery prog" where
  "recover_purge key mapping_id st =
     read_store (\<lambda>s. mapping_id \<in> mp_id ` set (eb_mappings s)) (\<lambda>known.
       if \<not> known then stop ''purge checkpoint references missing mapping''
       else if st = Device_Applied
       then command ''enrollments.complete-purge'' (\<lambda>W. complete_purge_mapping W key mapping_id) (\<lambda>r. or_stop r (Return (Inr ())))
       else command ''enrollments.mark-device-operation'' (\<lambda>W. mark_device_operation W key Manual) (\<lambda>r.
         or_stop r (command ''enrollments.mark-face-mapping-delete'' (\<lambda>W. mark_mapping_pending_delete W mapping_id) (\<lambda>r. or_stop r (Return (Inr ()))))))"

text \<open>\<open>split_once(':')\<close> with both parts non-empty.\<close>

definition split_pair :: "string \<Rightarrow> (string \<times> string) option" where
  "split_pair s =
     (let a = takeWhile (\<lambda>c. c \<noteq> CHR '':'') s; b = drop (Suc (length a)) s
      in if a = [] \<or> b = [] then None else Some (a, b))"

definition strip_key :: "string \<Rightarrow> string \<Rightarrow> string option" where
  "strip_key prefix key = (case strip_prefix prefix key of None \<Rightarrow> None | Some v \<Rightarrow> if v = [] then None else Some v)"

definition recover_one :: "checkpoint_row \<Rightarrow> recovery prog" where
  "recover_one r =
     (case checkpoint_state (ck_state r) of
        Inl e \<Rightarrow> stop (''invalid checkpoint state for '' @ ck_operation_key r)
      | Inr st \<Rightarrow>
          if ck_operation r = ''enrollment_push'' then
            (case strip_key ''enrollment:'' (ck_operation_key r) of
               None \<Rightarrow> stop ''invalid enrollment checkpoint key''
             | Some push_id \<Rightarrow> recover_push push_id st)
          else if ck_operation r = ''backfill_push'' then
            (case Option.bind (strip_prefix ''backfill:'' (ck_operation_key r)) split_pair of
               None \<Rightarrow> stop ''invalid backfill checkpoint key''
             | Some (device_id, face_id) \<Rightarrow> recover_backfill (ck_operation_key r) device_id face_id st)
          else if ck_operation r = ''purge_delete'' then
            (case strip_key ''purge:'' (ck_operation_key r) of
               None \<Rightarrow> stop ''invalid purge checkpoint key''
             | Some mapping_id \<Rightarrow> recover_purge (ck_operation_key r) mapping_id st)
          else stop (''unsupported checkpoint operation '' @ ck_operation r))"

fun recover_all :: "checkpoint_row list \<Rightarrow> recovery prog" where
  "recover_all [] = Return (Inr ())"
| "recover_all (r # rs) = bind_prog (recover_one r) (\<lambda>x. case x of Inl e \<Rightarrow> Return (Inl e) | Inr u \<Rightarrow> recover_all rs)"

definition recover_startup_checkpoints :: "recovery prog" where
  "recover_startup_checkpoints = read_store (\<lambda>s. sort_key ck_operation_key (eb_checkpoints s)) recover_all"

section \<open>The system\<close>

datatype dispatch_message = Dispatch authorized_dispatch_command | Close_Dispatcher

record push_task =
  pt_push :: string
  pt_prog :: "task_result prog"
  pt_calling :: bool

record push_group =
  pg_enrollment :: string
  pg_tasks :: "push_task list"

datatype log_entry = Sent string | Replied string call_reply

record push_system =
  sy_files :: file_system
  sy_store :: face_store
  sy_up :: bool
  sy_accepting :: bool
  sy_messages :: "dispatch_message list"
  sy_groups :: "push_group list"
  sy_log :: "log_entry list"

definition args_of :: "reader_port \<Rightarrow> authorized_dispatch_command \<Rightarrow> dispatch_target \<Rightarrow> push_args" where
  "args_of port c t = \<lparr>px_port = port, px_enrollment_id = dc_enrollment_id c, px_face_id = dc_face_id c,
     px_photo = dc_photo c, px_employee_id = dc_employee_id c, px_name = dc_employee_name c, px_device = tg_device t\<rparr>"

text \<open>An admitted command: one task per target.\<close>

definition spawn_authorized :: "reader_port \<Rightarrow> authorized_dispatch_command \<Rightarrow> push_group" where
  "spawn_authorized port c = \<lparr>pg_enrollment = dc_enrollment_id c,
     pg_tasks = map (\<lambda>t. \<lparr>pt_push = tg_push_id t, pt_prog = authorized_push (args_of port c t) (tg_push_id t),
       pt_calling = False\<rparr>) (dc_targets c)\<rparr>"

definition enqueue_dispatch :: "authorized_dispatch_command option \<Rightarrow> push_system \<Rightarrow> push_system" where
  "enqueue_dispatch c y = (case c of None \<Rightarrow> y | Some c \<Rightarrow> y\<lparr>sy_messages := sy_messages y @ [Dispatch c]\<rparr>)"

definition task_at :: "push_system \<Rightarrow> nat \<Rightarrow> nat \<Rightarrow> push_task option" where
  "task_at y g i = (if g < length (sy_groups y) \<and> i < length (pg_tasks (sy_groups y ! g))
     then Some (pg_tasks (sy_groups y ! g) ! i) else None)"

definition set_task :: "nat \<Rightarrow> nat \<Rightarrow> push_task \<Rightarrow> push_system \<Rightarrow> push_system" where
  "set_task g i t y =
     y\<lparr>sy_groups := (sy_groups y)[g := (sy_groups y ! g)\<lparr>pg_tasks := (pg_tasks (sy_groups y ! g))[i := t]\<rparr>]\<rparr>"

definition task_done :: "push_task \<Rightarrow> bool" where
  "task_done t = (case pt_prog t of Return x \<Rightarrow> True | _ \<Rightarrow> False)"

definition is_enrollment_key :: "checkpoint_row \<Rightarrow> bool" where
  "is_enrollment_key r \<longleftrightarrow> prefix_of ''enrollment:'' (ck_operation_key r)"

text \<open>What the other components do to the store: everything but the pushes, the enrollments and
  their checkpoints.\<close>

definition elsewhere :: "face_store \<Rightarrow> face_store \<Rightarrow> bool" where
  "elsewhere s s' \<longleftrightarrow> eb_pushes s' = eb_pushes s \<and> eb_enrollments s' = eb_enrollments s \<and>
     filter is_enrollment_key (eb_checkpoints s') = filter is_enrollment_key (eb_checkpoints s)"

datatype push_event =
    Submit start_env string string string "string option" "string option" string
  | Retry_Push job_env face_store string string
  | Take_Message
  | Run_Step nat nat job_env
  | Send_Call nat nat
  | Reply_Call nat nat call_reply
  | Finalize nat job_env
  | Close
  | Stop_Process
  | Boot "nat \<Rightarrow> job_env"
  | Elsewhere face_store

definition no_call :: "string \<Rightarrow> device_call \<Rightarrow> call_reply" where
  "no_call key op = Panicked"

definition remove_nth :: "nat \<Rightarrow> 'a list \<Rightarrow> 'a list" where
  "remove_nth n xs = take n xs @ drop (Suc n) xs"

fun push_step ::
  "cipher_libs \<Rightarrow> string \<Rightarrow> reader_port \<Rightarrow> push_event \<Rightarrow> push_system \<Rightarrow> push_system option" where
  "push_step C key port (Submit E actor employee via source quality bytes) y =
     (if \<not> sy_up y then None
      else case start_enrollment C key port (E\<lparr>se_accepting := sy_accepting y\<rparr>) actor employee via source quality bytes
            (sy_files y, sy_store y) of
          ((fs, s), c, x) \<Rightarrow> Some (enqueue_dispatch c (y\<lparr>sy_files := fs, sy_store := s\<rparr>)))"
| "push_step C key port (Retry_Push W earlier enrollment_id device_id) y =
     (if \<not> sy_up y then None
      else case retry_enrollment_push C key port W (sy_accepting y) (sy_files y) earlier enrollment_id device_id (sy_store y) of
          (s, c, x) \<Rightarrow> Some (enqueue_dispatch c (y\<lparr>sy_store := s\<rparr>)))"
| "push_step C key port Take_Message y =
     (if \<not> sy_up y then None
      else case sy_messages y of
          Dispatch c # ms \<Rightarrow> Some (y\<lparr>sy_messages := ms, sy_groups := sy_groups y @ [spawn_authorized port c]\<rparr>)
        | _ \<Rightarrow> None)"
| "push_step C key port (Run_Step g i W) y =
     (case task_at y g i of
        None \<Rightarrow> None
      | Some t \<Rightarrow> (case pt_prog t of
          Atomic l e k \<Rightarrow> Some (set_task g i (t\<lparr>pt_prog := k W (sy_store y)\<rparr>) (y\<lparr>sy_store := e W (sy_store y)\<rparr>))
        | _ \<Rightarrow> None))"
| "push_step C key port (Send_Call g i) y =
     (case task_at y g i of
        None \<Rightarrow> None
      | Some t \<Rightarrow> (case pt_prog t of
          Call k op cont \<Rightarrow> if pt_calling t then None
            else Some (set_task g i (t\<lparr>pt_calling := True\<rparr>) (y\<lparr>sy_log := sy_log y @ [Sent (pt_push t)]\<rparr>))
        | _ \<Rightarrow> None))"
| "push_step C key port (Reply_Call g i r) y =
     (case task_at y g i of
        None \<Rightarrow> None
      | Some t \<Rightarrow> (case pt_prog t of
          Call k op cont \<Rightarrow> if \<not> pt_calling t then None
            else Some (set_task g i (t\<lparr>pt_prog := cont r, pt_calling := False\<rparr>)
              (y\<lparr>sy_log := sy_log y @ [Replied (pt_push t) r]\<rparr>))
        | _ \<Rightarrow> None))"
| "push_step C key port (Finalize g W) y =
     (if g < length (sy_groups y) \<and> list_all task_done (pg_tasks (sy_groups y ! g))
      then Some (y\<lparr>sy_store := fst (finalize_enrollment W (pg_enrollment (sy_groups y ! g)) (sy_store y)),
        sy_groups := remove_nth g (sy_groups y)\<rparr>)
      else None)"
| "push_step C key port Close y =
     (if \<not> sy_up y \<or> \<not> sy_accepting y then None
      else Some (y\<lparr>sy_accepting := False, sy_messages := sy_messages y @ [Close_Dispatcher]\<rparr>))"
| "push_step C key port Stop_Process y =
     Some (y\<lparr>sy_up := False, sy_accepting := False, sy_messages := [], sy_groups := []\<rparr>)"
| "push_step C key port (Boot Ws) y =
     (if sy_up y then None
      else case run_alone recover_startup_checkpoints Ws no_call 0 (sy_store y) of
          (s, Inl e) \<Rightarrow> Some (y\<lparr>sy_store := s\<rparr>)
        | (s, Inr u) \<Rightarrow> Some (y\<lparr>sy_store := s, sy_up := True, sy_accepting := True\<rparr>))"
| "push_step C key port (Elsewhere s) y =
     (if elsewhere (sy_store y) s then Some (y\<lparr>sy_store := s\<rparr>) else None)"

section \<open>The protocol of a push\<close>

definition about :: "string \<Rightarrow> log_entry \<Rightarrow> bool" where
  "about p e = (case e of Sent q \<Rightarrow> q = p | Replied q r \<Rightarrow> q = p)"

definition last_entry :: "string \<Rightarrow> log_entry list \<Rightarrow> log_entry option" where
  "last_entry p calls = (case rev (filter (about p) calls) of [] \<Rightarrow> None | e # es \<Rightarrow> Some e)"

lemma last_entry_Nil [simp]: "last_entry p [] = None"
  by (simp add: last_entry_def)

lemma last_entry_snoc [simp]: "last_entry p (calls @ [e]) = (if about p e then Some e else last_entry p calls)"
  by (simp add: last_entry_def)

lemma about_simps [simp]: "about p (Sent q) \<longleftrightarrow> q = p" "about p (Replied q r) \<longleftrightarrow> q = p"
  by (auto simp: about_def)

text \<open>A push may be sent if it never was, or the reader refused it the last time.\<close>

definition sendable :: "string \<Rightarrow> log_entry list \<Rightarrow> bool" where
  "sendable p calls \<longleftrightarrow> last_entry p calls = None \<or> (\<exists>m. last_entry p calls = Some (Replied p (Refused m)))"

text \<open>Where a task is, read off the next command.\<close>

datatype task_mode = Ready | Dropping | Applied | Committing | Holding | Over

fun mode_of :: "task_result prog \<Rightarrow> task_mode" where
  "mode_of (Return x) = Over"
| "mode_of (Call key op k) = Ready"
| "mode_of (Atomic l e k) =
     (if l = ''enrollments.start-device-push'' then Ready
      else if l = ''enrollments.fail-device-push'' then Dropping
      else if l = ''enrollments.mark-device-operation'' then Applied
      else if l = ''enrollments.complete-device-push'' then Committing
      else if l = ''enrollments.record-push-recovery'' then Holding
      else Over)"

lemma mode_of_command [simp]: "mode_of (command l op k) = mode_of (Atomic l undefined undefined)"
  by (simp add: command_def)

definition may_call :: "task_mode \<Rightarrow> bool" where
  "may_call m \<longleftrightarrow> m \<in> {Ready, Dropping, Applied, Committing}"

inductive over :: "string \<Rightarrow> task_result prog \<Rightarrow> bool" for p where
  over_Return: "over p (Return x)"
| over_terminalize: "(\<And>r. over p (k r)) \<Longrightarrow>
    over p (command ''enrollments.terminalize-authorized-push'' (\<lambda>W. terminalize_authorized_failure W p m) k)"

text \<open>The programs a task for a push can have, by mode.\<close>

fun at_mode :: "task_mode \<Rightarrow> string \<Rightarrow> task_result prog \<Rightarrow> bool" where
  "at_mode Ready p q \<longleftrightarrow> (\<exists>A. q = bind_prog (push_admitted A p) (push_outcome p) \<or> q = bind_prog (push_call A p) (push_outcome p))"
| "at_mode Dropping p q \<longleftrightarrow> (\<exists>m k. q = command ''enrollments.fail-device-push'' (\<lambda>W. complete_push_failure W p m) k \<and> (\<forall>r. over p (k r)))"
| "at_mode Applied p q \<longleftrightarrow> (\<exists>A. q = bind_prog (push_applied A p) (push_outcome p))"
| "at_mode Committing p q \<longleftrightarrow> (\<exists>A. q = bind_prog (push_commit A p) (push_outcome p))"
| "at_mode Holding p q \<longleftrightarrow> (\<exists>m b k. q = command ''enrollments.record-push-recovery''
     (\<lambda>W. record_push_recovery_failure W p m b) k \<and> (\<forall>r. over p (k r)))"
| "at_mode Over p q \<longleftrightarrow> over p q"

lemma over_or_error: "over p q \<Longrightarrow> over p (or_error pre r q)"
  by (cases r) (auto simp: or_error_def intro: over_Return)

lemma over_outcome: "over p (push_outcome p x)"
  unfolding push_outcome_def
  by (cases x) (auto intro!: over_Return over_terminalize over_or_error)

lemma over_bind_or_error: "over p (bind_prog (or_error pre r (Return x)) (push_outcome p))"
  by (cases r) (auto simp: or_error_def intro: over_outcome)

lemma over_mode: "over p q \<Longrightarrow> mode_of q = Over"
  by (induction rule: over.induct) auto

lemmas push_modes = push_admitted_def push_call_def push_reader_def push_applied_def push_commit_def push_reply_def

lemma at_mode_mode: "at_mode m p q \<Longrightarrow> mode_of q = m"
  by (cases m) (auto simp: push_modes over_mode)

lemma modes_of_reader: "at_mode Ready p (bind_prog (push_reader A p) (push_outcome p)) \<or>
    at_mode Dropping p (bind_prog (push_reader A p) (push_outcome p))"
proof (cases "reader_of (px_port A) (px_device A)")
  case (Inl e)
  then show ?thesis by (auto simp: push_reader_def Let_def over_bind_or_error intro!: disjI2 exI)
next
  case (Inr u)
  then show ?thesis by (auto simp: push_reader_def)
qed

lemma mode_of_reply: "at_mode (case r of Accepted \<Rightarrow> Applied | Refused m \<Rightarrow> Dropping | Panicked \<Rightarrow> Over | _ \<Rightarrow> Holding) p
    (bind_prog (push_reply A p r) (push_outcome p))"
  by (cases r) (auto simp: push_reply_def Let_def over_outcome intro!: exI)

section \<open>The invariant of the system\<close>

text \<open>What the rows of one push and its last call say about each other: a checkpoint says applied, or
  the push successful, only if the reader accepted; without a checkpoint the push may be sent again
  or has succeeded.\<close>

definition push_rows :: "string \<Rightarrow> face_store \<Rightarrow> push_row list" where
  "push_rows p s = filter (push_of p) (eb_pushes s)"

definition push_key :: "string \<Rightarrow> checkpoint_row \<Rightarrow> bool" where
  "push_key p r \<longleftrightarrow> ck_operation_key r = enrollment_checkpoint_key p"

definition push_keys :: "string \<Rightarrow> face_store \<Rightarrow> checkpoint_row list" where
  "push_keys p s = filter (push_key p) (eb_checkpoints s)"

definition push_consistent :: "string \<Rightarrow> log_entry list \<Rightarrow> face_store \<Rightarrow> bool" where
  "push_consistent p calls s \<longleftrightarrow>
     (last_entry p calls \<noteq> None \<or> push_keys p s \<noteq> [] \<longrightarrow> push_rows p s \<noteq> []) \<and> length (push_keys p s) \<le> 1 \<and>
     (\<forall>r \<in> set (push_keys p s). ck_state r = ''device_applied'' \<longrightarrow> last_entry p calls = Some (Replied p Accepted)) \<and>
     (\<forall>q \<in> set (push_rows p s). (pu_status q = ''success'' \<longrightarrow> last_entry p calls = Some (Replied p Accepted)) \<and>
        (push_keys p s \<noteq> [] \<or> sendable p calls \<or> pu_status q = ''success''))"

definition store_ok :: "log_entry list \<Rightarrow> face_store \<Rightarrow> bool" where
  "store_ok calls s \<longleftrightarrow> distinct (map pu_id (eb_pushes s)) \<and> (\<forall>p. push_consistent p calls s)"

definition replay_free :: "log_entry list \<Rightarrow> bool" where
  "replay_free calls \<longleftrightarrow> (\<forall>xs p zs. calls = xs @ Sent p # zs \<longrightarrow> sendable p xs)"

definition all_tasks :: "push_system \<Rightarrow> push_task list" where
  "all_tasks y = concat (map pg_tasks (sy_groups y))"

definition all_targets :: "push_system \<Rightarrow> dispatch_target list" where
  "all_targets y = concat (map (\<lambda>m. case m of Dispatch c \<Rightarrow> dc_targets c | Close_Dispatcher \<Rightarrow> []) (sy_messages y))"

definition claiming :: "push_task \<Rightarrow> bool" where
  "claiming t \<longleftrightarrow> may_call (mode_of (pt_prog t))"

definition claims :: "push_system \<Rightarrow> string list" where
  "claims y = map pt_push (filter claiming (all_tasks y)) @ map tg_push_id (all_targets y)"

definition task_ok :: "log_entry list \<Rightarrow> push_task \<Rightarrow> bool" where
  "task_ok calls t \<longleftrightarrow> at_mode (mode_of (pt_prog t)) (pt_push t) (pt_prog t) \<and>
     (case mode_of (pt_prog t) of
        Ready \<Rightarrow> if pt_calling t
          then last_entry (pt_push t) calls = Some (Sent (pt_push t)) \<and>
            (\<exists>A. pt_prog t = bind_prog (push_call A (pt_push t)) (push_outcome (pt_push t)))
          else sendable (pt_push t) calls
      | Dropping \<Rightarrow> sendable (pt_push t) calls
      | Applied \<Rightarrow> last_entry (pt_push t) calls = Some (Replied (pt_push t) Accepted)
      | Committing \<Rightarrow> last_entry (pt_push t) calls = Some (Replied (pt_push t) Accepted)
      | _ \<Rightarrow> True)"

definition system_ok :: "push_system \<Rightarrow> bool" where
  "system_ok y \<longleftrightarrow> store_ok (sy_log y) (sy_store y) \<and> replay_free (sy_log y) \<and> distinct (claims y) \<and>
     (\<forall>p \<in> set (claims y). push_keys p (sy_store y) \<noteq> [] \<and> push_rows p (sy_store y) \<noteq> []) \<and>
     (\<forall>t \<in> set (all_tasks y). task_ok (sy_log y) t \<and>
        (mode_of (pt_prog t) = Holding \<longrightarrow> push_keys (pt_push t) (sy_store y) \<noteq> [] \<and> pt_push t \<notin> set (claims y))) \<and>
     (\<forall>t \<in> set (all_targets y). sendable (tg_push_id t) (sy_log y)) \<and>
     (sy_up y \<or> sy_groups y = [] \<and> sy_messages y = [])"

lemma push_key_inj: "push_key p r \<Longrightarrow> push_key q r \<Longrightarrow> p = q"
  by (simp add: push_key_def enrollment_checkpoint_key_def)

lemma has_checkpoint_keys: "has_checkpoint (enrollment_checkpoint_key p) s \<longleftrightarrow> push_keys p s \<noteq> []"
  by (auto simp: has_checkpoint_def push_keys_def push_key_def filter_empty_conv image_iff) metis

lemma filter_update_other:
  "(\<And>r. Q (f r) = Q r) \<Longrightarrow> (\<And>r. P r \<Longrightarrow> \<not> Q r) \<Longrightarrow> filter Q (update_where P f t) = filter Q t"
  by (induction t) (auto simp: update_where_def)

lemma filter_update_same:
  "(\<And>r. Q (f r) = Q r) \<Longrightarrow> filter Q (update_where P f t) = update_where P f (filter Q t)"
  by (induction t) (auto simp: update_where_def)

lemma filter_delete_other: "(\<And>r. P r \<Longrightarrow> \<not> Q r) \<Longrightarrow> filter Q (delete_where P t) = filter Q t"
  by (induction t) (auto simp: delete_where_def)

text \<open>The state a step leaves a push in, when it is not the one it works on.\<close>

definition same_push :: "string \<Rightarrow> log_entry list \<Rightarrow> face_store \<Rightarrow> log_entry list \<Rightarrow> face_store \<Rightarrow> bool" where
  "same_push q calls s calls' s' \<longleftrightarrow> last_entry q calls' = last_entry q calls \<and>
     push_rows q s' = push_rows q s \<and> push_keys q s' = push_keys q s"

lemma same_push_consistent: "same_push q calls s calls' s' \<Longrightarrow> push_consistent q calls s \<Longrightarrow> push_consistent q calls' s'"
  by (simp add: same_push_def push_consistent_def sendable_def)

lemma same_push_refl [simp]: "same_push q calls s calls s"
  by (simp add: same_push_def)

text \<open>A step of one task: what it has to keep.\<close>

lemma task_step_ok:
  assumes ok: "system_ok y" and tasks: "all_tasks y = xs @ t # ys" "all_tasks y' = xs @ t' # ys"
    and rest: "all_targets y' = all_targets y" "sy_up y'" and push: "pt_push t' = pt_push t"
    and others: "\<And>q. q \<noteq> pt_push t \<Longrightarrow> same_push q (sy_log y) (sy_store y) (sy_log y') (sy_store y')"
    and here: "push_consistent (pt_push t) (sy_log y') (sy_store y')"
    and ids: "map pu_id (eb_pushes (sy_store y')) = map pu_id (eb_pushes (sy_store y))"
    and calls: "replay_free (sy_log y')"
    and idle: "\<not> claiming t \<Longrightarrow> last_entry (pt_push t) (sy_log y') = last_entry (pt_push t) (sy_log y) \<and>
        (push_keys (pt_push t) (sy_store y') = [] \<longleftrightarrow> push_keys (pt_push t) (sy_store y) = []) \<and> mode_of (pt_prog t') = Over"
    and claim: "claiming t' \<or> mode_of (pt_prog t') = Holding \<Longrightarrow> push_keys (pt_push t) (sy_store y') \<noteq> []"
    and task: "task_ok (sy_log y') t'"
  shows "system_ok y'"
proof -
  let ?p = "pt_push t" and ?s = "sy_store y" and ?s' = "sy_store y'"
  have rows: "push_rows q ?s' = [] \<longleftrightarrow> push_rows q ?s = []" for q
  proof -
    have "push_rows q s = [] \<longleftrightarrow> q \<notin> set (map pu_id (eb_pushes s))" for s
      by (auto simp: push_rows_def filter_empty_conv push_of_def)
    then show ?thesis using ids by metis
  qed
  have claims: "claims y = map pt_push (filter claiming xs) @ (if claiming t then [?p] else []) @
      map pt_push (filter claiming ys) @ map tg_push_id (all_targets y)"
    "claims y' = map pt_push (filter claiming xs) @ (if claiming t' then [?p] else []) @
      map pt_push (filter claiming ys) @ map tg_push_id (all_targets y)"
    using push by (simp_all add: claims_def tasks rest)
  have mode: "mode_of (pt_prog t') = Over \<Longrightarrow> \<not> claiming t'" by (simp add: claiming_def may_call_def)
  have sub: "set (claims y') \<subseteq> set (claims y)" using claims idle mode by auto
  have d: "distinct (claims y)" using ok by (simp add: system_ok_def)
  then have d': "distinct (claims y')" using claims idle mode by (auto split: if_splits)
  have keys: "push_keys q ?s' \<noteq> []" if q: "q \<in> set (claims y')" for q
  proof (cases "q = ?p")
    case True
    show ?thesis
    proof (cases "claiming t'")
      case False
      have "\<not> claiming t" using q True False d claims by (auto split: if_splits)
      then show ?thesis using idle ok sub q True by (auto simp: system_ok_def)
    qed (use claim True in auto)
  next
    case False
    then show ?thesis using others [of q] ok sub q by (auto simp: system_ok_def same_push_def)
  qed
  have unmoved: "last_entry q (sy_log y') = last_entry q (sy_log y) \<and> (push_keys q ?s' = [] \<longleftrightarrow> push_keys q ?s = [])"
    if "q \<noteq> ?p \<or> \<not> claiming t" for q
    using that others [of q] idle by (cases "q = ?p") (auto simp: same_push_def)
  have other: "task_ok (sy_log y') u \<and> (mode_of (pt_prog u) = Holding \<longrightarrow>
      push_keys (pt_push u) ?s' \<noteq> [] \<and> pt_push u \<notin> set (claims y'))" if u: "u \<in> set xs \<union> set ys" for u
  proof -
    have old: "task_ok (sy_log y) u" "mode_of (pt_prog u) = Holding \<longrightarrow> push_keys (pt_push u) ?s \<noteq> [] \<and> pt_push u \<notin> set (claims y)"
      using ok u tasks(1) by (auto simp: system_ok_def)
    show ?thesis
    proof (cases "pt_push u = ?p \<and> claiming t")
      case True
      then have "\<not> claiming u" using d u claims(1) by (auto simp: image_iff)
      moreover have "mode_of (pt_prog u) \<noteq> Holding" using old(2) True claims(1) by auto
      ultimately have "mode_of (pt_prog u) = Over" by (cases "mode_of (pt_prog u)") (auto simp: claiming_def may_call_def)
      then show ?thesis using old(1) by (simp add: task_ok_def)
    next
      case False
      then have "last_entry (pt_push u) (sy_log y') = last_entry (pt_push u) (sy_log y)"
        "push_keys (pt_push u) ?s' = [] \<longleftrightarrow> push_keys (pt_push u) ?s = []"
        using unmoved [of "pt_push u"] by blast+
      then show ?thesis using old sub by (auto simp: task_ok_def sendable_def split: task_mode.splits)
    qed
  qed
  have targets: "sendable (tg_push_id u) (sy_log y')" if u: "u \<in> set (all_targets y')" for u
  proof -
    have "sendable (tg_push_id u) (sy_log y)" using ok u rest by (simp add: system_ok_def)
    moreover have "last_entry (tg_push_id u) (sy_log y') = last_entry (tg_push_id u) (sy_log y)"
    proof (cases "tg_push_id u = ?p \<and> claiming t")
      case True
      then show ?thesis using d u rest claims(1) by (auto simp: image_iff)
    next
      case False
      then show ?thesis using unmoved [of "tg_push_id u"] by blast
    qed
    ultimately show ?thesis by (simp add: sendable_def)
  qed
  have "mode_of (pt_prog t') = Holding \<Longrightarrow> ?p \<notin> set (claims y')"
    using idle d claims by (auto simp: claiming_def may_call_def split: if_splits)
  moreover have "push_consistent q (sy_log y') ?s'" for q
    using same_push_consistent [OF others [of q]] here ok by (cases "q = ?p") (auto simp: system_ok_def store_ok_def)
  then have "store_ok (sy_log y') ?s'" using ok ids by (auto simp: system_ok_def store_ok_def)
  moreover have "\<forall>q \<in> set (claims y'). push_rows q ?s' \<noteq> []"
    using ok sub rows by (auto simp: system_ok_def)
  ultimately show ?thesis
    using calls d' keys other targets task claim push rest tasks(2) by (auto simp: system_ok_def)
qed

section \<open>The steps of a task\<close>

lemma all_tasks_split:
  assumes "task_at y g i = Some t"
  obtains xs ys where "all_tasks y = xs @ t # ys"
    "\<And>t' z. sy_groups z = sy_groups y \<Longrightarrow> all_tasks (set_task g i t' z) = xs @ t' # ys"
proof -
  have g: "g < length (sy_groups y)" "i < length (pg_tasks (sy_groups y ! g))" "t = pg_tasks (sy_groups y ! g) ! i"
    using assms by (auto simp: task_at_def split: if_splits)
  let ?G = "sy_groups y" and ?T = "pg_tasks (sy_groups y ! g)"
  let ?xs = "concat (map pg_tasks (take g ?G)) @ take i ?T" and ?ys = "drop (Suc i) ?T @ concat (map pg_tasks (drop (Suc g) ?G))"
  have "all_tasks y = concat (map pg_tasks (take g ?G @ ?G ! g # drop (Suc g) ?G))"
    using id_take_nth_drop [OF g(1)] by (simp add: all_tasks_def)
  also have "\<dots> = ?xs @ t # ?ys" using id_take_nth_drop [OF g(2)] g(3) by simp
  finally have one: "all_tasks y = ?xs @ t # ?ys" .
  have "all_tasks (set_task g i t' z) = ?xs @ t' # ?ys" if "sy_groups z = sy_groups y" for t' z
    using that g by (simp add: all_tasks_def set_task_def upd_conv_take_nth_drop)
  with one show thesis using that by blast
qed

lemma set_task_rest [simp]:
  "sy_store (set_task g i t y) = sy_store y" "sy_log (set_task g i t y) = sy_log y"
  "all_targets (set_task g i t y) = all_targets y" "sy_up (set_task g i t y) = sy_up y"
  by (simp_all add: set_task_def all_targets_def)

lemma task_up: "system_ok y \<Longrightarrow> task_at y g i = Some t \<Longrightarrow> sy_up y"
  by (auto simp: system_ok_def task_at_def split: if_splits)

definition touches :: "string \<Rightarrow> face_store \<Rightarrow> face_store \<Rightarrow> bool" where
  "touches p s s' \<longleftrightarrow> map pu_id (eb_pushes s') = map pu_id (eb_pushes s) \<and>
     (\<forall>q. q \<noteq> p \<longrightarrow> push_rows q s' = push_rows q s \<and> push_keys q s' = push_keys q s)"

lemma touches_refl [simp]: "touches p s s"
  by (simp add: touches_def)

lemma touchesI:
  assumes "eb_pushes s' = update_where P f (eb_pushes s)" "\<And>r. P r \<Longrightarrow> pu_id r = p" "\<And>r. pu_id (f r) = pu_id r"
    and "eb_checkpoints s' = eb_checkpoints s \<or> eb_checkpoints s' = delete_where (push_key p) (eb_checkpoints s) \<or>
      (\<exists>Q st now. eb_checkpoints s' = update_where Q (\<lambda>r. r\<lparr>ck_state := st, ck_updated_at := now\<rparr>) (eb_checkpoints s) \<and>
        (\<forall>r. Q r \<longrightarrow> push_key p r))"
  shows "touches p s s'"
  unfolding touches_def
proof (intro conjI allI impI)
  show "map pu_id (eb_pushes s') = map pu_id (eb_pushes s)"
    unfolding assms(1) by (rule map_update_where) (simp add: assms(3))
next
  fix q assume q: "q \<noteq> p"
  show "push_rows q s' = push_rows q s"
    unfolding push_rows_def assms(1) by (rule filter_update_other) (use assms(2,3) q in \<open>auto simp: push_of_def\<close>)
  have other: "\<not> push_key q r" if "push_key p r" for r using that q push_key_inj by blast
  consider "eb_checkpoints s' = eb_checkpoints s" | "eb_checkpoints s' = delete_where (push_key p) (eb_checkpoints s)"
    | Q st now where "eb_checkpoints s' = update_where Q (\<lambda>r. r\<lparr>ck_state := st, ck_updated_at := now\<rparr>) (eb_checkpoints s)"
        "\<forall>r. Q r \<longrightarrow> push_key p r"
    using assms(4) by blast
  then show "push_keys q s' = push_keys q s"
  proof cases
    case 2
    show ?thesis unfolding push_keys_def 2 by (rule filter_delete_other) (rule other)
  next
    case 3
    show ?thesis
      unfolding push_keys_def 3(1) by (rule filter_update_other) (use other 3(2) in \<open>auto simp: push_key_def\<close>)
  qed (simp add: push_keys_def)
qed

lemma push_key_fun: "(\<lambda>r. ck_operation_key r = enrollment_checkpoint_key p) = push_key p"
  by (simp add: push_key_def fun_eq_iff)

lemma keys_update:
  "eb_checkpoints s' = update_where Q (\<lambda>r. r\<lparr>ck_state := st, ck_updated_at := now\<rparr>) (eb_checkpoints s) \<Longrightarrow>
   push_keys p s' = update_where Q (\<lambda>r. r\<lparr>ck_state := st, ck_updated_at := now\<rparr>) (push_keys p s)"
  unfolding push_keys_def by (simp add: filter_update_same push_key_def)

lemma keys_delete: "eb_checkpoints s' = delete_where (push_key p) (eb_checkpoints s) \<Longrightarrow> push_keys p s' = []"
  by (auto simp: push_keys_def filter_empty_conv delete_where_def)

lemma update_filtered: "(\<And>r. P (f r) = P r) \<Longrightarrow> filter P (update_where P f t) = map f (filter P t)"
  by (induction t) (auto simp: update_where_def)

lemma rows_update:
  "eb_pushes s' = update_where (push_of p) f (eb_pushes s) \<Longrightarrow> (\<And>r. pu_id (f r) = pu_id r) \<Longrightarrow>
   push_rows p s' = map f (push_rows p s)"
  by (simp add: push_rows_def update_filtered push_of_def)

lemma push_edits_keep [simp]:
  "pu_id (push_succeeded now r) = pu_id r" "pu_id (push_failed now m r) = pu_id r"
  "pu_status (push_succeeded now r) = ''success''" "pu_status (push_failed now m r) = ''failed''"
  by (simp_all add: push_succeeded_def push_failed_def)

lemma update_where_Nil_iff [simp]: "update_where P f t = [] \<longleftrightarrow> t = []"
  by (simp add: update_where_def)

lemma update_where_length [simp]: "length (update_where P f t) = length t"
  by (simp add: update_where_def)

text \<open>A command of a task, given what it leaves of its own push.\<close>

lemma task_command_ok:
  assumes ok: "system_ok y" and at: "task_at y g i = Some t" "pt_prog t = command l op k" "op W (sy_store y) = (s', x)"
    and touch: "touches (pt_push t) (sy_store y) s'" and here: "push_consistent (pt_push t) (sy_log y) s'"
    and idle: "\<not> claiming t \<Longrightarrow> (push_keys (pt_push t) s' = [] \<longleftrightarrow> push_keys (pt_push t) (sy_store y) = []) \<and> mode_of (k x) = Over"
    and claim: "may_call (mode_of (k x)) \<or> mode_of (k x) = Holding \<Longrightarrow> push_keys (pt_push t) s' \<noteq> []"
    and task: "task_ok (sy_log y) (t\<lparr>pt_prog := k x\<rparr>)"
    and y': "push_step C key port (Run_Step g i W) y = Some y'"
  shows "system_ok y'"
proof -
  obtain xs ys where split: "all_tasks y = xs @ t # ys"
    "\<And>t' z. sy_groups z = sy_groups y \<Longrightarrow> all_tasks (set_task g i t' z) = xs @ t' # ys"
    using all_tasks_split [OF at(1)] by metis
  have y': "y' = set_task g i (t\<lparr>pt_prog := k x\<rparr>) (y\<lparr>sy_store := s'\<rparr>)"
    using y' at by (simp add: command_def)
  show ?thesis
  proof (rule task_step_ok [OF ok split(1), of y' "t\<lparr>pt_prog := k x\<rparr>"])
    show "sy_up y'" using task_up [OF ok at(1)] by (simp add: y')
    show "replay_free (sy_log y')" using ok by (simp add: y' system_ok_def)
    show "all_targets y' = all_targets y" by (simp add: y' all_targets_def set_task_def)
  qed (use touch here idle claim task in \<open>auto simp: y' split(2) touches_def same_push_def claiming_def\<close>)
qed

lemma touches_mark:
  assumes "eb_pushes s' = eb_pushes s"
    and "eb_checkpoints s' = update_where (push_key p) (\<lambda>r. r\<lparr>ck_state := st, ck_updated_at := now\<rparr>) (eb_checkpoints s)"
  shows "touches p s s'"
proof (rule touchesI)
  show "eb_pushes s' = update_where (\<lambda>r. False) id (eb_pushes s)" using assms(1) by (simp add: update_where_def)
  show "eb_checkpoints s' = eb_checkpoints s \<or> eb_checkpoints s' = delete_where (push_key p) (eb_checkpoints s) \<or>
    (\<exists>Q st now. eb_checkpoints s' = update_where Q (\<lambda>r. r\<lparr>ck_state := st, ck_updated_at := now\<rparr>) (eb_checkpoints s) \<and>
      (\<forall>r. Q r \<longrightarrow> push_key p r))"
    using assms(2) by blast
qed simp_all

lemma task_facts:
  assumes "system_ok y" "task_at y g i = Some t"
  shows "task_ok (sy_log y) t" "at_mode (mode_of (pt_prog t)) (pt_push t) (pt_prog t)"
    "push_consistent (pt_push t) (sy_log y) (sy_store y)"
    "claiming t \<or> mode_of (pt_prog t) = Holding \<Longrightarrow> push_keys (pt_push t) (sy_store y) \<noteq> []"
proof -
  obtain xs ys where "all_tasks y = xs @ t # ys" using all_tasks_split [OF assms(2)] by metis
  then have t: "t \<in> set (all_tasks y)" "claiming t \<Longrightarrow> pt_push t \<in> set (claims y)" by (auto simp: claims_def)
  then show "task_ok (sy_log y) t" "push_consistent (pt_push t) (sy_log y) (sy_store y)"
    "claiming t \<or> mode_of (pt_prog t) = Holding \<Longrightarrow> push_keys (pt_push t) (sy_store y) \<noteq> []"
    using assms(1) by (auto simp: system_ok_def store_ok_def)
  then show "at_mode (mode_of (pt_prog t)) (pt_push t) (pt_prog t)" by (simp add: task_ok_def)
qed

lemma over_task_ok: "over p q \<Longrightarrow> pt_push t = p \<Longrightarrow> task_ok calls (t\<lparr>pt_prog := q\<rparr>)"
  using over_mode [of p q] by (simp add: task_ok_def)

lemma holding_task_ok: "at_mode Holding p q \<Longrightarrow> pt_push t = p \<Longrightarrow> task_ok calls (t\<lparr>pt_prog := q\<rparr>)"
  using at_mode_mode [of Holding p q] by (simp add: task_ok_def)

text \<open>The first command of each stage and what follows it.\<close>

lemma push_admitted_command:
  "\<exists>k. bind_prog (push_admitted A p) (push_outcome p) = command ''enrollments.start-device-push'' (\<lambda>W. mark_push_in_progress W p) k \<and>
     (\<forall>u. k (Inr u) = bind_prog (push_reader A p) (push_outcome p)) \<and> (\<forall>e. at_mode Holding p (k (Inl e)))"
  unfolding push_admitted_def bind_command
  by (intro exI conjI allI, rule refl) (auto simp: over_bind_or_error intro!: exI)

lemma push_applied_command:
  "\<exists>k. bind_prog (push_applied A p) (push_outcome p) = command ''enrollments.mark-device-operation''
       (\<lambda>W. mark_device_operation W (enrollment_checkpoint_key p) Device_Applied) k \<and>
     (\<forall>u. k (Inr u) = bind_prog (push_commit A p) (push_outcome p)) \<and> (\<forall>e. at_mode Holding p (k (Inl e)))"
  unfolding push_applied_def bind_command
  by (intro exI conjI allI, rule refl) (auto simp: over_bind_or_error intro!: exI)

lemma push_commit_command:
  "\<exists>k. bind_prog (push_commit A p) (push_outcome p) = command ''enrollments.complete-device-push''
       (\<lambda>W. complete_push_success W p (dw_id (px_device A)) (px_face_id A) (px_employee_id A)) k \<and>
     (\<forall>u. over p (k (Inr u))) \<and> (\<forall>e. at_mode Holding p (k (Inl e)))"
  unfolding push_commit_def bind_command
  by (intro exI conjI allI, rule refl) (auto simp: over_outcome intro!: exI)

lemma ready_step:
  assumes ok: "system_ok y" and at: "task_at y g i = Some t" and ready: "mode_of (pt_prog t) = Ready"
    and y': "push_step C key port (Run_Step g i W) y = Some y'"
  shows "system_ok y'"
proof -
  let ?p = "pt_push t" and ?s = "sy_store y"
  note facts = task_facts [OF ok at]
  obtain A where A: "pt_prog t = bind_prog (push_admitted A ?p) (push_outcome ?p)"
    using facts(2) ready y' at by (auto simp: push_call_def)
  have sendable: "sendable ?p (sy_log y)" and calling: "\<not> pt_calling t"
    using facts(1) ready by (auto simp: task_ok_def A push_admitted_def command_def push_call_def split: if_splits)
  have claiming: "claiming t" using ready by (simp add: claiming_def may_call_def)
  have keys: "push_keys ?p ?s \<noteq> []" using facts(4) claiming by simp
  obtain k where q: "pt_prog t = command ''enrollments.start-device-push'' (\<lambda>W. mark_push_in_progress W ?p) k"
    "k (Inr ()) = bind_prog (push_reader A ?p) (push_outcome ?p)" "\<And>e. at_mode Holding ?p (k (Inl e))"
    using push_admitted_command [of A ?p] A by auto
  obtain s' x where x: "mark_push_in_progress W ?p ?s = (s', x)" by fastforce
  from x show ?thesis
  proof (cases rule: mark_in_progress_cases)
    case ok
    let ?q = "bind_prog (push_reader A ?p) (push_outcome ?p)"
    have touch: "touches ?p ?s s'" by (rule touchesI [OF ok(2)]) (auto simp: push_of_def ok(3))
    have same: "push_keys ?p s' = push_keys ?p ?s" by (simp add: push_keys_def ok(3))
    have r: "push_rows ?p s' = map (\<lambda>r. r\<lparr>pu_status := ''in_progress'', pu_started_at := Some (je_now W)\<rparr>) (push_rows ?p ?s)"
      by (rule rows_update [OF ok(2)]) simp
    have "push_consistent ?p (sy_log y) s'"
      using facts(3) keys by (auto simp: push_consistent_def same r)
    moreover have "mode_of ?q = Ready \<and> at_mode Ready ?p ?q \<or> mode_of ?q = Dropping \<and> at_mode Dropping ?p ?q"
      using modes_of_reader [of ?p A] at_mode_mode by blast
    then have "task_ok (sy_log y) (t\<lparr>pt_prog := ?q\<rparr>)" using sendable calling by (auto simp: task_ok_def simp del: at_mode.simps)
    ultimately show ?thesis
      by (intro task_command_ok [OF assms(1) at q(1) x touch _ _ _ _ y']) (use keys same claiming q(2) ok(1) in auto)
  next
    case (failed e)
    show ?thesis
      by (rule task_command_ok [OF assms(1) at q(1) x _ _ _ _ _ y'])
        (use facts(3) keys failed claiming holding_task_ok [OF q(3)] at_mode_mode [OF q(3)] in auto)
  qed
qed

lemma dropping_step:
  assumes ok: "system_ok y" and at: "task_at y g i = Some t" and mode: "mode_of (pt_prog t) = Dropping"
    and y': "push_step C key port (Run_Step g i W) y = Some y'"
  shows "system_ok y'"
proof -
  let ?p = "pt_push t" and ?s = "sy_store y"
  note facts = task_facts [OF ok at]
  obtain m k where q: "pt_prog t = command ''enrollments.fail-device-push'' (\<lambda>W. complete_push_failure W ?p m) k"
    and over: "\<And>r. over ?p (k r)"
    using facts(2) mode by auto
  have sendable: "sendable ?p (sy_log y)" using facts(1) mode by (simp add: task_ok_def)
  obtain s' x where x: "complete_push_failure W ?p m ?s = (s', x)" by fastforce
  have claiming: "claiming t" using mode by (simp add: claiming_def may_call_def)
  from x have "touches ?p ?s s' \<and> push_consistent ?p (sy_log y) s'"
  proof (cases rule: complete_push_failure_cases)
    case ok
    have "touches ?p ?s s'"
      by (rule touchesI [OF ok(2)]) (auto simp: push_of_def ok(3) push_key_fun)
    moreover have "push_keys ?p s' = []" by (rule keys_delete) (simp add: ok(3) push_key_fun)
    moreover have "push_rows ?p s' = map (push_failed (je_now W) m) (push_rows ?p ?s)" by (rule rows_update [OF ok(2)]) simp
    ultimately show ?thesis using facts(3) sendable by (auto simp: push_consistent_def)
  qed (use facts(3) in simp)
  then show ?thesis
    using task_command_ok [OF ok at q x _ _ _ _ _ y'] claiming over_mode [OF over] over_task_ok [OF over refl]
    by (auto simp: may_call_def)
qed

lemma applied_step:
  assumes ok: "system_ok y" and at: "task_at y g i = Some t" and mode: "mode_of (pt_prog t) = Applied"
    and y': "push_step C key port (Run_Step g i W) y = Some y'"
  shows "system_ok y'"
proof -
  let ?p = "pt_push t" and ?s = "sy_store y"
  note facts = task_facts [OF ok at]
  obtain A where A: "pt_prog t = bind_prog (push_applied A ?p) (push_outcome ?p)" using facts(2) mode by auto
  have accepted: "last_entry ?p (sy_log y) = Some (Replied ?p Accepted)" using facts(1) mode by (simp add: task_ok_def)
  have claiming: "claiming t" using mode by (simp add: claiming_def may_call_def)
  have keys: "push_keys ?p ?s \<noteq> []" using facts(4) claiming by simp
  obtain k where q: "pt_prog t = command ''enrollments.mark-device-operation''
      (\<lambda>W. mark_device_operation W (enrollment_checkpoint_key ?p) Device_Applied) k"
    "k (Inr ()) = bind_prog (push_commit A ?p) (push_outcome ?p)" "\<And>e. at_mode Holding ?p (k (Inl e))"
    using push_applied_command [of A ?p] A by auto
  obtain s' x where x: "mark_device_operation W (enrollment_checkpoint_key ?p) Device_Applied ?s = (s', x)" by fastforce
  have kept: "touches ?p ?s s' \<and> push_consistent ?p (sy_log y) s' \<and> push_keys ?p s' \<noteq> []"
    using x
  proof (cases rule: mark_operation_cases)
    case ok
    have "touches ?p ?s s'"
      by (rule touches_mark [OF ok(2)]) (use ok(3) in \<open>simp add: push_key_fun\<close>)
    moreover have "push_rows ?p s' = push_rows ?p ?s" by (simp add: push_rows_def ok)
    moreover have "push_keys ?p s' \<noteq> []" "length (push_keys ?p s') = length (push_keys ?p ?s)"
      using keys_update [OF ok(3), of ?p] keys by simp_all
    ultimately show ?thesis using facts(3) accepted by (auto simp: push_consistent_def)
  qed (use facts(3) keys in simp)
  let ?q = "bind_prog (push_commit A ?p) (push_outcome ?p)"
  have am: "at_mode Committing ?p ?q" by auto
  have commit: "mode_of ?q = Committing" "task_ok (sy_log y) (t\<lparr>pt_prog := ?q\<rparr>)"
    using at_mode_mode [OF am] am accepted by (simp_all add: task_ok_def del: at_mode.simps)
  have "task_ok (sy_log y) (t\<lparr>pt_prog := k x\<rparr>)"
    using q(2) commit holding_task_ok [OF q(3)] by (cases x) auto
  then show ?thesis by (intro task_command_ok [OF ok at q(1) x _ _ _ _ _ y']) (use kept claiming in auto)
qed

lemma committing_step:
  assumes ok: "system_ok y" and at: "task_at y g i = Some t" and mode: "mode_of (pt_prog t) = Committing"
    and y': "push_step C key port (Run_Step g i W) y = Some y'"
  shows "system_ok y'"
proof -
  let ?p = "pt_push t" and ?s = "sy_store y"
  note facts = task_facts [OF ok at]
  obtain A where A: "pt_prog t = bind_prog (push_commit A ?p) (push_outcome ?p)" using facts(2) mode by auto
  have accepted: "last_entry ?p (sy_log y) = Some (Replied ?p Accepted)" using facts(1) mode by (simp add: task_ok_def)
  have claiming: "claiming t" using mode by (simp add: claiming_def may_call_def)
  have keys: "push_keys ?p ?s \<noteq> []" using facts(4) claiming by simp
  obtain k where q: "pt_prog t = command ''enrollments.complete-device-push''
      (\<lambda>W. complete_push_success W ?p (dw_id (px_device A)) (px_face_id A) (px_employee_id A)) k"
    "over ?p (k (Inr ()))" "\<And>e. at_mode Holding ?p (k (Inl e))"
    using push_commit_command [of A ?p] A by auto
  obtain s' x where x: "complete_push_success W ?p (dw_id (px_device A)) (px_face_id A) (px_employee_id A) ?s = (s', x)" by fastforce
  from x show ?thesis
  proof (cases rule: complete_push_success_cases)
    case ok
    have "touches ?p ?s s'" by (rule touchesI [OF ok(2)]) (auto simp: push_of_def ok(3) push_key_fun)
    moreover have "push_keys ?p s' = []" by (rule keys_delete) (simp add: ok(3) push_key_fun)
    moreover have "push_rows ?p s' = map (push_succeeded (je_now W)) (push_rows ?p ?s)" by (rule rows_update [OF ok(2)]) simp
    ultimately have "touches ?p ?s s' \<and> push_consistent ?p (sy_log y) s'"
      using facts(3) accepted by (auto simp: push_consistent_def)
    then show ?thesis
      by (intro task_command_ok [OF assms(1) at q(1) x _ _ _ _ _ y'])
        (use claiming ok(1) over_mode [OF q(2)] over_task_ok [OF q(2)] in \<open>auto simp: may_call_def\<close>)
  next
    case (failed m)
    show ?thesis
      by (rule task_command_ok [OF assms(1) at q(1) x _ _ _ _ _ y'])
        (use facts(3) keys claiming failed holding_task_ok [OF q(3)] in auto)
  qed
qed

lemma record_recovery_keeps:
  assumes x: "record_push_recovery_failure W p m b s = (s', x)"
    and here: "push_consistent p calls s" and keys: "push_keys p s \<noteq> []"
  shows "touches p s s' \<and> push_consistent p calls s' \<and> push_keys p s' \<noteq> []"
  using x
proof (cases rule: record_recovery_cases)
  case ok
  have "touches p s s'"
    by (rule touchesI [OF ok(2)]) (use ok(3) in \<open>auto simp: push_of_def push_key_def split: if_splits\<close>)
  moreover have rows: "push_rows p s' = map (push_failed (je_now W) m) (push_rows p s)" by (rule rows_update [OF ok(2)]) simp
  moreover have "push_keys p s' = (if b then update_where (push_key p)
      (\<lambda>r. r\<lparr>ck_state := ''manual'', ck_updated_at := je_now W\<rparr>) (push_keys p s) else push_keys p s)"
    using ok(3) keys_update [of s' "push_key p" "je_now W" "''manual''" s p] by (auto simp: push_key_fun push_keys_def)
  ultimately show ?thesis
    using here keys by (auto simp: push_consistent_def in_set_update_where split: if_splits)
qed (use here keys in simp)

lemma holding_step:
  assumes ok: "system_ok y" and at: "task_at y g i = Some t" and mode: "mode_of (pt_prog t) = Holding"
    and y': "push_step C key port (Run_Step g i W) y = Some y'"
  shows "system_ok y'"
proof -
  let ?p = "pt_push t" and ?s = "sy_store y"
  note facts = task_facts [OF ok at]
  obtain m b k where q: "pt_prog t = command ''enrollments.record-push-recovery'' (\<lambda>W. record_push_recovery_failure W ?p m b) k"
    and over: "\<And>r. over ?p (k r)"
    using facts(2) mode by auto
  have keys: "push_keys ?p ?s \<noteq> []" using facts(4) mode by simp
  obtain s' x where x: "record_push_recovery_failure W ?p m b ?s = (s', x)" by fastforce
  show ?thesis
    using task_command_ok [OF ok at q x _ _ _ _ _ y'] record_recovery_keeps [OF x facts(3) keys] keys
      over_mode [OF over] over_task_ok [OF over refl]
    by (auto simp: may_call_def)
qed

lemma over_step:
  assumes ok: "system_ok y" and at: "task_at y g i = Some t" and mode: "mode_of (pt_prog t) = Over"
    and y': "push_step C key port (Run_Step g i W) y = Some y'"
  shows "system_ok y'"
proof -
  let ?p = "pt_push t" and ?s = "sy_store y"
  note facts = task_facts [OF ok at]
  have "over ?p (pt_prog t)" using facts(2) mode by simp
  then obtain m k where q: "pt_prog t = command ''enrollments.terminalize-authorized-push''
      (\<lambda>W. terminalize_authorized_failure W ?p m) k" and over: "\<And>r. over ?p (k r)"
    by cases (use y' at in auto)
  obtain s' x where x: "terminalize_authorized_failure W ?p m ?s = (s', x)" by fastforce
  from x have "touches ?p ?s s' \<and> push_consistent ?p (sy_log y) s' \<and> (push_keys ?p s' = [] \<longleftrightarrow> push_keys ?p ?s = [])"
  proof (cases rule: terminalize_cases)
    case ok
    have keys: "push_keys ?p s' = update_where (\<lambda>r. ck_operation_key r = enrollment_checkpoint_key ?p \<and> ck_state r = ''prepared'')
        (\<lambda>r. r\<lparr>ck_state := ''manual'', ck_updated_at := je_now W\<rparr>) (push_keys ?p ?s)"
      by (rule keys_update [OF ok(3)])
    have rows: "push_rows ?p s' = update_where (\<lambda>r. pu_id r = ?p \<and> unfinished r) (push_failed (je_now W) m) (push_rows ?p ?s)"
      unfolding push_rows_def ok(2) by (rule filter_update_same) (simp add: push_of_def)
    have "touches ?p ?s s'"
      by (rule touchesI [OF ok(2)]) (use ok(3) in \<open>auto simp: push_key_def\<close>)
    then show ?thesis
      using facts(3) by (auto simp: push_consistent_def keys rows in_set_update_where unfinished_def split: if_splits)
  qed (use facts(3) in simp)
  then show ?thesis
    using task_command_ok [OF ok at q x _ _ _ _ _ y'] over_mode [OF over] over_task_ok [OF over refl] mode
    by (auto simp: may_call_def claiming_def)
qed

lemma run_step_ok:
  assumes "system_ok y" "push_step C key port (Run_Step g i W) y = Some y'"
  shows "system_ok y'"
proof -
  obtain t where t: "task_at y g i = Some t" using assms(2) by (auto split: option.splits)
  note steps = ready_step dropping_step applied_step committing_step holding_step over_step
  show ?thesis
    by (cases "mode_of (pt_prog t)") (erule steps [OF assms(1) t _ assms(2)])+
qed

lemma replay_free_snoc:
  "replay_free calls \<Longrightarrow> (\<And>p. e = Sent p \<Longrightarrow> sendable p calls) \<Longrightarrow> replay_free (calls @ [e])"
proof (unfold replay_free_def, intro allI impI)
  fix xs p zs
  assume old: "\<forall>xs p zs. calls = xs @ Sent p # zs \<longrightarrow> sendable p xs" and new: "\<And>p. e = Sent p \<Longrightarrow> sendable p calls"
    and eq: "calls @ [e] = xs @ Sent p # zs"
  show "sendable p xs"
  proof (cases zs rule: rev_cases)
    case Nil
    then show ?thesis using eq new by auto
  next
    case (snoc zs' z)
    then have "calls = xs @ Sent p # zs'" using eq by simp
    then show ?thesis using old by blast
  qed
qed

lemma call_task:
  assumes "at_mode (mode_of q) p q" "q = Call key op cont"
  obtains A where "q = bind_prog (push_call A p) (push_outcome p)" "cont = (\<lambda>r. bind_prog (push_reply A p r) (push_outcome p))"
  using assms by (auto simp: push_admitted_def push_call_def command_def)

lemma send_ok:
  assumes ok: "system_ok y" and y': "push_step C key port (Send_Call g i) y = Some y'"
  shows "system_ok y'"
proof -
  obtain t where at: "task_at y g i = Some t" using y' by (auto split: option.splits)
  obtain k op cont where q: "pt_prog t = Call k op cont" "\<not> pt_calling t"
    and step: "y' = set_task g i (t\<lparr>pt_calling := True\<rparr>) (y\<lparr>sy_log := sy_log y @ [Sent (pt_push t)]\<rparr>)"
    using y' at by (auto split: prog.splits if_splits)
  note facts = task_facts [OF ok at]
  let ?p = "pt_push t"
  obtain A where A: "pt_prog t = bind_prog (push_call A ?p) (push_outcome ?p)"
    using call_task [OF facts(2) q(1)] by metis
  have sendable: "sendable ?p (sy_log y)" using facts(1) q by (simp add: task_ok_def)
  have claiming: "claiming t" using q by (simp add: claiming_def may_call_def)
  have keys: "push_keys ?p (sy_store y) \<noteq> []" using facts(4) claiming by simp
  obtain xs ys where split: "all_tasks y = xs @ t # ys"
    "\<And>t' z. sy_groups z = sy_groups y \<Longrightarrow> all_tasks (set_task g i t' z) = xs @ t' # ys"
    using all_tasks_split [OF at] by metis
  have rows: "push_rows ?p (sy_store y) \<noteq> []"
    using ok claiming split(1) by (auto simp: system_ok_def claims_def)
  show ?thesis
  proof (rule task_step_ok [OF ok split(1), of y' "t\<lparr>pt_calling := True\<rparr>"])
    show "push_consistent ?p (sy_log y') (sy_store y')"
      using facts(3) sendable keys rows by (auto simp: step push_consistent_def sendable_def)
    show "replay_free (sy_log y')"
      using ok sendable by (auto simp: step system_ok_def intro: replay_free_snoc)
    show "task_ok (sy_log y') (t\<lparr>pt_calling := True\<rparr>)"
    proof -
      have am: "at_mode Ready ?p (pt_prog t)" using A by auto
      have "\<exists>A. pt_prog t = bind_prog (push_call A ?p) (push_outcome ?p)" using A by blast
      then show ?thesis using am at_mode_mode [OF am] by (simp add: step task_ok_def del: at_mode.simps)
    qed
    show "sy_up y'" using task_up [OF ok at] by (simp add: step)
    show "all_targets y' = all_targets y" by (simp add: step all_targets_def set_task_def)
  qed (use keys claiming in \<open>auto simp: step split(2) same_push_def\<close>)
qed

lemma reply_ok:
  assumes ok: "system_ok y" and y': "push_step C key port (Reply_Call g i r) y = Some y'"
  shows "system_ok y'"
proof -
  obtain t where at: "task_at y g i = Some t" using y' by (auto split: option.splits)
  obtain k op cont where q: "pt_prog t = Call k op cont" "pt_calling t"
    and step: "y' = set_task g i (t\<lparr>pt_prog := cont r, pt_calling := False\<rparr>)
      (y\<lparr>sy_log := sy_log y @ [Replied (pt_push t) r]\<rparr>)"
    using y' at by (auto split: prog.splits if_splits)
  note facts = task_facts [OF ok at]
  let ?p = "pt_push t"
  obtain A where A: "cont = (\<lambda>r. bind_prog (push_reply A ?p r) (push_outcome ?p))"
    using call_task [OF facts(2) q(1)] by metis
  have sent: "last_entry ?p (sy_log y) = Some (Sent ?p)" using facts(1) q by (simp add: task_ok_def)
  have claiming: "claiming t" using q by (simp add: claiming_def may_call_def)
  have keys: "push_keys ?p (sy_store y) \<noteq> []" using facts(4) claiming by simp
  obtain xs ys where split: "all_tasks y = xs @ t # ys"
    "\<And>t' z. sy_groups z = sy_groups y \<Longrightarrow> all_tasks (set_task g i t' z) = xs @ t' # ys"
    using all_tasks_split [OF at] by metis
  let ?t = "t\<lparr>pt_prog := cont r, pt_calling := False\<rparr>"
  have mode: "at_mode (case r of Accepted \<Rightarrow> Applied | Refused m \<Rightarrow> Dropping | Panicked \<Rightarrow> Over | _ \<Rightarrow> Holding) ?p (cont r)"
    using mode_of_reply [of r ?p A] by (simp add: A)
  show ?thesis
  proof (rule task_step_ok [OF ok split(1), of y' ?t])
    show "push_consistent ?p (sy_log y') (sy_store y')"
      using facts(3) sent keys by (auto simp: step push_consistent_def sendable_def)
    show "replay_free (sy_log y')" using ok by (auto simp: step system_ok_def intro: replay_free_snoc)
    show "task_ok (sy_log y') ?t"
      using mode at_mode_mode [OF mode]
      by (cases r) (auto simp: step task_ok_def sendable_def simp del: at_mode.simps)
    show "sy_up y'" using task_up [OF ok at] by (simp add: step)
    show "all_targets y' = all_targets y" by (simp add: step all_targets_def set_task_def)
  qed (use keys claiming in \<open>auto simp: step split(2) same_push_def\<close>)
qed

lemma remove_nth_sub: "set (remove_nth n xs) \<subseteq> set xs"
  by (auto simp: remove_nth_def dest: in_set_takeD in_set_dropD)

lemma push_keys_cong: "eb_checkpoints s' = eb_checkpoints s \<Longrightarrow> push_keys p s' = push_keys p s"
  by (simp add: push_keys_def)

lemma push_rows_cong: "eb_pushes s' = eb_pushes s \<Longrightarrow> push_rows p s' = push_rows p s"
  by (simp add: push_rows_def)

lemma system_ok_same_store:
  assumes "system_ok y" "eb_pushes s' = eb_pushes (sy_store y)"
    "\<And>p. push_keys p s' = push_keys p (sy_store y)"
  shows "system_ok (y\<lparr>sy_store := s'\<rparr>)"
  using assms push_rows_cong [OF assms(2)]
  by (simp add: system_ok_def store_ok_def push_consistent_def claims_def all_tasks_def all_targets_def)

lemma done_not_claiming: "task_done t \<Longrightarrow> \<not> claiming t"
  by (cases "pt_prog t") (auto simp: task_done_def claiming_def may_call_def)

lemma finalize_ok:
  assumes ok: "system_ok y" and y': "push_step C key port (Finalize g W) y = Some y'"
  shows "system_ok y'"
proof -
  have g: "g < length (sy_groups y)" "list_all task_done (pg_tasks (sy_groups y ! g))"
    and step: "y' = y\<lparr>sy_store := fst (finalize_enrollment W (pg_enrollment (sy_groups y ! g)) (sy_store y)),
      sy_groups := remove_nth g (sy_groups y)\<rparr>"
    using y' by (auto split: if_splits)
  let ?s = "fst (finalize_enrollment W (pg_enrollment (sy_groups y ! g)) (sy_store y))"
  have same: "eb_pushes ?s = eb_pushes (sy_store y)" "eb_checkpoints ?s = eb_checkpoints (sy_store y)"
    using finalize_rest [of W "pg_enrollment (sy_groups y ! g)" "sy_store y" ?s] by (metis prod.collapse)+
  have ok': "system_ok (y\<lparr>sy_store := ?s\<rparr>)"
    by (rule system_ok_same_store [OF ok same(1) push_keys_cong [OF same(2)]])
  have finished: "filter claiming (pg_tasks (sy_groups y ! g)) = []"
    using g(2) by (auto simp: filter_empty_conv list_all_iff done_not_claiming)
  have "filter claiming (all_tasks y) = filter claiming (concat (map pg_tasks (take g (sy_groups y) @
      sy_groups y ! g # drop (Suc g) (sy_groups y))))"
    using id_take_nth_drop [OF g(1)] by (simp add: all_tasks_def)
  then have filtered: "filter claiming (all_tasks y') = filter claiming (all_tasks y)"
    using finished by (simp add: step all_tasks_def remove_nth_def)
  have claims: "claims y' = claims y" using filtered by (simp add: claims_def) (simp add: step all_targets_def)
  have tasks: "set (all_tasks y') \<subseteq> set (all_tasks y)"
    using remove_nth_sub [of g "sy_groups y"] by (auto simp: step all_tasks_def)
  have up: "sy_up y" using ok g(1) by (auto simp: system_ok_def)
  have rest: "sy_store y' = ?s" "sy_log y' = sy_log y" "all_targets y' = all_targets y" "sy_up y' = sy_up y"
    "all_targets (y\<lparr>sy_store := ?s\<rparr>) = all_targets y" "all_tasks (y\<lparr>sy_store := ?s\<rparr>) = all_tasks y"
    "claims (y\<lparr>sy_store := ?s\<rparr>) = claims y"
    by (simp_all add: step all_targets_def all_tasks_def claims_def)
  show ?thesis
    using ok' up tasks by (auto simp: system_ok_def rest claims)
qed

section \<open>Requests, the dispatcher and the process\<close>

lemma push_lists_append:
  "eb_pushes s' = eb_pushes s @ new \<Longrightarrow> push_rows p s' = push_rows p s @ filter (push_of p) new"
  "eb_checkpoints s' = eb_checkpoints s @ ck \<Longrightarrow> push_keys p s' = push_keys p s @ filter (push_key p) ck"
  by (simp_all add: push_rows_def push_keys_def)

lemma push_rows_Nil: "push_rows p s = [] \<longleftrightarrow> p \<notin> pu_id ` set (eb_pushes s)"
  by (auto simp: push_rows_def filter_empty_conv push_of_def)

lemma push_key_prepared [simp]: "push_key p (prepared_row W (enrollment_checkpoint_key q) x) \<longleftrightarrow> p = q"
  by (auto simp: push_key_def prepared_row_def enrollment_checkpoint_key_def)

lemma prepared_state [simp]: "ck_state (prepared_row W k x) = ''prepared''"
  by (simp add: prepared_row_def)

text \<open>New targets, for pushes the log knows nothing of or that may be sent again.\<close>

lemma prepared_keys:
  "distinct (map tg_push_id ts) \<Longrightarrow>
   filter (push_key p) (map (\<lambda>t. prepared_row W (enrollment_checkpoint_key (tg_push_id t)) x) ts) =
     (if p \<in> tg_push_id ` set ts then [prepared_row W (enrollment_checkpoint_key p) x] else [])"
  by (induction ts) auto

lemma fresh_push:
  assumes "store_ok calls s" "p \<notin> pu_id ` set (eb_pushes s)"
  shows "push_rows p s = []" "push_keys p s = []" "sendable p calls" "last_entry p calls = None"
proof -
  show rows: "push_rows p s = []" using assms(2) by (simp add: push_rows_Nil)
  have "push_consistent p calls s" using assms(1) by (simp add: store_ok_def)
  then show "push_keys p s = []" "last_entry p calls = None" using rows by (auto simp: push_consistent_def)
  then show "sendable p calls" by (simp add: sendable_def)
qed

text \<open>A request that adds targets to the store and perhaps to the queue.\<close>

lemma submission_ok:
  assumes ok: "system_ok y" and up: "sy_up y" and ids: "distinct (map tg_push_id ts)"
    and store: "store_ok (sy_log y) s'"
    and kept: "\<And>q. q \<notin> tg_push_id ` set ts \<Longrightarrow>
      (push_keys q s' = [] \<longleftrightarrow> push_keys q (sy_store y) = []) \<and> (push_rows q s' = [] \<longleftrightarrow> push_rows q (sy_store y) = [])"
    and new: "\<And>q. q \<in> tg_push_id ` set ts \<Longrightarrow>
      push_keys q (sy_store y) = [] \<and> push_keys q s' \<noteq> [] \<and> push_rows q s' \<noteq> [] \<and> sendable q (sy_log y)"
    and y': "sy_store y' = s'" "sy_up y'" "sy_groups y' = sy_groups y" "sy_log y' = sy_log y"
      "sy_messages y' = sy_messages y \<or>
        (\<exists>c. sy_messages y' = sy_messages y @ [Dispatch c] \<and> dc_targets c = ts)"
  shows "system_ok y'"
proof -
  have tasks: "all_tasks y' = all_tasks y" by (simp add: all_tasks_def y')
  have targets: "all_targets y' = all_targets y \<or> all_targets y' = all_targets y @ ts"
    using y'(5) by (auto simp: all_targets_def)
  have free: "set (claims y) \<inter> tg_push_id ` set ts = {}" using ok new by (auto simp: system_ok_def)
  have sub: "set (claims y') \<subseteq> set (claims y) \<union> tg_push_id ` set ts"
    using targets by (auto simp: claims_def tasks)
  have "distinct (claims y')"
  proof -
    have "claims y' = claims y \<or> claims y' = claims y @ map tg_push_id ts"
      using targets by (auto simp: claims_def tasks)
    then show ?thesis
    proof
      assume c: "claims y' = claims y @ map tg_push_id ts"
      show ?thesis unfolding c distinct_append using ok ids free by (simp add: system_ok_def)
    qed (use ok in \<open>simp add: system_ok_def\<close>)
  qed
  moreover have "\<forall>q \<in> set (claims y'). push_keys q s' \<noteq> [] \<and> push_rows q s' \<noteq> []"
  proof
    fix q assume "q \<in> set (claims y')"
    then consider "q \<in> tg_push_id ` set ts" | "q \<notin> tg_push_id ` set ts" "q \<in> set (claims y)" using sub by blast
    then show "push_keys q s' \<noteq> [] \<and> push_rows q s' \<noteq> []"
      by cases (use new kept [of q] ok in \<open>auto simp: system_ok_def\<close>)
  qed
  moreover have "mode_of (pt_prog t) = Holding \<longrightarrow> push_keys (pt_push t) s' \<noteq> [] \<and> pt_push t \<notin> set (claims y')"
    if t: "t \<in> set (all_tasks y)" for t
  proof (cases "pt_push t \<in> tg_push_id ` set ts")
    case True
    then show ?thesis using new ok t by (auto simp: system_ok_def)
  next
    case False
    then show ?thesis using kept [of "pt_push t"] ok t sub by (auto simp: system_ok_def)
  qed
  moreover have "\<forall>t \<in> set (all_targets y'). sendable (tg_push_id t) (sy_log y)"
    using targets ok new by (auto simp: system_ok_def)
  ultimately show ?thesis
    using ok up store y' by (simp add: system_ok_def tasks)
qed

lemma added_store_ok:
  assumes store: "store_ok calls s" and ids: "map pu_id new = map tg_push_id ts" "distinct (map tg_push_id ts)"
    "set (map tg_push_id ts) \<inter> pu_id ` set (eb_pushes s) = {}" "\<forall>r \<in> set new. pu_status r = ''pending''"
    and s': "eb_pushes s' = eb_pushes s @ new"
      "eb_checkpoints s' = eb_checkpoints s @ map (\<lambda>t. prepared_row W (enrollment_checkpoint_key (tg_push_id t)) ''enrollment_push'') ts"
  shows "store_ok calls s'"
    "\<And>q. q \<notin> tg_push_id ` set ts \<Longrightarrow> push_keys q s' = push_keys q s \<and> push_rows q s' = push_rows q s"
    "\<And>q. q \<in> tg_push_id ` set ts \<Longrightarrow> push_keys q s' = [prepared_row W (enrollment_checkpoint_key q) ''enrollment_push''] \<and>
       push_rows q s' \<noteq> [] \<and> set (push_rows q s') \<subseteq> set new"
proof -
  have img: "pu_id ` set new = tg_push_id ` set ts" using ids(1) by (metis list.set_map)
  note lists = push_lists_append(1) [OF s'(1)] push_lists_append(2) [OF s'(2), unfolded prepared_keys [OF ids(2)]]
  show out: "push_keys q s' = push_keys q s \<and> push_rows q s' = push_rows q s" if "q \<notin> tg_push_id ` set ts" for q
    using that img by (auto simp: lists filter_empty_conv push_of_def)
  have fresh: "push_rows q s = []" "push_keys q s = []" if "q \<in> tg_push_id ` set ts" for q
    using fresh_push [OF store, of q] that ids(3) by (auto simp: image_iff)
  show here: "push_keys q s' = [prepared_row W (enrollment_checkpoint_key q) ''enrollment_push''] \<and>
      push_rows q s' \<noteq> [] \<and> set (push_rows q s') \<subseteq> set new" if q: "q \<in> tg_push_id ` set ts" for q
  proof -
    have "q \<in> pu_id ` set new" using q img by simp
    then have "filter (push_of q) new \<noteq> []" by (auto simp: filter_empty_conv push_of_def)
    then show ?thesis using fresh [OF q] q by (auto simp: lists)
  qed
  have "push_consistent q calls s'" for q
  proof (cases "q \<in> tg_push_id ` set ts")
    case True
    then show ?thesis using here [OF True] ids(4) by (auto simp: push_consistent_def)
  next
    case False
    then show ?thesis using out [OF False] store by (simp add: store_ok_def push_consistent_def)
  qed
  moreover have "distinct (map pu_id (eb_pushes s'))"
    using store ids(1-3) by (auto simp: s'(1) store_ok_def simp del: list.set_map)
  ultimately show "store_ok calls s'" by (simp add: store_ok_def)
qed
lemma submit_ok:
  assumes ok: "system_ok y" and y': "push_step C key port (Submit E actor employee via source quality bytes) y = Some y'"
  shows "system_ok y'"
proof -
  obtain fs s' c x where st: "start_enrollment C key port (E\<lparr>se_accepting := sy_accepting y\<rparr>) actor employee via source quality bytes
      (sy_files y, sy_store y) = ((fs, s'), c, x)" by (metis prod.exhaust)
  have up: "sy_up y" and step: "y' = enqueue_dispatch c (y\<lparr>sy_files := fs, sy_store := s'\<rparr>)"
    using y' st by (auto split: if_splits)
  have store: "store_ok (sy_log y) (sy_store y)" using ok by (simp add: system_ok_def)
  show ?thesis
  proof (cases "s' = sy_store y \<and> c = None")
    case True
    then show ?thesis
      using ok by (intro submission_ok [OF ok up, of "[]" s'])
        (simp_all add: step enqueue_dispatch_def up store)
  next
    case False
    then obtain command new where a: "eb_pushes s' = eb_pushes (sy_store y) @ new" "map pu_id new = map tg_push_id (dc_targets command)"
      "\<forall>r \<in> set new. pu_status r = ''pending''"
      "eb_checkpoints s' = eb_checkpoints (sy_store y) @ map (\<lambda>t. prepared_row \<lparr>je_write = se_write (E\<lparr>se_accepting := sy_accepting y\<rparr>),
         je_now = se_now (E\<lparr>se_accepting := sy_accepting y\<rparr>), je_uuid = []\<rparr>
         (enrollment_checkpoint_key (tg_push_id t)) ''enrollment_push'') (dc_targets command)"
      "distinct (map pu_id new)" "set (map pu_id new) \<inter> pu_id ` set (eb_pushes (sy_store y)) = {}"
      "c = Some command \<or> c = None"
      using False start_enrollment_adds [OF st] by blast
    have d: "distinct (map tg_push_id (dc_targets command))"
      "set (map tg_push_id (dc_targets command)) \<inter> pu_id ` set (eb_pushes (sy_store y)) = {}"
      using a(2,5,6) by simp_all
    note added = added_store_ok [OF store a(2) d a(3) a(1) a(4)]
    have fresh: "push_keys q (sy_store y) = []" "sendable q (sy_log y)" if "q \<in> tg_push_id ` set (dc_targets command)" for q
      using fresh_push [OF store, of q] that d(2) by auto
    have y: "sy_store y' = s'" "sy_up y'" "sy_groups y' = sy_groups y" "sy_log y' = sy_log y"
      "sy_messages y' = sy_messages y \<or> (\<exists>c. sy_messages y' = sy_messages y @ [Dispatch c] \<and> dc_targets c = dc_targets command)"
      using a(7) up by (auto simp: step enqueue_dispatch_def)
    show ?thesis
      by (rule submission_ok [OF ok up d(1) added(1) _ _ y]) (simp_all add: added(2,3) fresh)
  qed
qed

lemma retry_ok:
  assumes ok: "system_ok y" and y': "push_step C key port (Retry_Push W earlier i d) y = Some y'"
  shows "system_ok y'"
proof -
  obtain s' c x where rt: "retry_enrollment_push C key port W (sy_accepting y) (sy_files y) earlier i d (sy_store y) = (s', c, x)"
    by (metis prod.exhaust)
  have up: "sy_up y" and step: "y' = enqueue_dispatch c (y\<lparr>sy_store := s'\<rparr>)"
    using y' rt by (auto split: if_splits)
  have store: "store_ok (sy_log y) (sy_store y)" using ok by (simp add: system_ok_def)
  show ?thesis
  proof (cases "s' = sy_store y \<and> c = None")
    case True
    then show ?thesis
      using ok by (intro submission_ok [OF ok up, of "[]" s'])
        (simp_all add: step enqueue_dispatch_def up store)
  next
    case False
    let ?s = "sy_store y"
    obtain r command where a: "r \<in> set (eb_pushes ?s)" "pu_status r = ''failed''" "\<not> has_checkpoint (enrollment_checkpoint_key (pu_id r)) ?s"
      "eb_pushes s' = update_where (push_of (pu_id r)) back_to_pending (eb_pushes ?s)"
      "eb_checkpoints s' = eb_checkpoints ?s @ [prepared_row W (enrollment_checkpoint_key (pu_id r)) ''enrollment_push'']"
      "c = Some command \<or> c = None" "map tg_push_id (dc_targets command) = [pu_id r]"
      by (rule disjE [OF retry_prepares [OF rt]], use False in blast, elim exE conjE, rule that)
    let ?p = "pu_id r"
    have img: "tg_push_id ` set (dc_targets command) = {?p}" using a(7) by (metis list.set_map list.simps(15) set_empty)
    have none: "push_keys ?p ?s = []" using a(3) by (simp add: has_checkpoint_keys)
    have keys: "push_keys q s' = push_keys q ?s @ (if q = ?p then [prepared_row W (enrollment_checkpoint_key ?p) ''enrollment_push''] else [])" for q
      using push_lists_append(2) [OF a(5), of q] by simp
    have id: "pu_id (back_to_pending q) = pu_id q" "pu_status (back_to_pending q) = ''pending''" for q
      by (simp_all add: back_to_pending_def)
    have here: "push_rows ?p s' = map back_to_pending (push_rows ?p ?s)" by (rule rows_update [OF a(4) id(1)])
    have rows: "push_rows q s' = push_rows q ?s" if "q \<noteq> ?p" for q
      unfolding push_rows_def a(4) by (rule filter_update_other) (use that id in \<open>auto simp: push_of_def\<close>)
    have r: "r \<in> set (push_rows ?p ?s)" using a(1) by (simp add: push_rows_def push_of_def)
    have old: "push_consistent q (sy_log y) ?s" for q using store by (simp add: store_ok_def)
    have sendable: "sendable ?p (sy_log y)" using old [of ?p] r none a(2) by (auto simp: push_consistent_def)
    have "push_consistent q (sy_log y) s'" for q
    proof (cases "q = ?p")
      case True
      then show ?thesis using old [of ?p] r none here keys [of ?p] id by (auto simp: push_consistent_def)
    qed (use old [of q] rows keys in \<open>simp add: push_consistent_def\<close>)
    moreover have "map pu_id (eb_pushes s') = map pu_id (eb_pushes ?s)"
      unfolding a(4) by (rule map_update_where) (simp add: id)
    ultimately have ok': "store_ok (sy_log y) s'" using store by (simp add: store_ok_def)
    have y: "sy_store y' = s'" "sy_up y'" "sy_groups y' = sy_groups y" "sy_log y' = sy_log y"
      "sy_messages y' = sy_messages y \<or> (\<exists>c. sy_messages y' = sy_messages y @ [Dispatch c] \<and> dc_targets c = dc_targets command)"
      using a(6) up by (auto simp: step enqueue_dispatch_def)
    show ?thesis
      by (rule submission_ok [OF ok up _ ok' _ _ y]) (use keys rows here none sendable r in \<open>auto simp: img a(7)\<close>)
  qed
qed

lemma spawned [simp]:
  "map pt_push (pg_tasks (spawn_authorized port c)) = map tg_push_id (dc_targets c)"
  "filter claiming (pg_tasks (spawn_authorized port c)) = pg_tasks (spawn_authorized port c)"
  by (simp_all add: spawn_authorized_def comp_def claiming_def may_call_def authorized_push_def
      push_enrollment_device_def push_admitted_def command_def filter_id_conv)

lemma spawned_ok:
  assumes "t \<in> set (pg_tasks (spawn_authorized port c))" "\<forall>u \<in> set (dc_targets c). sendable (tg_push_id u) calls"
  shows "task_ok calls t" "mode_of (pt_prog t) = Ready"
proof -
  obtain u where u: "u \<in> set (dc_targets c)" "t = \<lparr>pt_push = tg_push_id u,
      pt_prog = authorized_push (args_of port c u) (tg_push_id u), pt_calling = False\<rparr>"
    using assms(1) by (auto simp: spawn_authorized_def)
  have am: "at_mode Ready (pt_push t) (pt_prog t)"
    by (auto simp: u(2) authorized_push_def push_enrollment_device_def)
  show "mode_of (pt_prog t) = Ready" by (rule at_mode_mode [OF am])
  then show "task_ok calls t" using am u assms(2) by (simp add: task_ok_def del: at_mode.simps)
qed

lemma take_message_ok:
  assumes ok: "system_ok y" and y': "push_step C key port Take_Message y = Some y'"
  shows "system_ok y'"
proof -
  obtain c ms where q: "sy_messages y = Dispatch c # ms" "sy_up y"
    and step: "y' = y\<lparr>sy_messages := ms, sy_groups := sy_groups y @ [spawn_authorized port c]\<rparr>"
    using y' by (auto split: list.splits dispatch_message.splits if_splits)
  have tasks: "all_tasks y' = all_tasks y @ pg_tasks (spawn_authorized port c)" by (simp add: step all_tasks_def)
  have targets: "all_targets y = dc_targets c @ all_targets y'" by (simp add: step q all_targets_def)
  have claims: "claims y' = claims y" by (simp add: claims_def tasks targets)
  have new: "\<forall>u \<in> set (dc_targets c). sendable (tg_push_id u) (sy_log y)" using ok targets by (simp add: system_ok_def)
  have rest: "sy_store y' = sy_store y" "sy_log y' = sy_log y" "sy_up y'" using q(2) by (simp_all add: step)
  have "\<forall>t \<in> set (all_tasks y'). task_ok (sy_log y) t \<and>
      (mode_of (pt_prog t) = Holding \<longrightarrow> push_keys (pt_push t) (sy_store y) \<noteq> [] \<and> pt_push t \<notin> set (claims y))"
    using ok spawned_ok [OF _ new] by (auto simp: tasks system_ok_def)
  moreover have "\<forall>t \<in> set (all_targets y'). sendable (tg_push_id t) (sy_log y)"
    using ok targets by (simp add: system_ok_def)
  ultimately show ?thesis
    using ok by (simp add: system_ok_def claims rest)
qed

lemma drop_work_ok:
  assumes "system_ok y" "sy_store y' = sy_store y" "sy_log y' = sy_log y" "sy_groups y' = []" "sy_messages y' = []"
  shows "system_ok y'"
  using assms by (simp add: system_ok_def claims_def all_tasks_def all_targets_def)

lemma close_ok:
  assumes "system_ok y" "push_step C key port Close y = Some y'"
  shows "system_ok y'"
proof -
  have "sy_up y" and step: "y' = y\<lparr>sy_accepting := False, sy_messages := sy_messages y @ [Close_Dispatcher]\<rparr>"
    using assms(2) by (auto split: if_splits)
  moreover have "all_targets y' = all_targets y" "all_tasks y' = all_tasks y" by (simp_all add: step all_targets_def all_tasks_def)
  ultimately show ?thesis using assms(1) by (simp add: system_ok_def claims_def)
qed

lemma elsewhere_ok:
  assumes ok: "system_ok y" and y': "push_step C key port (Elsewhere s) y = Some y'"
  shows "system_ok y'"
proof -
  have e: "elsewhere (sy_store y) s" "y' = y\<lparr>sy_store := s\<rparr>" using y' by (auto split: if_splits)
  have "push_keys p s = push_keys p (sy_store y)" for p
  proof -
    have "filter (push_key p) t = filter (push_key p) (filter is_enrollment_key t)" for t
      by (simp, rule filter_cong) (auto simp: push_key_def is_enrollment_key_def enrollment_checkpoint_key_def prefix_of_eq)
    then show ?thesis using e(1) unfolding push_keys_def elsewhere_def by metis
  qed
  then show ?thesis unfolding e(2) using e(1) by (intro system_ok_same_store [OF ok]) (simp_all add: elsewhere_def)
qed

lemma boot_keeps_store:
  assumes "system_ok y" "\<not> sy_up y" "store_ok (sy_log y) s"
  shows "system_ok (y\<lparr>sy_store := s\<rparr>)" "system_ok (y\<lparr>sy_store := s, sy_up := True, sy_accepting := True\<rparr>)"
  using assms by (auto simp: system_ok_def claims_def all_tasks_def all_targets_def)

lemma touched_store_ok:
  "touches p s s' \<Longrightarrow> push_consistent p calls s' \<Longrightarrow> store_ok calls s \<Longrightarrow> store_ok calls s'"
proof -
  assume touch: "touches p s s'" and here: "push_consistent p calls s'" and store: "store_ok calls s"
  have "push_consistent q calls s'" for q
    using here store touch same_push_consistent [of q calls s calls s']
    by (cases "q = p") (auto simp: store_ok_def touches_def same_push_def)
  then show ?thesis using touch store by (simp add: store_ok_def touches_def)
qed

lemma recovered_success_cases:
  assumes "complete_recovered_push_success W i p d f e s = (s', x)"
  obtains (ok) "x = Inr ()"
      "eb_pushes s' = update_where (\<lambda>r. pu_id r = p \<and> pu_enrollment_id r = i) (push_succeeded (je_now W)) (eb_pushes s)"
      "eb_checkpoints s' = delete_where (\<lambda>r. ck_operation_key r = enrollment_checkpoint_key p) (eb_checkpoints s)"
  | (failed) m where "x = Inl m" "s' = s"
proof -
  let ?P = "\<lambda>r. pu_id r = p \<and> pu_enrollment_id r = i"
  have "run_tx (je_write W) (\<lambda>s.
     bind_result (one_push ''push row not found during recovered completion'' ?P (push_succeeded (je_now W)) s) (\<lambda>s.
     bind_result (upsert_mapping W d f e s) (\<lambda>s.
     bind_result (settle_enrollment ''enrollment row not found during recovered finalization'' (je_now W) i s) (\<lambda>s.
     Inr ((), drop_checkpoint (enrollment_checkpoint_key p) s))))) s = (s', x)"
    using assms by (simp add: complete_recovered_push_success_def)
  then show thesis
  proof (cases rule: run_tx_cases)
    case (ran a)
    then obtain t u where t: "upsert_mapping W d f e (set_push ?P (push_succeeded (je_now W)) s) = Inr t"
        "settle_enrollment ''enrollment row not found during recovered finalization'' (je_now W) i t = Inr u"
        "s' = drop_checkpoint (enrollment_checkpoint_key p) u"
      by (auto simp: bind_result_eq_Inr one_push_eq)
    show ?thesis
      using ok ran(3) t(3) upsert_mapping_rest [OF t(1)] settle_enrollment_rest [OF t(2)] by simp
  qed (use failed in auto)
qed

lemma run_bind:
  "\<exists>m. run_alone (bind_prog q f) Ws answer n s = (case run_alone q Ws answer n s of (s', x) \<Rightarrow> run_alone (f x) Ws answer m s')"
proof (induction q arbitrary: n s)
  case (Atomic l e k)
  show ?case by (simp, rule Atomic.IH [OF rangeI rangeI])
next
  case (Call key op k)
  show ?case by (simp, rule Call.IH [OF rangeI])
qed auto

lemma run_or_stop [simp]:
  "run_alone (or_stop r q) Ws answer n s = (case r of Inl e \<Rightarrow> (s, Inl (app_error_text e)) | Inr x \<Rightarrow> run_alone q Ws answer n s)"
  "run_alone (stop m) Ws answer n s = (s, Inl m)"
  by (simp_all add: or_stop_def stop_def split: sum.split)

lemma recover_push_ok:
  assumes store: "store_ok calls s" and keys: "push_keys p s = [r]" and st: "checkpoint_state (ck_state r) = Inr st"
    and run: "run_alone (recover_push p st) Ws no_call n s = (s', x)"
  shows "touches p s s' \<and> store_ok calls s'"
proof -
  have here: "push_consistent p calls s" and ids: "distinct (map pu_id (eb_pushes s))" using store by (simp_all add: store_ok_def)
  show ?thesis
  proof (cases "push_target s p")
    case None
    then show ?thesis using run store by (simp add: recover_push_def)
  next
    case (Some tg)
    obtain d e face i where tg: "tg = (d, e, face, i)" by (cases tg)
    obtain q where q: "find (push_of p) (eb_pushes s) = Some q" "pu_enrollment_id q = i"
      using Some tg by (auto simp: push_target_def split: option.splits)
    show ?thesis
    proof (cases face)
      case None
      then show ?thesis using run store Some tg by (simp add: recover_push_def)
    next
      case f: (Some f)
      show ?thesis
      proof (cases "st = Device_Applied")
        case True
        have accepted: "last_entry p calls = Some (Replied p Accepted)"
          using here keys st True by (auto simp: push_consistent_def checkpoint_state_def bail_def split: if_splits)
        obtain t z where z: "complete_recovered_push_success (Ws (Suc n)) i p d f e s = (t, z)" by fastforce
        have s': "s' = t" using run z by (auto simp: recover_push_def Some tg f True split: sum.splits)
        from z show ?thesis unfolding s'
        proof (cases rule: recovered_success_cases)
          case ok
          have same: "pu_id r = p \<and> pu_enrollment_id r = i \<longleftrightarrow> push_of p r" if "r \<in> set (eb_pushes s)" for r
            using find_Some_in [OF q(1)] q(2) that ids by (auto simp: push_of_def distinct_map inj_on_def)
          have up: "eb_pushes t = update_where (push_of p) (push_succeeded (je_now (Ws (Suc n)))) (eb_pushes s)"
            unfolding ok(2) update_where_def by (rule map_cong) (use same in auto)
          have touch: "touches p s t" by (rule touchesI [OF up]) (auto simp: push_of_def ok(3) push_key_fun)
          have "push_keys p t = []" by (rule keys_delete) (simp add: ok(3) push_key_fun)
          moreover have "push_rows p t = map (push_succeeded (je_now (Ws (Suc n)))) (push_rows p s)" by (rule rows_update [OF up]) simp
          ultimately have "push_consistent p calls t" using here accepted by (auto simp: push_consistent_def)
          then show "touches p s t \<and> store_ok calls t" using touched_store_ok [OF touch _ store] touch by blast
        qed (use store in simp)
      next
        case False
        obtain t z where z: "record_push_recovery_failure (Ws (Suc n)) p
            ''Restart found an ambiguous device operation; manual reconciliation required'' True s = (t, z)" by fastforce
        have kept: "touches p s t" "push_consistent p calls t" using record_recovery_keeps [OF z here] keys by auto
        have fin: "eb_pushes s' = eb_pushes t \<and> eb_checkpoints s' = eb_checkpoints t"
          using run z by (auto simp: recover_push_def Some tg f False dest!: finalize_rest split: sum.splits option.splits prod.splits)
        then have "touches p s s'" "push_consistent p calls s'"
          using kept by (simp_all add: touches_def push_rows_def push_keys_def push_consistent_def)
        then show ?thesis using touched_store_ok [OF _ _ store] by blast
      qed
    qed
  qed
qed

text \<open>The other checkpoints: backfills and purges.\<close>

definition same_pushes :: "face_store \<Rightarrow> face_store \<Rightarrow> bool" where
  "same_pushes s s' \<longleftrightarrow> eb_pushes s' = eb_pushes s \<and> (\<forall>q. push_keys q s' = push_keys q s)"

lemma same_pushes_refl [simp]: "same_pushes s s"
  by (simp add: same_pushes_def)

lemma same_pushes_trans: "same_pushes s t \<Longrightarrow> same_pushes t u \<Longrightarrow> same_pushes s u"
  by (simp add: same_pushes_def)

lemma same_pushes_store_ok: "same_pushes s s' \<Longrightarrow> store_ok calls s \<Longrightarrow> store_ok calls s'"
  by (simp add: same_pushes_def store_ok_def push_consistent_def push_rows_def)

definition other_key :: "string \<Rightarrow> bool" where
  "other_key k \<longleftrightarrow> (\<forall>q. enrollment_checkpoint_key q \<noteq> k)"

lemma other_keys: "strip_prefix ''backfill:'' k = Some v \<Longrightarrow> other_key k" "strip_prefix ''purge:'' k = Some v \<Longrightarrow> other_key k"
  by (auto simp: other_key_def strip_prefix_def enrollment_checkpoint_key_def prefix_of_eq split: if_splits)

lemma mark_other: "other_key k \<Longrightarrow> mark_device_operation W k st s = (s', x) \<Longrightarrow> same_pushes s s'"
  by (erule mark_operation_cases)
    (auto simp: same_pushes_def other_key_def push_keys_def push_key_def intro!: filter_update_other)

lemma drop_other:
  "other_key k \<Longrightarrow> eb_pushes s' = eb_pushes s \<Longrightarrow> eb_checkpoints s' = delete_where (\<lambda>r. ck_operation_key r = k) (eb_checkpoints s) \<Longrightarrow>
   same_pushes s s'"
  by (auto simp: same_pushes_def other_key_def push_keys_def push_key_def intro!: filter_delete_other)

lemma complete_backfill_other:
  assumes "other_key k" "complete_backfill_mapping W k d f e s = (s', x)"
  shows "same_pushes s s'"
proof -
  have "run_tx (je_write W) (\<lambda>s. bind_result (upsert_mapping W d f e s) (\<lambda>s. Inr ((), drop_checkpoint k s))) s = (s', x)"
    using assms(2) by (simp add: complete_backfill_mapping_def)
  then show ?thesis
  proof (cases rule: run_tx_cases)
    case (ran a)
    then obtain t where t: "upsert_mapping W d f e s = Inr t" "s' = drop_checkpoint k t"
      by (auto simp: bind_result_eq_Inr)
    then show ?thesis using upsert_mapping_rest [OF t(1)] by (intro drop_other [OF assms(1)]) simp_all
  qed simp
qed

lemma complete_purge_other:
  "other_key k \<Longrightarrow> complete_purge_mapping W k m s = (s', x) \<Longrightarrow> same_pushes s s'"
  by (cases "je_write W") (auto simp: complete_purge_mapping_def drop_mapping_def intro!: drop_other)

lemma pending_delete_other:
  "mark_mapping_pending_delete W m s = (s', x) \<Longrightarrow> same_pushes s s'"
  by (cases "je_write W")
    (auto simp: mark_mapping_pending_delete_def update_mappings_def changed_def same_pushes_def push_keys_def)

lemma recover_backfill_other:
  assumes "other_key k" "run_alone (recover_backfill k d f st) Ws no_call n s = (s', x)"
  shows "same_pushes s s'"
  using assms(2)
  by (auto simp: recover_backfill_def dest: mark_other [OF assms(1)] complete_backfill_other [OF assms(1)]
      split: option.splits if_splits prod.splits sum.splits)

lemma recover_purge_other:
  assumes "other_key k" "run_alone (recover_purge k m st) Ws no_call n s = (s', x)"
  shows "same_pushes s s'"
  using assms(2)
  by (auto simp: recover_purge_def dest!: mark_other [OF assms(1)] complete_purge_other [OF assms(1)] pending_delete_other
      intro: same_pushes_trans split: if_splits prod.splits sum.splits)

lemma recover_one_ok:
  assumes store: "store_ok calls s" and r: "\<And>p. push_key p r \<Longrightarrow> push_keys p s = [r]"
    and run: "run_alone (recover_one r) Ws no_call n s = (s', x)"
  shows "store_ok calls s' \<and> (\<forall>q. \<not> push_key q r \<longrightarrow> push_keys q s' = push_keys q s)"
proof -
  have "same_pushes s s' \<or> (\<exists>p. push_key p r \<and> touches p s s' \<and> store_ok calls s')"
  proof (cases "checkpoint_state (ck_state r)")
    case (Inr st)
    consider (push) p where "push_key p r" "run_alone (recover_push p st) Ws no_call n s = (s', x)"
      | (backfill) d f where "other_key (ck_operation_key r)"
          "run_alone (recover_backfill (ck_operation_key r) d f st) Ws no_call n s = (s', x)"
      | (purge) m where "other_key (ck_operation_key r)"
          "run_alone (recover_purge (ck_operation_key r) m st) Ws no_call n s = (s', x)"
      | (stopped) "s' = s"
      using run Inr
      by (auto simp: recover_one_def strip_key_def push_key_def strip_prefix_def enrollment_checkpoint_key_def prefix_of_eq
          other_key_def split: option.splits if_splits bind_splits)
    then show ?thesis
    proof cases
      case push
      then show ?thesis using recover_push_ok [OF store r [OF push(1)] Inr push(2)] by blast
    next
      case backfill
      then show ?thesis using recover_backfill_other by blast
    next
      case purge
      then show ?thesis using recover_purge_other by blast
    qed simp
  qed (use run in \<open>simp add: recover_one_def\<close>)
  then show ?thesis
  proof (elim disjE exE conjE)
    assume "same_pushes s s'"
    then show ?thesis using same_pushes_store_ok store by (auto simp: same_pushes_def)
  next
    fix p assume p: "push_key p r" "touches p s s'" "store_ok calls s'"
    then show ?thesis by (auto simp: touches_def)
  qed
qed
lemma recover_all_ok:
  assumes "store_ok calls s" "\<And>p. length (filter (push_key p) rs) \<le> 1"
    "\<And>p. filter (push_key p) rs = [] \<or> filter (push_key p) rs = push_keys p s"
    "run_alone (recover_all rs) Ws no_call n s = (s', x)"
  shows "store_ok calls s'"
  using assms
proof (induction rs arbitrary: n s)
  case (Cons r rs)
  obtain t z where one: "run_alone (recover_one r) Ws no_call n s = (t, z)" by fastforce
  obtain m where run: "run_alone (case z of Inl e \<Rightarrow> Return (Inl e) | Inr u \<Rightarrow> recover_all rs) Ws no_call m t = (s', x)"
    using Cons.prems(4) run_bind [of "recover_one r" "\<lambda>x. case x of Inl e \<Rightarrow> Return (Inl e) | Inr u \<Rightarrow> recover_all rs" Ws no_call n s] one
    by auto
  have mine: "filter (push_key p) rs = [] \<and> push_keys p s = [r]" if "push_key p r" for p
    using Cons.prems(2) [of p] Cons.prems(3) [of p] that by auto
  have t: "store_ok calls t" "\<And>q. \<not> push_key q r \<Longrightarrow> push_keys q t = push_keys q s"
    using recover_one_ok [OF Cons.prems(1) _ one] mine by blast+
  show ?case
  proof (cases z)
    case (Inr u)
    have "filter (push_key p) rs = [] \<or> filter (push_key p) rs = push_keys p t" for p
      using mine [of p] t(2) [of p] Cons.prems(3) [of p] by (cases "push_key p r") auto
    moreover have "length (filter (push_key p) rs) \<le> 1" for p
      using Cons.prems(2) [of p] by (auto split: if_splits)
    ultimately show ?thesis using Cons.IH [OF t(1)] run Inr by auto
  qed (use run t in simp)
qed simp

lemma one_of_sorted: "length (filter P t) \<le> 1 \<Longrightarrow> filter P (sort_key f t) = filter P t"
proof -
  assume "length (filter P t) \<le> 1"
  moreover have "mset (filter P (sort_key f t)) = mset (filter P t)" by (simp add: mset_filter)
  ultimately show ?thesis by (metis mset_single_iff_right le_Suc_eq le_zero_eq length_0_conv length_Suc_conv mset.simps(1,2)
      mset_zero_iff One_nat_def)
qed

lemma boot_ok:
  assumes ok: "system_ok y" and y': "push_step C key port (Boot Ws) y = Some y'"
  shows "system_ok y'"
proof -
  let ?s = "sy_store y"
  obtain s' x where run: "run_alone recover_startup_checkpoints Ws no_call 0 ?s = (s', x)" by fastforce
  have down: "\<not> sy_up y" and store: "store_ok (sy_log y) ?s"
    using ok y' by (auto simp: system_ok_def split: if_splits)
  have one: "length (filter (push_key p) (eb_checkpoints ?s)) \<le> 1" for p
    using store by (auto simp: store_ok_def push_consistent_def push_keys_def)
  have "store_ok (sy_log y) s'"
  proof (rule recover_all_ok [OF store])
    show "run_alone (recover_all (sort_key ck_operation_key (eb_checkpoints ?s))) Ws no_call (Suc 0) ?s = (s', x)"
      using run by (simp add: recover_startup_checkpoints_def)
  qed (use one in \<open>simp_all add: one_of_sorted push_keys_def\<close>)
  then show ?thesis using y' run down boot_keeps_store [OF ok down] by (cases x) auto
qed

lemma push_step_ok:
  assumes "system_ok y" "push_step C key port e y = Some y'"
  shows "system_ok y'"
proof (cases e)
  case (Stop_Process)
  then show ?thesis using assms by (intro drop_work_ok [OF assms(1)]) auto
qed (use assms submit_ok retry_ok take_message_ok run_step_ok send_ok reply_ok finalize_ok close_ok boot_ok elsewhere_ok in metis)+

interpretation pushes: stepper "push_step C key port" system_ok
  by unfold_locales (rule push_step_ok)

lemma empty_ok: "system_ok \<lparr>sy_files = F, sy_store = s\<lparr>eb_pushes := [], eb_checkpoints := []\<rparr>, sy_up = False, sy_accepting = b,
    sy_messages = [], sy_groups = [], sy_log = []\<rparr>"
  by (simp add: system_ok_def store_ok_def push_consistent_def replay_free_def claims_def all_tasks_def all_targets_def
      push_keys_def push_rows_def sendable_def)

end
