(* ===== verification/Face_Workers.thy ===== *)
theory Face_Workers
  imports Push_Protocol
begin

text \<open>
  The workers that take faces off the readers and put them on new ones (workers/purge.rs,
  workers/backfill.rs, and the push of a backfill in enrollments/pusher.rs), as programs of
  Enrollment\_Push: atomic commands and reads of the store, and calls to a reader.  The result of
  a program of the purge says whether the worker lives: a panic of the client ends its task.
\<close>

section \<open>The purge of a former employee\<close>

definition then_pending :: "string \<Rightarrow> bool prog \<Rightarrow> bool prog" where
  "then_pending mapping_id p =
     command ''enrollments.mark-face-mapping-delete'' (\<lambda>W. mark_mapping_pending_delete W mapping_id) (\<lambda>_. p)"

definition then_mark :: "string \<Rightarrow> device_operation_state \<Rightarrow> bool prog \<Rightarrow> bool prog" where
  "then_mark key st p =
     command ''enrollments.mark-device-operation'' (\<lambda>W. mark_device_operation W key st) (\<lambda>_. p)"

definition purge_applied :: "string \<Rightarrow> bool prog" where
  "purge_applied mapping_id =
     (let key = purge_checkpoint_key mapping_id in
      command ''enrollments.mark-device-operation'' (\<lambda>W. mark_device_operation W key Device_Applied) (\<lambda>r.
        case r of
          Inl error \<Rightarrow> then_mark key Manual (then_pending mapping_id (Return True))
        | Inr u \<Rightarrow> command ''enrollments.complete-purge'' (\<lambda>W. complete_purge_mapping W key mapping_id) (\<lambda>r.
            case r of
              Inl error \<Rightarrow> then_pending mapping_id (Return True)
            | Inr u \<Rightarrow> Return True)))"

definition purge_reply :: "string \<Rightarrow> call_reply \<Rightarrow> bool prog" where
  "purge_reply mapping_id reply =
     (let failed = then_pending mapping_id (then_mark (purge_checkpoint_key mapping_id) Manual (Return True))
      in case reply of
        Accepted \<Rightarrow> purge_applied mapping_id
      | Refused m \<Rightarrow> failed
      | Broken m \<Rightarrow> failed
      | Timed_Out \<Rightarrow> failed
      | Panicked \<Rightarrow> Return False)"

definition purge_fresh :: "reader_port \<Rightarrow> device_with_plaintext \<Rightarrow> string \<Rightarrow> string \<Rightarrow> bool prog" where
  "purge_fresh port device mapping_id face_id =
     (case reader_of port device of
        Inl error \<Rightarrow> then_pending mapping_id
          (command ''enrollments.clear-device-operation'' (\<lambda>W. clear_device_operation W (purge_checkpoint_key mapping_id))
            (\<lambda>_. Return True))
      | Inr u \<Rightarrow> Call (purge_checkpoint_key mapping_id) (Revoke device face_id) (purge_reply mapping_id))"

text \<open>A checkpoint that was there before: the outcome of an earlier call is settled without another.\<close>

definition purge_stale :: "string \<Rightarrow> device_operation_state \<Rightarrow> bool prog" where
  "purge_stale mapping_id st =
     (let key = purge_checkpoint_key mapping_id in
      if st = Device_Applied
      then command ''enrollments.complete-purge'' (\<lambda>W. complete_purge_mapping W key mapping_id) (\<lambda>_. Return True)
      else then_mark key Manual (then_pending mapping_id (Return True)))"

definition purge_mapping ::
  "cipher_libs \<Rightarrow> string \<Rightarrow> reader_port \<Rightarrow> string \<times> string \<times> string \<Rightarrow> bool prog" where
  "purge_mapping C key port = (\<lambda>(mapping_id, device_id, face_id).
     read_store (\<lambda>s. get_decrypted C key (eb_devices s) device_id) (\<lambda>r.
       case r of
         Inl e \<Rightarrow> then_pending mapping_id (Return True)
       | Inr device \<Rightarrow>
           command ''enrollments.admit-device-operation''
             (\<lambda>W. admit_device_operation W (purge_checkpoint_key mapping_id) ''purge_delete'') (\<lambda>r.
             case r of
               Inl error \<Rightarrow> Return True
             | Inr checkpoint \<Rightarrow>
                 if ca_fresh checkpoint then purge_fresh port device mapping_id face_id
                 else purge_stale mapping_id (ca_state checkpoint))))"

text \<open>The status is read again before each mapping.\<close>

fun purge_mappings ::
  "cipher_libs \<Rightarrow> string \<Rightarrow> reader_port \<Rightarrow> string \<Rightarrow> (string \<times> string \<times> string) list \<Rightarrow> bool prog" where
  "purge_mappings C key port employee_id [] = Return True"
| "purge_mappings C key port employee_id (m # ms) =
     read_store (\<lambda>s. get_employee_status s employee_id) (\<lambda>r.
       case r of
         Inl e \<Rightarrow> Return True
       | Inr status \<Rightarrow>
           if status \<noteq> ''inactive'' then Return True
           else bind_prog (purge_mapping C key port m) (\<lambda>alive.
             if alive then purge_mappings C key port employee_id ms else Return False))"

definition process_employee :: "cipher_libs \<Rightarrow> string \<Rightarrow> reader_port \<Rightarrow> string \<Rightarrow> bool prog" where
  "process_employee C key port employee_id =
     read_store (\<lambda>s. get_employee_status s employee_id) (\<lambda>r.
       case r of
         Inl e \<Rightarrow> Return True
       | Inr status \<Rightarrow>
           if status \<noteq> ''inactive'' then Return True
           else read_store (\<lambda>s. list_mappings_for_employee s employee_id) (purge_mappings C key port employee_id))"

fun process_employees :: "cipher_libs \<Rightarrow> string \<Rightarrow> reader_port \<Rightarrow> string list \<Rightarrow> bool prog" where
  "process_employees C key port [] = Return True"
| "process_employees C key port (i # ids) =
     bind_prog (process_employee C key port i) (\<lambda>alive.
       if alive then process_employees C key port ids else Return False)"

text \<open>One turn of the loop of the worker: shutdown wins; otherwise all requests at hand are taken and
  each employee is processed once, in the order of the hash set, the argument \<open>order\<close>.\<close>

definition purge_turn ::
  "cipher_libs \<Rightarrow> string \<Rightarrow> reader_port \<Rightarrow> (string set \<Rightarrow> string list) \<Rightarrow> bool \<Rightarrow> string list \<Rightarrow> bool prog option" where
  "purge_turn C key port order cancelled rx =
     (if cancelled \<or> rx = [] then None else Some (process_employees C key port (order (set rx))))"

section \<open>The backfill of a new reader\<close>

definition backfill_reply :: "string \<Rightarrow> device_with_plaintext \<Rightarrow> string \<Rightarrow> string \<Rightarrow> call_reply \<Rightarrow> task_result prog" where
  "backfill_reply key device face_id employee_id reply =
     (let manual = (\<lambda>m. command ''enrollments.mark-device-operation'' (\<lambda>W. mark_device_operation W key Manual) (\<lambda>r.
            or_error [] r (Return (Task_Error m))))
      in case reply of
        Accepted \<Rightarrow>
          command ''enrollments.mark-device-operation'' (\<lambda>W. mark_device_operation W key Device_Applied) (\<lambda>r.
            or_error ''checkpoint successful backfill: '' r
              (command ''enrollments.complete-backfill''
                (\<lambda>W. complete_backfill_mapping W key (dw_id device) face_id employee_id) (\<lambda>r.
                or_error ''complete backfill mapping: '' r (Return Completed))))
      | Refused m \<Rightarrow> manual (''backfill ISAPI push failed: '' @ scrub_password m (dw_password device))
      | Broken m \<Rightarrow> manual (''backfill ISAPI push failed: '' @ scrub_password m (dw_password device))
      | Timed_Out \<Rightarrow> manual ''backfill: device timeout after 30s''
      | Panicked \<Rightarrow> Return Task_Panic)"

definition backfill_fresh ::
  "reader_port \<Rightarrow> device_with_plaintext \<Rightarrow> string \<Rightarrow> string \<Rightarrow> string \<Rightarrow> string \<Rightarrow> task_result prog" where
  "backfill_fresh port device face_id photo employee_id full_name =
     (let key = backfill_checkpoint_key (dw_id device) face_id in
      case reader_of port device of
        Inl error \<Rightarrow> command ''enrollments.clear-device-operation'' (\<lambda>W. clear_device_operation W key) (\<lambda>r.
          or_error [] r (Return (Task_Error error)))
      | Inr u \<Rightarrow> Call key (Enroll device face_id full_name photo) (backfill_reply key device face_id employee_id))"

definition push_one_device_for_backfill ::
  "reader_port \<Rightarrow> device_with_plaintext \<Rightarrow> string \<Rightarrow> string \<Rightarrow> string \<Rightarrow> string \<Rightarrow> task_result prog" where
  "push_one_device_for_backfill port device face_id photo employee_id full_name =
     (let key = backfill_checkpoint_key (dw_id device) face_id in
      command ''enrollments.admit-device-operation'' (\<lambda>W. admit_device_operation W key ''backfill_push'') (\<lambda>r.
        case r of
          Inl error \<Rightarrow> Return (Task_Error (''admit backfill checkpoint: '' @ app_error_text error))
        | Inr checkpoint \<Rightarrow>
            if ca_fresh checkpoint then backfill_fresh port device face_id photo employee_id full_name
            else if ca_state checkpoint = Device_Applied
            then command ''enrollments.complete-backfill''
              (\<lambda>W. complete_backfill_mapping W key (dw_id device) face_id employee_id) (\<lambda>r.
              or_error ''recover backfill mapping: '' r (Return Completed))
            else command ''enrollments.mark-device-operation'' (\<lambda>W. mark_device_operation W key Manual) (\<lambda>r.
              or_error ''mark ambiguous backfill: '' r
                (Return (Task_Error ''backfill device result is ambiguous; manual reconciliation required'')))))"

text \<open>The name and the path of the photo, read one employee after the other; without a photo the
  employee is skipped.\<close>

fun resolve_backfill ::
  "(string \<times> string \<times> string) list \<Rightarrow> ((string \<times> string \<times> string \<times> string) list \<Rightarrow> 'a prog) \<Rightarrow> 'a prog" where
  "resolve_backfill [] k = k []"
| "resolve_backfill ((employee_id, face_id, cfe_id) # es) k =
     read_store (\<lambda>s. case employee_of s employee_id of None \<Rightarrow> employee_id | Some e \<Rightarrow> em_name e) (\<lambda>name.
     read_store (\<lambda>s. get_current_photo_path s employee_id) (\<lambda>path.
       case path of
         None \<Rightarrow> resolve_backfill es k
       | Some photo_path \<Rightarrow> resolve_backfill es (\<lambda>rs. k ((employee_id, face_id, name, photo_path) # rs))))"

text \<open>The tasks of a backfill, one per employee whose photo can be read; \<open>read_photo\<close> is what the file
  system answers to a task.\<close>

definition backfill_task ::
  "reader_port \<Rightarrow> device_with_plaintext \<Rightarrow> (string \<Rightarrow> string option) \<Rightarrow> string \<times> string \<times> string \<times> string
    \<Rightarrow> task_result prog" where
  "backfill_task port device read_photo = (\<lambda>(employee_id, face_id, full_name, photo_path).
     case read_photo photo_path of
       None \<Rightarrow> Return Completed
     | Some bytes \<Rightarrow> push_one_device_for_backfill port device face_id bytes employee_id full_name)"

definition process_device ::
  "cipher_libs \<Rightarrow> string \<Rightarrow> reader_port \<Rightarrow> (string \<Rightarrow> string option) \<Rightarrow> string \<Rightarrow> task_result prog list prog" where
  "process_device C key port read_photo device_id =
     read_store (\<lambda>s. get_decrypted C key (eb_devices s) device_id) (\<lambda>r.
       case r of
         Inl e \<Rightarrow> Return []
       | Inr device \<Rightarrow> read_store list_employees_with_face (\<lambda>employees.
           resolve_backfill employees (\<lambda>resolved. Return (map (backfill_task port device read_photo) resolved))))"

text \<open>The worker takes one request at a time and waits for all of its tasks.\<close>

definition backfill_turn ::
  "cipher_libs \<Rightarrow> string \<Rightarrow> reader_port \<Rightarrow> (string \<Rightarrow> string option) \<Rightarrow> bool \<Rightarrow> string list
    \<Rightarrow> (task_result prog list prog \<times> string list) option" where
  "backfill_turn C key port read_photo cancelled rx =
     (if cancelled then None
      else case rx of [] \<Rightarrow> None | device_id # rest \<Rightarrow> Some (process_device C key port read_photo device_id, rest))"

section \<open>The tasks under the semaphore\<close>

text \<open>At most four tasks hold a permit; a permit is given back when its task has ended.  A call and its
  answer are one step: \<open>bf_log\<close> is what the reader was asked and how it answered.\<close>

definition backfill_permits :: nat where
  "backfill_permits = 4"

record backfill_run =
  bf_store :: face_store
  bf_waiting :: "task_result prog list"
  bf_running :: "task_result prog list"
  bf_log :: "(string \<times> device_call \<times> call_reply) list"

datatype backfill_event = Permit nat | Work nat job_env | Answer nat call_reply | Join nat | Other_Task face_store

fun returned :: "'a prog \<Rightarrow> bool" where
  "returned (Return x) = True"
| "returned (Atomic l e k) = False"
| "returned (Call key op k) = False"

fun backfill_step :: "backfill_event \<Rightarrow> backfill_run \<Rightarrow> backfill_run option" where
  "backfill_step (Permit j) b =
     (if j < length (bf_waiting b) \<and> length (bf_running b) < backfill_permits
      then Some (b\<lparr>bf_waiting := remove_nth j (bf_waiting b), bf_running := bf_running b @ [bf_waiting b ! j]\<rparr>)
      else None)"
| "backfill_step (Work j W) b =
     (if j < length (bf_running b) then
        (case bf_running b ! j of
           Atomic l e k \<Rightarrow> Some (b\<lparr>bf_store := e W (bf_store b), bf_running := (bf_running b)[j := k W (bf_store b)]\<rparr>)
         | _ \<Rightarrow> None)
      else None)"
| "backfill_step (Answer j r) b =
     (if j < length (bf_running b) then
        (case bf_running b ! j of
           Call key op k \<Rightarrow> Some (b\<lparr>bf_running := (bf_running b)[j := k r], bf_log := bf_log b @ [(key, op, r)]\<rparr>)
         | _ \<Rightarrow> None)
      else None)"
| "backfill_step (Join j) b =
     (if j < length (bf_running b) \<and> returned (bf_running b ! j)
      then Some (b\<lparr>bf_running := remove_nth j (bf_running b)\<rparr>) else None)"
| "backfill_step (Other_Task s) b = Some (b\<lparr>bf_store := s\<rparr>)"


section \<open>Programs that keep an invariant and spare a key\<close>

primrec calls_alone ::
  "'a prog \<Rightarrow> (nat \<Rightarrow> job_env) \<Rightarrow> (string \<Rightarrow> device_call \<Rightarrow> call_reply) \<Rightarrow> nat \<Rightarrow> face_store \<Rightarrow> (string \<times> device_call) list" where
  "calls_alone (Return x) Ws answer n s = []"
| "calls_alone (Atomic l e k) Ws answer n s = calls_alone (k (Ws n) s) Ws answer (Suc n) (e (Ws n) s)"
| "calls_alone (Call key op k) Ws answer n s = (key, op) # calls_alone (k (answer key op)) Ws answer n s"

text \<open>Whatever the queue and the readers answer, each command keeps the invariant and no call is made
  under the key.\<close>

primrec spares :: "(face_store \<Rightarrow> bool) \<Rightarrow> string \<Rightarrow> 'a prog \<Rightarrow> bool" where
  "spares I key (Return x) \<longleftrightarrow> True"
| "spares I key (Atomic l e k) \<longleftrightarrow> (\<forall>W s. I s \<longrightarrow> I (e W s) \<and> spares I key (k W s))"
| "spares I key (Call j op k) \<longleftrightarrow> j \<noteq> key \<and> (\<forall>r. spares I key (k r))"

lemma spares_command: "spares I key (command l op k) \<longleftrightarrow> (\<forall>W s. I s \<longrightarrow> I (fst (op W s)) \<and> spares I key (k (snd (op W s))))"
  by (simp add: command_def)

lemma spares_read: "spares I key (read_store q k) \<longleftrightarrow> (\<forall>s. I s \<longrightarrow> spares I key (k (q s)))"
  by (auto simp: read_store_def)

lemma spares_bind: "spares I key p \<Longrightarrow> (\<And>x. spares I key (f x)) \<Longrightarrow> spares I key (bind_prog p f)"
  by (induction p) auto

lemma spares_alone:
  "spares I key p \<Longrightarrow> I s \<Longrightarrow>
    I (fst (run_alone p Ws answer n s)) \<and> key \<notin> fst ` set (calls_alone p Ws answer n s)"
proof (induction p arbitrary: n s)
  case (Atomic l e k)
  then have "I (e (Ws n) s)" "spares I key (k (Ws n) s)" by auto
  then show ?case using Atomic.IH [OF rangeI rangeI] by simp
qed auto

lemma keys_update_where: "(\<And>r. k (f r) = k r) \<Longrightarrow> k ` set (update_where P f t) = k ` set t"
  by (metis map_update_where set_map)

text \<open>A revocation that has failed or whose answer was lost: the mapping is there, and its checkpoint
  says that the device may or may not have the face.\<close>

definition revocation_stuck :: "string \<Rightarrow> face_store \<Rightarrow> bool" where
  "revocation_stuck m s \<longleftrightarrow> m \<in> mp_id ` set (eb_mappings s) \<and>
     (let rs = filter (\<lambda>r. ck_operation_key r = purge_checkpoint_key m) (eb_checkpoints s)
      in rs \<noteq> [] \<and> list_all (\<lambda>r. ck_state r = ''prepared'' \<or> ck_state r = ''manual'') rs)"

lemma revocation_stuck_iff:
  "revocation_stuck m s \<longleftrightarrow> m \<in> mp_id ` set (eb_mappings s) \<and>
     purge_checkpoint_key m \<in> ck_operation_key ` set (eb_checkpoints s) \<and>
     (\<forall>r \<in> set (eb_checkpoints s). ck_operation_key r = purge_checkpoint_key m \<longrightarrow>
       ck_state r = ''prepared'' \<or> ck_state r = ''manual'')"
  by (force simp: revocation_stuck_def Let_def list_all_iff filter_empty_conv)

lemma purge_key_inj [simp]: "purge_checkpoint_key a = purge_checkpoint_key b \<longleftrightarrow> a = b"
  by (simp add: purge_checkpoint_key_def)

lemma purge_key_other [simp]:
  "backfill_checkpoint_key d f \<noteq> purge_checkpoint_key m" "enrollment_checkpoint_key p \<noteq> purge_checkpoint_key m"
  "purge_checkpoint_key m \<noteq> enrollment_checkpoint_key p"
  by (simp_all add: purge_checkpoint_key_def backfill_checkpoint_key_def enrollment_checkpoint_key_def)

text \<open>What a command leaves of the mapping and its checkpoint.\<close>

definition keeps_revocation :: "string \<Rightarrow> face_store \<Rightarrow> face_store \<Rightarrow> bool" where
  "keeps_revocation m s s' \<longleftrightarrow> (revocation_stuck m s \<longrightarrow> revocation_stuck m s')"

lemma keeps_revocation_refl [simp]: "keeps_revocation m s s"
  by (simp add: keeps_revocation_def)

lemma keeps_revocation_trans: "keeps_revocation m s t \<Longrightarrow> keeps_revocation m t u \<Longrightarrow> keeps_revocation m s u"
  by (simp add: keeps_revocation_def)

lemma keeps_revocation_parts:
  assumes "mp_id ` set (eb_mappings s) \<inter> {m} \<subseteq> mp_id ` set (eb_mappings s')"
    and "filter (\<lambda>r. ck_operation_key r = purge_checkpoint_key m) (eb_checkpoints s') =
      filter (\<lambda>r. ck_operation_key r = purge_checkpoint_key m) (eb_checkpoints s)"
  shows "keeps_revocation m s s'"
  using assms by (auto simp: keeps_revocation_def revocation_stuck_def Let_def)

lemma keeps_revocation_drop: "j \<noteq> purge_checkpoint_key m \<Longrightarrow> keeps_revocation m s (drop_checkpoint j s)"
  by (rule keeps_revocation_parts) (auto simp: drop_checkpoint_def intro!: filter_delete_other)

lemma keeps_revocation_set:
  "(\<And>r. Q r \<Longrightarrow> ck_operation_key r \<noteq> purge_checkpoint_key m) \<Longrightarrow> keeps_revocation m s (set_checkpoint Q now st s)"
  by (rule keeps_revocation_parts) (auto simp: set_checkpoint_def intro!: filter_update_other)

lemma keeps_revocation_push [simp]: "keeps_revocation m s (set_push P f s)"
  by (rule keeps_revocation_parts) (auto simp: set_push_def)

lemma keeps_revocation_mapping: "upsert_mapping W d f e s = Inr s' \<Longrightarrow> keeps_revocation m s s'"
  by (rule keeps_revocation_parts)
    (auto simp: upsert_mapping_def bail_def keys_update_where split: if_splits)

lemma keeps_revocation_settle: "settle_enrollment t now i s = Inr s' \<Longrightarrow> keeps_revocation m s s'"
  by (rule keeps_revocation_parts)
    (auto simp: settle_enrollment_def set_enrollment_def bail_def split: if_splits prod.splits)

lemma keeps_revocation_tx:
  assumes "\<And>a t. job s = Inr (a, t) \<Longrightarrow> keeps_revocation m s t"
  shows "keeps_revocation m s (fst (run_tx w job s))"
  using assms by (cases w) (auto split: sum.splits)

lemma keeps_revocation_mark:
  assumes "j \<noteq> purge_checkpoint_key m \<or> st \<noteq> Device_Applied"
  shows "keeps_revocation m s (fst (mark_device_operation W j st s))"
proof (cases "je_write W")
  case Ran
  then show ?thesis
    using assms
    by (cases st) (auto simp: keeps_revocation_def revocation_stuck_iff mark_device_operation_def update_checkpoints_def
        keys_update_where in_set_update_where split: if_splits)
qed (simp add: mark_device_operation_def update_checkpoints_def)

lemma keeps_revocation_commands:
  "keeps_revocation m s (fst (mark_mapping_pending_delete W m' s))"
  "j \<noteq> purge_checkpoint_key m \<Longrightarrow> keeps_revocation m s (fst (clear_device_operation W j s))"
  "m' \<noteq> m \<Longrightarrow> keeps_revocation m s (fst (complete_purge_mapping W (purge_checkpoint_key m') m' s))"
  "j \<noteq> purge_checkpoint_key m \<Longrightarrow> keeps_revocation m s (fst (complete_backfill_mapping W j d f e s))"
  "keeps_revocation m s (fst (record_push_recovery_failure W p msg b s))"
  "keeps_revocation m s (fst (complete_recovered_push_success W i p d f e s))"
  "keeps_revocation m s (fst (finalize_enrollment W i s))"
  "keeps_revocation m s (fst (admit_device_operation W j oper s))"
proof -
  show "keeps_revocation m s (fst (mark_mapping_pending_delete W m' s))"
    by (cases "je_write W"; rule keeps_revocation_parts)
      (auto simp: mark_mapping_pending_delete_def update_mappings_def keys_update_where)
  show "keeps_revocation m s (fst (clear_device_operation W j s))" if "j \<noteq> purge_checkpoint_key m"
    unfolding clear_device_operation_def by (rule keeps_revocation_tx) (use that keeps_revocation_drop in auto)
  show "keeps_revocation m s (fst (complete_purge_mapping W (purge_checkpoint_key m') m' s))" if "m' \<noteq> m"
    unfolding complete_purge_mapping_def
    by (rule keeps_revocation_tx, rule keeps_revocation_parts)
      (use that in \<open>auto simp: drop_checkpoint_def drop_mapping_def delete_where_def image_iff intro!: filter_cong\<close>)
  show "keeps_revocation m s (fst (complete_backfill_mapping W j d f e s))" if "j \<noteq> purge_checkpoint_key m"
    unfolding complete_backfill_mapping_def
    by (rule keeps_revocation_tx)
      (use that in \<open>auto simp: bind_result_eq_Inr intro: keeps_revocation_trans [OF keeps_revocation_mapping keeps_revocation_drop]\<close>)
  show "keeps_revocation m s (fst (record_push_recovery_failure W p msg b s))"
    unfolding record_push_recovery_failure_def
    by (rule keeps_revocation_tx)
      (auto simp: Let_def bind_result_eq_Inr one_push_eq split: if_splits
        intro!: keeps_revocation_trans [OF keeps_revocation_set keeps_revocation_push])
  show "keeps_revocation m s (fst (complete_recovered_push_success W i p d f e s))"
    unfolding complete_recovered_push_success_def
    by (rule keeps_revocation_tx)
      (auto simp: bind_result_eq_Inr one_push_eq
        intro!: keeps_revocation_trans [OF keeps_revocation_push keeps_revocation_trans [OF keeps_revocation_mapping
          keeps_revocation_trans [OF keeps_revocation_settle keeps_revocation_drop]]])
  show "keeps_revocation m s (fst (finalize_enrollment W i s))"
    unfolding finalize_enrollment_def
    by (rule keeps_revocation_tx) (auto simp: bind_result_eq_Inr dest: keeps_revocation_settle)
  show "keeps_revocation m s (fst (admit_device_operation W j oper s))"
    unfolding admit_device_operation_def
  proof (rule keeps_revocation_tx)
    fix a t
    assume t: "(let inserted = (\<not> has_checkpoint j s);
         t = (if inserted then eb_checkpoints s @ [prepared_row W j oper] else eb_checkpoints s)
     in case find (\<lambda>r. ck_operation_key r = j) t of
          None \<Rightarrow> bail ''checkpoint disappeared during admission''
        | Some r \<Rightarrow> (case checkpoint_state (ck_state r) of
              Inl e \<Rightarrow> Inl e
            | Inr st \<Rightarrow> Inr (\<lparr>ca_state = st, ca_fresh = inserted\<rparr>, s\<lparr>eb_checkpoints := t\<rparr>))) = Inr (a, t)"
    then have "t = s\<lparr>eb_checkpoints := if has_checkpoint j s then eb_checkpoints s else eb_checkpoints s @ [prepared_row W j oper]\<rparr>"
      by (auto simp: Let_def bail_def split: option.splits sum.splits if_splits)
    then show "keeps_revocation m s t"
      by (auto simp: keeps_revocation_def revocation_stuck_def Let_def prepared_row_def)
  qed
qed

section \<open>A failed revocation is final\<close>

lemma keeps_stuck: "keeps_revocation m s s' \<Longrightarrow> revocation_stuck m s \<Longrightarrow> revocation_stuck m s'"
  by (simp add: keeps_revocation_def)

lemmas stuck_commands = keeps_revocation_commands [THEN keeps_stuck]

lemma stuck_mark: "j \<noteq> purge_checkpoint_key m \<or> st \<noteq> Device_Applied \<Longrightarrow> revocation_stuck m s \<Longrightarrow>
    revocation_stuck m (fst (mark_device_operation W j st s))"
  by (rule keeps_stuck [OF keeps_revocation_mark])

lemma stuck_admission:
  assumes "revocation_stuck m s" "snd (admit_device_operation W (purge_checkpoint_key m) oper s) = Inr checkpoint"
  shows "\<not> ca_fresh checkpoint \<and> ca_state checkpoint \<noteq> Device_Applied"
proof -
  have has: "has_checkpoint (purge_checkpoint_key m) s" using assms(1) by (simp add: revocation_stuck_iff has_checkpoint_def)
  have "find (\<lambda>r. ck_operation_key r = purge_checkpoint_key m) (eb_checkpoints s) \<noteq> None"
    using has by (auto simp: has_checkpoint_def find_None_iff)
  then obtain r where r: "find (\<lambda>r. ck_operation_key r = purge_checkpoint_key m) (eb_checkpoints s) = Some r" by blast
  then have "ck_state r = ''prepared'' \<or> ck_state r = ''manual''"
    using assms(1) find_Some_in [OF r] by (auto simp: revocation_stuck_iff)
  then show ?thesis
    using assms(2) has r by (cases "je_write W") (auto simp: admit_device_operation_def checkpoint_state_def)
qed

abbreviation leaves_stuck :: "string \<Rightarrow> 'a prog \<Rightarrow> bool" where
  "leaves_stuck m \<equiv> spares (revocation_stuck m) (purge_checkpoint_key m)"

lemma then_pending_spares: "leaves_stuck m p \<Longrightarrow> leaves_stuck m (then_pending m' p)"
  by (simp add: then_pending_def spares_command stuck_commands(1))

lemma then_mark_spares:
  "j \<noteq> purge_checkpoint_key m \<or> st \<noteq> Device_Applied \<Longrightarrow> leaves_stuck m p \<Longrightarrow> leaves_stuck m (then_mark j st p)"
  by (simp add: then_mark_def spares_command stuck_mark)

lemma purge_reply_spares: "m' \<noteq> m \<Longrightarrow> leaves_stuck m (purge_reply m' r)"
  by (cases r) (auto simp: purge_reply_def purge_applied_def Let_def spares_command stuck_commands(3) stuck_mark
      intro!: then_pending_spares then_mark_spares split: sum.split)

lemma purge_fresh_spares: "m' \<noteq> m \<Longrightarrow> leaves_stuck m (purge_fresh port device m' f)"
  by (auto simp: purge_fresh_def spares_command stuck_commands(2) purge_reply_spares
      intro!: then_pending_spares split: sum.split)

lemma purge_stale_spares: "m' \<noteq> m \<or> st \<noteq> Device_Applied \<Longrightarrow> leaves_stuck m (purge_stale m' st)"
  by (auto simp: purge_stale_def Let_def spares_command stuck_commands(3) intro!: then_pending_spares then_mark_spares)

lemma purge_mapping_spares: "leaves_stuck m (purge_mapping C key port row)"
proof -
  obtain m' d f where row: "row = (m', d, f)" by (rule prod_cases3)
  have "revocation_stuck m s \<Longrightarrow> leaves_stuck m (case snd (admit_device_operation W (purge_checkpoint_key m') ''purge_delete'' s) of
      Inl error \<Rightarrow> Return True
    | Inr checkpoint \<Rightarrow> if ca_fresh checkpoint then purge_fresh port device m' f else purge_stale m' (ca_state checkpoint))"
    for W s device
    by (cases "m' = m") (auto split: sum.split dest: stuck_admission intro!: purge_fresh_spares purge_stale_spares)
  then show ?thesis
    by (auto simp: row purge_mapping_def spares_read spares_command stuck_commands(8)
        intro!: then_pending_spares split: sum.split)
qed

lemma purge_mappings_spares: "leaves_stuck m (purge_mappings C key port i rows)"
  by (induction rows) (auto simp: spares_read intro!: spares_bind purge_mapping_spares split: sum.split)

lemma process_employees_spares: "leaves_stuck m (process_employees C key port ids)"
proof (induction ids)
  case (Cons i ids)
  have "leaves_stuck m (process_employee C key port i)"
    by (auto simp: process_employee_def spares_read purge_mappings_spares split: sum.split)
  then show ?case using Cons by (auto intro!: spares_bind)
qed simp

text \<open>The recovery at a start.\<close>

lemma or_stop_spares: "leaves_stuck m p \<Longrightarrow> leaves_stuck m (or_stop r p)"
  by (simp add: or_stop_def split: sum.split)

lemma recover_push_spares: "leaves_stuck m (recover_push p st)"
  by (auto simp: recover_push_def stop_def spares_read spares_command stuck_commands(5-7)
      intro!: or_stop_spares split: option.split)

lemma recover_backfill_spares: "j \<noteq> purge_checkpoint_key m \<Longrightarrow> leaves_stuck m (recover_backfill j d f st)"
  by (auto simp: recover_backfill_def stop_def spares_read spares_command stuck_commands(4) stuck_mark
      intro!: or_stop_spares split: option.split)

lemma recover_purge_spares:
  "m' \<noteq> m \<or> st \<noteq> Device_Applied \<Longrightarrow> leaves_stuck m (recover_purge (purge_checkpoint_key m') m' st)"
  by (auto simp: recover_purge_def stop_def spares_read spares_command stuck_commands(1,3) stuck_mark
      intro!: or_stop_spares)

lemma strip_key_Some: "strip_key pre k = Some v \<Longrightarrow> k = pre @ v"
  by (auto simp: strip_key_def strip_prefix_def prefix_of_eq split: option.splits if_splits)

lemma recover_one_spares:
  assumes "ck_operation_key r = purge_checkpoint_key m \<Longrightarrow> ck_state r = ''prepared'' \<or> ck_state r = ''manual''"
  shows "leaves_stuck m (recover_one r)"
proof (cases "checkpoint_state (ck_state r)")
  case (Inr st)
  have st: "st \<noteq> Device_Applied" if "ck_operation_key r = purge_checkpoint_key m"
    using assms [OF that] Inr by (auto simp: checkpoint_state_def)
  have "ck_operation_key r \<noteq> purge_checkpoint_key m"
    if "Option.bind (strip_prefix ''backfill:'' (ck_operation_key r)) split_pair = Some p" for p
    using that by (auto simp: strip_prefix_def purge_checkpoint_key_def split: if_splits)
  moreover have "leaves_stuck m (recover_purge (ck_operation_key r) m' st)" if "strip_key ''purge:'' (ck_operation_key r) = Some m'" for m'
  proof -
    have "ck_operation_key r = purge_checkpoint_key m'" using strip_key_Some [OF that] by (simp add: purge_checkpoint_key_def)
    then show ?thesis using st recover_purge_spares [of m' m st] by auto
  qed
  ultimately show ?thesis
    using Inr by (auto simp: recover_one_def stop_def recover_push_spares recover_backfill_spares split: option.split)
qed (simp add: recover_one_def stop_def)

lemma recover_all_spares:
  "(\<And>r. r \<in> set rs \<Longrightarrow> ck_operation_key r = purge_checkpoint_key m \<Longrightarrow> ck_state r = ''prepared'' \<or> ck_state r = ''manual'') \<Longrightarrow>
    leaves_stuck m (recover_all rs)"
  by (induction rs) (auto intro!: spares_bind recover_one_spares split: sum.split)

lemma recover_startup_spares: "leaves_stuck m recover_startup_checkpoints"
  by (auto simp: recover_startup_checkpoints_def spares_read revocation_stuck_iff intro!: recover_all_spares)

text \<open>What may happen afterwards: passes of the worker over any employees, and restarts.\<close>

datatype purge_history =
    Purge_Pass "string list" "nat \<Rightarrow> job_env" "string \<Rightarrow> device_call \<Rightarrow> call_reply"
  | Restarted "nat \<Rightarrow> job_env"

fun purge_after :: "cipher_libs \<Rightarrow> string \<Rightarrow> reader_port \<Rightarrow> purge_history \<Rightarrow> face_store \<Rightarrow> face_store" where
  "purge_after C key port (Purge_Pass ids Ws answer) s = fst (run_alone (process_employees C key port ids) Ws answer 0 s)"
| "purge_after C key port (Restarted Ws) s = fst (run_alone recover_startup_checkpoints Ws no_call 0 s)"

fun calls_after :: "cipher_libs \<Rightarrow> string \<Rightarrow> reader_port \<Rightarrow> purge_history \<Rightarrow> face_store \<Rightarrow> (string \<times> device_call) list" where
  "calls_after C key port (Purge_Pass ids Ws answer) s = calls_alone (process_employees C key port ids) Ws answer 0 s"
| "calls_after C key port (Restarted Ws) s = calls_alone recover_startup_checkpoints Ws no_call 0 s"

lemma stuck_stays:
  assumes "revocation_stuck m s"
  shows "revocation_stuck m (purge_after C key port h s) \<and> purge_checkpoint_key m \<notin> fst ` set (calls_after C key port h s)"
  using assms by (cases h) (simp_all add: spares_alone [OF process_employees_spares] spares_alone [OF recover_startup_spares])



section \<open>One revocation\<close>

text \<open>The mapping waits for its deletion, under a checkpoint that stays open.\<close>

definition pending_deletion :: "string \<Rightarrow> face_store \<Rightarrow> face_store \<Rightarrow> bool" where
  "pending_deletion m s s' \<longleftrightarrow> (\<exists>now. eb_mappings s' = update_where (\<lambda>r. mp_id r = m)
     (\<lambda>r. r\<lparr>mp_state := ''pending_delete'', mp_version := mp_version r + 1, mp_updated_at := now\<rparr>) (eb_mappings s)) \<and>
     (m \<in> mp_id ` set (eb_mappings s) \<longrightarrow> revocation_stuck m s')"

lemma update_where_append: "update_where P f (a @ b) = update_where P f a @ update_where P f b"
  by (simp add: update_where_def)

lemma delete_where_append: "delete_where P (a @ b) = delete_where P a @ delete_where P b"
  by (simp add: delete_where_def)

lemma delete_where_one: "delete_where P [r] = (if P r then [] else [r])"
  by (simp add: delete_where_def)

lemma no_checkpoint_rows:
  assumes "\<not> has_checkpoint k s"
  shows "update_where (\<lambda>r. ck_operation_key r = k) f (eb_checkpoints s) = eb_checkpoints s"
    "delete_where (\<lambda>r. ck_operation_key r = k) (eb_checkpoints s) = eb_checkpoints s"
    "find (\<lambda>r. ck_operation_key r = k) (eb_checkpoints s) = None"
  using assms by (auto simp: has_checkpoint_def update_where_def delete_where_def find_None_iff filter_id_conv
      intro!: map_idI)

lemma admit_fresh:
  assumes "\<not> has_checkpoint k s" "je_write W = Ran"
  shows "admit_device_operation W k oper s =
    (s\<lparr>eb_checkpoints := eb_checkpoints s @ [prepared_row W k oper]\<rparr>, Inr \<lparr>ca_state = Prepared, ca_fresh = True\<rparr>)"
  using assms by (simp add: admit_device_operation_def Let_def find_append_None [OF no_checkpoint_rows(3)] prepared_row_def checkpoint_state_def)

lemma admit_stale:
  assumes "find (\<lambda>r. ck_operation_key r = k) (eb_checkpoints s) = Some r" "je_write W = Ran"
  shows "admit_device_operation W k oper s = (s, case checkpoint_state (ck_state r) of
    Inl e \<Rightarrow> Inl (from_db_write (JobFailed e)) | Inr st \<Rightarrow> Inr \<lparr>ca_state = st, ca_fresh = False\<rparr>)"
proof -
  have "has_checkpoint k s" using find_Some_in [OF assms(1)] by (auto simp: has_checkpoint_def)
  then show ?thesis using assms by (simp add: admit_device_operation_def Let_def split: sum.split)
qed

lemma ran_mappings:
  assumes "je_write W = Ran"
  shows "mark_mapping_pending_delete W m s = (s\<lparr>eb_mappings := update_where (\<lambda>r. mp_id r = m)
     (\<lambda>r. r\<lparr>mp_state := ''pending_delete'', mp_version := mp_version r + 1, mp_updated_at := je_now W\<rparr>) (eb_mappings s)\<rparr>, Inr ())"
    "complete_purge_mapping W k m s = (drop_checkpoint k (drop_mapping m s), Inr ())"
  using assms by (simp_all add: mark_mapping_pending_delete_def update_mappings_def changed_def complete_purge_mapping_def)

lemma manual_pending:
  assumes "eb_mappings s' = update_where (\<lambda>r. mp_id r = m)
     (\<lambda>r. r\<lparr>mp_state := ''pending_delete'', mp_version := mp_version r + 1, mp_updated_at := now\<rparr>) (eb_mappings s)"
    and "eb_checkpoints s' = update_where (\<lambda>r. ck_operation_key r = purge_checkpoint_key m)
     (\<lambda>r. r\<lparr>ck_state := ''manual'', ck_updated_at := now'\<rparr>) t"
    and "purge_checkpoint_key m \<in> ck_operation_key ` set t"
  shows "pending_deletion m s s'"
proof -
  have "mp_id ` set (eb_mappings s') = mp_id ` set (eb_mappings s)" unfolding assms(1) by (rule keys_update_where) simp
  moreover have "ck_operation_key ` set (eb_checkpoints s') = ck_operation_key ` set t" unfolding assms(2) by (rule keys_update_where) simp
  ultimately show ?thesis
    using assms(1,3) unfolding pending_deletion_def revocation_stuck_iff by (auto simp: assms(2) in_set_update_where)
qed

text \<open>A revocation ends as the reader answered.  Without an open checkpoint the reader is called: if it
  accepted, the mapping and the checkpoint are gone; if the client panicked, the worker ends and the
  checkpoint stays; in every other case the mapping waits for its deletion under an open checkpoint.
  With a checkpoint that says the face is off the reader only the row is deleted; with any other the
  mapping waits, whatever the reader would answer.\<close>

theorem revocation_ends_as_answered:
  assumes "\<And>n. je_write (Ws n) = Ran" "get_decrypted C key (eb_devices s) d = Inr device" "reader_of port device = Inr ()"
    and "run_alone (purge_mapping C key port (m, d, f)) Ws answer n s = (s', alive)"
  shows "case find (\<lambda>r. ck_operation_key r = purge_checkpoint_key m) (eb_checkpoints s) of
      None \<Rightarrow> (case answer (purge_checkpoint_key m) (Revoke device f) of
          Accepted \<Rightarrow> alive \<and> s' = drop_mapping m s
        | Panicked \<Rightarrow> \<not> alive \<and> s' = s\<lparr>eb_checkpoints := eb_checkpoints s @
            [prepared_row (Ws (Suc n)) (purge_checkpoint_key m) ''purge_delete'']\<rparr>
        | _ \<Rightarrow> alive \<and> pending_deletion m s s')
    | Some r \<Rightarrow> alive \<and> (case checkpoint_state (ck_state r) of
          Inl e \<Rightarrow> s' = s
        | Inr st \<Rightarrow> if st = Device_Applied then s' = drop_checkpoint (purge_checkpoint_key m) (drop_mapping m s)
            else pending_deletion m s s')"
proof (cases "find (\<lambda>r. ck_operation_key r = purge_checkpoint_key m) (eb_checkpoints s)")
  case None
  then have free: "\<not> has_checkpoint (purge_checkpoint_key m) s" by (auto simp: has_checkpoint_def find_None_iff)
  let ?row = "prepared_row (Ws (Suc n)) (purge_checkpoint_key m) ''purge_delete''"
  have row: "ck_operation_key ?row = purge_checkpoint_key m" by (simp add: prepared_row_def)
  note run = assms(4) [unfolded purge_mapping_def, simplified, unfolded assms(2), simplified,
      unfolded admit_fresh [OF free assms(1)], simplified, unfolded purge_fresh_def assms(3) purge_reply_def Let_def, simplified]
  show ?thesis
    using None run free row
    by (cases "answer (purge_checkpoint_key m) (Revoke device f)")
      (auto simp: then_pending_def then_mark_def purge_applied_def Let_def ran_commands [OF assms(1)] ran_mappings [OF assms(1)]
        set_checkpoint_def drop_checkpoint_def drop_mapping_def update_where_append delete_where_append delete_where_one no_checkpoint_rows
        intro!: manual_pending [where t = "eb_checkpoints s @ [?row]"])
next
  case (Some r)
  then have has: "purge_checkpoint_key m \<in> ck_operation_key ` set (eb_checkpoints s)" using find_Some_in [OF Some] by force
  note run = assms(4) [unfolded purge_mapping_def, simplified, unfolded assms(2), simplified,
      unfolded admit_stale [OF Some assms(1)], simplified]
  show ?thesis
    using run has Some
    by (cases "checkpoint_state (ck_state r)")
      (auto simp: purge_stale_def Let_def then_pending_def then_mark_def ran_commands [OF assms(1)] ran_mappings [OF assms(1)]
        set_checkpoint_def split: if_splits intro!: manual_pending [where t = "eb_checkpoints s"])
qed

section \<open>Revocation examples\<close>

definition former_store :: "string \<Rightarrow> face_store" where
  "former_store status = enrolled_store\<lparr>eb_employees := [sample_person (Some ''f1'') status (Some ''fe1'')],
     eb_mappings := [new_mapping sample_job ''dv1'' ''f1'' ''e1'']\<rparr>"

definition purge_pass :: "call_reply \<Rightarrow> purge_history" where
  "purge_pass r = Purge_Pass [''e1''] (\<lambda>n. sample_job) (\<lambda>k op. r)"

definition refused_store :: face_store where
  "refused_store = purge_after toy_cipher [] any_port (purge_pass (Refused ''busy'')) (former_store ''inactive'')"


theorem revocation_ends_as_answered_witness:
  "case run_alone (purge_mapping toy_cipher [] any_port (''m1'', ''dv1'', ''f1'')) (\<lambda>n. sample_job) (\<lambda>k op. Timed_Out) 0
      (former_store ''inactive'') of (s', alive) \<Rightarrow> alive \<and> revocation_stuck ''m1'' s'"
proof -
  obtain s' alive where run: "run_alone (purge_mapping toy_cipher [] any_port (''m1'', ''dv1'', ''f1'')) (\<lambda>n. sample_job)
      (\<lambda>k op. Timed_Out) 0 (former_store ''inactive'') = (s', alive)" by fastforce
  have ran: "je_write sample_job = Ran" by code_simp
  have device: "get_decrypted toy_cipher [] (eb_devices (former_store ''inactive'')) ''dv1'' = Inr (plaintext_device sample_row ''pw'')"
    by code_simp
  have reader: "reader_of any_port (plaintext_device sample_row ''pw'') = Inr ()" by code_simp
  have none: "find (\<lambda>r. ck_operation_key r = purge_checkpoint_key ''m1'') (eb_checkpoints (former_store ''inactive'')) = None" by code_simp
  have mapped: "''m1'' \<in> mp_id ` set (eb_mappings (former_store ''inactive''))" by code_simp
  show ?thesis
    using revocation_ends_as_answered [OF ran device reader run] none mapped by (simp add: run pending_deletion_def)
qed


section \<open>The calls of a backfill\<close>

text \<open>At most \<open>n\<close> calls for which \<open>P\<close> holds, whatever is answered.\<close>

primrec calls_within :: "(string \<Rightarrow> device_call \<Rightarrow> bool) \<Rightarrow> 'a prog \<Rightarrow> nat \<Rightarrow> bool" where
  "calls_within P (Return x) n \<longleftrightarrow> True"
| "calls_within P (Atomic l e k) n \<longleftrightarrow> (\<forall>W s. calls_within P (k W s) n)"
| "calls_within P (Call key op k) n \<longleftrightarrow>
     (if P key op then 0 < n \<and> (\<forall>r. calls_within P (k r) (n - 1)) else \<forall>r. calls_within P (k r) n)"

lemma calls_within_command: "calls_within P (command l op k) n \<longleftrightarrow> (\<forall>W s. calls_within P (k (snd (op W s))) n)"
  by (simp add: command_def)

lemma sum_remove_nth:
  assumes "j < length (ns :: nat list)"
  shows "sum_list (remove_nth j ns) + ns ! j = sum_list ns"
  unfolding remove_nth_def by (subst (3) id_take_nth_drop [OF assms]) simp

lemma list_all2_remove_nth: "list_all2 R xs ys \<Longrightarrow> list_all2 R (remove_nth j xs) (remove_nth j ys)"
  by (auto simp: remove_nth_def intro!: list_all2_appendI list_all2_takeI list_all2_dropI)

definition calls_made :: "(string \<Rightarrow> device_call \<Rightarrow> bool) \<Rightarrow> backfill_run \<Rightarrow> nat" where
  "calls_made P b = length (filter (\<lambda>(key, op, r). P key op) (bf_log b))"

definition backfill_budget :: "(string \<Rightarrow> device_call \<Rightarrow> bool) \<Rightarrow> nat \<Rightarrow> backfill_run \<Rightarrow> bool" where
  "backfill_budget P B b \<longleftrightarrow> length (bf_running b) \<le> backfill_permits \<and>
     (\<exists>ws rs. list_all2 (calls_within P) (bf_waiting b) ws \<and> list_all2 (calls_within P) (bf_running b) rs \<and>
        calls_made P b + sum_list ws + sum_list rs \<le> B)"

lemma backfill_budget_step:
  assumes "backfill_step e b = Some b'" "backfill_budget P B b"
  shows "backfill_budget P B b'"
proof -
  obtain ws rs where ws: "list_all2 (calls_within P) (bf_waiting b) ws" and rs: "list_all2 (calls_within P) (bf_running b) rs"
    and sum: "calls_made P b + sum_list ws + sum_list rs \<le> B" and few: "length (bf_running b) \<le> backfill_permits"
    using assms(2) by (auto simp: backfill_budget_def)
  have len: "length ws = length (bf_waiting b)" "length rs = length (bf_running b)"
    using ws rs by (simp_all add: list_all2_lengthD)
  note defs = backfill_budget_def calls_made_def
  show ?thesis
  proof (cases e)
    case (Permit j)
    then have j: "j < length ws" "length (bf_running b) < backfill_permits"
      and b': "b' = b\<lparr>bf_waiting := remove_nth j (bf_waiting b), bf_running := bf_running b @ [bf_waiting b ! j]\<rparr>"
      using assms(1) len by (auto split: if_splits)
    have "list_all2 (calls_within P) (bf_running b @ [bf_waiting b ! j]) (rs @ [ws ! j])"
      using rs list_all2_nthD [OF ws] j(1) len by (simp add: list_all2_appendI)
    then show ?thesis
      unfolding defs b' using list_all2_remove_nth [OF ws, of j] sum sum_remove_nth [OF j(1)] j(2)
      by (intro conjI exI [of _ "remove_nth j ws"] exI [of _ "rs @ [ws ! j]"]) (simp_all add: calls_made_def)
  next
    case (Work j W)
    then obtain l f k where j: "j < length rs" "bf_running b ! j = Atomic l f k"
      and b': "b' = b\<lparr>bf_store := f W (bf_store b), bf_running := (bf_running b)[j := k W (bf_store b)]\<rparr>"
      using assms(1) len by (auto split: if_splits prog.splits)
    have "calls_within P (k W (bf_store b)) (rs ! j)" using list_all2_nthD2 [OF rs j(1)] j(2) by simp
    then have "list_all2 (calls_within P) ((bf_running b)[j := k W (bf_store b)]) rs"
      using list_all2_update_cong [OF rs, of "k W (bf_store b)" "rs ! j" j] by simp
    then show ?thesis
      unfolding defs b' using ws sum few
      by (intro conjI exI [of _ ws] exI [of _ rs]) (simp_all add: calls_made_def)
  next
    case (Answer j r)
    then obtain key op k where j: "j < length rs" "bf_running b ! j = Call key op k"
      and b': "b' = b\<lparr>bf_running := (bf_running b)[j := k r], bf_log := bf_log b @ [(key, op, r)]\<rparr>"
      using assms(1) len by (auto split: if_splits prog.splits)
    let ?n = "if P key op then rs ! j - 1 else rs ! j"
    have within: "calls_within P (Call key op k) (rs ! j)" using list_all2_nthD2 [OF rs j(1)] j(2) by simp
    then have "calls_within P (k r) ?n" by (simp split: if_splits)
    then have "list_all2 (calls_within P) ((bf_running b)[j := k r]) (rs[j := ?n])" by (rule list_all2_update_cong [OF rs])
    moreover have "sum_list (rs[j := ?n]) + (if P key op then 1 else 0) = sum_list rs"
      using within j(1) elem_le_sum_list [OF j(1)] by (auto simp: sum_list_update split: if_splits)
    ultimately show ?thesis
      unfolding defs b' using ws sum few
      by (intro conjI exI [of _ ws] exI [of _ "rs[j := ?n]"]) (simp_all add: calls_made_def split: if_splits)
  next
    case (Join j)
    then have j: "j < length rs" and b': "b' = b\<lparr>bf_running := remove_nth j (bf_running b)\<rparr>"
      using assms(1) len by (auto split: if_splits)
    show ?thesis
      unfolding defs b' using ws list_all2_remove_nth [OF rs, of j] sum sum_remove_nth [OF j] few j len
      by (intro conjI exI [of _ ws] exI [of _ "remove_nth j rs"]) (simp_all add: calls_made_def remove_nth_def)
  next
    case (Other_Task s)
    then have b': "b' = b\<lparr>bf_store := s\<rparr>" using assms(1) by simp
    show ?thesis
      unfolding defs b' using ws rs sum few by (intro conjI exI [of _ ws] exI [of _ rs]) (simp_all add: calls_made_def)
  qed
qed

interpretation backfill: stepper backfill_step "backfill_budget P B" for P B
  by unfold_locales (blast intro: backfill_budget_step)

definition backfill_start :: "task_result prog list \<Rightarrow> face_store \<Rightarrow> backfill_run" where
  "backfill_start tasks s = \<lparr>bf_store = s, bf_waiting = tasks, bf_running = [], bf_log = []\<rparr>"

text \<open>The calls a backfill is meant to make: one for each employee whose photo can be read.\<close>

definition backfill_calls ::
  "device_with_plaintext \<Rightarrow> (string \<Rightarrow> string option) \<Rightarrow> (string \<times> string \<times> string \<times> string) list \<Rightarrow> (string \<times> device_call) list" where
  "backfill_calls device read_photo resolved = concat (map (\<lambda>(employee_id, face_id, full_name, photo_path).
     case read_photo photo_path of None \<Rightarrow> []
     | Some bytes \<Rightarrow> [(backfill_checkpoint_key (dw_id device) face_id, Enroll device face_id full_name bytes)]) resolved)"

lemma backfill_reply_calls: "calls_within P (backfill_reply key device f e r) n"
  by (cases r) (auto simp: backfill_reply_def Let_def calls_within_command or_error_def split: sum.split)

lemma backfill_task_calls:
  "calls_within (\<lambda>key op. (key, op) = c) (backfill_task port device read_photo entry)
     (count_list (backfill_calls device read_photo [entry]) c)"
proof -
  obtain e f n p where entry: "entry = (e, f, n, p)" by (rule prod_cases4)
  have fresh: "calls_within (\<lambda>key op. (key, op) = c) (backfill_fresh port device f bytes e n)
      (if (backfill_checkpoint_key (dw_id device) f, Enroll device f n bytes) = c then 1 else 0)" for bytes
    by (auto simp: backfill_fresh_def Let_def calls_within_command or_error_def backfill_reply_calls split: sum.split)
  have push: "calls_within (\<lambda>key op. (key, op) = c) (push_one_device_for_backfill port device f bytes e n)
      (if (backfill_checkpoint_key (dw_id device) f, Enroll device f n bytes) = c then 1 else 0)" for bytes
    using fresh [of bytes]
    by (auto simp: push_one_device_for_backfill_def Let_def calls_within_command or_error_def split: sum.split if_splits
        simp del: prod.inject)
  show ?thesis
  proof (cases "read_photo p")
    case (Some bytes)
    then show ?thesis
      using push [of bytes] by (auto simp: entry backfill_task_def backfill_calls_def simp del: prod.inject split: if_splits)
  qed (simp add: entry backfill_task_def backfill_calls_def)
qed

lemma backfill_tasks_calls:
  "\<exists>ns. list_all2 (calls_within (\<lambda>key op. (key, op) = c)) (map (backfill_task port device read_photo) resolved) ns \<and>
     sum_list ns = count_list (backfill_calls device read_photo resolved) c"
proof (induction resolved)
  case (Cons entry resolved)
  then obtain ns where ns: "list_all2 (calls_within (\<lambda>key op. (key, op) = c)) (map (backfill_task port device read_photo) resolved) ns"
    "sum_list ns = count_list (backfill_calls device read_photo resolved) c" by blast
  have "backfill_calls device read_photo (entry # resolved) =
      backfill_calls device read_photo [entry] @ backfill_calls device read_photo resolved" by (simp add: backfill_calls_def)
  then show ?case
    using ns backfill_task_calls [of c port device read_photo entry]
    by (intro exI [of _ "count_list (backfill_calls device read_photo [entry]) c # ns"]) (simp add: count_list_append)
qed (simp add: backfill_calls_def)

text \<open>C37. However the tasks of a backfill are interleaved with each other and with the rest of the
  system, at most four of them are at work, and the reader gets no call beyond one for each
  employee whose photo could be read, with the face, name and photo of that employee.\<close>

theorem backfill_calls_each_face_once:
  assumes "run_steps backfill_step es (backfill_start (map (backfill_task port device read_photo) resolved) s) = Some b"
  shows "length (bf_running b) \<le> 4 \<and>
    mset (map (\<lambda>(key, op, r). (key, op)) (bf_log b)) \<subseteq># mset (backfill_calls device read_photo resolved)"
proof -
  have budget: "backfill_budget (\<lambda>key op. (key, op) = c) (count_list (backfill_calls device read_photo resolved) c) b" for c
  proof (rule backfill.run_inv [OF _ assms])
    show "backfill_budget (\<lambda>key op. (key, op) = c) (count_list (backfill_calls device read_photo resolved) c)
        (backfill_start (map (backfill_task port device read_photo) resolved) s)"
      using backfill_tasks_calls [of c port device read_photo resolved]
      by (auto simp: backfill_budget_def backfill_start_def calls_made_def)
  qed
  have "count (mset (map (\<lambda>(key, op, r). (key, op)) (bf_log b))) c = calls_made (\<lambda>key op. (key, op) = c) b" for c
    unfolding count_mset calls_made_def by (simp add: count_list_eq_length_filter filter_map comp_def split_def eq_commute)
  moreover have "calls_made (\<lambda>key op. (key, op) = c) b \<le> count (mset (backfill_calls device read_photo resolved)) c" for c
    using budget [of c] by (auto simp: backfill_budget_def count_mset count_list_eq_length_filter)
  moreover have "length (bf_running b) \<le> 4" using budget by (simp add: backfill_budget_def backfill_permits_def)
  ultimately show ?thesis by (simp add: subseteq_mset_def)
qed

section \<open>A purge beside a push in flight\<close>

text \<open>A push whose call is in flight when its employee is deactivated outlives the purge.  The pass of
  the worker finds no mapping and does nothing; when the reader then accepts, the mapping of the
  inactive employee is committed as active, and the face stays on the reader.\<close>

theorem purge_misses_push_in_flight:
  assumes "\<And>n. je_write (Ws n) = Ran \<and> je_uuid (Ws n) \<notin> mp_id ` set (eb_mappings s)"
    and "get_employee_status s (px_employee_id A) = Inr ''inactive''" "list_mappings_for_employee s (px_employee_id A) = []"
    and "push_rows p s = [r]" "dw_id (px_device A) \<in> dv_id ` set (eb_devices s)"
    and "run_alone (process_employee C key port (px_employee_id A)) Ws answer n s = (s1, alive)"
    and "run_alone (push_reply A p Accepted) Ws answer m s1 = (s2, result)"
  shows "s1 = s \<and> alive \<and> result = Completed \<and>
    get_employee_status s2 (px_employee_id A) = Inr ''inactive'' \<and>
    (\<exists>mp \<in> set (eb_mappings s2). same_face (dw_id (px_device A)) (px_face_id A) mp \<and>
       mp_employee_id mp = px_employee_id A \<and> mp_state mp = ''active'')"
proof -
  have ran: "je_write (Ws i) = Ran" "je_uuid (Ws i) \<notin> mp_id ` set (eb_mappings s)" for i using assms(1) by simp_all
  have purged: "s1 = s" "alive" using assms(2,3,6) by (simp_all add: process_employee_def)
  let ?s = "set_checkpoint (\<lambda>r. ck_operation_key r = enrollment_checkpoint_key p) (je_now (Ws m)) ''device_applied'' s"
  have "px_employee_id A \<in> em_id ` set (eb_employees s)"
    using assms(2) by (auto simp: get_employee_status_def employee_of_def split: option.splits dest!: find_Some_in)
      (metis imageI)
  then have pre: "length (push_rows p ?s) = 1" "\<not> mapping_refused (dw_id (px_device A)) (px_employee_id A) ?s"
    "je_uuid (Ws (Suc m)) \<notin> mp_id ` set (eb_mappings ?s)"
    using assms(4,5) ran(2) by (simp_all add: push_lists_ops mapping_refused_def)
  obtain t where t: "complete_push_success (Ws (Suc m)) p (dw_id (px_device A)) (px_face_id A) (px_employee_id A) ?s = (t, Inr ())"
    "\<exists>mp \<in> set (eb_mappings t). same_face (dw_id (px_device A)) (px_face_id A) mp \<and> mp_employee_id mp = px_employee_id A \<and>
       mp_state mp = ''active''"
    using success_command [OF ran(1) pre] by metis
  have done1: "s2 = t" "result = Completed"
    using assms(7) t(1) by (simp_all add: purged push_reply_def push_applied_def push_commit_def ran_commands [OF ran(1)])
  have "eb_employees t = eb_employees s"
    using t(1) ran(1) by (auto simp: complete_push_success_def one_push_def upsert_mapping_def bail_def drop_checkpoint_def
        bind_result_eq_Inr set_push_def set_checkpoint_def split: if_splits sum.splits)
  then show ?thesis using purged done1 t(2) assms(2) by (simp add: get_employee_status_def employee_of_def)
qed

theorem purge_misses_push_in_flight_witness:
  "let s = former_store ''inactive''\<lparr>eb_mappings := [],
         eb_pushes := [pending_push ''p1'' ''en1'' ''dv1'']\<rparr>;
       s1 = fst (run_alone (process_employee toy_cipher [] any_port ''e1'') (\<lambda>n. sample_job) no_call 0 s);
       s2 = fst (run_alone (push_reply sample_args ''p1'' Accepted) (\<lambda>n. sample_job) no_call 0 s1)
   in list_ex (\<lambda>mp. mp_employee_id mp = ''e1'' \<and> mp_state mp = ''active'') (eb_mappings s2)"
proof -
  let ?s = "former_store ''inactive''\<lparr>eb_mappings := [], eb_pushes := [pending_push ''p1'' ''en1'' ''dv1'']\<rparr>"
  obtain s1 alive where one: "run_alone (process_employee toy_cipher [] any_port (px_employee_id sample_args)) (\<lambda>n. sample_job) no_call 0 ?s = (s1, alive)"
    by fastforce
  obtain s2 x where two: "run_alone (push_reply sample_args ''p1'' Accepted) (\<lambda>n. sample_job) no_call 0 s1 = (s2, x)" by fastforce
  have ran: "je_write sample_job = Ran \<and> je_uuid sample_job \<notin> mp_id ` set (eb_mappings ?s)" by code_simp
  have pre: "get_employee_status ?s (px_employee_id sample_args) = Inr ''inactive''" "list_mappings_for_employee ?s (px_employee_id sample_args) = []"
    "push_rows ''p1'' ?s = [pending_push ''p1'' ''en1'' ''dv1'']" "dw_id (px_device sample_args) \<in> dv_id ` set (eb_devices ?s)"
    by code_simp+
  have "px_employee_id sample_args = ''e1''" by (simp add: sample_args_def)
  then show ?thesis
    using purge_misses_push_in_flight [of "\<lambda>n. sample_job", OF ran pre one two] one two by (auto simp: Let_def list_ex_iff)
qed

theorem backfill_calls_each_face_once_witness:
  "let tasks = map (backfill_task any_port (plaintext_device sample_row ''pw'') (\<lambda>p. Some ''JPEG'')) [(''e1'', ''f1'', ''Ana'', ''e1/en1.jpg'')]
   in case run_steps backfill_step [Permit 0, Work 0 sample_job, Answer 0 Accepted, Work 0 sample_job, Work 0 sample_job, Join 0]
        (backfill_start tasks enrolled_store) of
     None \<Rightarrow> False | Some b \<Rightarrow> map (\<lambda>(key, op, r). key) (bf_log b) = [''backfill:dv1:f1''] \<and> length (bf_running b) \<le> 4 \<and>
       map mp_state (eb_mappings (bf_store b)) = [''active'']"
proof -
  let ?tasks = "map (backfill_task any_port (plaintext_device sample_row ''pw'') (\<lambda>p. Some ''JPEG'')) [(''e1'', ''f1'', ''Ana'', ''e1/en1.jpg'')]"
  let ?run = "run_steps backfill_step [Permit 0, Work 0 sample_job, Answer 0 Accepted, Work 0 sample_job, Work 0 sample_job, Join 0]
        (backfill_start ?tasks enrolled_store)"
  have out: "map_option (\<lambda>b. (map (\<lambda>(key, op, r). key) (bf_log b), map mp_state (eb_mappings (bf_store b)))) ?run =
      Some ([''backfill:dv1:f1''], [''active''])" by code_simp
  then obtain b where b: "?run = Some b" by auto
  show ?thesis using backfill_calls_each_face_once [OF b] out b by (simp add: Let_def)
qed

end
