(* ===== verification/Evidence.thy ===== *)
theory Evidence
  imports Enrollments Daily_Records
begin

text \<open>
  Evidence files and the requests that carry them: storage/evidence\_magic.rs, the creation of a
  leave and the download of its evidence (leaves/handlers.rs), the manual override of a daily
  record (daily\_records/handlers.rs).  Both handlers read a form, publish the file, run one
  transaction and keep the file only if it was committed; the locale \<open>evidence_table\<close> is what
  they share.  A multipart body is the list of its fields, as in Enrollments.
\<close>

section \<open>The type of a file\<close>

definition png_start :: string where
  "png_start = [CHR 0x89] @ ''PNG'' @ [CHR 0x0D, CHR 0x0A, CHR 0x1A, CHR 0x0A]"

definition infer_evidence_ext_from_magic :: "string \<Rightarrow> string option" where
  "infer_evidence_ext_from_magic bytes =
     (if prefix_of ''%PDF'' bytes then Some ''pdf''
      else if take 3 bytes = jpeg_start then Some ''jpg''
      else if prefix_of png_start bytes then Some ''png''
      else None)"

text \<open>\<open>Path::extension\<close>: what follows the last dot of the file name, unless it is the first character.\<close>

definition path_extension :: "string \<Rightarrow> string option" where
  "path_extension p =
     (let n = file_name p; ext = rev (takeWhile (\<lambda>c. c \<noteq> CHR ''.'') (rev n))
      in if length n \<le> Suc (length ext) then None else Some ext)"

definition content_type_of :: "string \<Rightarrow> string" where
  "content_type_of p =
     (case path_extension p of
        None \<Rightarrow> ''application/octet-stream''
      | Some ext \<Rightarrow>
          if ext = ''pdf'' then ''application/pdf''
          else if ext = ''jpg'' \<or> ext = ''jpeg'' then ''image/jpeg''
          else if ext = ''png'' then ''image/png'' else ''application/octet-stream'')"

section \<open>Reading a form\<close>

record upload_field =
  uf_field :: form_field
  uf_content_type :: "string option"

definition max_evidence_bytes :: int where
  "max_evidence_bytes = 10 * 1024 * 1024"

definition evidence_types :: "string list" where
  "evidence_types = [''application/pdf'', ''image/jpeg'', ''image/png'']"

record evidence_messages =
  ev_wrong_type :: "string \<Rightarrow> string"
  ev_reading :: string
  ev_too_large :: "nat \<Rightarrow> string"

definition drain_evidence :: "evidence_messages \<Rightarrow> upload_field \<Rightarrow> (string \<times> string) result" where
  "drain_evidence M f =
     (let ct = (case uf_content_type f of None \<Rightarrow> [] | Some t \<Rightarrow> t) in
      if ct \<notin> set evidence_types then Inl (validation_error (ev_wrong_type M ct))
      else bind_result (map_err (\<lambda>e. validation_error (ev_reading M @ e)) (ff_bytes (uf_field f))) (\<lambda>bytes.
        if int (length bytes) > max_evidence_bytes then Inl (validation_error (ev_too_large M (length bytes)))
        else case infer_evidence_ext_from_magic bytes of
            None \<Rightarrow> Inl (validation_error ''evidence bytes do not match a supported file type (PDF/JPEG/PNG)'')
          | Some ext \<Rightarrow> Inr (ext, bytes)))"

text \<open>The fields in order, then the error of a body that ends malformed.\<close>

fun read_form :: "('f \<Rightarrow> 'a \<Rightarrow> 'a result) \<Rightarrow> 'f list \<Rightarrow> string option \<Rightarrow> 'a \<Rightarrow> 'a result" where
  "read_form field [] malformed form = (case malformed of None \<Rightarrow> Inr form
     | Some e \<Rightarrow> Inl (validation_error (''malformed multipart: '' @ e)))"
| "read_form field (f # fs) malformed form = bind_result (field f form) (read_form field fs malformed)"

text \<open>The file is named by the server: a fresh identifier and the extension of its bytes.\<close>

definition write_evidence ::
  "string + unit \<Rightarrow> string \<Rightarrow> (string \<times> string) option \<Rightarrow> file_system
    \<Rightarrow> (string option \<times> atomic_file_guard option \<times> file_system) result" where
  "write_evidence io uuid evidence fs =
     (case evidence of
        None \<Rightarrow> Inr (None, None, fs)
      | Some (ext, bytes) \<Rightarrow>
          (let rel = uuid @ ''.'' @ ext in
           case guard_write io rel bytes fs of
             Inl m \<Rightarrow> Inl (Internal (OtherError m))
           | Inr (g, fs') \<Rightarrow> Inr (Some rel, Some g, fs')))"

definition drop_evidence :: "bool \<Rightarrow> atomic_file_guard option \<Rightarrow> file_system \<Rightarrow> file_system" where
  "drop_evidence kept g fs = (case g of None \<Rightarrow> fs | Some g \<Rightarrow> guard_drop kept g fs)"

section \<open>A leave\<close>

record leave_form =
  lf_employee_id :: "string option"
  lf_from_date :: "string option"
  lf_to_date :: "string option"
  lf_leave_type :: "string option"
  lf_justification :: "string option"
  lf_evidence :: "(string \<times> string) option"

definition empty_leave_form :: leave_form where
  "empty_leave_form = \<lparr>lf_employee_id = None, lf_from_date = None, lf_to_date = None, lf_leave_type = None,
     lf_justification = None, lf_evidence = None\<rparr>"

definition leave_messages :: evidence_messages where
  "leave_messages = \<lparr>
     ev_wrong_type = (\<lambda>ct. ''evidence content_type must be application/pdf, image/jpeg, or image/png (got '' @ quoted ct @ '')''),
     ev_reading = ''reading evidence bytes: '',
     ev_too_large = (\<lambda>n. ''evidence file exceeds 10MB (got '' @ show_nat n @ '' bytes)'')\<rparr>"

definition leave_field :: "upload_field \<Rightarrow> leave_form \<Rightarrow> leave_form result" where
  "leave_field f form =
     (let name = ff_name (uf_field f); text_field = (\<lambda>set. bind_result (field_text (uf_field f)) (\<lambda>v. Inr (set v))) in
      if name = ''employee_id'' then text_field (\<lambda>v. form\<lparr>lf_employee_id := Some v\<rparr>)
      else if name = ''from_date'' then text_field (\<lambda>v. form\<lparr>lf_from_date := Some v\<rparr>)
      else if name = ''to_date'' then text_field (\<lambda>v. form\<lparr>lf_to_date := Some v\<rparr>)
      else if name = ''leave_type'' then text_field (\<lambda>v. form\<lparr>lf_leave_type := Some v\<rparr>)
      else if name = ''justification'' then text_field (\<lambda>v. form\<lparr>lf_justification := Some v\<rparr>)
      else if name = ''evidence''
      then bind_result (drain_evidence leave_messages f) (\<lambda>ev. Inr (form\<lparr>lf_evidence := Some ev\<rparr>))
      else Inr form)"

definition check_leave_form :: "leave_form \<Rightarrow> create_leave_request result" where
  "check_leave_form form =
     (let need = required ''VALIDATION_ERROR'' in
      bind_result (need ''employee_id required'' (lf_employee_id form)) (\<lambda>employee_id.
      bind_result (need ''from_date required'' (lf_from_date form)) (\<lambda>from_date.
      bind_result (need ''to_date required'' (lf_to_date form)) (\<lambda>to_date.
      bind_result (need ''leave_type required'' (lf_leave_type form)) (\<lambda>leave_type.
      bind_result (need ''justification required'' (lf_justification form)) (\<lambda>justification.
      Inr \<lparr>rq_employee_id = employee_id, rq_from_date = from_date, rq_to_date = to_date,
        rq_leave_type = leave_type, rq_justification = justification\<rparr>))))))"

record request_env =
  re_write :: write_outcome
  re_now :: i64
  re_db_now :: i64
  re_id :: string
  re_file_id :: string
  re_io :: "string + unit"

definition create_leave_handler ::
  "chrono \<Rightarrow> auth_libs \<Rightarrow> request_env \<Rightarrow> string list \<Rightarrow> string list \<Rightarrow> claims \<Rightarrow> upload_field list \<Rightarrow> string option
    \<Rightarrow> file_system \<Rightarrow> leave_table_row list
    \<Rightarrow> (file_system \<times> leave_table_row list) \<times> recompute_request list \<times> leave_response result" where
  "create_leave_handler c L E employees users claims body malformed fs leaves =
     (case bind_result (read_form leave_field body malformed empty_leave_form) (\<lambda>form.
            bind_result (check_leave_form form) (\<lambda>req.
            bind_result (write_evidence (re_io E) (re_file_id E) (lf_evidence form) fs) (\<lambda>w. Inr (req, w)))) of
       Inl e \<Rightarrow> ((fs, leaves), [], Inl e)
     | Inr (req, rel, g, fs1) \<Rightarrow>
         (case create_leave c L (re_write E) (re_db_now E) (re_id E) employees users leaves (cl_sub claims) req rel of
            (leaves', ef, res) \<Rightarrow> ((drop_evidence (ef_evidence_kept ef) g fs1, leaves'), ef_published ef, res)))"

text \<open>The download.  There are no symbolic links under the root, so a path that exists is its own
  canonical form.\<close>

definition no_evidence :: "string \<Rightarrow> app_error" where
  "no_evidence m = NotFound ''LEAVE_EVIDENCE_NOT_FOUND'' m"

definition get_leave_evidence ::
  "auth_libs \<Rightarrow> claims \<Rightarrow> employee_row list \<Rightarrow> file_system \<Rightarrow> leave_table_row list \<Rightarrow> string
    \<Rightarrow> (string \<times> string) result" where
  "get_leave_evidence L claims employees fs leaves i =
     bind_result (get_leave_by_id L leaves i) (\<lambda>leave.
       let scope = scope_from_claims claims in
       if \<not> is_unscoped scope \<and> \<not> permits scope (department_of_leave employees leaves i)
       then Inl (no_evidence ''Evidence not available'')
       else case lr_evidence_path leave of
           None \<Rightarrow> Inl (no_evidence ''Leave has no evidence attached'')
         | Some relpath \<Rightarrow>
             if str_contains relpath ''..'' \<or> prefix_of ''/'' relpath
             then Inl (no_evidence ''Evidence not available'')
             else (case fs_files fs relpath of
                 None \<Rightarrow> Inl (no_evidence ''Evidence not found on disk'')
               | Some (n, bytes) \<Rightarrow> Inr (content_type_of relpath, bytes)))"

section \<open>An override\<close>

text \<open>\<open>str::trim\<close> leaves nothing: every character is white space, in UTF-8.\<close>

fun blank :: "string \<Rightarrow> bool" where
  "blank [] = True"
| "blank (c1 # s) =
     (if is_whitespace c1 then blank s
      else case s of
          [] \<Rightarrow> False
        | c2 # s2 \<Rightarrow>
            if byte c1 = 0xC2 \<and> byte c2 \<in> {0x85, 0xA0} then blank s2
            else (case s2 of
                [] \<Rightarrow> False
              | c3 # s3 \<Rightarrow>
                  (byte c1 = 0xE1 \<and> byte c2 = 0x9A \<and> byte c3 = 0x80 \<or>
                   byte c1 = 0xE2 \<and> byte c2 = 0x80 \<and> byte c3 \<in> {0x80..0x8A} \<union> {0xA8, 0xA9, 0xAF} \<or>
                   byte c1 = 0xE2 \<and> byte c2 = 0x81 \<and> byte c3 = 0x9F \<or>
                   byte c1 = 0xE3 \<and> byte c2 = 0x80 \<and> byte c3 = 0x80) \<and> blank s3))"

text \<open>\<open>str::parse::<i64>\<close>.\<close>

definition decimal_digit :: "char \<Rightarrow> bool" where
  "decimal_digit c \<longleftrightarrow> 48 \<le> byte c \<and> byte c \<le> 57"

definition parse_i64 :: "string \<Rightarrow> i64 option" where
  "parse_i64 s =
     (let signed = (s \<noteq> [] \<and> hd s \<in> {CHR ''+'', CHR ''-''}); ds = (if signed then tl s else s);
          v = foldl (\<lambda>n c. n * 10 + (int (byte c) - 48)) 0 ds;
          n = (if signed \<and> hd s = CHR ''-'' then - v else v)
      in if ds = [] \<or> \<not> list_all decimal_digit ds \<or> \<not> in_i64 n then None else Some n)"

record override_form =
  vf_justification :: "string option"
  vf_entry_at :: "i64 option"
  vf_exit_at :: "i64 option"
  vf_work_minutes :: "i64 option"
  vf_evidence :: "(string \<times> string) option"

definition empty_override_form :: override_form where
  "empty_override_form = \<lparr>vf_justification = None, vf_entry_at = None, vf_exit_at = None, vf_work_minutes = None,
     vf_evidence = None\<rparr>"

definition override_messages :: evidence_messages where
  "override_messages = \<lparr>
     ev_wrong_type = (\<lambda>ct. ''evidence must be PDF, JPEG, or PNG (got '' @ quoted ct @ '')''),
     ev_reading = ''reading evidence: '',
     ev_too_large = (\<lambda>n. ''evidence exceeds 10MB ('' @ show_nat n @ '' bytes)'')\<rparr>"

text \<open>\<open>field.text().await.unwrap_or_default()\<close>; a time that cannot be read leaves what was there, a
  number that cannot be read is \<open>None\<close>.  \<open>parse_time\<close> is the RFC 3339 parser.\<close>

definition text_or_default :: "upload_field \<Rightarrow> string" where
  "text_or_default f = (case ff_text (uf_field f) of Inl e \<Rightarrow> [] | Inr v \<Rightarrow> v)"

definition override_field :: "(string \<Rightarrow> i64 option) \<Rightarrow> upload_field \<Rightarrow> override_form \<Rightarrow> override_form result" where
  "override_field parse_time f form =
     (let name = ff_name (uf_field f) in
      if name = ''justification''
      then bind_result (field_text (uf_field f)) (\<lambda>v. Inr (form\<lparr>vf_justification := Some v\<rparr>))
      else if name = ''override_entry_at''
      then Inr (case parse_time (text_or_default f) of None \<Rightarrow> form | Some t \<Rightarrow> form\<lparr>vf_entry_at := Some t\<rparr>)
      else if name = ''override_exit_at''
      then Inr (case parse_time (text_or_default f) of None \<Rightarrow> form | Some t \<Rightarrow> form\<lparr>vf_exit_at := Some t\<rparr>)
      else if name = ''override_work_minutes''
      then Inr (form\<lparr>vf_work_minutes := parse_i64 (text_or_default f)\<rparr>)
      else if name = ''evidence''
      then bind_result (drain_evidence override_messages f) (\<lambda>ev. Inr (form\<lparr>vf_evidence := Some ev\<rparr>))
      else Inr form)"

definition check_override_form :: "override_form \<Rightarrow> (string \<times> (string \<times> string)) result" where
  "check_override_form form =
     bind_result (required ''VALIDATION_ERROR'' ''justification required (TS-03)'' (vf_justification form)) (\<lambda>justification.
     if blank justification then Inl (validation_error ''justification cannot be empty (TS-03)'')
     else bind_result (required ''VALIDATION_ERROR'' ''evidence file required (TS-04)'' (vf_evidence form)) (\<lambda>evidence.
     case (vf_entry_at form, vf_exit_at form) of
       (Some entry, Some exit) \<Rightarrow>
         if exit \<le> entry then Inl (validation_error ''override_exit_at must be after override_entry_at'')
         else Inr (justification, evidence)
     | _ \<Rightarrow> Inr (justification, evidence)))"

definition new_override :: "request_env \<Rightarrow> string \<Rightarrow> string \<Rightarrow> override_form \<Rightarrow> string \<Rightarrow> string option \<Rightarrow> override_row" where
  "new_override E record_id actor form justification rel =
     \<lparr>ov_id = re_id E, ov_daily_record_id = record_id, ov_work_minutes = vf_work_minutes form,
      ov_entry_at = vf_entry_at form, ov_exit_at = vf_exit_at form, ov_justification = justification,
      ov_evidence_path = rel, ov_overridden_by = actor, ov_overridden_at = re_now E, ov_status = ''active'',
      ov_deleted_at = None, ov_version = 1, ov_created_at = re_now E, ov_updated_at = re_now E\<rparr>"

definition active_override :: "string \<Rightarrow> override_row \<Rightarrow> bool" where
  "active_override record_id r \<longleftrightarrow>
     ov_daily_record_id r = record_id \<and> ov_status r = ''active'' \<and> ov_deleted_at r = None"

text \<open>The constraints of migrations 009 and 025.\<close>

definition override_violates :: "string list \<Rightarrow> override_row \<Rightarrow> override_row list \<Rightarrow> string option" where
  "override_violates users r t =
     (if ov_id r \<in> set (map ov_id t) then Some ''UNIQUE constraint failed: daily_record_overrides.id''
      else if \<exists>q \<in> set t. active_override (ov_daily_record_id r) q
      then Some ''UNIQUE constraint failed: daily_record_overrides.daily_record_id''
      else if ov_overridden_by r \<notin> set users then Some ''FOREIGN KEY constraint failed''
      else None)"

definition revoke_override :: "i64 \<Rightarrow> override_row \<Rightarrow> override_row" where
  "revoke_override now r = r\<lparr>ov_status := ''revoked'', ov_updated_at := now\<rparr>"

definition override_job ::
  "daily_row list \<Rightarrow> string list \<Rightarrow> i64 \<Rightarrow> override_row \<Rightarrow> override_row list
    \<Rightarrow> any_error + daily_row \<times> override_row list" where
  "override_job records users now r t =
     (case find (\<lambda>d. dr_id d = ov_daily_record_id r) records of
        None \<Rightarrow> Inl (DomainError (NotFound ''DAILY_RECORD_NOT_FOUND'' ''daily_record not found''))
      | Some d \<Rightarrow>
          (let t' = update_where (active_override (ov_daily_record_id r)) (revoke_override now) t in
           case override_violates users r t' of
             Some m \<Rightarrow> Inl (OtherError m)
           | None \<Rightarrow> Inr (d, t' @ [r])))"

definition create_override ::
  "chrono \<Rightarrow> (string \<Rightarrow> i64 option) \<Rightarrow> request_env \<Rightarrow> daily_row list \<Rightarrow> string list \<Rightarrow> claims \<Rightarrow> string
    \<Rightarrow> upload_field list \<Rightarrow> string option \<Rightarrow> file_system \<Rightarrow> override_row list
    \<Rightarrow> (file_system \<times> override_row list) \<times> recompute_request list \<times> override_row result" where
  "create_override c parse_time E records users claims record_id body malformed fs t =
     (case bind_result (read_form (override_field parse_time) body malformed empty_override_form) (\<lambda>form.
            bind_result (check_override_form form) (\<lambda>(justification, evidence).
            bind_result (write_evidence (re_io E) (re_file_id E) (Some evidence) fs) (\<lambda>(rel, g, fs1).
            Inr (new_override E record_id (cl_sub claims) form justification rel, g, fs1)))) of
       Inl e \<Rightarrow> ((fs, t), [], Inl e)
     | Inr (r, g, fs1) \<Rightarrow>
         (case run_tx (re_write E) (override_job records users (re_db_now E) r) t of
            (t', Inl e) \<Rightarrow> ((drop_evidence False g fs1, t'), [], Inl e)
          | (t', Inr d) \<Rightarrow> ((drop_evidence True g fs1, t'),
              (case parse_date c (dr_anchor_date d) of None \<Rightarrow> [] | Some a \<Rightarrow> [Day (dr_employee_id d) a]), Inr r)))"


section \<open>Files and rows\<close>

text \<open>A name of the server (a UUID) has neither a dot nor a slash.\<close>

definition plain_name :: "string \<Rightarrow> bool" where
  "plain_name u \<longleftrightarrow> u \<noteq> [] \<and> CHR ''/'' \<notin> set u \<and> CHR ''.'' \<notin> set u"

definition typed_evidence :: "(string \<times> string) option \<Rightarrow> bool" where
  "typed_evidence ev \<longleftrightarrow> none_or (\<lambda>(ext, bytes). infer_evidence_ext_from_magic bytes = Some ext) ev"

text \<open>The files are those of the rows, each under the extension of its bytes.\<close>

definition evidence_ok :: "('r \<Rightarrow> string option) \<Rightarrow> file_system \<Rightarrow> 'r list \<Rightarrow> bool" where
  "evidence_ok evidence fs rows \<longleftrightarrow> (\<forall>p. fs_files fs p \<noteq> None \<longleftrightarrow> Some p \<in> evidence ` set rows) \<and>
     (\<forall>p n bytes. fs_files fs p = Some (n, bytes) \<longrightarrow>
       (\<exists>u ext. plain_name u \<and> p = u @ ''.'' @ ext \<and> infer_evidence_ext_from_magic bytes = Some ext))"

lemma drain_evidence_typed: "drain_evidence M f = Inr ev \<Longrightarrow> typed_evidence (Some ev)"
  by (auto simp: drain_evidence_def Let_def bind_result_eq_Inr typed_evidence_def none_or_def split: if_splits option.splits)

lemma read_form_keeps:
  assumes "\<And>f a b. field f a = Inr b \<Longrightarrow> P a \<Longrightarrow> P b"
  shows "read_form field fs malformed a = Inr b \<Longrightarrow> P a \<Longrightarrow> P b"
  by (induction fs arbitrary: a) (auto simp: bind_result_eq_Inr split: option.splits dest: assms)

text \<open>A table with evidence: a stored request adds the path of its file, a refused one adds none.\<close>

locale evidence_table =
  fixes evidence :: "'r \<Rightarrow> string option" and store :: "'x \<Rightarrow> string option \<Rightarrow> 'r list \<Rightarrow> 'r list \<times> bool"
  assumes stored: "store x rel t = (t', True) \<Longrightarrow> evidence ` set t' = insert rel (evidence ` set t)"
    and refused: "store x rel t = (t', False) \<Longrightarrow> evidence ` set t' = evidence ` set t"
begin

lemma published_ok:
  assumes ok: "evidence_ok evidence fs t" and u: "plain_name u" "typed_evidence ev"
    and w: "write_evidence io u ev fs = Inr (rel, g, fs1)" and s: "store x rel t = (t', k)"
  shows "evidence_ok evidence (drop_evidence k g fs1) t'"
proof (cases ev)
  case None
  then have eq: "rel = None" "g = None" "fs1 = fs" using w by (simp_all add: write_evidence_def)
  then show ?thesis
    using ok stored [of x rel t t'] refused [of x rel t t'] s by (cases k) (auto simp: evidence_ok_def drop_evidence_def)
next
  case (Some e)
  obtain ext bytes where e: "e = (ext, bytes)" by (cases e)
  have magic: "infer_evidence_ext_from_magic bytes = Some ext" using u(2) Some e by (simp add: typed_evidence_def none_or_def)
  obtain a where g: "guard_write io (u @ ''.'' @ ext) bytes fs = Inr (a, fs1)" "rel = Some (u @ ''.'' @ ext)" "g = Some a"
    using w by (auto simp: write_evidence_def Some e Let_def split: sum.splits)
  note files = guard_write_ok [OF g(1)]
  show ?thesis
  proof (cases k)
    case True
    have rows: "evidence ` set t' = insert rel (evidence ` set t)" using stored [of x rel t t'] s True by simp
    then show ?thesis using ok files magic u(1) by (auto simp: evidence_ok_def drop_evidence_def g True)
  next
    case False
    have rows: "evidence ` set t' = evidence ` set t" using refused [of x rel t t'] s False by simp
    then show ?thesis using ok guard_dropped [OF g(1)] by (simp add: evidence_ok_def drop_evidence_def g False)
  qed
qed

end

definition store_leave ::
  "chrono \<times> auth_libs \<times> request_env \<times> string list \<times> string list \<times> string \<times> create_leave_request
    \<Rightarrow> string option \<Rightarrow> leave_table_row list \<Rightarrow> leave_table_row list \<times> bool" where
  "store_leave = (\<lambda>(c, L, E, employees, users, actor, req) rel t.
     case create_leave c L (re_write E) (re_db_now E) (re_id E) employees users t actor req rel of
       (t', ef, res) \<Rightarrow> (t', ef_evidence_kept ef))"

lemma store_leave_paths:
  assumes "store_leave x rel t = (t', k)"
  shows "le_evidence_path ` set t' = (if k then insert rel else id) (le_evidence_path ` set t)"
proof -
  obtain c L E employees users actor req where x: "x = (c, L, E, employees, users, actor, req)" by (metis prod.exhaust)
  obtain t2 ef res where r: "create_leave c L (re_write E) (re_db_now E) (re_id E) employees users t actor req rel = (t2, ef, res)"
    by (metis prod.exhaust)
  have "t' = t2" "k = ef_evidence_kept ef" using assms r by (simp_all add: store_leave_def x)
  moreover have "le_evidence_path ` set t2 = (if ef_evidence_kept ef then insert rel else id) (le_evidence_path ` set t)"
    by (rule create_leave_cases [OF r]) (auto simp: no_effect_def new_leave_def)
  ultimately show ?thesis by simp
qed

interpretation leaf: evidence_table le_evidence_path store_leave
  by unfold_locales (simp_all add: store_leave_paths)

definition store_override ::
  "request_env \<times> daily_row list \<times> string list \<times> string \<times> string \<times> override_form \<times> string
    \<Rightarrow> string option \<Rightarrow> override_row list \<Rightarrow> override_row list \<times> bool" where
  "store_override = (\<lambda>(E, records, users, record_id, actor, form, justification) rel t.
     case run_tx (re_write E) (override_job records users (re_db_now E) (new_override E record_id actor form justification rel)) t of
       (t', Inl e) \<Rightarrow> (t', False) | (t', Inr d) \<Rightarrow> (t', True))"

lemma override_job_rows:
  "override_job records users now r t = Inr (d, t') \<Longrightarrow>
    t' = update_where (active_override (ov_daily_record_id r)) (revoke_override now) t @ [r] \<and>
    find (\<lambda>d. dr_id d = ov_daily_record_id r) records = Some d"
  by (auto simp: override_job_def Let_def split: option.splits)

lemma store_override_paths:
  assumes "store_override x rel t = (t', k)"
  shows "ov_evidence_path ` set t' = (if k then insert rel else id) (ov_evidence_path ` set t)"
proof -
  obtain E records users i actor form j where x: "x = (E, records, users, i, actor, form, j)" by (metis prod.exhaust)
  have "map ov_evidence_path (update_where P (revoke_override now) t) = map ov_evidence_path t" for P now
    by (rule map_update_where) (simp add: revoke_override_def)
  then have paths: "ov_evidence_path ` set (update_where P (revoke_override now) t) = ov_evidence_path ` set t" for P now
    by (metis list.set_map)
  have mem: "ov_evidence_path r \<in> ov_evidence_path ` set t" if "r \<in> set (update_where P (revoke_override now) t)" for r P now
    using that paths [of P now] by blast
  show ?thesis
    using assms by (cases "re_write E")
      (auto simp: store_override_def x paths new_override_def split: sum.splits prod.splits dest!: override_job_rows
        dest: mem)
qed

interpretation overrides: evidence_table ov_evidence_path store_override
  by unfold_locales (simp_all add: store_override_paths)

section \<open>Leaves and their evidence\<close>

datatype evidence_op =
    Post_Leave request_env claims "upload_field list" "string option"
  | Cancel_Leave write_outcome i64 string string i64

fun named_plainly :: "evidence_op \<Rightarrow> bool" where
  "named_plainly (Post_Leave E claims body malformed) \<longleftrightarrow> plain_name (re_file_id E)"
| "named_plainly (Cancel_Leave wo now actor i version) \<longleftrightarrow> True"

fun evidence_step ::
  "chrono \<Rightarrow> auth_libs \<Rightarrow> string list \<Rightarrow> string list \<Rightarrow> evidence_op \<Rightarrow> file_system \<times> leave_table_row list
    \<Rightarrow> file_system \<times> leave_table_row list" where
  "evidence_step c L employees users (Post_Leave E claims body malformed) s =
     fst (create_leave_handler c L E employees users claims body malformed (fst s) (snd s))"
| "evidence_step c L employees users (Cancel_Leave wo now actor i version) s =
     (fst s, fst (cancel_leave c L wo now (snd s) actor i version))"

text \<open>The media type of a file by its first bytes.\<close>

definition media_type :: "string \<Rightarrow> string option" where
  "media_type bytes =
     (if prefix_of ''%PDF'' bytes then Some ''application/pdf''
      else if take 3 bytes = jpeg_start then Some ''image/jpeg''
      else if prefix_of png_start bytes then Some ''image/png'' else None)"

lemma path_extension_plain:
  assumes "plain_name u" "CHR ''.'' \<notin> set ext" "CHR ''/'' \<notin> set ext"
  shows "path_extension (u @ ''.'' @ ext) = Some ext"
proof -
  have "takeWhile (\<lambda>c. c \<noteq> CHR ''/'') (rev (u @ ''.'' @ ext)) = rev (u @ ''.'' @ ext)"
    using assms by (subst takeWhile_eq_all_conv) (auto simp: plain_name_def)
  then have "file_name (u @ ''.'' @ ext) = u @ ''.'' @ ext" by (metis file_name_def rev_rev_ident)
  moreover have "takeWhile (\<lambda>c. c \<noteq> CHR ''.'') (rev (u @ ''.'' @ ext)) = rev ext"
    using assms(2) by (simp add: takeWhile_append takeWhile_eq_all_conv)
  moreover have "u \<noteq> []" using assms(1) by (simp add: plain_name_def)
  ultimately show ?thesis by (simp add: path_extension_def Let_def)
qed

lemma content_type_magic:
  assumes "plain_name u" "infer_evidence_ext_from_magic bytes = Some ext"
  shows "media_type bytes = Some (content_type_of (u @ ''.'' @ ext))"
proof -
  have "CHR ''.'' \<notin> set ext" "CHR ''/'' \<notin> set ext"
    using assms(2) by (auto simp: infer_evidence_ext_from_magic_def split: if_splits)
  then have "path_extension (u @ ''.'' @ ext) = Some ext" by (rule path_extension_plain [OF assms(1)])
  then show ?thesis
    using assms(2) by (auto simp: content_type_of_def media_type_def infer_evidence_ext_from_magic_def split: if_splits)
qed

lemma cancelled_paths: "le_evidence_path ` set (fst (cancel_leave c L wo now t actor i version)) = le_evidence_path ` set t"
proof -
  have "map le_evidence_path (update_where P (cancel_row actor now) t) = map le_evidence_path t" for P
    by (rule map_update_where) (simp add: cancel_row_def)
  then have "le_evidence_path ` set (update_where P (cancel_row actor now) t) = le_evidence_path ` set t" for P
    by (metis list.set_map)
  then show ?thesis by (auto simp: cancel_leave_def Let_def split: write_outcome.splits option.splits)
qed

lemma leave_field_typed: "leave_field f form = Inr form' \<Longrightarrow> typed_evidence (lf_evidence form) \<Longrightarrow> typed_evidence (lf_evidence form')"
  by (auto simp: leave_field_def Let_def bind_result_eq_Inr dest: drain_evidence_typed split: if_splits)

lemma evidence_step_ok:
  assumes "evidence_ok le_evidence_path (fst s) (snd s)" "named_plainly opn"
  shows "evidence_ok le_evidence_path (fst (evidence_step c L employees users opn s)) (snd (evidence_step c L employees users opn s))"
proof (cases opn)
  case (Post_Leave E claims body malformed)
  obtain fs t where s: "s = (fs, t)" by (cases s)
  show ?thesis
  proof (cases "bind_result (read_form leave_field body malformed empty_leave_form) (\<lambda>form.
            bind_result (check_leave_form form) (\<lambda>req.
            bind_result (write_evidence (re_io E) (re_file_id E) (lf_evidence form) fs) (\<lambda>w. Inr (req, w))))")
    case (Inr p)
    then obtain form req rel g fs1 where form: "read_form leave_field body malformed empty_leave_form = Inr form"
      and w: "write_evidence (re_io E) (re_file_id E) (lf_evidence form) fs = Inr (rel, g, fs1)" and p: "p = (req, rel, g, fs1)"
      by (auto simp: bind_result_eq_Inr)
    obtain t' ef res where r: "create_leave c L (re_write E) (re_db_now E) (re_id E) employees users t (cl_sub claims) req rel = (t', ef, res)"
      by (metis prod.exhaust)
    have "typed_evidence (lf_evidence empty_leave_form)" by (simp add: typed_evidence_def empty_leave_form_def none_or_def)
    then have typed: "typed_evidence (lf_evidence form)"
      using read_form_keeps [of leave_field "\<lambda>form. typed_evidence (lf_evidence form)" body malformed empty_leave_form form]
        leave_field_typed form by blast
    have "store_leave (c, L, E, employees, users, cl_sub claims, req) rel t = (t', ef_evidence_kept ef)"
      using r by (simp add: store_leave_def)
    from leaf.published_ok [OF _ _ typed w this] assms show ?thesis
      by (simp add: Post_Leave s create_leave_handler_def Inr p r)
  qed (use assms in \<open>simp add: Post_Leave s create_leave_handler_def\<close>)
qed (use assms in \<open>simp add: evidence_ok_def cancelled_paths\<close>)

lemma downloaded:
  assumes "get_leave_evidence L claims staff fs leaves i = Inr (content_type, bytes)"
  obtains p n where "fs_files fs p = Some (n, bytes)" "content_type = content_type_of p"
    "is_unscoped (scope_from_claims claims) \<or> permits (scope_from_claims claims) (department_of_leave staff leaves i)"
  using assms by (auto simp: get_leave_evidence_def bind_result_eq_Inr Let_def split: option.splits if_splits)

text \<open>C24. Evidence is what it says.  After any sequence of leaves, with or without evidence, and
  cancellations, refused ones included, the files on disk are exactly those the leaves name; and
  what a download answers is the content of a file under the media type of its own first bytes,
  never the one the uploader declared, and only within the scope of the actor.\<close>

theorem evidence_is_what_it_says:
  assumes "foldl (\<lambda>s op. evidence_step c L employees users op s) (no_files, []) ops = (fs, leaves)"
    and "list_all named_plainly ops"
  shows "(fs_files fs p \<noteq> None \<longleftrightarrow> Some p \<in> le_evidence_path ` set leaves) \<and>
    (case get_leave_evidence L claims staff fs leaves i of
       Inl e \<Rightarrow> True
     | Inr (content_type, bytes) \<Rightarrow> media_type bytes = Some content_type \<and>
         (is_unscoped (scope_from_claims claims) \<or> permits (scope_from_claims claims) (department_of_leave staff leaves i)))"
proof -
  have "let s' = foldl (\<lambda>s op. evidence_step c L employees users op s) s ops in evidence_ok le_evidence_path (fst s') (snd s')"
    if "evidence_ok le_evidence_path (fst s) (snd s)" "list_all named_plainly ops" for s ops
    using that by (induction ops arbitrary: s) (simp_all add: evidence_step_ok)
  from this [of "(no_files, [])" ops] have ok: "evidence_ok le_evidence_path fs leaves"
    using assms by (simp add: evidence_ok_def no_files_def)
  then have "media_type bytes = Some (content_type_of p)" if "fs_files fs p = Some (n, bytes)" for p n bytes
    using that content_type_magic unfolding evidence_ok_def by blast
  then show ?thesis using ok by (auto simp: evidence_ok_def split: sum.split elim!: downloaded)
qed

section \<open>The override in force\<close>

datatype override_op =
  Override request_env "daily_row list" "string list" claims string "upload_field list" "string option"

fun override_step ::
  "chrono \<Rightarrow> (string \<Rightarrow> i64 option) \<Rightarrow> override_op \<Rightarrow> file_system \<times> override_row list \<Rightarrow> file_system \<times> override_row list" where
  "override_step c parse_time (Override E records users claims record_id body malformed) s =
     fst (create_override c parse_time E records users claims record_id body malformed (fst s) (snd s))"

text \<open>The rows the report joins to a daily record.\<close>

definition in_force :: "override_row list \<Rightarrow> string \<Rightarrow> override_row list" where
  "in_force t record_id = filter (\<lambda>v. ov_daily_record_id v = record_id \<and> ov_status v = ''active'') t"

definition overrides_ok :: "override_row list \<Rightarrow> bool" where
  "overrides_ok t \<longleftrightarrow> (\<forall>r \<in> set t. ov_deleted_at r = None) \<and> (\<forall>i. length (in_force t i) \<le> 1)"

lemma in_force_append [simp]:
  "in_force (t @ [r]) i = in_force t i @ (if ov_daily_record_id r = i \<and> ov_status r = ''active'' then [r] else [])"
  by (simp add: in_force_def)

lemma filter_update_away:
  assumes "\<And>r. r \<in> set t \<Longrightarrow> P r \<Longrightarrow> \<not> Q (f r)"
  shows "filter Q (update_where P f t) = filter (\<lambda>r. Q r \<and> \<not> P r) t"
  using assms by (induction t) (simp_all add: update_where_def)

lemma revoked_rows:
  assumes "\<forall>r \<in> set t. ov_deleted_at r = None"
  shows "in_force (update_where (active_override i) (revoke_override now) t) j = (if j = i then [] else in_force t j)"
proof -
  have "in_force (update_where (active_override i) (revoke_override now) t) j =
      filter (\<lambda>r. (ov_daily_record_id r = j \<and> ov_status r = ''active'') \<and> \<not> active_override i r) t"
    unfolding in_force_def by (rule filter_update_away) (simp add: revoke_override_def)
  also have "\<dots> = (if j = i then [] else in_force t j)"
    using assms by (auto simp: in_force_def active_override_def filter_empty_conv intro!: filter_cong)
  finally show ?thesis .
qed

text \<open>What a request does: nothing, or it revokes and adds.\<close>

lemma create_override_cases:
  assumes "create_override c parse_time E records users claims i body malformed fs t = ((fs', t'), published, res)"
  obtains (refused) e where "t' = t" "fs_files fs' = fs_files fs" "published = []" "res = Inl e"
  | (stored) r d form where "read_form (override_field parse_time) body malformed empty_override_form = Inr form"
      "t' = update_where (active_override i) (revoke_override (re_db_now E)) t @ [r]"
      "res = Inr r" "ov_daily_record_id r = i" "ov_status r = ''active''" "ov_deleted_at r = None"
      "ov_work_minutes r = vf_work_minutes form" "find (\<lambda>d. dr_id d = i) records = Some d"
      "published = (case parse_date c (dr_anchor_date d) of None \<Rightarrow> [] | Some a \<Rightarrow> [Day (dr_employee_id d) a])"
proof -
  let ?prep = "bind_result (read_form (override_field parse_time) body malformed empty_override_form) (\<lambda>form.
      bind_result (check_override_form form) (\<lambda>(justification, evidence).
      bind_result (write_evidence (re_io E) (re_file_id E) (Some evidence) fs) (\<lambda>(rel, g, fs1).
      Inr (new_override E i (cl_sub claims) form justification rel, g, fs1))))"
  show thesis
  proof (cases ?prep)
    case (Inl e)
    then show thesis using refused [of e] assms by (simp add: create_override_def)
  next
    case (Inr p)
    then obtain form j ext bytes rel g fs1 where form: "read_form (override_field parse_time) body malformed empty_override_form = Inr form"
      and w: "write_evidence (re_io E) (re_file_id E) (Some (ext, bytes)) fs = Inr (rel, g, fs1)"
      and p: "p = (new_override E i (cl_sub claims) form j rel, g, fs1)"
      by (auto simp: bind_result_eq_Inr)
    let ?r = "new_override E i (cl_sub claims) form j rel"
    have r: "ov_daily_record_id ?r = i" "ov_status ?r = ''active''" "ov_deleted_at ?r = None" "ov_work_minutes ?r = vf_work_minutes form"
      by (simp_all add: new_override_def)
    have dropped: "fs_files (drop_evidence False g fs1) = fs_files fs"
      using w by (auto simp: write_evidence_def Let_def drop_evidence_def guard_dropped split: sum.splits)
    obtain t2 x where tx: "run_tx (re_write E) (override_job records users (re_db_now E) ?r) t = (t2, x)" by fastforce
    note res = assms [unfolded create_override_def Inr sum.case prod.case p tx]
    from tx show thesis
    proof (cases rule: run_tx_cases)
      case (ran d)
      then show thesis using stored [OF form _ _ r] res override_job_rows [OF ran(2)] r(1) by simp
    next
      case (failed e)
      then show thesis using refused [of e] res dropped by simp
    qed
  qed
qed

lemma override_step_ok: "overrides_ok (snd s) \<Longrightarrow> overrides_ok (snd (override_step c parse_time opn s))"
proof (cases opn)
  case (Override E records users claims i body malformed)
  assume ok: "overrides_ok (snd s)"
  obtain fs t where s: "s = (fs, t)" by (cases s)
  obtain fs' t' published res where r: "create_override c parse_time E records users claims i body malformed fs t = ((fs', t'), published, res)"
    by (metis prod.exhaust)
  have "overrides_ok t'"
  proof (rule create_override_cases [OF r])
    fix r d form
    assume "t' = update_where (active_override i) (revoke_override (re_db_now E)) t @ [r]"
      "ov_daily_record_id r = i" "ov_status r = ''active''" "ov_deleted_at r = None"
    then show "overrides_ok t'"
      using ok s by (auto simp: overrides_ok_def revoked_rows in_set_update_where revoke_override_def)
  qed (use ok s in simp)
  then show ?thesis using r by (simp add: Override s)
qed

lemma never_deleted:
  assumes "foldl (\<lambda>s op. override_step c parse_time op s) (fs0, []) ops = (fs, t)"
  shows "\<forall>r \<in> set t. ov_deleted_at r = None"
proof -
  have "overrides_ok (snd (foldl (\<lambda>s op. override_step c parse_time op s) s ops))" if "overrides_ok (snd s)" for s ops
    using that by (induction ops arbitrary: s) (simp_all add: override_step_ok)
  from this [of "(fs0, [])" ops] show ?thesis using assms by (simp add: overrides_ok_def in_force_def)
qed


text \<open>Minutes that cannot be read revoke.  A request whose \<open>override_work_minutes\<close> is not a number is
  not refused for it: it is accepted without minutes, the override before it is revoked, and
  the report falls back to the computed minutes.\<close>

theorem unreadable_minutes_revoke:
  assumes "foldl (\<lambda>s op. override_step c parse_time op s) (fs0, []) ops = (fs, t)"
    and "create_override c parse_time E records users claims i body malformed fs t = ((fs', t'), published, Inr r)"
    and "list_all (\<lambda>f. ff_name (uf_field f) = ''override_work_minutes'' \<longrightarrow> parse_i64 (text_or_default f) = None) body"
  shows "map ov_work_minutes (in_force t' i) = [None]"
proof -
  have none: "vf_work_minutes form = None"
    if "read_form (override_field parse_time) body malformed a = Inr form" "vf_work_minutes a = None" for a form
    using that assms(3)
    by (induction body arbitrary: a)
      (auto simp: bind_result_eq_Inr override_field_def Let_def split: option.splits if_splits)
  have minutes: "ov_work_minutes r = None"
    by (rule create_override_cases [OF assms(2)]) (auto simp: empty_override_form_def dest: none)
  note rows = revoked_rows [OF never_deleted [OF assms(1)]]
  show ?thesis by (rule create_override_cases [OF assms(2)]) (auto simp: rows minutes)
qed


section \<open>Evidence examples\<close>

definition hr_claims :: claims where
  "hr_claims = \<lparr>cl_sub = ''u1'', cl_role = Admin, cl_department_id = None, cl_exp = 0, cl_iat = 0, cl_jti = ''j'',
     cl_token_type = ''access''\<rparr>"

definition hr_env :: "string \<Rightarrow> request_env" where
  "hr_env i = \<lparr>re_write = Ran, re_now = 9, re_db_now = 10, re_id = i, re_file_id = ''f'' @ i, re_io = Inr ()\<rparr>"

definition text_part :: "string \<Rightarrow> string \<Rightarrow> upload_field" where
  "text_part name v = \<lparr>uf_field = \<lparr>ff_name = name, ff_bytes = Inr v, ff_text = Inr v\<rparr>, uf_content_type = None\<rparr>"

definition file_part :: "string \<Rightarrow> string \<Rightarrow> upload_field" where
  "file_part declared bytes =
     \<lparr>uf_field = \<lparr>ff_name = ''evidence'', ff_bytes = Inr bytes, ff_text = Inr bytes\<rparr>, uf_content_type = Some declared\<rparr>"

text \<open>A page of HTML, which is refused, then a PDF, both sent as images.\<close>

definition sick_leave :: "string \<Rightarrow> string \<Rightarrow> string \<Rightarrow> evidence_op" where
  "sick_leave i day bytes = Post_Leave (hr_env i) hr_claims
     [text_part ''employee_id'' ''e1'', text_part ''from_date'' day, text_part ''to_date'' day,
      text_part ''leave_type'' ''medical'', text_part ''justification'' ''flu'', file_part ''image/png'' bytes] None"

definition sick_days :: "file_system \<times> leave_table_row list" where
  "sick_days = foldl (\<lambda>s op. evidence_step gregorian toy_libs [''e1''] [''u1''] op s) (no_files, [])
     [sick_leave ''b'' ''2026-04-21'' ''<html>'', sick_leave ''a'' ''2026-04-20'' ''%PDF-1.4'']"

theorem evidence_is_what_it_says_witness:
  "get_leave_evidence toy_libs hr_claims [] (fst sick_days) (snd sick_days) ''a'' = Inr (''application/pdf'', ''%PDF-1.4'') \<and>
   media_type ''%PDF-1.4'' = Some ''application/pdf'' \<and>
   (fs_files (fst sick_days) ''fb.png'' \<noteq> None \<longleftrightarrow> Some ''fb.png'' \<in> le_evidence_path ` set (snd sick_days))"
proof -
  obtain fs leaves where s: "sick_days = (fs, leaves)" by (cases sick_days)
  have plain: "list_all named_plainly [sick_leave ''b'' ''2026-04-21'' ''<html>'', sick_leave ''a'' ''2026-04-20'' ''%PDF-1.4'']"
    by (simp add: sick_leave_def hr_env_def plain_name_def)
  have get: "get_leave_evidence toy_libs hr_claims [] (fst sick_days) (snd sick_days) ''a'' = Inr (''application/pdf'', ''%PDF-1.4'')" by code_simp
  from evidence_is_what_it_says [OF s [unfolded sick_days_def] plain, where p = "''fb.png''" and claims = hr_claims and staff = "[]" and i = "''a''"] get
  show ?thesis by (simp add: s)
qed

definition monday_record :: daily_row where
  "monday_record = \<lparr>dr_id = ''r1'', dr_employee_id = ''e1'', dr_department_id = ''d1'', dr_anchor_date = ''2026-04-20'',
     dr_shift_type = ''day'', dr_work_minutes = 100, dr_overtime_minutes = 0, dr_late_minutes = 0,
     dr_early_departure_minutes = 0, dr_is_rest_day_worked = 0, dr_entry_at = None, dr_exit_at = None,
     dr_leave_id = None, dr_computed_at = 1, dr_created_at = 1, dr_updated_at = 1\<rparr>"

definition set_minutes :: "string \<Rightarrow> upload_field list" where
  "set_minutes v = [text_part ''justification'' ''forgot the card'', text_part ''override_work_minutes'' v,
     file_part ''application/pdf'' ''%PDF-1.4'']"

definition correct_day :: "string \<Rightarrow> string \<Rightarrow> file_system \<Rightarrow> override_row list
    \<Rightarrow> (file_system \<times> override_row list) \<times> recompute_request list \<times> override_row result" where
  "correct_day i v = create_override gregorian (\<lambda>s. None) (hr_env i) [monday_record] [''u1''] hr_claims ''r1'' (set_minutes v) None"

definition first_correction :: override_op where
  "first_correction = Override (hr_env ''a'') [monday_record] [''u1''] hr_claims ''r1'' (set_minutes ''480'') None"

definition corrected :: "file_system \<times> override_row list" where
  "corrected = foldl (\<lambda>s op. override_step gregorian (\<lambda>s. None) op s) (no_files, []) [first_correction]"


theorem unreadable_minutes_revoke_witness:
  "map ov_work_minutes (in_force (snd corrected) ''r1'') = [Some 480] \<and>
   map ov_work_minutes (in_force (snd (fst (correct_day ''b'' ''300 min'' (fst corrected) (snd corrected)))) ''r1'') = [None]"
proof -
  obtain fs t where s: "corrected = (fs, t)" by (cases corrected)
  obtain fs' t' p res where r: "correct_day ''b'' ''300 min'' fs t = ((fs', t'), p, res)" by (metis prod.exhaust)
  have before: "map ov_work_minutes (in_force (snd corrected) ''r1'') = [Some 480]" by code_simp
  have "isl (snd (snd (correct_day ''b'' ''300 min'' (fst corrected) (snd corrected)))) = False" by code_simp
  then obtain q where q: "res = Inr q" by (cases res) (auto simp: s r)
  have unreadable: "list_all (\<lambda>f. ff_name (uf_field f) = ''override_work_minutes'' \<longrightarrow> parse_i64 (text_or_default f) = None)
      (set_minutes ''300 min'')" by code_simp
  from unreadable_minutes_revoke [OF s [unfolded corrected_def] r [unfolded correct_day_def q] unreadable] before
  show ?thesis by (simp add: s r)
qed

end
