(* ===== verification/Day_Views.thy ===== *)
theory Day_Views
  imports Events Daily_Records
begin

text \<open>
  What is read from the daily records: the list and the single record (daily\_records/service.rs and
  handlers.rs), the presence of the day (presence/), the anomalies (anomalies/handlers.rs) and the
  audit log (audit/).  The reads of one request see one state of the tables.
\<close>

section \<open>Daily records\<close>

record daily_response =
  dy_id :: string
  dy_employee_id :: string
  dy_employee_name :: "string option"
  dy_department_id :: string
  dy_department_name :: "string option"
  dy_anchor_date :: string
  dy_shift_type :: string
  dy_work_minutes :: i64
  dy_overtime_minutes :: i64
  dy_late_minutes :: i64
  dy_early_departure_minutes :: i64
  dy_is_rest_day_worked :: bool
  dy_entry_at :: "string option"
  dy_exit_at :: "string option"
  dy_leave_id :: "string option"
  dy_computed_at :: string
  dy_created_at :: string
  dy_updated_at :: string
  dy_anomalies :: "string list"

record daily_list_query =
  dq_limit :: "i64 option"
  dq_offset :: "i64 option"
  dq_employee_id :: "string option"
  dq_department_id :: "string option"
  dq_from_date :: "string option"
  dq_to_date :: "string option"

definition fetch_anomaly_codes :: "db \<Rightarrow> string \<Rightarrow> string list" where
  "fetch_anomaly_codes s daily_record_id = map an_code
     (sort_key (\<lambda>a. (an_created_at a, an_id a)) (filter (\<lambda>a. an_daily_record_id a = daily_record_id) (t_anomalies s)))"

text \<open>The names come from left joins on primary keys.\<close>

definition row_to_dr :: "auth_libs \<Rightarrow> db \<Rightarrow> daily_row \<Rightarrow> daily_response" where
  "row_to_dr L s r = \<lparr>dy_id = dr_id r, dy_employee_id = dr_employee_id r,
     dy_employee_name = map_option em_name (find (\<lambda>e. em_id e = dr_employee_id r) (t_employees s)),
     dy_department_id = dr_department_id r,
     dy_department_name = map_option de_name (find (\<lambda>d. de_id d = dr_department_id r) (t_departments s)),
     dy_anchor_date = dr_anchor_date r, dy_shift_type = dr_shift_type r, dy_work_minutes = dr_work_minutes r,
     dy_overtime_minutes = dr_overtime_minutes r, dy_late_minutes = dr_late_minutes r,
     dy_early_departure_minutes = dr_early_departure_minutes r,
     dy_is_rest_day_worked = (dr_is_rest_day_worked r \<noteq> 0),
     dy_entry_at = map_option (epoch_to_iso L) (dr_entry_at r), dy_exit_at = map_option (epoch_to_iso L) (dr_exit_at r),
     dy_leave_id = dr_leave_id r, dy_computed_at = epoch_to_iso L (dr_computed_at r),
     dy_created_at = epoch_to_iso L (dr_created_at r), dy_updated_at = epoch_to_iso L (dr_updated_at r),
     dy_anomalies = fetch_anomaly_codes s (dr_id r)\<rparr>"

definition daily_matches :: "daily_list_query \<Rightarrow> actor_scope \<Rightarrow> daily_row \<Rightarrow> bool" where
  "daily_matches q scope r \<longleftrightarrow>
     none_or (\<lambda>dept. dr_department_id r = dept) (scope_department_id scope) \<and>
     none_or (\<lambda>e. dr_employee_id r = e) (dq_employee_id q) \<and>
     none_or (\<lambda>dept. dr_department_id r = dept) (dq_department_id q) \<and>
     none_or (\<lambda>from. dr_anchor_date r \<ge> from) (dq_from_date q) \<and>
     none_or (\<lambda>to. dr_anchor_date r \<le> to) (dq_to_date q)"

text \<open>\<open>ORDER BY anchor_date DESC, id ASC\<close>.\<close>

definition order_days :: "daily_row list \<Rightarrow> daily_row list" where
  "order_days rows = rev (sort_key dr_anchor_date (rev (sort_key dr_id rows)))"

definition list_daily :: "auth_libs \<Rightarrow> db \<Rightarrow> daily_list_query \<Rightarrow> actor_scope \<Rightarrow> daily_response paginated_response" where
  "list_daily L s q scope =
     (let limit = page_limit (dq_limit q); offset = page_offset (dq_offset q);
          rows = filter (daily_matches q scope) (t_daily_records s)
      in \<lparr>pr_data = map (row_to_dr L s) (sql_page limit offset (order_days rows)),
          pr_total = int (length rows), pr_limit = limit, pr_offset = offset\<rparr>)"

definition list_daily_records ::
  "auth_libs \<Rightarrow> claims \<Rightarrow> db \<Rightarrow> daily_list_query \<Rightarrow> daily_response paginated_response" where
  "list_daily_records L claims s q = list_daily L s q (scope_from_claims claims)"

definition get_daily_by_id :: "auth_libs \<Rightarrow> db \<Rightarrow> string \<Rightarrow> daily_response result" where
  "get_daily_by_id L s i =
     (case find (\<lambda>r. dr_id r = i) (t_daily_records s) of
        None \<Rightarrow> Inl (NotFound ''DAILY_RECORD_NOT_FOUND'' (''DailyRecord '' @ quoted i @ '' not found''))
      | Some r \<Rightarrow> Inr (row_to_dr L s r))"

definition get_daily_record :: "auth_libs \<Rightarrow> claims \<Rightarrow> db \<Rightarrow> string \<Rightarrow> daily_response result" where
  "get_daily_record L claims s i =
     bind_result (get_daily_by_id L s i) (\<lambda>r.
       if \<not> permits (scope_from_claims claims) (Some (dy_department_id r))
       then Inl (NotFound ''DAILY_RECORD_NOT_FOUND'' (''Daily record '' @ quoted i @ '' not found''))
       else Inr r)"

section \<open>Presence\<close>

record presence_row =
  ps_employee_id :: string
  ps_employee_name :: string
  ps_department_name :: string
  ps_status :: string
  ps_entry_at :: "string option"
  ps_exit_at :: "string option"
  ps_expected_min :: i64
  ps_worked_min :: i64
  ps_deficit_min :: i64

record presence_today =
  pt_date :: string
  pt_inside_now :: i64
  pt_attended_today :: i64
  pt_data :: "presence_row list"

definition presence_join :: "db \<Rightarrow> string \<Rightarrow> actor_scope \<Rightarrow> (daily_row \<times> employee_row \<times> department_row) list" where
  "presence_join s date scope =
     [(r, e, d). r \<leftarrow> t_daily_records s, dr_anchor_date r = date, dr_entry_at r \<noteq> None,
        none_or (\<lambda>dept. dr_department_id r = dept) (scope_department_id scope),
        e \<leftarrow> t_employees s, em_id e = dr_employee_id r, em_deleted_at e = None,
        d \<leftarrow> t_departments s, de_id d = dr_department_id r]"

definition presence_row_of :: "auth_libs \<Rightarrow> chrono \<Rightarrow> date \<Rightarrow> daily_row \<times> employee_row \<times> department_row \<Rightarrow> presence_row" where
  "presence_row_of L c day = (\<lambda>(r, e, d).
     let expected = expected_minutes c (de_ordinary_daily_minutes d) day (dr_leave_id r \<noteq> None)
     in \<lparr>ps_employee_id = em_id e, ps_employee_name = em_name e, ps_department_name = de_name d,
         ps_status = (if dr_exit_at r = None then ''inside'' else ''left''),
         ps_entry_at = map_option (epoch_to_iso L) (dr_entry_at r), ps_exit_at = map_option (epoch_to_iso L) (dr_exit_at r),
         ps_expected_min = expected, ps_worked_min = dr_work_minutes r,
         ps_deficit_min = deficit_minutes expected (dr_work_minutes r)\<rparr>)"

definition today_presence :: "auth_libs \<Rightarrow> chrono \<Rightarrow> db \<Rightarrow> date \<Rightarrow> actor_scope \<Rightarrow> presence_today" where
  "today_presence L c s day scope =
     (let date = format_date c day;
          rows = map (presence_row_of L c day) (sort_key (\<lambda>(r, e, d). em_name e) (presence_join s date scope))
      in \<lparr>pt_date = date, pt_inside_now = int (length (filter (\<lambda>p. ps_status p = ''inside'') rows)),
          pt_attended_today = int (length rows), pt_data = rows\<rparr>)"

text \<open>The day is local.\<close>

definition presence_handler :: "auth_libs \<Rightarrow> chrono \<Rightarrow> tzinfo \<Rightarrow> i64 \<Rightarrow> claims \<Rightarrow> db \<Rightarrow> presence_today option" where
  "presence_handler L c tz now claims s =
     map_option (\<lambda>day. today_presence L c s day (scope_from_claims claims)) (own_date_of c tz now)"

section \<open>Anomalies\<close>

record anomaly_list_query =
  aq_limit :: "i64 option"
  aq_offset :: "i64 option"
  aq_code :: "string option"
  aq_employee_id :: "string option"
  aq_from_date :: "string option"
  aq_to_date :: "string option"

record anomaly_response =
  ar_id :: string
  ar_daily_record_id :: string
  ar_employee_id :: string
  ar_anchor_date :: string
  ar_code :: string
  ar_detail :: "string option"
  ar_created_at :: string

definition anomaly_matches :: "anomaly_list_query \<Rightarrow> anomaly_row \<times> daily_row \<Rightarrow> bool" where
  "anomaly_matches q = (\<lambda>(a, r).
     none_or (\<lambda>code. an_code a = code) (aq_code q) \<and>
     none_or (\<lambda>e. dr_employee_id r = e) (aq_employee_id q) \<and>
     none_or (\<lambda>from. dr_anchor_date r \<ge> from) (aq_from_date q) \<and>
     none_or (\<lambda>to. dr_anchor_date r \<le> to) (aq_to_date q))"

definition anomaly_response_of :: "auth_libs \<Rightarrow> anomaly_row \<times> daily_row \<Rightarrow> anomaly_response" where
  "anomaly_response_of L = (\<lambda>(a, r). \<lparr>ar_id = an_id a, ar_daily_record_id = an_daily_record_id a,
     ar_employee_id = dr_employee_id r, ar_anchor_date = dr_anchor_date r, ar_code = an_code a,
     ar_detail = an_detail a, ar_created_at = epoch_to_iso L (an_created_at a)\<rparr>)"

text \<open>\<open>ORDER BY created_at DESC, id ASC\<close>.  The handler does not look at the claims of the actor.\<close>

definition list_anomalies :: "auth_libs \<Rightarrow> db \<Rightarrow> anomaly_list_query \<Rightarrow> anomaly_response paginated_response" where
  "list_anomalies L s q =
     (let limit = page_limit (aq_limit q); offset = page_offset (aq_offset q);
          rows = filter (anomaly_matches q)
            [(a, r). a \<leftarrow> t_anomalies s, r \<leftarrow> t_daily_records s, dr_id r = an_daily_record_id a]
      in \<lparr>pr_data = map (anomaly_response_of L)
            (sql_page limit offset (sort_key (\<lambda>(a, r). (- an_created_at a, an_id a)) rows)),
          pr_total = int (length rows), pr_limit = limit, pr_offset = offset\<rparr>)"

section \<open>The audit log\<close>

record audit_row =
  al_id :: string
  al_table_name :: string
  al_record_id :: string
  al_operation :: string
  al_old_data :: "string option"
  al_new_data :: "string option"
  al_actor_id :: "string option"
  al_created_at :: i64

record 'json audit_entry =
  au_id :: string
  au_table_name :: string
  au_record_id :: string
  au_operation :: string
  au_old_data :: "'json option"
  au_new_data :: "'json option"
  au_actor_id :: "string option"
  au_created_at :: i64

record audit_list_query =
  uq_limit :: "i64 option"
  uq_offset :: "i64 option"
  uq_actor_id :: "string option"
  uq_table_name :: "string option"
  uq_record_id :: "string option"
  uq_operation :: "string option"
  uq_from_ts :: "i64 option"
  uq_to_ts :: "i64 option"

definition audit_matches :: "audit_list_query \<Rightarrow> audit_row \<Rightarrow> bool" where
  "audit_matches q r \<longleftrightarrow>
     none_or (\<lambda>a. al_actor_id r = Some a) (uq_actor_id q) \<and>
     none_or (\<lambda>t. al_table_name r = t) (uq_table_name q) \<and>
     none_or (\<lambda>i. al_record_id r = i) (uq_record_id q) \<and>
     none_or (\<lambda>op. al_operation r = op) (uq_operation q) \<and>
     none_or (\<lambda>t. al_created_at r \<ge> t) (uq_from_ts q) \<and>
     none_or (\<lambda>t. al_created_at r \<le> t) (uq_to_ts q)"

text \<open>Data that is no JSON is left out; \<open>parse_json\<close> is the parser of serde.\<close>

definition audit_entry_of :: "(string \<Rightarrow> 'json option) \<Rightarrow> audit_row \<Rightarrow> 'json audit_entry" where
  "audit_entry_of parse_json r = \<lparr>au_id = al_id r, au_table_name = al_table_name r, au_record_id = al_record_id r,
     au_operation = al_operation r, au_old_data = Option.bind (al_old_data r) parse_json,
     au_new_data = Option.bind (al_new_data r) parse_json, au_actor_id = al_actor_id r,
     au_created_at = al_created_at r\<rparr>"

definition list_audit ::
  "(string \<Rightarrow> 'json option) \<Rightarrow> audit_row list \<Rightarrow> audit_list_query \<Rightarrow> 'json audit_entry paginated_response" where
  "list_audit parse_json t q =
     (let limit = max 1 (min 200 (case uq_limit q of None \<Rightarrow> 50 | Some n \<Rightarrow> n)); offset = page_offset (uq_offset q);
          rows = filter (audit_matches q) t
      in \<lparr>pr_data = map (audit_entry_of parse_json)
            (sql_page limit offset (rev (sort_key (\<lambda>r. (al_created_at r, al_id r)) rows))),
          pr_total = int (length rows), pr_limit = limit, pr_offset = offset\<rparr>)"

text \<open>\<open>SELECT DISTINCT\<close> over a left join with the users.\<close>

definition list_actors :: "audit_row list \<Rightarrow> user_row list \<Rightarrow> (string option \<times> string option \<times> string option) list" where
  "list_actors t users = remdups
     [(al_actor_id r, map_option us_username u, map_option us_role u).
        r \<leftarrow> t, u \<leftarrow> left_join (filter (\<lambda>u. al_actor_id r = Some (us_id u)) users)]"

section \<open>Pages\<close>

text \<open>Reading a list page by page gives every row once.\<close>

lemma pages_concat:
  assumes "1 \<le> l"
  shows "concat (map (\<lambda>k. sql_page l (int k * l) rows) [0..<n]) = take (n * nat l) rows"
proof (induction n)
  case (Suc n)
  have "sql_page l (int n * l) rows = take (nat l) (drop (n * nat l) rows)"
    using assms by (simp add: sql_page_def nat_mult_distrib)
  then show ?case using Suc by (simp add: take_add [symmetric] add.commute)
qed simp

lemma page_limit_id: "1 \<le> l \<Longrightarrow> l \<le> 100 \<Longrightarrow> page_limit (Some l) = l"
  by (simp add: page_limit_def)

lemma mset_order_days [simp]: "mset (order_days rows) = mset rows"
  by (simp add: order_days_def)

text \<open>The pages cover the list.  For every page size the handler allows, the pages one after the
  other are all the records of the filters within the scope of the actor, each exactly once, by
  day from the last; each page says how many there are.\<close>

theorem pages_cover_the_days:
  assumes "1 \<le> l" "l \<le> 100"
    and "length (filter (daily_matches q (scope_from_claims claims)) (t_daily_records s)) \<le> n * nat l"
  shows "let page = (\<lambda>k. list_daily_records L claims s (q\<lparr>dq_limit := Some l, dq_offset := Some (int k * l)\<rparr>));
      rows = filter (daily_matches q (scope_from_claims claims)) (t_daily_records s);
      days = concat (map (\<lambda>k. pr_data (page k)) [0..<n])
    in mset days = mset (map (row_to_dr L s) rows) \<and> sorted (rev (map dy_anchor_date days)) \<and>
       pr_total (page k) = int (length rows)"
proof -
  let ?rows = "filter (daily_matches q (scope_from_claims claims)) (t_daily_records s)"
  have same: "daily_matches (q\<lparr>dq_limit := Some l, dq_offset := off\<rparr>) scope = daily_matches q scope" for scope off
    by (simp add: daily_matches_def fun_eq_iff)
  have page: "pr_data (list_daily_records L claims s (q\<lparr>dq_limit := Some l, dq_offset := Some (int k * l)\<rparr>)) =
      map (row_to_dr L s) (sql_page l (int k * l) (order_days ?rows))" for k
    using assms(1) by (simp add: list_daily_records_def list_daily_def Let_def same page_limit_id [OF assms(1,2)] page_offset_def)
  have len: "length (order_days ?rows) \<le> n * nat l" using assms(3) by (metis mset_order_days size_mset)
  have "concat (map (\<lambda>k. map (row_to_dr L s) (sql_page l (int k * l) (order_days ?rows))) [0..<n]) =
      map (row_to_dr L s) (concat (map (\<lambda>k. sql_page l (int k * l) (order_days ?rows)) [0..<n]))"
    by (simp add: map_concat comp_def)
  also have "\<dots> = map (row_to_dr L s) (order_days ?rows)" using len by (simp add: pages_concat [OF assms(1)])
  finally have all: "concat (map (\<lambda>k. map (row_to_dr L s) (sql_page l (int k * l) (order_days ?rows))) [0..<n]) =
      map (row_to_dr L s) (order_days ?rows)" .
  have "sorted (rev (map dy_anchor_date (map (row_to_dr L s) (order_days ?rows))))"
    by (simp add: order_days_def rev_map row_to_dr_def comp_def)
  then show ?thesis
    unfolding Let_def page all by (simp add: list_daily_records_def list_daily_def Let_def same)
qed

section \<open>Hidden records\<close>

text \<open>A hidden record can be told from a missing one.  Both are answered with status 404 and the same
  code, as the handler intends, but the messages are written differently, so an actor confined
  to a department learns which identifiers exist outside it.\<close>

theorem hidden_record_is_distinguishable:
  assumes "find (\<lambda>r. dr_id r = i) (t_daily_records s) = Some r" "find (\<lambda>r. dr_id r = i) (t_daily_records s') = None"
    and "\<not> permits (scope_from_claims claims) (Some (dr_department_id r))"
  shows "\<exists>m m'. map_sum into_response id (get_daily_record L claims s i) = Inl (404, ''DAILY_RECORD_NOT_FOUND'', m) \<and>
    map_sum into_response id (get_daily_record L claims s' i) = Inl (404, ''DAILY_RECORD_NOT_FOUND'', m') \<and> m \<noteq> m'"
  using assms by (simp add: get_daily_record_def get_daily_by_id_def row_to_dr_def)

section \<open>The inside and the left\<close>

text \<open>The presence adds up.  Who attended is either inside or has left; every row belongs to the
  department of a confined actor, and its deficit is what is missing to the expected minutes.\<close>

theorem presence_adds_up:
  assumes "presence_handler L c tz now claims s = Some p"
  shows "pt_attended_today p = pt_inside_now p + int (length (filter (\<lambda>x. ps_status x = ''left'') (pt_data p))) \<and>
    (\<forall>x \<in> set (pt_data p). \<exists>r \<in> set (t_daily_records s).
       dr_employee_id r = ps_employee_id x \<and> dr_anchor_date r = pt_date p \<and> dr_entry_at r \<noteq> None \<and>
       ps_deficit_min x = deficit_minutes (ps_expected_min x) (dr_work_minutes r) \<and>
       permits (scope_from_claims claims) (Some (dr_department_id r)))"
proof -
  obtain day where p: "p = today_presence L c s day (scope_from_claims claims)"
    using assms by (auto simp: presence_handler_def)
  have split: "length xs = length (filter (\<lambda>x. ps_status x = ''inside'') xs) + length (filter (\<lambda>x. ps_status x = ''left'') xs)"
    if "\<forall>x \<in> set xs. ps_status x = ''inside'' \<or> ps_status x = ''left''" for xs :: "presence_row list"
    using that by (induction xs) auto
  have scope: "none_or (\<lambda>dept. d = dept) (scope_department_id sc) \<Longrightarrow> permits sc (Some d)" for d sc
    by (cases sc) simp_all
  show ?thesis
    unfolding p today_presence_def Let_def
    by (subst split) (auto simp: presence_row_of_def Let_def presence_join_def scope split: prod.splits)
qed

section \<open>View examples\<close>

definition shown_day :: "string \<Rightarrow> string \<Rightarrow> i64 option \<Rightarrow> daily_row" where
  "shown_day i day left_at = \<lparr>dr_id = i, dr_employee_id = ''e1'', dr_department_id = ''d1'', dr_anchor_date = day,
     dr_shift_type = ''day'', dr_work_minutes = 100, dr_overtime_minutes = 0, dr_late_minutes = 0,
     dr_early_departure_minutes = 0, dr_is_rest_day_worked = 0, dr_entry_at = Some 1000, dr_exit_at = left_at,
     dr_leave_id = None, dr_computed_at = 1, dr_created_at = 1, dr_updated_at = 1\<rparr>"

definition shown_db :: db where
  "shown_db = day_db\<lparr>t_daily_records := [shown_day ''r1'' ''2026-04-20'' None, shown_day ''r2'' ''2026-04-21'' (Some 9000)]\<rparr>"

definition every_day :: daily_list_query where
  "every_day = \<lparr>dq_limit = None, dq_offset = None, dq_employee_id = None, dq_department_id = None, dq_from_date = None,
     dq_to_date = None\<rparr>"

definition reader :: "string option \<Rightarrow> claims" where
  "reader dept = \<lparr>cl_sub = ''u1'', cl_role = Supervisor, cl_department_id = dept, cl_exp = 0, cl_iat = 0, cl_jti = ''j'',
     cl_token_type = ''access''\<rparr>"

theorem pages_cover_the_days_witness:
  "let page = (\<lambda>k. list_daily_records toy_libs (reader (Some ''d1'')) shown_db
        (every_day\<lparr>dq_limit := Some 1, dq_offset := Some (int k * 1)\<rparr>))
   in mset (map dy_id (pr_data (page 0) @ pr_data (page 1))) = {#''r1'', ''r2''#} \<and> pr_total (page 7) = 2"
proof -
  have one: "(1::i64) \<le> 1" "(1::i64) \<le> 100" by simp_all
  have rows: "filter (daily_matches every_day (scope_from_claims (reader (Some ''d1'')))) (t_daily_records shown_db) =
      [shown_day ''r1'' ''2026-04-20'' None, shown_day ''r2'' ''2026-04-21'' (Some 9000)]" by code_simp
  then have enough: "length (filter (daily_matches every_day (scope_from_claims (reader (Some ''d1'')))) (t_daily_records shown_db)) \<le> 2 * nat 1"
    by simp
  note cover = pages_cover_the_days [OF one enough, of toy_libs 7, unfolded Let_def rows]
  have "{#''r1'', ''r2''#} = image_mset dy_id (mset (map (row_to_dr toy_libs shown_db)
      [shown_day ''r1'' ''2026-04-20'' None, shown_day ''r2'' ''2026-04-21'' (Some 9000)]))"
    by (simp add: row_to_dr_def shown_day_def)
  moreover note arg_cong [OF cover [THEN conjunct1], of "image_mset dy_id"]
  ultimately show ?thesis using cover by (simp add: Let_def numeral_2_eq_2)
qed

theorem hidden_record_is_distinguishable_witness:
  "map_sum into_response id (get_daily_record toy_libs (reader (Some ''d2'')) shown_db ''r1'') \<noteq>
   map_sum into_response id (get_daily_record toy_libs (reader (Some ''d2'')) day_db ''r1'')"
proof -
  have there: "find (\<lambda>r. dr_id r = ''r1'') (t_daily_records shown_db) = Some (shown_day ''r1'' ''2026-04-20'' None)" by code_simp
  have missing: "find (\<lambda>r. dr_id r = ''r1'') (t_daily_records day_db) = None" by code_simp
  have hidden: "\<not> permits (scope_from_claims (reader (Some ''d2''))) (Some (dr_department_id (shown_day ''r1'' ''2026-04-20'' None)))"
    by code_simp
  from hidden_record_is_distinguishable [OF there missing hidden, of toy_libs] show ?thesis by auto
qed

theorem presence_adds_up_witness:
  "case presence_handler toy_libs gregorian caracas 1776700000 (reader (Some ''d1'')) shown_db of
     None \<Rightarrow> False
   | Some p \<Rightarrow> pt_attended_today p = pt_inside_now p + int (length (filter (\<lambda>x. ps_status x = ''left'') (pt_data p)))"
proof -
  have "own_date_of gregorian caracas 1776700000 \<noteq> None" by code_simp
  then have "presence_handler toy_libs gregorian caracas 1776700000 (reader (Some ''d1'')) shown_db \<noteq> None"
    by (auto simp: presence_handler_def)
  then obtain p where p: "presence_handler toy_libs gregorian caracas 1776700000 (reader (Some ''d1'')) shown_db = Some p" by blast
  show ?thesis using presence_adds_up [OF p] p by simp
qed

end
