(* ===== verification/Spec2Isabelle.thy ===== *)
theory Spec2Isabelle
  imports Users Report_Examples Write_Queue Supervisor Push_Inbox Employees Face_Workers Evidence Day_Views
begin

text \<open>
  Cronometrix: attendance control over Hikvision face readers, the backend in Rust under
  src/backend/src.  Readers deliver markings over ISAPI; the backend stores them as attendance
  events, recomputes the daily record of the employee, and turns the records of a period into a
  payroll report.  Accounts with a role and possibly a department use it over HTTP.

  The theories, in the order of the data flow, with the source they translate:

  \<^item> \<open>Prelude\<close>: 64-bit arithmetic (\<open>i64\<close> as an integer with checked, wrapping and saturating
    operations written out), updates of tables, runs of steps and the locales \<open>stepper\<close> for
    invariants of operation sequences.  \<open>Calendar\<close>: the interface to chrono and chrono-tz as a
    record of functions with their documented laws, and a Gregorian instance.  \<open>App_Error\<close>:
    errors.rs.  \<open>Byte_Strings\<close>, \<open>Date_Text\<close>: the functions on bytes and dates of the standard
    library the source uses.
  \<^item> \<open>Calc_Models\<close>, \<open>Overnight\<close>, \<open>Aggregation\<close>, \<open>Overtime\<close>, \<open>Engine\<close>: calc/*.rs, the pure
    engine that makes a daily record from the events of a window, the department, the rules and
    the leave of the day.
  \<^item> \<open>Money\<close>, \<open>Periods\<close>, \<open>Report\<close>, \<open>Report_Examples\<close>: reports/*.rs and the salary units of
    employees/models.rs.
  \<^item> \<open>Db\<close>, \<open>Schema\<close>, \<open>Ordered_Map\<close>: tables as lists of rows, what a statement of the write queue
    answers, the ordered maps of the standard library.
  \<^item> \<open>Auth\<close>, \<open>Users\<close>: auth/*.rs and users/*.rs.  A handler that reads, then computes, then
    writes through the queue is split where other tasks may run.
  \<^item> \<open>Write_Queue\<close>: db/write_queue.rs, the one writer of the database.  \<open>Transitions\<close>,
    \<open>Recompute\<close>: recompute/*.rs, the worker that recomputes days.
  \<^item> \<open>Leaves\<close>, \<open>Daily_Records\<close>: leaves/*.rs and the recomputation of daily_records/service.rs.
  \<^item> \<open>Multipart\<close>, \<open>Isapi_Alert\<close>: isapi/parser.rs and isapi/events.rs, the wire format of the
    readers.  \<open>Storage\<close>: the file guard of storage/atomic_file.rs.  \<open>Events\<close>: events/*.rs,
    attendance/*.rs and isapi/ingest.rs.
  \<^item> \<open>Versioned\<close>: updates under constraints and the contract of a table with optimistic
    locking.  \<open>Ip_Text\<close>: the parser of addresses of the standard library.  \<open>Devices\<close>: the register
    of devices/*.rs with its handlers, the connection state of supervisor/status.rs and
    watchdog.rs.  \<open>Supervisor\<close>: supervisor/mod.rs, which task runs for which device.
    \<open>Push_Inbox\<close>: devices/push.rs and workers/push_drain.rs, the readers that push.
  \<^item> \<open>Enrollments\<close>: enrollments/service.rs, models.rs, image_pipeline.rs and the handler of a new
    enrollment.  \<open>Enrollment_Push\<close>: enrollments/pusher.rs and dispatcher.rs, the tasks that call
    the readers as programs of atomic commands, their interleaving, crashes and the recovery at
    the start as the step function \<open>push_step\<close>, and its invariant.  \<open>Push_Protocol\<close>: what follows
    for every run.
  \<^item> \<open>Departments\<close>: departments/*.rs, and what the calculation makes of the shifts it stores.
    \<open>Employees\<close>: employees/*.rs, with the deactivation down to the enrolled photos.
    \<open>Face_Workers\<close>: workers/purge.rs and workers/backfill.rs, which take faces off the readers and
    put them on new ones.
  \<^item> \<open>Evidence\<close>: storage/evidence\_magic.rs, the create and download handlers of leaves/handlers.rs
    and the overrides of daily\_records/handlers.rs; what both handlers do with the file and the
    transaction is the locale \<open>evidence_table\<close>.  \<open>Day_Views\<close>: the reads of daily\_records/*.rs,
    presence/*.rs, anomalies/handlers.rs and audit/*.rs.

  What the lemmas show.  The engine: the worked minutes are the clocked-in seconds, each anomaly
  has its exact condition, no order of the events matters, it returns for every input in range.
  The report: rows, subtotals and totals add up, each employee has one row which depends on no
  other employee, it stays in the scope of the actor.  Sessions: a refresh token is used once
  under every interleaving, deactivation ends sessions.  The queue refines a serial database.
  Published days are recomputed, also over a shutdown.  Active leaves do not overlap.  The table
  of daily records has one record per day.  A marking is stored once and its days are published.
  The multipart parser inverts the writer of the readers.  The register of devices stays well
  typed and loses no update, a stored password decrypts to what was given, and the running tasks
  follow the register.  An accepted push is never lost, the inbox drains, and a body on which the
  parser panics blocks it.  No call to a reader is repeated that may have been applied, through
  any interleaving, crash and restart; the rows of an enrollment tell what the readers answered; a
  push ends in one of three ways; the stored error texts hide the password; a backfill left open
  can keep the process from starting.  Staff is always payable, each supervisor works within one
  department, a deactivation removes the enrolled photos, but a face enrolled later stays; an
  unreadable shift of one department stops the nightly pass.  A revocation ends as the reader
  answered, but one that failed is never tried again, and a push in flight escapes the purge; a
  backfill calls the reader at most once per face, four at a time.  Stored evidence is what its first
  bytes say, the last accepted override of a record is the one in force, the pages of a list cover
  it, but minutes that cannot be read revoke an override, and a record outside the scope can be told
  from a missing one.

  Conventions.  A panic is \<open>None\<close>; an error is \<open>Inl\<close> with the \<open>AppError\<close> of the code.  What is
  outside the sources (JWT, Argon2, SHA-256, chrono, serde, XML, SQL errors, file system errors,
  clocks, fresh identifiers, the outcome of the queue) is an argument, and what the code relies on
  is a named hypothesis with an instance in a witness.  SQL statements are translated to functions
  on the lists of rows.  Loops are structural or have a measure; no fuel is used, except the
  bursts and chunks of the recompute worker, which are the code's own bounds.

  Not modelled, and why: the workbook (a third-party crate lays it out), the HTTP client and the
  stream of ISAPI, the codec of face images (an argument) and the bodies sent to a reader, the
  capture sessions of the enrollment handlers, the license service (signatures and a remote
  service), start-up and routing, auxiliary binaries; rules, tenant information, the setup,
  the rate limit and the sweeps of old files; the multipart framing of axum (a body is the list of its
  fields) and the triggers that write the audit log.
\<close>

end
